(* ===== verification/Rust_Prelude.thy ===== *)
theory Rust_Prelude imports Main "HOL-Library.Word" "HOL-Library.Char_ord" begin

text \<open>
  Shared vocabulary of the development: the machine integers the backend uses, the few
  operations of Rust's standard library that the modelled code calls on strings, options
  and integers, and the lemma collections that carry the component proofs.

  A Rust \<open>String\<close> is a sequence of UTF-8 bytes, and so is an Isabelle
  \<open>string\<close> (a list of 8-bit characters): the model keeps the bytes, so \<open>length\<close> is
  \<open>str::len\<close>, equality is byte equality, and a literal with a character beyond ASCII is
  written out as its UTF-8 bytes.  Operations that work on characters (\<open>trim\<close>,
  \<open>chars().count()\<close>) read the UTF-8 encoding.
\<close>

named_theorems rust_str "facts about the string operations of the standard library"
named_theorems keeps_inv "every operation of a component keeps the component's invariant"

type_synonym u8 = "8 word"
type_synonym u32 = "32 word"
type_synonym u64 = "64 word"

section \<open>Integers\<close>

definition clamp :: "'a::linorder \<Rightarrow> 'a \<Rightarrow> 'a \<Rightarrow> 'a" where
  "clamp lo hi x = (if x < lo then lo else if hi < x then hi else x)"

lemma clamp_bounds: "lo \<le> hi \<Longrightarrow> lo \<le> clamp lo hi x \<and> clamp lo hi x \<le> hi"
  by (auto simp: clamp_def)

lemma clamp_id [simp]: "lo \<le> x \<Longrightarrow> x \<le> hi \<Longrightarrow> clamp lo hi x = x"
  by (auto simp: clamp_def)

text \<open>\<open>saturating_sub\<close> of a fixed-width unsigned integer.\<close>

definition sat_sub :: "'l::len word \<Rightarrow> 'l word \<Rightarrow> 'l word" where
  "sat_sub a b = (if a < b then 0 else a - b)"

lemma unat_sat_sub [simp]: "unat (sat_sub a b) = unat a - unat b"
  by (auto simp: sat_sub_def word_less_nat_alt unat_sub word_le_nat_alt)

lemma sat_sub_le: "sat_sub a b \<le> a"
  by (simp add: word_le_nat_alt)

section \<open>Options and lists\<close>

primrec find_map :: "('a \<Rightarrow> 'b option) \<Rightarrow> 'a list \<Rightarrow> 'b option" where
  "find_map f [] = None"
| "find_map f (x # xs) = (case f x of None \<Rightarrow> find_map f xs | Some y \<Rightarrow> Some y)"

lemma find_map_Some: "find_map f xs = Some y \<Longrightarrow> \<exists>x \<in> set xs. f x = Some y"
  by (induction xs) (auto split: option.splits)

lemma find_map_None: "find_map f xs = None \<longleftrightarrow> (\<forall>x \<in> set xs. f x = None)"
  by (induction xs) (auto split: option.splits)

lemma find_SomeD: "List.find P xs = Some x \<Longrightarrow> x \<in> set xs \<and> P x"
  by (auto simp: find_Some_iff)

lemma length_filter_bound: "length xs \<le> n \<Longrightarrow> length (filter P xs) \<le> n"
  by (rule le_trans[OF length_filter_le])

text \<open>The elements of a list with their 0-based positions (\<open>iter().enumerate()\<close>).\<close>

abbreviation enumerated :: "'a list \<Rightarrow> (nat \<times> 'a) list" where
  "enumerated xs \<equiv> zip [0..<length xs] xs"

lemma in_set_enumerated: "(i, x) \<in> set (enumerated xs) \<longleftrightarrow> i < length xs \<and> xs ! i = x"
  by (auto simp: in_set_zip intro!: exI[of _ i])

lemma append_sep_inject:
  "x \<notin> set a \<Longrightarrow> x \<notin> set b \<Longrightarrow> a @ x # r = b @ x # s \<longleftrightarrow> a = b \<and> r = s"
proof (induction a arbitrary: b)
  case Nil
  then show ?case by (cases b) auto
next
  case (Cons y a)
  then show ?case by (cases b) auto
qed

section \<open>Strings\<close>

fun strip_prefix :: "'a list \<Rightarrow> 'a list \<Rightarrow> 'a list option" where
  "strip_prefix [] s = Some s"
| "strip_prefix (p # ps) [] = None"
| "strip_prefix (p # ps) (c # s) = (if p = c then strip_prefix ps s else None)"

lemma strip_prefix_iff [rust_str]: "strip_prefix p s = Some r \<longleftrightarrow> s = p @ r"
  by (induction p s rule: strip_prefix.induct) auto

definition starts_with :: "'a list \<Rightarrow> 'a list \<Rightarrow> bool" where
  "starts_with s p \<longleftrightarrow> strip_prefix p s \<noteq> None"

lemma starts_with_iff [rust_str]: "starts_with s p \<longleftrightarrow> (\<exists>r. s = p @ r)"
  by (auto simp: starts_with_def strip_prefix_iff)

lemma starts_with_refl [simp]: "starts_with s s"
  by (simp add: starts_with_iff)

lemma starts_with_trans: "starts_with a b \<Longrightarrow> starts_with b c \<Longrightarrow> starts_with a c"
  by (auto simp: starts_with_iff)

definition ends_with :: "'a list \<Rightarrow> 'a list \<Rightarrow> bool" where
  "ends_with s p \<longleftrightarrow> starts_with (rev s) (rev p)"

fun str_contains :: "'a list \<Rightarrow> 'a list \<Rightarrow> bool" where
  "str_contains [] p = (p = [])"
| "str_contains (c # s) p = (starts_with (c # s) p \<or> str_contains s p)"

fun join_with :: "string \<Rightarrow> string list \<Rightarrow> string" where
  "join_with sep [] = []"
| "join_with sep [x] = x"
| "join_with sep (x # y # xs) = x @ sep @ join_with sep (y # xs)"

text \<open>
  Unicode white space (the \<open>White_Space\<close> property that \<open>str::trim\<close> uses) as UTF-8:
  six one-byte, two two-byte and seventeen three-byte characters.
\<close>

definition ws1 :: "char \<Rightarrow> bool" where
  "ws1 c \<longleftrightarrow> c \<in> {CHR 0x09, CHR 0x0A, CHR 0x0B, CHR 0x0C, CHR 0x0D, CHR 0x20}"

definition ws2 :: "char \<Rightarrow> char \<Rightarrow> bool" where
  "ws2 a b \<longleftrightarrow> a = CHR 0xC2 \<and> (b = CHR 0x85 \<or> b = CHR 0xA0)"

definition ws3 :: "char \<Rightarrow> char \<Rightarrow> char \<Rightarrow> bool" where
  "ws3 a b c \<longleftrightarrow>
     a = CHR 0xE1 \<and> b = CHR 0x9A \<and> c = CHR 0x80
   \<or> a = CHR 0xE2 \<and> b = CHR 0x80 \<and>
       c \<in> {CHR 0x80, CHR 0x81, CHR 0x82, CHR 0x83, CHR 0x84, CHR 0x85, CHR 0x86, CHR 0x87,
             CHR 0x88, CHR 0x89, CHR 0x8A, CHR 0xA8, CHR 0xA9, CHR 0xAF}
   \<or> a = CHR 0xE2 \<and> b = CHR 0x81 \<and> c = CHR 0x9F
   \<or> a = CHR 0xE3 \<and> b = CHR 0x80 \<and> c = CHR 0x80"

fun trim_start :: "string \<Rightarrow> string" where
  "trim_start [] = []"
| "trim_start [a] = (if ws1 a then [] else [a])"
| "trim_start [a, b] =
     (if ws1 a then trim_start [b] else if ws2 a b then [] else [a, b])"
| "trim_start (a # b # c # s) =
     (if ws1 a then trim_start (b # c # s)
      else if ws2 a b then trim_start (c # s)
      else if ws3 a b c then trim_start s
      else a # b # c # s)"

text \<open>The same on the reversed bytes: the last byte of a character comes first.\<close>

fun trim_rev :: "string \<Rightarrow> string" where
  "trim_rev [] = []"
| "trim_rev [a] = (if ws1 a then [] else [a])"
| "trim_rev [b, a] =
     (if ws1 b then trim_rev [a] else if ws2 a b then [] else [b, a])"
| "trim_rev (c # b # a # s) =
     (if ws1 c then trim_rev (b # a # s)
      else if ws2 b c then trim_rev (a # s)
      else if ws3 a b c then trim_rev s
      else c # b # a # s)"

definition trim_end :: "string \<Rightarrow> string" where
  "trim_end s = rev (trim_rev (rev s))"

definition trim :: "string \<Rightarrow> string" where
  "trim s = trim_end (trim_start s)"

lemma trim_Nil [simp]: "trim [] = []"
  by (simp add: trim_def trim_end_def)

lemma trim_start_idem [rust_str]: "trim_start (trim_start s) = trim_start s"
  by (induction s rule: trim_start.induct) auto

lemma length_trim_start [rust_str]: "length (trim_start s) \<le> length s"
  by (induction s rule: trim_start.induct) auto

lemma length_trim_rev [rust_str]: "length (trim_rev s) \<le> length s"
  by (induction s rule: trim_rev.induct) auto

lemma length_trim [rust_str]: "length (trim s) \<le> length s"
  using length_trim_rev[of "rev (trim_start s)"] length_trim_start[of s]
  by (simp add: trim_def trim_end_def)

text \<open>ASCII case folding (\<open>to_ascii_lowercase\<close>, \<open>to_ascii_uppercase\<close>); other bytes stay.\<close>

definition lower_char :: "char \<Rightarrow> char" where
  "lower_char c = (let n = (of_char c :: nat) in if 65 \<le> n \<and> n \<le> 90 then char_of (n + 32) else c)"

definition upper_char :: "char \<Rightarrow> char" where
  "upper_char c = (let n = (of_char c :: nat) in if 97 \<le> n \<and> n \<le> 122 then char_of (n - 32) else c)"

definition to_ascii_lowercase :: "string \<Rightarrow> string" where
  "to_ascii_lowercase s = map lower_char s"

definition to_ascii_uppercase :: "string \<Rightarrow> string" where
  "to_ascii_uppercase s = map upper_char s"

definition is_ascii_digit :: "char \<Rightarrow> bool" where
  "is_ascii_digit c = (let n = (of_char c :: nat) in 48 \<le> n \<and> n \<le> 57)"

definition is_ascii_alphabetic :: "char \<Rightarrow> bool" where
  "is_ascii_alphabetic c =
     (let n = (of_char c :: nat) in 65 \<le> n \<and> n \<le> 90 \<or> 97 \<le> n \<and> n \<le> 122)"

definition is_ascii_alnum :: "char \<Rightarrow> bool" where
  "is_ascii_alnum c \<longleftrightarrow> is_ascii_digit c \<or> is_ascii_alphabetic c"

text \<open>
  \<open>chars().count()\<close> and \<open>chars().take(n)\<close>: a byte that is not a continuation byte
  (\<open>10xxxxxx\<close>) starts a character.
\<close>

definition is_char_start :: "char \<Rightarrow> bool" where
  "is_char_start c = (let n = (of_char c :: nat) in n < 128 \<or> 192 \<le> n)"

definition chars_count :: "string \<Rightarrow> nat" where
  "chars_count s = length (filter is_char_start s)"

fun chars_take :: "nat \<Rightarrow> string \<Rightarrow> string" where
  "chars_take n [] = []"
| "chars_take n (c # s) =
     (if is_char_start c then (case n of 0 \<Rightarrow> [] | Suc m \<Rightarrow> c # chars_take m s)
      else c # chars_take n s)"

lemma chars_count_take [rust_str]: "chars_count (chars_take n s) \<le> n"
  by (induction n s rule: chars_take.induct) (auto simp: chars_count_def split: nat.splits)

text \<open>
  The characters of a string, each as its bytes.  Case and letter tables beyond ASCII are
  Unicode's, which the standard library carries: a \<open>unicode\<close> record; the one-byte characters
  are ASCII and decided here.
\<close>

fun utf8_rest :: "string \<Rightarrow> string \<times> string" where
  "utf8_rest [] = ([], [])"
| "utf8_rest (c # s) =
     (if is_char_start c then ([], c # s) else (let (a, b) = utf8_rest s in (c # a, b)))"

lemma length_utf8_rest: "length (snd (utf8_rest s)) \<le> length s"
  by (induction s) (auto simp: Let_def split_beta)

function utf8_chars :: "string \<Rightarrow> string list" where
  "utf8_chars [] = []"
| "utf8_chars (c # s) = (c # fst (utf8_rest s)) # utf8_chars (snd (utf8_rest s))"
  by pat_completeness auto
termination
  by (relation "measure length") (auto simp: less_Suc_eq_le length_utf8_rest)

lemma concat_utf8_chars [rust_str]: "concat (utf8_chars s) = s"
proof (induction s rule: utf8_chars.induct)
  case (2 c s)
  have "fst (utf8_rest s) @ snd (utf8_rest s) = s"
    by (induction s) (auto simp: Let_def split_beta)
  with 2 show ?case by simp
qed simp

record unicode =
  uc_alphanumeric :: "string \<Rightarrow> bool"
  uc_uppercase :: "string \<Rightarrow> bool"
  uc_lowercase :: "string \<Rightarrow> bool"
  uc_to_lowercase :: "string \<Rightarrow> string"
  uc_str_to_lowercase :: "string \<Rightarrow> string"

text \<open>Tables that know nothing beyond ASCII, for concrete runs.\<close>

definition ascii_only :: unicode where
  "ascii_only = \<lparr>uc_alphanumeric = (\<lambda>_. False), uc_uppercase = (\<lambda>_. False), uc_lowercase = (\<lambda>_. False),
     uc_to_lowercase = id, uc_str_to_lowercase = id\<rparr>"

definition is_ascii_upper :: "char \<Rightarrow> bool" where
  "is_ascii_upper c = (let n = (of_char c :: nat) in 65 \<le> n \<and> n \<le> 90)"

definition is_ascii_lower :: "char \<Rightarrow> bool" where
  "is_ascii_lower c = (let n = (of_char c :: nat) in 97 \<le> n \<and> n \<le> 122)"

definition char_alphanumeric :: "unicode \<Rightarrow> string \<Rightarrow> bool" where
  "char_alphanumeric u c = (case c of [b] \<Rightarrow> is_ascii_alnum b | _ \<Rightarrow> uc_alphanumeric u c)"

definition char_uppercase :: "unicode \<Rightarrow> string \<Rightarrow> bool" where
  "char_uppercase u c = (case c of [b] \<Rightarrow> is_ascii_upper b | _ \<Rightarrow> uc_uppercase u c)"

definition char_lowercase :: "unicode \<Rightarrow> string \<Rightarrow> bool" where
  "char_lowercase u c = (case c of [b] \<Rightarrow> is_ascii_lower b | _ \<Rightarrow> uc_lowercase u c)"

definition char_to_lowercase :: "unicode \<Rightarrow> string \<Rightarrow> string" where
  "char_to_lowercase u c = (case c of [b] \<Rightarrow> [lower_char b] | _ \<Rightarrow> uc_to_lowercase u c)"

definition char_digit :: "string \<Rightarrow> bool" where
  "char_digit c = (case c of [b] \<Rightarrow> is_ascii_digit b | _ \<Rightarrow> False)"

text \<open>\<open>str::to_lowercase\<close> looks at a character's neighbours beyond ASCII, so it has its own table.\<close>

definition is_ascii_str :: "string \<Rightarrow> bool" where
  "is_ascii_str s \<longleftrightarrow> list_all (\<lambda>c. (of_char c :: nat) < 128) s"

definition str_lowercase :: "unicode \<Rightarrow> string \<Rightarrow> string" where
  "str_lowercase u s = (if is_ascii_str s then map lower_char s else uc_str_to_lowercase u s)"

definition char_whitespace :: "string \<Rightarrow> bool" where
  "char_whitespace c =
     (case c of [a] \<Rightarrow> ws1 a | [a, b] \<Rightarrow> ws2 a b | [a, b, d] \<Rightarrow> ws3 a b d | _ \<Rightarrow> False)"

text \<open>\<open>split\<close> on a predicate over characters, and \<open>rsplit\<close>'s first part.\<close>

fun split_where :: "(string \<Rightarrow> bool) \<Rightarrow> string list \<Rightarrow> string list" where
  "split_where P [] = [[]]"
| "split_where P (c # cs) =
     (if P c then [] # split_where P cs
      else (case split_where P cs of [] \<Rightarrow> [c] | w # ws \<Rightarrow> (c @ w) # ws))"

text \<open>Cutting a string: \<open>split\<close> on a byte, \<open>lines\<close>, \<open>split_once\<close>, \<open>rsplit\<close>'s first part.\<close>

fun split_on :: "'a \<Rightarrow> 'a list \<Rightarrow> 'a list list" where
  "split_on x [] = [[]]"
| "split_on x (c # s) =
     (if c = x then [] # split_on x s
      else (case split_on x s of [] \<Rightarrow> [[c]] | w # ws \<Rightarrow> (c # w) # ws))"

abbreviation newline :: string where "newline \<equiv> [CHR 0x0A]"

definition strip_cr :: "string \<Rightarrow> string" where
  "strip_cr s = (if s \<noteq> [] \<and> last s = CHR 0x0D then butlast s else s)"

text \<open>
  Every line but the last one ends in a line feed, and loses a carriage return before it; the
  last one is dropped when it is empty.
\<close>

definition str_lines :: "string \<Rightarrow> string list" where
  "str_lines s =
     (let ls = split_on (CHR 0x0A) s
      in map strip_cr (butlast ls) @ (if last ls = [] then [] else [last ls]))"

fun split_once :: "string \<Rightarrow> string \<Rightarrow> (string \<times> string) option" where
  "split_once sep [] = (if sep = [] then Some ([], []) else None)"
| "split_once sep (c # s) =
     (case strip_prefix sep (c # s) of
        Some r \<Rightarrow> Some ([], r)
      | None \<Rightarrow> map_option (\<lambda>(a, b). (c # a, b)) (split_once sep s))"

fun after_last :: "string \<Rightarrow> string \<Rightarrow> string option" where
  "after_last sep [] = (if sep = [] then Some [] else None)"
| "after_last sep (c # s) =
     (case after_last sep s of Some r \<Rightarrow> Some r | None \<Rightarrow> strip_prefix sep (c # s))"

lemma split_on_neq_Nil [simp]: "split_on x s \<noteq> []"
  by (induction s) (auto split: list.splits)

lemma split_on_none: "x \<notin> set s \<Longrightarrow> split_on x s = [s]"
  by (induction s) auto

lemma split_on_append:
  "x \<notin> set a \<Longrightarrow> split_on x (a @ x # s) = a # split_on x s"
  by (induction a) auto

lemma strip_prefix_append: "strip_prefix p (p @ s) = Some s"
  by (simp add: strip_prefix_iff)

lemma strip_prefix_append_None:
  "length p \<le> length a \<Longrightarrow> strip_prefix p (a @ b) = map_option (\<lambda>r. r @ b) (strip_prefix p a)"
  by (induction p a rule: strip_prefix.induct) auto

text \<open>The largest character boundary that is not beyond \<open>n\<close>.\<close>

definition is_char_boundary :: "string \<Rightarrow> nat \<Rightarrow> bool" where
  "is_char_boundary s n \<longleftrightarrow> n = 0 \<or> n = length s \<or> n < length s \<and> is_char_start (s ! n)"

fun floor_boundary :: "string \<Rightarrow> nat \<Rightarrow> nat" where
  "floor_boundary s 0 = 0"
| "floor_boundary s (Suc n) = (if is_char_boundary s (Suc n) then Suc n else floor_boundary s n)"

lemma floor_boundary_le [rust_str]: "floor_boundary s n \<le> n"
  by (induction n) auto

lemma floor_boundary_ok [rust_str]: "is_char_boundary s (floor_boundary s n)"
  by (induction n) (auto simp: is_char_boundary_def)

text \<open>\<open>media::ellipsize\<close>: at most \<open>n\<close> characters, and a mark when something was cut.\<close>

definition ellipsis :: string where "ellipsis = [CHR 0xE2, CHR 0x80, CHR 0xA6]"

definition ellipsize :: "string \<Rightarrow> nat \<Rightarrow> string" where
  "ellipsize s n = (if chars_count s \<le> n then s else chars_take n s @ ellipsis)"

definition middot :: string where "middot = [CHR 0xC2, CHR 0xB7]"
definition em_dash :: string where "em_dash = [CHR 0xE2, CHR 0x80, CHR 0x94]"
definition right_arrow :: string where "right_arrow = [CHR 0xE2, CHR 0x86, CHR 0x92]"

definition replace_char :: "char \<Rightarrow> string \<Rightarrow> string \<Rightarrow> string" where
  "replace_char c t s = concat (map (\<lambda>d. if d = c then t else [d]) s)"

lemma replace_char_gone: "c \<notin> set t \<Longrightarrow> c \<notin> set (replace_char c t s)"
  by (auto simp: replace_char_def)

lemma replace_char_id: "c \<notin> set s \<Longrightarrow> replace_char c t s = s"
  by (induction s) (auto simp: replace_char_def)

text \<open>
  JSON values (\<open>serde_json::Value\<close>): numbers are integers, or floats kept as they print; an
  object lists its fields.
\<close>

datatype json =
    JNull
  | JBool bool
  | JInt int
  | JFloat string
  | JString string
  | JArray "json list"
  | JObject "(string \<times> json) list"

definition json_get :: "json \<Rightarrow> string \<Rightarrow> json option" where
  "json_get v k = (case v of JObject fs \<Rightarrow> map_of fs k | _ \<Rightarrow> None)"

definition json_str :: "json \<Rightarrow> string option" where
  "json_str v = (case v of JString s \<Rightarrow> Some s | _ \<Rightarrow> None)"

definition json_array :: "json \<Rightarrow> json list option" where
  "json_array v = (case v of JArray xs \<Rightarrow> Some xs | _ \<Rightarrow> None)"

text \<open>\<open>as_u64\<close>: an integer in range; a float is never one, even when it is whole.\<close>

definition json_u64 :: "json \<Rightarrow> nat option" where
  "json_u64 v = (case v of JInt i \<Rightarrow> if 0 \<le> i \<and> i < 2 ^ 64 then Some (nat i) else None | _ \<Rightarrow> None)"

definition json_i64 :: "json \<Rightarrow> int option" where
  "json_i64 v = (case v of JInt i \<Rightarrow> if - (2 ^ 63) \<le> i \<and> i < 2 ^ 63 then Some i else None | _ \<Rightarrow> None)"

text \<open>Decimal display of an integer, as \<open>format!("{n}")\<close> prints it.\<close>

fun show_nat :: "nat \<Rightarrow> string" where
  "show_nat n = (if n < 10 then [char_of (48 + n)] else show_nat (n div 10) @ [char_of (48 + n mod 10)])"

declare show_nat.simps [simp del]

definition show_int :: "int \<Rightarrow> string" where
  "show_int i = (if i < 0 then ''-'' @ show_nat (nat (- i)) else show_nat (nat i))"

lemma show_nat_nonempty [simp]: "show_nat n \<noteq> []"
  by (subst show_nat.simps) simp

text \<open>The digits read back give the number, so two numbers never print alike.\<close>

definition digits_value :: "string \<Rightarrow> nat" where
  "digits_value s = foldl (\<lambda>n c. 10 * n + (of_char c - 48)) 0 s"

lemma of_char_digit: "d < 10 \<Longrightarrow> (of_char (char_of (48 + d) :: char) :: nat) = 48 + d"
  by (simp add: of_char_of)

lemma digits_value_show_nat: "digits_value (show_nat n) = n"
proof (induction n rule: show_nat.induct)
  case (1 n)
  show ?case
  proof (cases "n < 10")
    case True
    then show ?thesis by (subst show_nat.simps) (simp add: digits_value_def of_char_digit)
  next
    case False
    then have "digits_value (show_nat n) = 10 * digits_value (show_nat (n div 10)) + n mod 10"
      by (subst show_nat.simps) (simp add: digits_value_def of_char_digit)
    with 1 False show ?thesis by simp
  qed
qed

lemma show_nat_inject [simp]: "show_nat m = show_nat n \<longleftrightarrow> m = n"
  using digits_value_show_nat by metis

lemma show_nat_digits: "c \<in> set (show_nat n) \<Longrightarrow> is_ascii_digit c"
proof (induction n rule: show_nat.induct)
  case (1 n)
  have d: "is_ascii_digit (char_of (48 + k))" if "k < 10" for k :: nat
    using that by (simp add: is_ascii_digit_def of_char_digit)
  show ?case
  proof (cases "n < 10")
    case True
    with 1(2) d[of n] show ?thesis by (subst (asm) show_nat.simps) simp
  next
    case False
    with 1(2) have "c \<in> set (show_nat (n div 10)) \<or> c = char_of (48 + n mod 10)"
      by (subst (asm) show_nat.simps) auto
    with 1(1)[OF False] d[of "n mod 10"] show ?thesis by auto
  qed
qed

section \<open>More of the standard library's strings\<close>

text \<open>\<open>rsplit_once\<close> on a byte; \<open>find\<close> and \<open>rfind\<close> of a byte.\<close>

definition rsplit_once :: "'a \<Rightarrow> 'a list \<Rightarrow> ('a list \<times> 'a list) option" where
  "rsplit_once x s =
     (if x \<in> set s
      then (let b = rev (takeWhile (\<lambda>c. c \<noteq> x) (rev s))
            in Some (take (length s - length b - 1) s, b))
      else None)"

lemma rsplit_once_append [rust_str]:
  assumes "x \<notin> set b"
  shows "rsplit_once x (a @ x # b) = Some (a, b)"
proof -
  have "takeWhile (\<lambda>c. c \<noteq> x) (rev b @ x # rev a) = rev b"
    using assms by (subst takeWhile_append2) auto
  then show ?thesis by (simp add: rsplit_once_def)
qed

lemma rsplit_once_None [rust_str]: "x \<notin> set s \<Longrightarrow> rsplit_once x s = None"
  by (simp add: rsplit_once_def)

definition str_find :: "'a \<Rightarrow> 'a list \<Rightarrow> nat option" where
  "str_find x s = (if x \<in> set s then Some (length (takeWhile (\<lambda>c. c \<noteq> x) s)) else None)"

definition str_rfind :: "'a \<Rightarrow> 'a list \<Rightarrow> nat option" where
  "str_rfind x s =
     (if x \<in> set s then Some (length s - 1 - length (takeWhile (\<lambda>c. c \<noteq> x) (rev s))) else None)"

text \<open>\<open>split_whitespace\<close>: the non-empty pieces between white space.\<close>

definition split_whitespace :: "string \<Rightarrow> string list" where
  "split_whitespace s = filter (\<lambda>w. w \<noteq> []) (split_where char_whitespace (utf8_chars s))"

text \<open>\<open>trim_start_matches\<close> of a text: as often as it is there.\<close>

function strip_all :: "'a list \<Rightarrow> 'a list \<Rightarrow> 'a list" where
  "strip_all p s = (case strip_prefix p s of Some r \<Rightarrow> if p = [] then s else strip_all p r | None \<Rightarrow> s)"
  by pat_completeness auto
termination
  by (relation "measure (\<lambda>(_, s). length s)") (auto simp: strip_prefix_iff)

declare strip_all.simps [simp del]

text \<open>\<open>replace\<close> of a non-empty text, from the left, without overlaps.\<close>

function str_replace :: "'a list \<Rightarrow> 'a list \<Rightarrow> 'a list \<Rightarrow> 'a list" where
  "str_replace p r [] = []"
| "str_replace p r (c # s) =
     (case strip_prefix p (c # s) of
        Some rest \<Rightarrow> if p = [] then c # s else r @ str_replace p r rest
      | None \<Rightarrow> c # str_replace p r s)"
  by pat_completeness auto
termination
proof (relation "measure (\<lambda>(_, _, s). length s)")
  fix p r :: "'a list" and c s rest
  assume a: "strip_prefix p (c # s) = Some rest" "p \<noteq> []"
  then have "c # s = p @ rest" by (simp add: strip_prefix_iff)
  then have "length (c # s) = length p + length rest" by (metis length_append)
  with a(2) show "((p, r, rest), p, r, c # s) \<in> measure (\<lambda>(_, _, s). length s)"
    by (cases p) auto
qed auto

declare str_replace.simps(2) [simp del]

definition eq_ignore_ascii_case :: "string \<Rightarrow> string \<Rightarrow> bool" where
  "eq_ignore_ascii_case a b \<longleftrightarrow> to_ascii_lowercase a = to_ascii_lowercase b"

end
