(* ===== verification/Paths.thy ===== *)
theory Paths imports Rust_Prelude begin

text \<open>
  Path checks of \<open>src-tauri/src/permissions/mod.rs\<close>: canonical paths that tolerate a missing
  tail, containment in a granted root, and the folders that may never be attached.

  A path is its list of components, as \<open>Path::components\<close> gives it and as
  \<open>starts_with\<close>, \<open>parent\<close>, \<open>file_name\<close> and \<open>==\<close> read it.  The file system and the
  environment (\<open>canonicalize\<close>, \<open>is_dir\<close>, \<open>std::env::var\<close>, the text of a path and back,
  Unicode lower case, the separator) are the operating system's: fields of an \<open>os\<close> record.
\<close>

section \<open>Paths and the operating system\<close>

datatype component = Prefix string | RootDir | CurDir | ParentDir | Normal string

type_synonym path = "component list"

record os =
  canon :: "path \<Rightarrow> path option"
  is_dir :: "path \<Rightarrow> bool"
  env_var :: "string \<Rightarrow> string option"
  path_text :: "path \<Rightarrow> string"
  path_of :: "string \<Rightarrow> path"
  to_lowercase :: "string \<Rightarrow> string"
  main_separator :: string

text \<open>A small system for the witnesses: every path is a folder and its own canonical form.\<close>

definition plain_os :: os where
  "plain_os = \<lparr>canon = Some, is_dir = (\<lambda>_. True), env_var = (\<lambda>_. None),
     path_text = (\<lambda>p. case p of [Normal n] \<Rightarrow> n | _ \<Rightarrow> ''/''),
     path_of = (\<lambda>s. if s = ''/'' then [RootDir] else [Normal s]), to_lowercase = id, main_separator = ''/''\<rparr>"

text \<open>\<open>Path::parent\<close> is \<open>None\<close> for the empty path and for a root or a bare prefix.\<close>

definition path_parent :: "path \<Rightarrow> path option" where
  "path_parent p =
     (if p = [] then None
      else case last p of
             Prefix _ \<Rightarrow> None | RootDir \<Rightarrow> None | _ \<Rightarrow> Some (butlast p))"

definition path_file_name :: "path \<Rightarrow> string option" where
  "path_file_name p =
     (if p = [] then None else case last p of Normal n \<Rightarrow> Some n | _ \<Rightarrow> None)"

lemma path_parent_shorter: "path_parent p = Some q \<Longrightarrow> length q < length p"
  by (auto simp: path_parent_def split: component.splits if_splits)

lemma path_parent_butlast: "path_parent p = Some q \<Longrightarrow> p \<noteq> [] \<and> q = butlast p"
  by (auto simp: path_parent_def split: component.splits if_splits)

text \<open>
  \<open>canonicalize\<close> puts Windows' verbatim marker into the prefix component; only a UNC or a
  drive-letter prefix is unwrapped.
\<close>

definition verbatim :: string where "verbatim = [CHR 0x5C, CHR 0x5C, CHR ''?'', CHR 0x5C]"
definition verbatim_unc :: string where "verbatim_unc = verbatim @ ''UNC'' @ [CHR 0x5C]"

definition strip_verbatim :: "path \<Rightarrow> path" where
  "strip_verbatim p =
     (case p of
        Prefix s # rest \<Rightarrow>
          (case strip_prefix verbatim_unc s of
             Some r \<Rightarrow> Prefix ([CHR 0x5C, CHR 0x5C] @ r) # rest
           | None \<Rightarrow>
               (case strip_prefix verbatim s of
                  Some r \<Rightarrow>
                    (case r of
                       c # d # _ \<Rightarrow>
                         if d = CHR '':'' \<and> is_ascii_alphabetic c then Prefix r # rest else p
                     | _ \<Rightarrow> p)
                | None \<Rightarrow> p))
      | _ \<Rightarrow> p)"

text \<open>
  The loop of \<open>canonicalize_lenient\<close>: \<open>tail\<close> holds the names pushed so far (the last name
  of the path first), \<open>cur\<close> shrinks to its parent each time round.
\<close>

function canon_up :: "os \<Rightarrow> path \<Rightarrow> path \<Rightarrow> string list \<Rightarrow> path" where
  "canon_up sys original cur tail =
     (case path_parent cur of
        None \<Rightarrow> original
      | Some par \<Rightarrow>
          (let tail' = (case path_file_name cur of Some n \<Rightarrow> tail @ [n] | None \<Rightarrow> tail)
           in case canon sys par of
                Some c \<Rightarrow> strip_verbatim c @ map Normal (rev tail')
              | None \<Rightarrow> if par = [] then original else canon_up sys original par tail'))"
  by pat_completeness auto
termination
  by (relation "measure (\<lambda>(_, _, cur, _). length cur)") (auto dest: path_parent_shorter)

declare canon_up.simps [simp del]

definition canonicalize_lenient :: "os \<Rightarrow> path \<Rightarrow> path" where
  "canonicalize_lenient sys p =
     (case canon sys p of Some c \<Rightarrow> strip_verbatim c | None \<Rightarrow> canon_up sys p p [])"

definition path_within_root :: "os \<Rightarrow> path \<Rightarrow> path \<Rightarrow> bool" where
  "path_within_root sys requested root =
     (case canon sys root of
        None \<Rightarrow> False
      | Some _ \<Rightarrow> starts_with (canonicalize_lenient sys requested) (canonicalize_lenient sys root))"

section \<open>Folders that are never attached\<close>


definition not_a_folder :: string where
  "not_a_folder = ''that isn't a folder''"
definition whole_drive :: string where
  "whole_drive = ''a whole drive is too broad '' @ em_dash @ '' pick a project folder inside it''"
definition own_data :: string where
  "own_data = ''that's Poiesis's own data folder''"
definition system_folder :: string where
  "system_folder = ''that's a system folder''"
definition too_broad :: string where
  "too_broad = ''that folder is too broad '' @ em_dash @ '' pick a project folder inside it''"

definition var_matches :: "os \<Rightarrow> string \<Rightarrow> string \<Rightarrow> bool \<Rightarrow> bool" where
  "var_matches sys lower var recursive =
     (case env_var sys var of
        None \<Rightarrow> False
      | Some v \<Rightarrow>
          if v = [] then False
          else (let v' = to_lowercase sys (path_text sys (canonicalize_lenient sys (path_of sys v)))
                in lower = v'
                   \<or> recursive \<and> starts_with (lower @ main_separator sys) (v' @ main_separator sys)))"

definition refuse_as_working_folder :: "os \<Rightarrow> path \<Rightarrow> path option \<Rightarrow> string option" where
  "refuse_as_working_folder sys p app_data =
     (let c = canonicalize_lenient sys p in
      if \<not> is_dir sys c then Some not_a_folder
      else if path_parent c = None then Some whole_drive
      else if (case app_data of
                 None \<Rightarrow> False
               | Some a \<Rightarrow> path_within_root sys c a \<or> starts_with (canonicalize_lenient sys a) c)
      then Some own_data
      else
        (let lower = to_lowercase sys (path_text sys c);
             probe = lower @ main_separator sys in
         if list_ex (\<lambda>var. var_matches sys lower var True)
              [''WINDIR'', ''SYSTEMROOT'', ''ProgramFiles'', ''ProgramFiles(x86)'']
         then Some system_folder
         else if list_ex (\<lambda>var. var_matches sys lower var False)
              [''APPDATA'', ''LOCALAPPDATA'', ''ProgramData'', ''USERPROFILE'']
         then Some too_broad
         else if list_ex (\<lambda>r. lower = r \<or> starts_with probe (r @ ''/''))
              [''/etc'', ''/usr'', ''/bin'', ''/sbin'', ''/sys'', ''/proc'', ''/var'']
         then Some system_folder
         else None))"

section \<open>What a resolved path is\<close>

text \<open>The names among a path's components: what \<open>canon_up\<close> appends to the ancestor it found.\<close>

definition path_names :: "path \<Rightarrow> string list" where
  "path_names p = concat (map (\<lambda>c. case c of Normal n \<Rightarrow> [n] | _ \<Rightarrow> []) p)"

lemma path_names_simps [simp]:
  "path_names [] = []"
  "path_names (p @ q) = path_names p @ path_names q"
  by (simp_all add: path_names_def)

lemma path_names_last:
  "p \<noteq> [] \<Longrightarrow> path_names [last p] = (case path_file_name p of Some n \<Rightarrow> [n] | None \<Rightarrow> [])"
  by (simp add: path_names_def path_file_name_def split: component.splits)

text \<open>
  The nearest ancestor that exists decides: the result is its canonical form followed by the
  names below it; \<open>..\<close> components below it are left out.
\<close>

lemma canon_up_cases:
  "canon_up sys p cur tail = p
   \<or> (\<exists>a t c. cur = a @ t \<and> t \<noteq> [] \<and> canon sys a = Some c
        \<and> canon_up sys p cur tail = strip_verbatim c @ map Normal (path_names t @ rev tail))"
proof (induction sys p cur tail rule: canon_up.induct)
  case (1 sys p cur tail)
  show ?case
  proof (cases "path_parent cur")
    case None
    then show ?thesis by (simp add: canon_up.simps[of sys p cur tail])
  next
    case (Some par)
    then have cur: "cur = par @ [last cur]" "cur \<noteq> []"
      by (auto dest!: path_parent_butlast)
    define tail' where "tail' = (case path_file_name cur of Some n \<Rightarrow> tail @ [n] | None \<Rightarrow> tail)"
    have names: "path_names [last cur] @ rev tail = rev tail'"
      by (simp add: path_names_last[OF cur(2)] tail'_def split: option.split)
    show ?thesis
    proof (cases "canon sys par")
      case (Some c)
      have "canon_up sys p cur tail = strip_verbatim c @ map Normal (rev tail')"
        using \<open>path_parent cur = Some par\<close> Some
        by (simp add: canon_up.simps[of sys p cur tail] tail'_def Let_def)
      with Some cur(1) names show ?thesis by (metis list.distinct(1))
    next
      case None
      show ?thesis
      proof (cases "par = []")
        case True
        with \<open>path_parent cur = Some par\<close> None show ?thesis
          by (simp add: canon_up.simps[of sys p cur tail] Let_def)
      next
        case False
        have step: "canon_up sys p cur tail = canon_up sys p par tail'"
          using \<open>path_parent cur = Some par\<close> None False
          by (simp add: canon_up.simps[of sys p cur tail] tail'_def Let_def)
        have "canon_up sys p par tail' = p
          \<or> (\<exists>a t c. par = a @ t \<and> t \<noteq> [] \<and> canon sys a = Some c
               \<and> canon_up sys p par tail' = strip_verbatim c @ map Normal (path_names t @ rev tail'))"
          using "1.IH"[OF \<open>path_parent cur = Some par\<close> tail'_def None False] .
        then show ?thesis
        proof (elim disjE exE conjE)
          assume "canon_up sys p par tail' = p"
          with step show ?thesis by simp
        next
          fix a t c
          assume t: "par = a @ t" "t \<noteq> []" "canon sys a = Some c"
            "canon_up sys p par tail' = strip_verbatim c @ map Normal (path_names t @ rev tail')"
          have "cur = a @ (t @ [last cur])" using cur(1) t(1) by (metis append.assoc)
          moreover have "path_names (t @ [last cur]) @ rev tail = path_names t @ rev tail'"
            using names by simp
          ultimately show ?thesis using t(2-4) step by (metis snoc_eq_iff_butlast)
        qed
      qed
    qed
  qed
qed

lemma lenient_cases:
  "canonicalize_lenient sys p = p
   \<or> (\<exists>a t c. p = a @ t \<and> canon sys a = Some c
        \<and> canonicalize_lenient sys p = strip_verbatim c @ map Normal (path_names t))"
proof (cases "canon sys p")
  case (Some c)
  then show ?thesis
    by (intro disjI2 exI[of _ p] exI[of _ "[]"] exI[of _ c]) (simp add: canonicalize_lenient_def)
next
  case None
  then show ?thesis
    using canon_up_cases[of sys p p "[]"] by (auto simp: canonicalize_lenient_def)
qed

lemma within_root_needs_root: "path_within_root sys p root \<Longrightarrow> canon sys root \<noteq> None"
  by (auto simp: path_within_root_def split: option.splits)

lemma within_root_refl: "canon sys root \<noteq> None \<Longrightarrow> path_within_root sys root root"
  by (auto simp: path_within_root_def)

lemma within_root_trans:
  assumes "path_within_root sys p q" and "path_within_root sys q r"
  shows "path_within_root sys p r"
  using assms
  by (auto simp: path_within_root_def split: option.splits intro: starts_with_trans)

section \<open>The nearest existing ancestor\<close>

text \<open>
  The specification: the longest proper ancestor (by \<open>parent\<close>) that has a canonical form, and
  the names below it.
\<close>

fun ancestors :: "nat \<Rightarrow> path \<Rightarrow> path list" where
  "ancestors 0 p = []"
| "ancestors (Suc n) p = (case path_parent p of None \<Rightarrow> [] | Some q \<Rightarrow> q # (if q = [] then [] else ancestors n q))"

lemma ancestors_shorter: "a \<in> set (ancestors n p) \<Longrightarrow> length a < length p"
proof (induction n arbitrary: p)
  case (Suc n)
  show ?case
  proof (cases "path_parent p")
    case (Some q)
    then have "a = q \<or> a \<in> set (ancestors n q)"
      using Suc.prems by (simp split: if_splits)
    then show ?thesis using Suc.IH[of q] path_parent_shorter[OF Some] by auto
  qed (use Suc.prems in simp)
qed simp

lemma canon_up_first_ancestor:
  "length cur \<le> n \<Longrightarrow>
   canon_up sys p cur tail =
     (case List.find (\<lambda>q. canon sys q \<noteq> None) (ancestors n cur) of
        None \<Rightarrow> p
      | Some a \<Rightarrow> strip_verbatim (the (canon sys a))
                    @ map Normal (path_names (drop (length a) cur) @ rev tail))"
proof (induction n arbitrary: cur tail)
  case 0
  then show ?case by (simp add: canon_up.simps[of sys p "[]" tail] path_parent_def)
next
  case (Suc n)
  show ?case
  proof (cases "path_parent cur")
    case None
    then show ?thesis by (simp add: canon_up.simps[of sys p cur tail])
  next
    case (Some par)
    then have cur: "cur = par @ [last cur]" "cur \<noteq> []"
      by (auto dest!: path_parent_butlast)
    define tail' where "tail' = (case path_file_name cur of Some n \<Rightarrow> tail @ [n] | None \<Rightarrow> tail)"
    have names: "path_names [last cur] @ rev tail = rev tail'"
      by (simp add: path_names_last[OF cur(2)] tail'_def split: option.split)
    have drop_par: "drop (length par) cur = [last cur]"
      by (subst cur(1)) simp
    show ?thesis
    proof (cases "canon sys par")
      case (Some c)
      then show ?thesis using \<open>path_parent cur = Some par\<close> names
        by (simp add: canon_up.simps[of sys p cur tail] drop_par Let_def tail'_def)
    next
      case None
      show ?thesis
      proof (cases "par = []")
        case True
        with \<open>path_parent cur = Some par\<close> None show ?thesis
          by (simp add: canon_up.simps[of sys p cur tail] Let_def)
      next
        case False
        have step: "canon_up sys p cur tail = canon_up sys p par tail'"
          using \<open>path_parent cur = Some par\<close> None False
          by (simp add: canon_up.simps[of sys p cur tail] tail'_def Let_def)
        have "length par \<le> n"
          using path_parent_shorter[OF \<open>path_parent cur = Some par\<close>] Suc.prems by simp
        note IH = Suc.IH[OF this, of tail']
        have long: "path_names (drop (length a) cur) @ rev tail = path_names (drop (length a) par) @ rev tail'"
          if "List.find (\<lambda>q. canon sys q \<noteq> None) (ancestors n par) = Some a" for a
        proof -
          have "length a \<le> length par" using ancestors_shorter[of a n par] find_SomeD[OF that] by simp
          then have "drop (length a) cur = drop (length a) par @ [last cur]"
            by (subst cur(1)) simp
          then show ?thesis using names by simp
        qed
        show ?thesis
          using step IH long \<open>path_parent cur = Some par\<close> None False
          by (simp split: option.split)
      qed
    qed
  qed
qed

text \<open>What the operating system makes of \<open>..\<close> when it reads a path without looking at the disk.\<close>

fun lexical :: "path \<Rightarrow> path \<Rightarrow> path" where
  "lexical acc [] = acc"
| "lexical acc (ParentDir # p) =
     lexical (case acc of [] \<Rightarrow> [] | _ \<Rightarrow> if last acc = RootDir then acc else butlast acc) p"
| "lexical acc (CurDir # p) = lexical acc p"
| "lexical acc (c # p) = lexical (acc @ [c]) p"

text \<open>A disk with one folder, /work; everything else is missing.\<close>

definition work_os :: os where
  "work_os = \<lparr>canon = (\<lambda>p. if p = [RootDir] \<or> p = [RootDir, Normal ''work''] then Some p else None),
              is_dir = (\<lambda>p. p = [RootDir] \<or> p = [RootDir, Normal ''work'']), env_var = (\<lambda>_. None),
              path_text = (\<lambda>_. []), path_of = (\<lambda>_. []), to_lowercase = id, main_separator = ''/''\<rparr>"

definition ghost_path :: path where
  "ghost_path = [RootDir, Normal ''work'', Normal ''ghost'', ParentDir, ParentDir, Normal ''secret'']"

lemma ghost_lenient:
  "canonicalize_lenient work_os ghost_path = [RootDir, Normal ''work'', Normal ''ghost'', Normal ''secret'']"
proof -
  have "canon_up work_os ghost_path ghost_path [] =
      [RootDir, Normal ''work'', Normal ''ghost'', Normal ''secret'']"
    using canon_up_first_ancestor[of ghost_path 6 work_os ghost_path "[]"]
    by (simp add: ghost_path_def work_os_def path_parent_def path_names_def eval_nat_numeral
        strip_verbatim_def)
  then show ?thesis by (simp add: canonicalize_lenient_def work_os_def ghost_path_def)
qed

section \<open>Properties\<close>

text \<open>A path is resolved to its canonical form when it exists, and otherwise to the canonical
  form of its nearest existing ancestor followed by the names below that ancestor, the Windows
  verbatim marker removed; a path no ancestor of which exists stays as it was written.\<close>

theorem canonicalize_lenient_nearest_ancestor:
  "canonicalize_lenient sys p =
     (case canon sys p of
        Some c \<Rightarrow> strip_verbatim c
      | None \<Rightarrow>
          (case List.find (\<lambda>q. canon sys q \<noteq> None) (ancestors (length p) p) of
             None \<Rightarrow> p
           | Some a \<Rightarrow> strip_verbatim (the (canon sys a)) @ map Normal (path_names (drop (length a) p))))"
  using canon_up_first_ancestor[of p "length p" sys p "[]"]
  by (simp add: canonicalize_lenient_def split: option.split)

text \<open>Containment is a preorder on existing roots: a root contains itself, a path inside a
  folder that is itself inside a root is inside the root, and nothing is inside a root that does
  not exist.\<close>

theorem within_root_preorder:
  assumes "path_within_root sys p q" and "path_within_root sys q r"
  shows "path_within_root sys p r \<and> path_within_root sys r r \<and> canon sys r \<noteq> None"
  using within_root_trans[OF assms] within_root_needs_root[OF assms(2)] within_root_refl by blast

theorem within_root_preorder_witness:
  "path_within_root work_os [RootDir, Normal ''work''] [RootDir]"
proof -
  have a: "path_within_root work_os [RootDir, Normal ''work''] [RootDir, Normal ''work'']"
    by (rule within_root_refl) (simp add: work_os_def)
  have b: "path_within_root work_os [RootDir, Normal ''work''] [RootDir]"
    by (simp add: path_within_root_def work_os_def canonicalize_lenient_def strip_verbatim_def
        starts_with_def)
  show ?thesis using within_root_preorder[OF a b] by blast
qed

text \<open>Names are kept and parent steps are dropped below a missing folder, so a path that
  leaves a root through a folder that does not exist is judged inside it, though read without the
  disk it names a place outside.\<close>

theorem parent_steps_below_missing_folder:
  "path_within_root work_os ghost_path [RootDir, Normal ''work'']
   \<and> lexical [] ghost_path = [RootDir, Normal ''secret'']
   \<and> \<not> starts_with (lexical [] ghost_path) [RootDir, Normal ''work'']"
proof -
  have work: "canon work_os [RootDir, Normal ''work''] = Some [RootDir, Normal ''work'']"
    by (simp add: work_os_def)
  then have "canonicalize_lenient work_os [RootDir, Normal ''work''] = [RootDir, Normal ''work'']"
    by (simp add: canonicalize_lenient_def strip_verbatim_def)
  with work have "path_within_root work_os ghost_path [RootDir, Normal ''work'']"
    by (simp add: path_within_root_def ghost_lenient starts_with_def)
  moreover have "lexical [] ghost_path = [RootDir, Normal ''secret'']"
    by (simp add: ghost_path_def)
  ultimately show ?thesis by (simp add: starts_with_def)
qed

end
