(* ===== verification/Disk.thy ===== *)
theory Disk imports Paths "HOL-Library.Sublist" begin

text \<open>
  The disk as the file tools and the undo trash use it (\<open>std::fs\<close>): a map from absolute paths to
  files and folders.  An operation that the system refuses for a reason the program cannot see
  (rights, a locked file) is refused for the paths of \<open>dk_denied\<close>.  Links are not followed, and
  the text a path is stored under in the database stands for the path itself.
\<close>

datatype node = FileNode string | DirNode

record disk =
  dk_at :: "path \<Rightarrow> node option"
  dk_denied :: "path \<Rightarrow> bool"

definition file_bytes :: "disk \<Rightarrow> path \<Rightarrow> string option" where
  "file_bytes d p = (case dk_at d p of Some (FileNode b) \<Rightarrow> Some b | _ \<Rightarrow> None)"

definition is_file :: "disk \<Rightarrow> path \<Rightarrow> bool" where
  "is_file d p \<longleftrightarrow> file_bytes d p \<noteq> None"

definition is_folder :: "disk \<Rightarrow> path \<Rightarrow> bool" where
  "is_folder d p \<longleftrightarrow> dk_at d p = Some DirNode"

definition path_exists :: "disk \<Rightarrow> path \<Rightarrow> bool" where
  "path_exists d p \<longleftrightarrow> dk_at d p \<noteq> None"

text \<open>Whether the folder a path would be put into is there.\<close>

definition parent_there :: "disk \<Rightarrow> path \<Rightarrow> bool" where
  "parent_there d p \<longleftrightarrow> (case path_parent p of None \<Rightarrow> True | Some q \<Rightarrow> q = [] \<or> is_folder d q)"

definition below :: "path \<Rightarrow> path \<Rightarrow> bool" where
  "below p q \<longleftrightarrow> take (length p) q = p"

lemma below_prefix: "below p q \<longleftrightarrow> prefix p q"
  by (metis append_eq_conv_conj below_def prefix_def)

lemma below_refl [simp]: "below p p"
  by (simp add: below_def)

lemma parent_there_cong:
  assumes "\<And>q. length q < length p \<Longrightarrow> dk_at d' q = dk_at d q"
  shows "parent_there d' p = parent_there d p"
  using assms path_parent_shorter[of p] by (auto simp: parent_there_def is_folder_def split: option.splits)

section \<open>Operations\<close>

definition fs_write :: "disk \<Rightarrow> path \<Rightarrow> string \<Rightarrow> disk option" where
  "fs_write d p b =
     (if dk_denied d p \<or> is_folder d p \<or> \<not> parent_there d p then None
      else Some (d\<lparr>dk_at := (dk_at d)(p \<mapsto> FileNode b)\<rparr>))"

definition fs_copy :: "disk \<Rightarrow> path \<Rightarrow> path \<Rightarrow> disk option" where
  "fs_copy d src dst =
     (if dk_denied d src then None
      else case file_bytes d src of None \<Rightarrow> None | Some b \<Rightarrow> fs_write d dst b)"

definition fs_remove_file :: "disk \<Rightarrow> path \<Rightarrow> disk option" where
  "fs_remove_file d p =
     (if dk_denied d p \<or> \<not> is_file d p then None else Some (d\<lparr>dk_at := (dk_at d)(p := None)\<rparr>))"

definition fs_remove_dir_all :: "disk \<Rightarrow> path \<Rightarrow> disk option" where
  "fs_remove_dir_all d p =
     (if dk_denied d p \<or> \<not> is_folder d p then None
      else Some (d\<lparr>dk_at := (\<lambda>q. if below p q then None else dk_at d q)\<rparr>))"

text \<open>
  \<open>create_dir_all\<close> makes what is missing on the way down and fails where a file is in the way.
\<close>

definition fs_create_dir_all :: "disk \<Rightarrow> path \<Rightarrow> disk option" where
  "fs_create_dir_all d p =
     (if list_ex (\<lambda>n. is_file d (take n p) \<or> dk_denied d (take n p) \<and> dk_at d (take n p) = None)
           [1..<Suc (length p)] then None
      else Some (d\<lparr>dk_at := (\<lambda>q. if q \<noteq> [] \<and> below q p \<and> dk_at d q = None then Some DirNode
                                 else dk_at d q)\<rparr>))"

text \<open>\<open>rename\<close> replaces a file at the new place; a folder moves with what it holds.\<close>

definition fs_rename :: "disk \<Rightarrow> path \<Rightarrow> path \<Rightarrow> disk option" where
  "fs_rename d p q =
     (if dk_denied d p \<or> dk_denied d q \<or> \<not> path_exists d p \<or> \<not> parent_there d q \<or> is_folder d q
         \<or> (is_folder d p \<and> (is_file d q \<or> below p q)) then None
      else if p = q then Some d
      else Some (d\<lparr>dk_at := (\<lambda>x. if is_folder d p \<and> below q x then dk_at d (p @ drop (length q) x)
                                 else if x = q then dk_at d p
                                 else if x = p \<or> is_folder d p \<and> below p x then None
                                 else dk_at d x)\<rparr>))"

text \<open>\<open>let _ = op(..)\<close> and \<open>.ok()\<close>: a failure leaves the disk as it was.\<close>

definition or_same :: "disk \<Rightarrow> disk option \<Rightarrow> disk" where
  "or_same d r = (case r of None \<Rightarrow> d | Some d' \<Rightarrow> d')"

section \<open>What the operations leave alone\<close>

lemma is_file_iff: "is_file d p \<longleftrightarrow> (\<exists>b. dk_at d p = Some (FileNode b))"
  by (auto simp: is_file_def file_bytes_def split: option.splits node.splits)

lemma file_bytes_iff: "file_bytes d p = Some b \<longleftrightarrow> dk_at d p = Some (FileNode b)"
  by (auto simp: file_bytes_def split: option.splits node.splits)

lemma fs_write_at:
  "fs_write d p b = Some d' \<Longrightarrow> dk_at d' = (dk_at d)(p \<mapsto> FileNode b) \<and> dk_denied d' = dk_denied d"
  by (auto simp: fs_write_def split: if_splits)

lemma fs_copy_at:
  "fs_copy d s p = Some d' \<Longrightarrow>
     \<exists>b. dk_at d s = Some (FileNode b) \<and> dk_at d' = (dk_at d)(p \<mapsto> FileNode b) \<and> dk_denied d' = dk_denied d"
  by (auto simp: fs_copy_def file_bytes_iff split: if_splits option.splits dest: fs_write_at)

lemma fs_remove_file_at:
  "fs_remove_file d p = Some d' \<Longrightarrow> dk_at d' = (dk_at d)(p := None) \<and> dk_denied d' = dk_denied d"
  by (auto simp: fs_remove_file_def split: if_splits)

lemma fs_create_dir_all_at:
  assumes "fs_create_dir_all d p = Some d'"
  shows "dk_denied d' = dk_denied d"
    and "dk_at d q \<noteq> None \<Longrightarrow> dk_at d' q = dk_at d q"
    and "dk_at d' q \<noteq> dk_at d q \<Longrightarrow> dk_at d' q = Some DirNode \<and> below q p"
  using assms by (auto simp: fs_create_dir_all_def split: if_splits)

text \<open>Files are never touched by making folders.\<close>

lemma create_dir_keeps_files:
  "file_bytes (or_same d (fs_create_dir_all d p)) q = file_bytes d q"
proof (cases "fs_create_dir_all d p")
  case (Some d')
  then show ?thesis
    using fs_create_dir_all_at(2,3)[OF Some, of q]
    by (cases "dk_at d' q = dk_at d q") (auto simp: file_bytes_def or_same_def split: option.splits)
qed (simp add: or_same_def)

lemma create_dir_denied: "dk_denied (or_same d (fs_create_dir_all d p)) = dk_denied d"
  by (cases "fs_create_dir_all d p") (auto simp: or_same_def dest: fs_create_dir_all_at(1))

lemma create_dir_keeps_folders: "is_folder d q \<Longrightarrow> is_folder (or_same d (fs_create_dir_all d p)) q"
  by (cases "fs_create_dir_all d p") (auto simp: or_same_def is_folder_def dest: fs_create_dir_all_at(2))

lemma create_dir_keeps_parent: "parent_there d q \<Longrightarrow> parent_there (or_same d (fs_create_dir_all d p)) q"
  by (auto simp: parent_there_def split: option.splits intro: create_dir_keeps_folders)

text \<open>Making the folder of a path where nothing but folders is on the way makes it.\<close>

lemma create_dir_makes:
  assumes "fs_create_dir_all d p = Some d'" and "p \<noteq> []"
  shows "is_folder d' p"
proof -
  have "length p \<in> set [1..<Suc (length p)]" using assms(2) by (cases p) auto
  then have "\<not> is_file d p" using assms(1)
    by (auto simp: fs_create_dir_all_def list_ex_iff split: if_splits)
  then have "dk_at d p = None \<or> dk_at d p = Some DirNode"
    by (metis is_file_iff node.exhaust option.exhaust)
  then show ?thesis using assms by (auto simp: fs_create_dir_all_def is_folder_def split: if_splits)
qed

end
