(* ===== verification/Db_Store.thy ===== *)
theory Db_Store imports Rust_Prelude begin

text \<open>
  The tables of the SQLite store (\<open>src-tauri/src/db/mod.rs\<close>) that the modelled components
  read and write: settings, connector policies, the daily send counters, the activity log
  and the change proposals.  Each table is a map from its primary key, or a list of
  appended rows.  SQLite itself can refuse: \<open>db_readable\<close> and \<open>db_writable\<close> say
  whether queries and statements succeed, so that every \<open>?\<close>, \<open>.ok()\<close> and
  \<open>unwrap_or\<close> of the callers is a branch of the model.  Row ids and time stamps come
  from outside (\<open>uuid\<close>, the clock) and are arguments where a caller uses them.

  The interface \<open>kv_store\<close> states what the callers of the settings table rely on; it is
  interpreted on the table's own operations.
\<close>

section \<open>Rows\<close>

record connector_policy =
  pol_connector_id :: string
  pol_app :: string
  read_policy :: string
  change_policy :: string
  send_policy :: string
  send_cap :: int
  tool_overrides :: "string option"

definition DEFAULT_SEND_CAP :: int where "DEFAULT_SEND_CAP = 25"
definition MAX_SEND_CAP :: int where "MAX_SEND_CAP = 1000"

definition policy_defaults :: "string \<Rightarrow> string \<Rightarrow> connector_policy" where
  "policy_defaults connector_id app =
     \<lparr>pol_connector_id = connector_id, pol_app = app, read_policy = ''run'',
      change_policy = ''ask'', send_policy = ''ask'', send_cap = DEFAULT_SEND_CAP,
      tool_overrides = None\<rparr>"

record activity_row =
  act_conversation :: "string option"
  act_kind :: string
  act_detail :: string

record change_proposal =
  prop_id :: string
  prop_target :: string
  prop_slug :: "string option"
  proposed_text :: string
  rationale :: string
  prop_description :: "string option"
  prop_status :: string

record grant =
  grant_path :: string
  grant_mode :: string

record project =
  proj_name :: string
  root_path :: "string option"
  proj_trust :: "string option"

record conversation =
  conv_project_id :: "string option"
  folder_path :: "string option"
  folder_trust :: "string option"
  engines_off :: bool
  workspace :: bool

record db =
  db_readable :: bool
  db_writable :: bool
  db_settings :: "string \<rightharpoonup> string"
  db_policies :: "string \<times> string \<rightharpoonup> connector_policy"
  db_sends :: "string \<times> string \<times> string \<rightharpoonup> int"
  db_activity :: "activity_row list"
  db_proposals :: "change_proposal list"
  db_permissions :: "grant list"
  db_conversations :: "string \<rightharpoonup> conversation"
  db_projects :: "string \<rightharpoonup> project"
  db_outcomes :: "string \<times> string \<rightharpoonup> string \<times> string option"

datatype db_error = DbError

definition empty_db :: db where
  "empty_db = \<lparr>db_readable = True, db_writable = True, db_settings = Map.empty,
     db_policies = Map.empty, db_sends = Map.empty, db_activity = [], db_proposals = [], db_permissions = [],
     db_conversations = Map.empty, db_projects = Map.empty,
     db_outcomes = Map.empty\<rparr>"

section \<open>Settings\<close>

text \<open>\<open>get_setting\<close> swallows a failed query with \<open>.ok()\<close>: it answers like a missing row.\<close>

definition get_setting :: "db \<Rightarrow> string \<Rightarrow> string option" where
  "get_setting d key = (if db_readable d then db_settings d key else None)"

definition set_setting :: "db \<Rightarrow> string \<Rightarrow> string \<Rightarrow> db_error + db" where
  "set_setting d key v =
     (if db_writable d then Inr (d\<lparr>db_settings := (db_settings d)(key \<mapsto> v)\<rparr>) else Inl DbError)"

definition delete_setting :: "db \<Rightarrow> string \<Rightarrow> db_error + db" where
  "delete_setting d key =
     (if db_writable d then Inr (d\<lparr>db_settings := (db_settings d)(key := None)\<rparr>) else Inl DbError)"

text \<open>\<open>let _ = db.op(..)\<close>: the caller ignores a failure and goes on with the store as it is.\<close>

definition or_unchanged :: "db \<Rightarrow> db_error + db \<Rightarrow> db" where
  "or_unchanged d r = (case r of Inl _ \<Rightarrow> d | Inr d' \<Rightarrow> d')"

locale kv_store =
  fixes lookup :: "'s \<Rightarrow> string \<Rightarrow> string option"
    and store :: "'s \<Rightarrow> string \<Rightarrow> string \<Rightarrow> 's"
    and erase :: "'s \<Rightarrow> string \<Rightarrow> 's"
    and up :: "'s \<Rightarrow> bool"
  assumes lookup_store: "up s \<Longrightarrow> lookup (store s k v) k' = (if k' = k then Some v else lookup s k')"
    and lookup_erase: "up s \<Longrightarrow> lookup (erase s k) k' = (if k' = k then None else lookup s k')"
    and up_store: "up (store s k v) = up s"
    and up_erase: "up (erase s k) = up s"
begin

lemma lookup_store_same: "up s \<Longrightarrow> lookup (store s k v) k = Some v"
  by (simp add: lookup_store)

lemma lookup_store_other: "up s \<Longrightarrow> k' \<noteq> k \<Longrightarrow> lookup (store s k v) k' = lookup s k'"
  by (simp add: lookup_store)

lemma last_store_wins: "up s \<Longrightarrow> lookup (store (store s k v) k w) = lookup (store s k w)"
  by (rule ext) (simp add: lookup_store up_store)

lemma store_after_erase: "up s \<Longrightarrow> lookup (store (erase s k) k v) = lookup (store s k v)"
  by (rule ext) (simp add: lookup_store lookup_erase up_erase)

text \<open>Writing one list of keys never changes what another key reads.\<close>

lemma lookup_foldl_store:
  "up s \<Longrightarrow> k \<notin> set ks \<Longrightarrow> lookup (foldl (\<lambda>s k. store s k v) s ks) k = lookup s k"
  by (induction ks arbitrary: s) (auto simp: lookup_store up_store)

end

definition put_setting :: "db \<Rightarrow> string \<Rightarrow> string \<Rightarrow> db" where
  "put_setting d k v = or_unchanged d (set_setting d k v)"

definition drop_setting :: "db \<Rightarrow> string \<Rightarrow> db" where
  "drop_setting d k = or_unchanged d (delete_setting d k)"

definition db_up :: "db \<Rightarrow> bool" where
  "db_up d \<longleftrightarrow> db_readable d \<and> db_writable d"

lemmas db_setting_defs =
  get_setting_def set_setting_def delete_setting_def or_unchanged_def
  put_setting_def drop_setting_def db_up_def

interpretation settings: kv_store get_setting put_setting drop_setting db_up
  by unfold_locales (auto simp: db_setting_defs)

section \<open>Connector policies and daily sends\<close>

definition get_connector_policy :: "db \<Rightarrow> string \<Rightarrow> string \<Rightarrow> db_error + connector_policy" where
  "get_connector_policy d connector_id app =
     (if db_readable d
      then Inr (case db_policies d (connector_id, app) of
                  None \<Rightarrow> policy_defaults connector_id app | Some p \<Rightarrow> p)
      else Inl DbError)"

definition stored_policy :: "connector_policy \<Rightarrow> connector_policy" where
  "stored_policy p =
     p\<lparr>read_policy := (if read_policy p = ''ask'' then ''ask'' else ''run''),
       change_policy := (if change_policy p = ''allow'' then ''allow'' else ''ask''),
       send_policy := (if send_policy p = ''allow'' then ''allow'' else ''ask''),
       send_cap := clamp 1 MAX_SEND_CAP (send_cap p)\<rparr>"

definition save_connector_policy :: "db \<Rightarrow> connector_policy \<Rightarrow> db_error + db" where
  "save_connector_policy d p =
     (if db_writable d
      then Inr (d\<lparr>db_policies :=
             (db_policies d)((pol_connector_id p, pol_app p) \<mapsto> stored_policy p)\<rparr>)
      else Inl DbError)"

definition app_send_count :: "db \<Rightarrow> string \<Rightarrow> string \<Rightarrow> string \<Rightarrow> db_error + int" where
  "app_send_count d connector_id app day =
     (if db_readable d
      then Inr (case db_sends d (connector_id, app, day) of None \<Rightarrow> 0 | Some n \<Rightarrow> n)
      else Inl DbError)"

definition bump_app_send :: "db \<Rightarrow> string \<Rightarrow> string \<Rightarrow> string \<Rightarrow> int \<Rightarrow> db_error + db" where
  "bump_app_send d connector_id app day by_n =
     (if db_writable d
      then Inr (d\<lparr>db_sends := (db_sends d)((connector_id, app, day) \<mapsto>
             (case db_sends d (connector_id, app, day) of None \<Rightarrow> by_n | Some n \<Rightarrow> n + by_n))\<rparr>)
      else Inl DbError)"

section \<open>Activity and proposals\<close>

definition log_activity :: "db \<Rightarrow> string option \<Rightarrow> string \<Rightarrow> string \<Rightarrow> db_error + db" where
  "log_activity d conversation_id kind detail =
     (if db_writable d
      then Inr (d\<lparr>db_activity := db_activity d @
             [\<lparr>act_conversation = conversation_id, act_kind = kind, act_detail = detail\<rparr>]\<rparr>)
      else Inl DbError)"

definition add_change_proposal ::
  "db \<Rightarrow> string \<Rightarrow> string \<Rightarrow> string option \<Rightarrow> string \<Rightarrow> string \<Rightarrow> string option
     \<Rightarrow> db_error + (db \<times> change_proposal)" where
  "add_change_proposal d new_id target slug text why description =
     (if db_writable d
      then (let p = \<lparr>prop_id = new_id, prop_target = target, prop_slug = slug, proposed_text = text,
                     rationale = why, prop_description = description, prop_status = ''pending''\<rparr>
            in Inr (d\<lparr>db_proposals := db_proposals d @ [p]\<rparr>, p))
      else Inl DbError)"

text \<open>\<open>INSERT OR IGNORE\<close>: one label per decision and source, the first one stays.\<close>

definition add_outcome ::
  "db \<Rightarrow> string \<Rightarrow> string \<Rightarrow> string option \<Rightarrow> string \<Rightarrow> db_error + (db \<times> bool)" where
  "add_outcome d decision_id lbl v source =
     (if \<not> db_writable d then Inl DbError
      else (case db_outcomes d (decision_id, source) of
              Some _ \<Rightarrow> Inr (d, False)
            | None \<Rightarrow> Inr (d\<lparr>db_outcomes := (db_outcomes d)((decision_id, source) \<mapsto> (lbl, v))\<rparr>, True)))"

definition note_outcome :: "db \<Rightarrow> string \<Rightarrow> string \<Rightarrow> string \<Rightarrow> db" where
  "note_outcome d decision_id lbl source =
     (case add_outcome d decision_id lbl None source of Inl _ \<Rightarrow> d | Inr (d', _) \<Rightarrow> d')"

section \<open>Grants, conversations and projects\<close>

text \<open>The path is unique: adding a grant for a path already there replaces its mode.\<close>

fun upsert_grant :: "grant list \<Rightarrow> grant \<Rightarrow> grant list" where
  "upsert_grant [] g = [g]"
| "upsert_grant (h # hs) g =
     (if grant_path h = grant_path g then h\<lparr>grant_mode := grant_mode g\<rparr> # hs
      else h # upsert_grant hs g)"

definition add_permission :: "db \<Rightarrow> string \<Rightarrow> string \<Rightarrow> db_error + db" where
  "add_permission d p mode =
     (if db_writable d
      then Inr (d\<lparr>db_permissions :=
             upsert_grant (db_permissions d) \<lparr>grant_path = p, grant_mode = mode\<rparr>\<rparr>)
      else Inl DbError)"

definition list_permissions :: "db \<Rightarrow> db_error + grant list" where
  "list_permissions d = (if db_readable d then Inr (db_permissions d) else Inl DbError)"

definition coalesce :: "'a option \<Rightarrow> 'a option \<Rightarrow> 'a option" where
  "coalesce a b = (case a of None \<Rightarrow> b | Some x \<Rightarrow> Some x)"

definition joined_project :: "db \<Rightarrow> conversation \<Rightarrow> project option" where
  "joined_project d c = (case conv_project_id c of None \<Rightarrow> None | Some p \<Rightarrow> db_projects d p)"

text \<open>The project's folder and trust when the chat has one, else the chat's own columns.\<close>

definition conversation_folder :: "db \<Rightarrow> string \<Rightarrow> string option \<times> string" where
  "conversation_folder d i =
     (let row = (case (if db_readable d then db_conversations d i else None) of
                   None \<Rightarrow> (None, None)
                 | Some c \<Rightarrow>
                     (case joined_project d c of
                        None \<Rightarrow> (folder_path c, folder_trust c)
                      | Some p \<Rightarrow> (coalesce (root_path p) (folder_path c),
                                     coalesce (proj_trust p) (folder_trust c))))
      in (fst row, case snd row of None \<Rightarrow> ''confirm'' | Some t \<Rightarrow> t))"

definition set_conversation_trust :: "db \<Rightarrow> string \<Rightarrow> string \<Rightarrow> db_error + db" where
  "set_conversation_trust d i t =
     (let project_id = (case (if db_readable d then db_conversations d i else None) of
                          None \<Rightarrow> None | Some c \<Rightarrow> conv_project_id c)
      in if \<not> db_writable d then Inl DbError
         else
           (let d1 = d\<lparr>db_conversations :=
                   (case db_conversations d i of
                      None \<Rightarrow> db_conversations d
                    | Some c \<Rightarrow> (db_conversations d)(i \<mapsto> c\<lparr>folder_trust := Some t\<rparr>))\<rparr>
            in Inr (case project_id of
                      None \<Rightarrow> d1
                    | Some p \<Rightarrow>
                        (case db_projects d1 p of
                           None \<Rightarrow> d1
                         | Some row \<Rightarrow>
                             d1\<lparr>db_projects := (db_projects d1)(p \<mapsto> row\<lparr>proj_trust := Some t\<rparr>)\<rparr>))))"

lemma trust_roundtrip:
  assumes "db_up d" and "db_conversations d i = Some c"
    and "set_conversation_trust d i t = Inr d'"
  shows "conversation_folder d' i = (fst (conversation_folder d i), t)"
  using assms
  by (auto simp: db_up_def set_conversation_trust_def conversation_folder_def joined_project_def
      coalesce_def Let_def split: option.splits)

lemma set_upsert_grant:
  "\<lparr>grant_path = p, grant_mode = m\<rparr> \<in> set (upsert_grant gs \<lparr>grant_path = p, grant_mode = m\<rparr>)"
  by (induction gs) auto

lemma upsert_grant_other:
  "g \<in> set gs \<Longrightarrow> grant_path g \<noteq> grant_path h \<Longrightarrow> g \<in> set (upsert_grant gs h)"
  by (induction gs) auto

lemma upsert_grant_distinct:
  "distinct (map grant_path gs) \<Longrightarrow> distinct (map grant_path (upsert_grant gs h))
     \<and> set (map grant_path (upsert_grant gs h)) = insert (grant_path h) (set (map grant_path gs))"
  by (induction gs) auto

section \<open>What the tables promise\<close>

lemma or_unchanged_simps [simp]:
  "or_unchanged d (Inl e) = d" "or_unchanged d (Inr d') = d'"
  by (simp_all add: or_unchanged_def)

lemma settings_frame [simp]:
  "db_settings (or_unchanged d (log_activity d c k t)) = db_settings d"
  "db_settings (or_unchanged d (bump_app_send d cid a day n)) = db_settings d"
  "db_settings (or_unchanged d (save_connector_policy d p)) = db_settings d"
  by (simp_all add: or_unchanged_def log_activity_def bump_app_send_def save_connector_policy_def)

lemma sends_frame [simp]:
  "db_sends (or_unchanged d (log_activity d c k t)) = db_sends d"
  "db_sends (or_unchanged d (save_connector_policy d p)) = db_sends d"
  "db_sends (put_setting d k v) = db_sends d"
  by (simp_all add: or_unchanged_def log_activity_def save_connector_policy_def
      put_setting_def set_setting_def)

lemma policies_frame [simp]:
  "db_policies (or_unchanged d (log_activity d c k t)) = db_policies d"
  "db_policies (or_unchanged d (bump_app_send d cid a day n)) = db_policies d"
  by (simp_all add: or_unchanged_def log_activity_def bump_app_send_def)

lemma health_frame [simp]:
  "db_readable (or_unchanged d (log_activity d c k t)) = db_readable d"
  "db_writable (or_unchanged d (log_activity d c k t)) = db_writable d"
  "db_readable (or_unchanged d (bump_app_send d cid a day n)) = db_readable d"
  "db_writable (or_unchanged d (bump_app_send d cid a day n)) = db_writable d"
  "db_readable (or_unchanged d (save_connector_policy d p)) = db_readable d"
  "db_writable (or_unchanged d (save_connector_policy d p)) = db_writable d"
  by (simp_all add: or_unchanged_def log_activity_def bump_app_send_def save_connector_policy_def)

lemma stored_policy_idem: "stored_policy (stored_policy p) = stored_policy p"
proof -
  have "clamp 1 MAX_SEND_CAP (clamp 1 MAX_SEND_CAP (send_cap p)) = clamp 1 MAX_SEND_CAP (send_cap p)"
    by (rule clamp_id) (simp_all add: clamp_bounds MAX_SEND_CAP_def)
  then show ?thesis by (simp add: stored_policy_def)
qed

lemma policy_roundtrip:
  assumes "db_up d" and "save_connector_policy d p = Inr d'"
  shows "get_connector_policy d' (pol_connector_id p) (pol_app p) = Inr (stored_policy p)"
  using assms by (auto simp: save_connector_policy_def get_connector_policy_def db_up_def)

end
