(* ===== verification/Autonomy.thy ===== *)
theory Autonomy imports Db_Store begin

text \<open>
  The autonomy ladder (\<open>src-tauri/src/autonomy.rs\<close>): how much freedom each class of
  self-change has.  \<open>autonomy_gate\<close> reads one setting per class and falls back to the
  class default.
\<close>

datatype rung = RungAuto | RungAsk | RungOff

definition AUTONOMY_DEFAULTS :: "(string \<times> string) list" where
  "AUTONOMY_DEFAULTS =
     [(''facts'', ''auto''), (''lessons'', ''auto''), (''consolidate'', ''ask''),
      (''soul'', ''ask''), (''profile'', ''auto''), (''email_send'', ''ask''),
      (''app_send'', ''ask''), (''skills'', ''ask''), (''screen'', ''ask''),
      (''context'', ''auto''), (''suggest'', ''auto''), (''modes'', ''ask''),
      (''schedule'', ''ask'')]"

definition NO_AUTO :: "string list" where
  "NO_AUTO = [''schedule'']"

definition setting_key :: "string \<Rightarrow> string" where
  "setting_key class_name = ''autonomy.'' @ class_name"

definition parse_rung :: "string \<Rightarrow> rung" where
  "parse_rung v = (if v = ''auto'' then RungAuto else if v = ''off'' then RungOff else RungAsk)"

definition default_for :: "string \<Rightarrow> rung" where
  "default_for class_name =
     (case List.find (\<lambda>(c, _). c = class_name) AUTONOMY_DEFAULTS of
        Some (_, r) \<Rightarrow> parse_rung r | None \<Rightarrow> RungAsk)"

definition autonomy_gate :: "db \<Rightarrow> string \<Rightarrow> rung" where
  "autonomy_gate d class_name =
     (let rung = (case get_setting d (setting_key class_name) of
                    Some v \<Rightarrow> if trim v \<noteq> [] then parse_rung (trim v) else default_for class_name
                  | None \<Rightarrow> default_for class_name)
      in if rung = RungAuto \<and> class_name \<in> set NO_AUTO then RungAsk else rung)"

section \<open>Lemmas\<close>

lemma setting_key_inj [simp]: "setting_key a = setting_key b \<longleftrightarrow> a = b"
  by (simp add: setting_key_def)

lemma parse_rung_simps [simp]:
  "parse_rung ''auto'' = RungAuto" "parse_rung ''off'' = RungOff" "parse_rung ''ask'' = RungAsk"
  by (simp_all add: parse_rung_def)

lemma default_for_unknown: "class_name \<notin> fst ` set AUTONOMY_DEFAULTS \<Longrightarrow> default_for class_name = RungAsk"
  by (force simp: default_for_def split: option.splits dest!: find_SomeD)

lemma default_never_off: "default_for class_name \<noteq> RungOff"
  by (auto simp: default_for_def AUTONOMY_DEFAULTS_def parse_rung_def split: option.splits)

lemma gate_frame:
  assumes "db_settings d' = db_settings d" and "db_readable d' = db_readable d"
  shows "autonomy_gate d' c = autonomy_gate d c"
  using assms by (simp add: autonomy_gate_def get_setting_def)

lemma gate_after_choice:
  assumes "db_up d" and "trim v \<noteq> []"
  shows "autonomy_gate (put_setting d (setting_key c) v) c =
     (if parse_rung (trim v) = RungAuto \<and> c \<in> set NO_AUTO then RungAsk else parse_rung (trim v))"
  using assms settings.lookup_store_same[OF assms(1), of "setting_key c" v]
  by (simp add: autonomy_gate_def Let_def)

lemma gate_other_class:
  assumes "db_up d" and "c' \<noteq> c"
  shows "autonomy_gate (put_setting d (setting_key c) v) c' = autonomy_gate d c'"
  using settings.lookup_store_other[OF assms(1), of "setting_key c'" "setting_key c" v] assms(2)
  by (simp add: autonomy_gate_def)

text \<open>
  What a stored value must be for the gate to answer \<open>Auto\<close>: nothing but the word itself, or
  an empty or missing setting of a class whose default is \<open>auto\<close>.
\<close>

definition chosen_auto :: "db \<Rightarrow> string \<Rightarrow> bool" where
  "chosen_auto d c =
     (case get_setting d (setting_key c) of
        None \<Rightarrow> default_for c = RungAuto
      | Some v \<Rightarrow> trim v = ''auto'' \<or> trim v = [] \<and> default_for c = RungAuto)"

lemma gate_auto_iff:
  "autonomy_gate d c = RungAuto \<longleftrightarrow> c \<notin> set NO_AUTO \<and> chosen_auto d c"
  by (auto simp: autonomy_gate_def chosen_auto_def parse_rung_def Let_def split: option.splits)

lemma gate_off_only_chosen:
  assumes "autonomy_gate d c = RungOff"
  shows "\<exists>v. get_setting d (setting_key c) = Some v \<and> trim v = ''off''"
  using assms default_never_off[of c]
  by (auto simp: autonomy_gate_def parse_rung_def Let_def split: option.splits if_splits)

section \<open>A history of choices\<close>

text \<open>
  The abstract view of the ladder: what the person last put for a class decides, and nothing
  they put for another class does.
\<close>

definition rung_for :: "string \<Rightarrow> string \<Rightarrow> rung" where
  "rung_for c v =
     (let r = (if trim v \<noteq> [] then parse_rung (trim v) else default_for c)
      in if r = RungAuto \<and> c \<in> set NO_AUTO then RungAsk else r)"

definition last_choice :: "(string \<times> string) list \<Rightarrow> string \<Rightarrow> string option" where
  "last_choice cs c = map_option snd (List.find (\<lambda>(c', _). c' = c) (rev cs))"

definition choose_all :: "db \<Rightarrow> (string \<times> string) list \<Rightarrow> db" where
  "choose_all d cs = foldl (\<lambda>d (c, v). put_setting d (setting_key c) v) d cs"

lemma choose_all_snoc:
  "choose_all d (cs @ [(c, v)]) = put_setting (choose_all d cs) (setting_key c) v"
  by (simp add: choose_all_def)

lemma last_choice_snoc:
  "last_choice (cs @ [(c', v)]) c = (if c' = c then Some v else last_choice cs c)"
  by (simp add: last_choice_def)

lemma choose_all_up: "db_up d \<Longrightarrow> db_up (choose_all d cs)"
  by (induction cs rule: rev_induct)
    (simp_all add: choose_all_def split_beta settings.up_store)

lemma gate_put:
  "db_up d \<Longrightarrow> autonomy_gate (put_setting d (setting_key c) v) c = rung_for c v"
  by (simp add: autonomy_gate_def rung_for_def settings.lookup_store_same)

section \<open>Properties\<close>

text \<open>Whatever sequence of values is written to the ladder's settings, the gate answers for
  a class with the rung of the last value written for that class (with the class default when
  that value is blank, and never Auto for a class barred from it), and with its earlier answer
  when nothing was written for it.\<close>

theorem ladder_last_choice:
  assumes "db_up d"
  shows "autonomy_gate (choose_all d cs) c =
     (case last_choice cs c of None \<Rightarrow> autonomy_gate d c | Some v \<Rightarrow> rung_for c v)"
proof (induction cs rule: rev_induct)
  case Nil
  then show ?case by (simp add: choose_all_def last_choice_def)
next
  case (snoc x cs)
  obtain c' v where x: "x = (c', v)" by fastforce
  have up: "db_up (choose_all d cs)" by (rule choose_all_up[OF assms])
  show ?case
  proof (cases "c' = c")
    case True
    then show ?thesis by (simp add: x choose_all_snoc last_choice_snoc gate_put[OF up])
  next
    case False
    then have "autonomy_gate (choose_all d (cs @ [x])) c = autonomy_gate (choose_all d cs) c"
      using gate_other_class[OF up, of c c' v] by (simp add: x choose_all_snoc)
    with snoc False show ?thesis by (simp add: x last_choice_snoc)
  qed
qed

theorem ladder_last_choice_witness:
  "autonomy_gate (choose_all empty_db [(''facts'', ''off''), (''schedule'', ''auto''), (''facts'', '' auto '')])
     ''facts'' = RungAuto"
proof -
  have "db_up empty_db" by (simp add: db_up_def empty_db_def)
  from ladder_last_choice[OF this, of
      "[(''facts'', ''off''), (''schedule'', ''auto''), (''facts'', '' auto '')]" "''facts''"]
  show ?thesis by (simp add: last_choice_def rung_for_def trim_def trim_end_def ws1_def ws2_def ws3_def
        parse_rung_def NO_AUTO_def)
qed

text \<open>The gate answers Auto exactly for a class that may be automatic and whose stored value
  is the word auto, or blank or missing under an auto default, and answers Off only when the
  person wrote off; a store that cannot be read answers with the class default.\<close>

theorem autonomy_gate_exact:
  "(autonomy_gate d c = RungAuto \<longleftrightarrow> c \<notin> set NO_AUTO \<and> chosen_auto d c)
   \<and> (autonomy_gate d c = RungOff \<longleftrightarrow>
        (\<exists>v. get_setting d (setting_key c) = Some v \<and> trim v = ''off''))
   \<and> autonomy_gate (d\<lparr>db_readable := False\<rparr>) c =
        (if default_for c = RungAuto \<and> c \<in> set NO_AUTO then RungAsk else default_for c)"
  using gate_off_only_chosen[of d c]
  by (intro conjI gate_auto_iff iffI)
    (auto simp: autonomy_gate_def get_setting_def parse_rung_def Let_def)

end
