(* ===== verification/Reply_Box.thy ===== *)
theory Reply_Box imports Rust_Prelude begin

text \<open>
  The contract of a one-shot question: somebody asks under an id and waits on a channel of
  their own, somebody else gives an answer to that id, and the channel carries the first answer
  given.  The permission manager and the questions of a run both promise it; the client's
  lemma about whole histories is proved once here, and each provider interprets the locale in
  its own theory.
\<close>

locale reply_box =
  fixes step :: "'s \<Rightarrow> 'o \<Rightarrow> 's"
    and asks :: "'o \<Rightarrow> string option"
    and gives :: "'o \<Rightarrow> (string \<times> 'a) option"
    and withdraws :: "'o \<Rightarrow> string option"
    and sound :: "'s \<Rightarrow> bool"
    and waits_on :: "'s \<Rightarrow> string \<Rightarrow> nat option"
    and heard :: "'s \<Rightarrow> nat \<Rightarrow> 'a option"
  assumes sound_step: "sound s \<Longrightarrow> sound (step s x)"
    and unheard: "sound s \<Longrightarrow> waits_on s i = Some c \<Longrightarrow> heard s c = None"
    and given: "sound s \<Longrightarrow> waits_on s i = Some c \<Longrightarrow> gives x = Some (i, a) \<Longrightarrow> heard (step s x) c = Some a"
    and heard_stays: "sound s \<Longrightarrow> heard s c = Some a \<Longrightarrow> heard (step s x) c = Some a"
    and keeps_waiting: "sound s \<Longrightarrow> waits_on s i = Some c \<Longrightarrow> asks x \<noteq> Some i \<Longrightarrow> withdraws x \<noteq> Some i
        \<Longrightarrow> (\<And>a. gives x \<noteq> Some (i, a)) \<Longrightarrow> waits_on (step s x) i = Some c"
begin

definition first_answer :: "string \<Rightarrow> 'o list \<Rightarrow> 'a option" where
  "first_answer i xs =
     find_map (\<lambda>x. case gives x of Some (j, a) \<Rightarrow> if j = i then Some a else None | None \<Rightarrow> None) xs"

lemma sound_run: "sound s \<Longrightarrow> sound (foldl step s xs)"
  by (induction xs arbitrary: s) (simp_all add: sound_step)

lemma heard_run: "sound s \<Longrightarrow> heard s c = Some a \<Longrightarrow> heard (foldl step s xs) c = Some a"
  by (induction xs arbitrary: s) (simp_all add: sound_step heard_stays)

text \<open>
  The id is not asked again and not withdrawn: the channel carries the first answer, and while
  there is none it goes on waiting.
\<close>

lemma answered_once:
  assumes "sound s" and "waits_on s i = Some c"
    and "\<forall>x \<in> set xs. asks x \<noteq> Some i \<and> withdraws x \<noteq> Some i"
  shows "heard (foldl step s xs) c = first_answer i xs
     \<and> (first_answer i xs = None \<longrightarrow> waits_on (foldl step s xs) i = Some c)"
  using assms
proof (induction xs arbitrary: s)
  case Nil
  then show ?case by (simp add: first_answer_def unheard)
next
  case (Cons x xs)
  have s': "sound (step s x)" by (rule sound_step[OF Cons.prems(1)])
  show ?case
  proof (cases "\<exists>a. gives x = Some (i, a)")
    case True
    then obtain a where a: "gives x = Some (i, a)" by blast
    have "heard (foldl step (step s x) xs) c = Some a"
      by (intro heard_run s' given[OF Cons.prems(1,2) a])
    with a show ?thesis by (simp add: first_answer_def)
  next
    case False
    have "waits_on (step s x) i = Some c"
      using Cons.prems False by (intro keeps_waiting) auto
    with Cons.IH[OF s'] Cons.prems(3) False show ?thesis
      by (auto simp: first_answer_def split: option.splits prod.splits if_splits)
  qed
qed

end

end
