(* ===== verification/Permissions.thy ===== *)
theory Permissions imports Paths Reply_Box begin

text \<open>
  The permissions model (\<open>src-tauri/src/permissions/mod.rs\<close>): access modes, the trust level
  of an attached folder and its gate, the requests the panel shows, and the manager that pairs
  a request with the user's answer and keeps the grants of a chat.
\<close>

section \<open>Modes, trust and the gate\<close>

datatype access_mode = ModeRead | ModeReadWrite

definition mode_as_str :: "access_mode \<Rightarrow> string" where
  "mode_as_str m = (case m of ModeRead \<Rightarrow> ''read'' | ModeReadWrite \<Rightarrow> ''read-write'')"

definition satisfies :: "access_mode \<Rightarrow> access_mode \<Rightarrow> bool" where
  "satisfies self required =
     (case (self, required) of
        (ModeReadWrite, _) \<Rightarrow> True
      | (ModeRead, ModeRead) \<Rightarrow> True
      | _ \<Rightarrow> False)"

datatype trust = TrustReadOnly | TrustConfirm | TrustAuto

definition trust_as_str :: "trust \<Rightarrow> string" where
  "trust_as_str t = (case t of TrustReadOnly \<Rightarrow> ''read-only'' | TrustConfirm \<Rightarrow> ''confirm''
                       | TrustAuto \<Rightarrow> ''auto'')"

definition trust_parse :: "string \<Rightarrow> trust" where
  "trust_parse s = (if s = ''read-only'' then TrustReadOnly
                    else if s = ''auto'' then TrustAuto else TrustConfirm)"

definition trust_label :: "trust \<Rightarrow> string" where
  "trust_label t = (case t of TrustReadOnly \<Rightarrow> ''read only'' | TrustConfirm \<Rightarrow> ''ask first''
                      | TrustAuto \<Rightarrow> ''full access'')"

datatype file_impact = ImpactRead | ImpactModify | ImpactDestroy

definition read_only_refusal :: string where
  "read_only_refusal =
     ''this folder is attached read-only '' @ [CHR 0xE2, CHR 0x80, CHR 0x94] @
     '' ask the user to change access to \"Ask first\" or \"Full\" in the Workbench panel'' @
     '' if they want changes made''"

text \<open>\<open>Inr False\<close>: go ahead; \<open>Inr True\<close>: stop and ask; \<open>Inl\<close>: refused outright.\<close>

definition gate :: "trust \<Rightarrow> file_impact \<Rightarrow> string + bool" where
  "gate t i =
     (case (t, i) of
        (_, ImpactRead) \<Rightarrow> Inr False
      | (TrustReadOnly, _) \<Rightarrow> Inl read_only_refusal
      | (TrustAuto, ImpactModify) \<Rightarrow> Inr False
      | _ \<Rightarrow> Inr True)"

datatype decision = DecisionDeny | DecisionOnce | DecisionChat | DecisionForever

section \<open>Requests\<close>

text \<open>An \<open>f32\<close> that is only carried is kept as its 32 bits.\<close>

record rule_ref =
  rr_label :: string
  rr_text :: string
  rr_matched :: "u32 option"
  rr_doubt :: "string option"

definition rule_ref_cited :: "string \<Rightarrow> string \<Rightarrow> rule_ref" where
  "rule_ref_cited label text = \<lparr>rr_label = label, rr_text = text, rr_matched = None, rr_doubt = None\<rparr>"

record page_ref =
  page_host :: string
  page_wall :: string
  page_screenshot :: "string option"
  page_note :: string

record app_tool =
  at_connector_id :: string
  at_app :: string
  at_app_name :: string
  at_name :: string
  at_kind :: string
  at_auto_kind :: string
  at_overridden :: bool

record permission_request =
  req_id :: string
  req_summary :: string
  req_path :: string
  req_mode :: access_mode
  req_diff :: "string option"
  req_in_folder :: bool
  req_capability :: "string option"
  req_argv :: "string list option"
  req_project :: "string option"
  req_timeout_secs :: "u64 option"
  req_remember :: "string option"
  req_call_kind :: "string option"
  req_cap :: "int option"
  req_tools :: "app_tool list option"
  req_engine :: "string option"
  req_tool :: "string option"
  req_rule :: "rule_ref option"
  req_page :: "page_ref option"
  req_reason :: "string option"
  req_reason_hover :: "string option"

definition request_scope :: "string \<Rightarrow> string \<Rightarrow> string \<Rightarrow> access_mode \<Rightarrow> permission_request" where
  "request_scope i summary path m =
     \<lparr>req_id = i, req_summary = summary, req_path = path, req_mode = m, req_diff = None,
      req_in_folder = False, req_capability = None, req_argv = None, req_project = None,
      req_timeout_secs = None, req_remember = None, req_call_kind = None, req_cap = None,
      req_tools = None, req_engine = None, req_tool = None, req_rule = None, req_page = None,
      req_reason = None, req_reason_hover = None\<rparr>"

definition request_operation ::
  "string \<Rightarrow> string \<Rightarrow> string \<Rightarrow> access_mode \<Rightarrow> string option \<Rightarrow> permission_request" where
  "request_operation i summary path m diff =
     \<lparr>req_id = i, req_summary = summary, req_path = path, req_mode = m, req_diff = diff,
      req_in_folder = True, req_capability = None, req_argv = None, req_project = None,
      req_timeout_secs = None, req_remember = None, req_call_kind = None, req_cap = None,
      req_tools = None, req_engine = None, req_tool = None, req_rule = None, req_page = None,
      req_reason = None, req_reason_hover = None\<rparr>"

definition request_app_call ::
  "string \<Rightarrow> string \<Rightarrow> string \<Rightarrow> string \<Rightarrow> string \<Rightarrow> int option \<Rightarrow> permission_request" where
  "request_app_call i summary app call_kind arguments cap =
     \<lparr>req_id = i, req_summary = summary, req_path = app, req_mode = ModeRead,
      req_diff = Some arguments, req_in_folder = False, req_capability = Some ''app'',
      req_argv = None, req_project = None, req_timeout_secs = None, req_remember = Some app,
      req_call_kind = Some call_kind, req_cap = cap, req_tools = None, req_engine = None,
      req_tool = None, req_rule = None, req_page = None, req_reason = None,
      req_reason_hover = None\<rparr>"

definition request_capability :: "string \<Rightarrow> string \<Rightarrow> string \<Rightarrow> string \<Rightarrow> permission_request" where
  "request_capability i kind summary target =
     \<lparr>req_id = i, req_summary = summary, req_path = target, req_mode = ModeRead, req_diff = None,
      req_in_folder = False, req_capability = Some kind, req_argv = None, req_project = None,
      req_timeout_secs = None, req_remember = None, req_call_kind = None, req_cap = None,
      req_tools = None, req_engine = None, req_tool = None, req_rule = None, req_page = None,
      req_reason = None, req_reason_hover = None\<rparr>"

definition request_execution ::
  "string \<Rightarrow> string \<Rightarrow> string \<Rightarrow> string \<Rightarrow> string list \<Rightarrow> string \<Rightarrow> u64 \<Rightarrow> string \<Rightarrow> permission_request"
where
  "request_execution i kind summary cwd argv project timeout_secs remember =
     \<lparr>req_id = i, req_summary = summary, req_path = cwd, req_mode = ModeReadWrite, req_diff = None,
      req_in_folder = False, req_capability = Some kind, req_argv = Some argv,
      req_project = Some project, req_timeout_secs = Some timeout_secs,
      req_remember = Some remember, req_call_kind = None, req_cap = None, req_tools = None,
      req_engine = None, req_tool = None, req_rule = None, req_page = None, req_reason = None,
      req_reason_hover = None\<rparr>"

definition request_engine_ask ::
  "string \<Rightarrow> string \<Rightarrow> string \<Rightarrow> string \<Rightarrow> string \<Rightarrow> string list option \<Rightarrow> string option
     \<Rightarrow> permission_request" where
  "request_engine_ask i engine tool summary cwd argv diff =
     \<lparr>req_id = i, req_summary = summary, req_path = cwd, req_mode = ModeReadWrite, req_diff = diff,
      req_in_folder = False, req_capability = Some ''engine'', req_argv = argv, req_project = None,
      req_timeout_secs = None, req_remember = None, req_call_kind = None, req_cap = None,
      req_tools = None, req_engine = Some engine, req_tool = Some tool, req_rule = None,
      req_page = None, req_reason = None, req_reason_hover = None\<rparr>"

definition request_handover ::
  "string \<Rightarrow> string \<Rightarrow> string \<Rightarrow> rule_ref option \<Rightarrow> permission_request" where
  "request_handover i engine task rule =
     \<lparr>req_id = i, req_summary = ''Hand this to '' @ engine @ ''?'', req_path = engine,
      req_mode = ModeRead, req_diff = Some task, req_in_folder = False,
      req_capability = Some ''handover'', req_argv = None, req_project = None,
      req_timeout_secs = None, req_remember = None, req_call_kind = None, req_cap = None,
      req_tools = None, req_engine = Some engine, req_tool = None, req_rule = rule,
      req_page = None, req_reason = None, req_reason_hover = None\<rparr>"

definition request_page_stop :: "string \<Rightarrow> string \<Rightarrow> page_ref \<Rightarrow> permission_request" where
  "request_page_stop i summary page =
     \<lparr>req_id = i, req_summary = summary, req_path = page_host page, req_mode = ModeRead,
      req_diff = None, req_in_folder = False, req_capability = Some ''page'', req_argv = None,
      req_project = None, req_timeout_secs = None, req_remember = None, req_call_kind = None,
      req_cap = None, req_tools = None, req_engine = None, req_tool = None, req_rule = None,
      req_page = Some page, req_reason = None, req_reason_hover = None\<rparr>"

definition request_risk_ask ::
  "string \<Rightarrow> string \<Rightarrow> string \<Rightarrow> string \<Rightarrow> string \<Rightarrow> permission_request" where
  "request_risk_ask i summary tool arguments reason =
     \<lparr>req_id = i, req_summary = summary, req_path = tool, req_mode = ModeRead,
      req_diff = Some arguments, req_in_folder = False, req_capability = Some ''risk'',
      req_argv = None, req_project = None, req_timeout_secs = None, req_remember = None,
      req_call_kind = None, req_cap = None, req_tools = None, req_engine = None,
      req_tool = Some tool, req_rule = None, req_page = None, req_reason = Some reason,
      req_reason_hover = None\<rparr>"

definition with_reason :: "string option \<Rightarrow> permission_request \<Rightarrow> permission_request" where
  "with_reason reason r = r\<lparr>req_reason := reason\<rparr>"

definition with_reason_hover :: "string option \<Rightarrow> permission_request \<Rightarrow> permission_request" where
  "with_reason_hover hover r = r\<lparr>req_reason_hover := hover\<rparr>"

section \<open>The manager: requests and their answers\<close>

text \<open>
  A \<open>oneshot\<close> channel is a cell: it waits, carries the decision that was sent, or is closed
  because its sender was dropped before sending.  \<open>pending\<close> holds the senders; registering a
  second request under the same id drops the first sender.
\<close>

datatype channel = ChanWaiting | ChanSent decision | ChanClosed

record perm_manager =
  pending :: "string \<rightharpoonup> nat"
  channels :: "nat \<Rightarrow> channel"
  next_chan :: nat
  chat_grants :: "string \<rightharpoonup> (path \<times> access_mode) list"

definition new_manager :: perm_manager where
  "new_manager = \<lparr>pending = Map.empty, channels = (\<lambda>_. ChanClosed), next_chan = 0,
                   chat_grants = Map.empty\<rparr>"

definition drop_sender :: "nat option \<Rightarrow> (nat \<Rightarrow> channel) \<Rightarrow> (nat \<Rightarrow> channel)" where
  "drop_sender old chans = (case old of None \<Rightarrow> chans | Some c \<Rightarrow> chans(c := ChanClosed))"

definition open_request :: "perm_manager \<Rightarrow> string \<Rightarrow> perm_manager \<times> nat" where
  "open_request m i =
     (let c = next_chan m
      in (m\<lparr>pending := (pending m)(i \<mapsto> c),
            channels := (drop_sender (pending m i) (channels m))(c := ChanWaiting),
            next_chan := Suc c\<rparr>, c))"

definition resolve_request :: "perm_manager \<Rightarrow> string \<Rightarrow> decision \<Rightarrow> perm_manager" where
  "resolve_request m i d =
     (case pending m i of
        None \<Rightarrow> m
      | Some c \<Rightarrow> m\<lparr>pending := (pending m)(i := None), channels := (channels m)(c := ChanSent d)\<rparr>)"

text \<open>The sender goes away without an answer (its map entry is dropped).\<close>

definition drop_request :: "perm_manager \<Rightarrow> string \<Rightarrow> perm_manager" where
  "drop_request m i =
     m\<lparr>pending := (pending m)(i := None), channels := drop_sender (pending m i) (channels m)\<rparr>"

text \<open>What \<open>rx.await\<close> gives: nothing yet, the decision, or an error (a dropped sender).\<close>

datatype received = StillWaiting | Answered decision | SenderGone

definition receive :: "perm_manager \<Rightarrow> nat \<Rightarrow> received" where
  "receive m c = (case channels m c of ChanWaiting \<Rightarrow> StillWaiting | ChanSent d \<Rightarrow> Answered d
                    | ChanClosed \<Rightarrow> SenderGone)"

definition add_chat_grant :: "perm_manager \<Rightarrow> string \<Rightarrow> path \<Rightarrow> access_mode \<Rightarrow> perm_manager" where
  "add_chat_grant m conv root mode =
     m\<lparr>chat_grants := (chat_grants m)(conv \<mapsto>
         (case chat_grants m conv of None \<Rightarrow> [] | Some gs \<Rightarrow> gs) @ [(root, mode)])\<rparr>"

definition chat_allows :: "os \<Rightarrow> perm_manager \<Rightarrow> string \<Rightarrow> path \<Rightarrow> access_mode \<Rightarrow> bool" where
  "chat_allows sys m conv p required =
     (case chat_grants m conv of
        None \<Rightarrow> False
      | Some gs \<Rightarrow> list_ex (\<lambda>(root, mode). satisfies mode required \<and> path_within_root sys p root) gs)"

definition clear_chat :: "perm_manager \<Rightarrow> string \<Rightarrow> perm_manager" where
  "clear_chat m conv = m\<lparr>chat_grants := (chat_grants m)(conv := None)\<rparr>"

text \<open>
  Every pending request has its own waiting channel, and every waiting channel is pending
  under some id: a run that awaits an answer can always still be given one.
\<close>

definition manager_inv :: "perm_manager \<Rightarrow> bool" where
  "manager_inv m \<longleftrightarrow>
     (\<forall>i c. pending m i = Some c \<longrightarrow> c < next_chan m \<and> channels m c = ChanWaiting)
   \<and> (\<forall>i j c. pending m i = Some c \<longrightarrow> pending m j = Some c \<longrightarrow> i = j)
   \<and> (\<forall>c. channels m c = ChanWaiting \<longrightarrow> (\<exists>i. pending m i = Some c))"

lemma manager_inv_new [keeps_inv]: "manager_inv new_manager"
  by (simp add: manager_inv_def new_manager_def)

lemma manager_invI:
  assumes "\<And>i c. pending m i = Some c \<Longrightarrow> c < next_chan m"
    and "\<And>i c. pending m i = Some c \<Longrightarrow> channels m c = ChanWaiting"
    and "\<And>i j c. pending m i = Some c \<Longrightarrow> pending m j = Some c \<Longrightarrow> i = j"
    and "\<And>c. channels m c = ChanWaiting \<Longrightarrow> \<exists>i. pending m i = Some c"
  shows "manager_inv m"
  unfolding manager_inv_def using assms by blast

lemma manager_invD:
  assumes "manager_inv m"
  shows pending_fresh: "pending m i = Some c \<Longrightarrow> c < next_chan m"
    and pending_waits: "pending m i = Some c \<Longrightarrow> channels m c = ChanWaiting"
    and pending_inj: "pending m i = Some c \<Longrightarrow> pending m j = Some c \<Longrightarrow> i = j"
    and waiting_pending: "channels m c = ChanWaiting \<Longrightarrow> \<exists>i. pending m i = Some c"
  using assms unfolding manager_inv_def by blast+

lemma open_request_pending:
  "pending (fst (open_request m i)) j = (if j = i then Some (next_chan m) else pending m j)"
  by (simp add: open_request_def Let_def)

lemma open_request_channels:
  "channels (fst (open_request m i)) c =
     (if c = next_chan m then ChanWaiting
      else if pending m i = Some c then ChanClosed else channels m c)"
  by (simp add: open_request_def Let_def drop_sender_def split: option.splits)

lemma open_request_next: "next_chan (fst (open_request m i)) = Suc (next_chan m)"
  by (simp add: open_request_def Let_def)

lemmas open_request_simps = open_request_pending open_request_channels open_request_next

lemma manager_inv_open [keeps_inv]:
  assumes inv: "manager_inv m"
  shows "manager_inv (fst (open_request m i))"
proof (rule manager_invI)
  fix j c assume "pending (fst (open_request m i)) j = Some c"
  then have j: "j = i \<and> c = next_chan m \<or> j \<noteq> i \<and> pending m j = Some c"
    by (simp add: open_request_simps split: if_splits)
  then show "c < next_chan (fst (open_request m i))"
    using pending_fresh[OF inv, of j c] by (auto simp: open_request_simps)
  show "channels (fst (open_request m i)) c = ChanWaiting"
    using j pending_waits[OF inv, of j c] pending_inj[OF inv, of j c i]
    by (auto simp: open_request_simps)
next
  fix j k c
  assume "pending (fst (open_request m i)) j = Some c" "pending (fst (open_request m i)) k = Some c"
  then show "j = k"
    using pending_inj[OF inv, of j c k] pending_fresh[OF inv, of j c] pending_fresh[OF inv, of k c]
    by (auto simp: open_request_simps split: if_splits)
next
  fix c assume "channels (fst (open_request m i)) c = ChanWaiting"
  then have "c = next_chan m \<or> pending m i \<noteq> Some c \<and> channels m c = ChanWaiting"
    by (simp add: open_request_simps split: if_splits)
  then show "\<exists>j. pending (fst (open_request m i)) j = Some c"
    using waiting_pending[OF inv, of c] by (auto simp: open_request_simps)
qed

lemma manager_inv_resolve [keeps_inv]:
  assumes inv: "manager_inv m"
  shows "manager_inv (resolve_request m i d)"
proof (cases "pending m i")
  case None
  then show ?thesis using inv by (simp add: resolve_request_def)
next
  case (Some c0)
  let ?m = "m\<lparr>pending := (pending m)(i := None), channels := (channels m)(c0 := ChanSent d)\<rparr>"
  have "manager_inv ?m"
  proof (rule manager_invI)
    fix j c assume j: "pending ?m j = Some c"
    then have old: "j \<noteq> i" "pending m j = Some c" by (simp_all split: if_splits)
    then have "c \<noteq> c0" using pending_inj[OF inv Some, of j] by auto
    then show "channels ?m c = ChanWaiting" using pending_waits[OF inv old(2)] by simp
    show "c < next_chan ?m" using pending_fresh[OF inv old(2)] by simp
  next
    fix j k c assume "pending ?m j = Some c" "pending ?m k = Some c"
    then show "j = k" using pending_inj[OF inv, of j c k] by (simp split: if_splits)
  next
    fix c assume c: "channels ?m c = ChanWaiting"
    then have "c \<noteq> c0" "channels m c = ChanWaiting" by (simp_all split: if_splits)
    then obtain j where j: "pending m j = Some c" using waiting_pending[OF inv] by blast
    with \<open>c \<noteq> c0\<close> Some have "j \<noteq> i" by auto
    with j show "\<exists>j. pending ?m j = Some c" by auto
  qed
  with Some show ?thesis by (simp add: resolve_request_def)
qed

lemma manager_inv_grants [keeps_inv]:
  "manager_inv m \<Longrightarrow> manager_inv (add_chat_grant m conv root mode)"
  "manager_inv m \<Longrightarrow> manager_inv (clear_chat m conv)"
  by (simp_all add: manager_inv_def add_chat_grant_def clear_chat_def)

lemma resolve_answers:
  assumes "pending m i = Some c"
  shows "receive (resolve_request m i d) c = Answered d"
  using assms by (simp add: resolve_request_def receive_def)

lemma resolve_other:
  assumes inv: "manager_inv m" and j: "pending m j = Some c" and "i \<noteq> j"
  shows "receive (resolve_request m i d) c = receive m c"
    and "pending (resolve_request m i d) j = Some c"
proof -
  have "pending m i \<noteq> Some c"
    using pending_inj[OF inv j, of i] \<open>i \<noteq> j\<close> by auto
  then show "receive (resolve_request m i d) c = receive m c"
    by (cases "pending m i") (simp_all add: resolve_request_def receive_def)
  show "pending (resolve_request m i d) j = Some c"
    using j \<open>i \<noteq> j\<close> by (simp add: resolve_request_def split: option.split)
qed

lemma resolve_twice: "resolve_request (resolve_request m i d) i d' = resolve_request m i d"
  by (auto simp: resolve_request_def split: option.splits)

lemma drop_leaves_nothing:
  "pending m i = Some c \<Longrightarrow> receive (drop_request m i) c = SenderGone"
  by (simp add: drop_request_def drop_sender_def receive_def)

lemma open_then_resolve:
  "receive (resolve_request (fst (open_request m i)) i d) (snd (open_request m i)) = Answered d"
  by (rule resolve_answers) (simp add: open_request_def Let_def)

section \<open>The gate and the grants\<close>

lemma trust_parse_as_str [simp]: "trust_parse (trust_as_str t) = t"
  by (cases t) (simp_all add: trust_parse_def trust_as_str_def)

lemma satisfies_iff: "satisfies m r \<longleftrightarrow> m = ModeReadWrite \<or> r = ModeRead"
  by (cases m; cases r) (simp_all add: satisfies_def)

lemma gate_simps [simp]:
  "gate t ImpactRead = Inr False"
  "gate TrustReadOnly ImpactModify = Inl read_only_refusal"
  "gate TrustReadOnly ImpactDestroy = Inl read_only_refusal"
  "gate TrustConfirm ImpactModify = Inr True"
  "gate TrustConfirm ImpactDestroy = Inr True"
  "gate TrustAuto ImpactModify = Inr False"
  "gate TrustAuto ImpactDestroy = Inr True"
  by (simp_all add: gate_def split: trust.splits)

lemma gate_silent_iff:
  "gate t i = Inr False \<longleftrightarrow> i = ImpactRead \<or> t = TrustAuto \<and> i = ImpactModify"
  by (cases t; cases i) simp_all

lemma gate_refused_iff: "(\<exists>e. gate t i = Inl e) \<longleftrightarrow> t = TrustReadOnly \<and> i \<noteq> ImpactRead"
  by (cases t; cases i) simp_all

lemma grant_then_allowed:
  assumes "path_within_root sys p root" and "satisfies mode required"
  shows "chat_allows sys (add_chat_grant m conv root mode) conv p required"
  using assms by (auto simp: chat_allows_def add_chat_grant_def split: option.split)

lemma grant_monotone:
  "chat_allows sys m c p r \<Longrightarrow> chat_allows sys (add_chat_grant m conv root mode) c p r"
  by (auto simp: chat_allows_def add_chat_grant_def split: option.splits)

lemma grant_other_chat:
  "c \<noteq> conv \<Longrightarrow> chat_allows sys (add_chat_grant m conv root mode) c p r = chat_allows sys m c p r"
  by (simp add: chat_allows_def add_chat_grant_def)

lemma cleared_chat_allows_nothing: "\<not> chat_allows sys (clear_chat m conv) conv p r"
  by (simp add: chat_allows_def clear_chat_def)

lemma read_grant_never_writes:
  assumes "chat_grants m conv = Some gs" and "\<forall>(root, mode) \<in> set gs. mode = ModeRead"
  shows "\<not> chat_allows sys m conv p ModeReadWrite"
  using assms by (auto simp: chat_allows_def list_ex_iff satisfies_iff)

section \<open>Histories of the manager\<close>

datatype perm_op =
    OpOpen string
  | OpResolve string decision
  | OpGrant string path access_mode
  | OpClear string

fun perm_step :: "perm_manager \<Rightarrow> perm_op \<Rightarrow> perm_manager" where
  "perm_step m (OpOpen i) = fst (open_request m i)"
| "perm_step m (OpResolve i d) = resolve_request m i d"
| "perm_step m (OpGrant conv root mode) = add_chat_grant m conv root mode"
| "perm_step m (OpClear conv) = clear_chat m conv"

definition perm_run :: "perm_manager \<Rightarrow> perm_op list \<Rightarrow> perm_manager" where
  "perm_run m ops = foldl perm_step m ops"

lemma perm_run_simps [simp]:
  "perm_run m [] = m"
  "perm_run m (x # ops) = perm_run (perm_step m x) ops"
  by (simp_all add: perm_run_def)

lemma perm_run_snoc: "perm_run m (ops @ [x]) = perm_step (perm_run m ops) x"
  by (simp add: perm_run_def)

lemma manager_inv_step [keeps_inv]: "manager_inv m \<Longrightarrow> manager_inv (perm_step m x)"
  by (cases x) (simp_all add: keeps_inv)

lemma manager_inv_run [keeps_inv]: "manager_inv m \<Longrightarrow> manager_inv (perm_run m ops)"
  by (induction ops arbitrary: m) (simp_all add: manager_inv_step)

text \<open>
  The manager is a reply box: it keeps the pairing of requests and channels, and no channel
  beyond the next one is in use.
\<close>

definition manager_sound :: "perm_manager \<Rightarrow> bool" where
  "manager_sound m \<longleftrightarrow> manager_inv m \<and> (\<forall>c \<ge> next_chan m. channels m c = ChanClosed)"

definition decision_heard :: "perm_manager \<Rightarrow> nat \<Rightarrow> decision option" where
  "decision_heard m c = (case channels m c of ChanSent d \<Rightarrow> Some d | _ \<Rightarrow> None)"

definition op_asks :: "perm_op \<Rightarrow> string option" where
  "op_asks x = (case x of OpOpen i \<Rightarrow> Some i | _ \<Rightarrow> None)"

definition op_gives :: "perm_op \<Rightarrow> (string \<times> decision) option" where
  "op_gives x = (case x of OpResolve i d \<Rightarrow> Some (i, d) | _ \<Rightarrow> None)"

lemma manager_sound_new: "manager_sound new_manager"
  by (simp add: manager_sound_def manager_inv_new) (simp add: new_manager_def)

lemma manager_sound_step: "manager_sound m \<Longrightarrow> manager_sound (perm_step m x)"
proof -
  assume m: "manager_sound m"
  then have inv: "manager_inv m" and high: "\<forall>c \<ge> next_chan m. channels m c = ChanClosed"
    by (simp_all add: manager_sound_def)
  have "\<forall>c \<ge> next_chan (perm_step m x). channels (perm_step m x) c = ChanClosed"
    using high pending_fresh[OF inv, unfolded not_le[symmetric]]
    by (cases x) (auto simp: open_request_simps resolve_request_def add_chat_grant_def clear_chat_def
        split: option.split)
  with manager_inv_step[OF inv] show ?thesis by (simp add: manager_sound_def)
qed

lemma manager_heard_stays:
  assumes "manager_sound m" and "decision_heard m c = Some d"
  shows "decision_heard (perm_step m x) c = Some d"
proof -
  have inv: "manager_inv m" and sent: "channels m c = ChanSent d" and "c < next_chan m"
    using assms by (auto simp: manager_sound_def decision_heard_def not_le[symmetric] split: channel.splits)
  moreover have "pending m j \<noteq> Some c" for j
    using pending_waits[OF inv, of j c] sent by auto
  ultimately show ?thesis
    by (cases x) (auto simp: decision_heard_def open_request_simps resolve_request_def
        add_chat_grant_def clear_chat_def split: option.split)
qed

lemma manager_keeps_waiting:
  assumes "manager_sound m" and "pending m i = Some c"
    and "op_asks x \<noteq> Some i" and "\<And>d. op_gives x \<noteq> Some (i, d)"
  shows "pending (perm_step m x) i = Some c"
proof -
  have "manager_inv m" using assms(1) by (simp add: manager_sound_def)
  then have "j \<noteq> i \<Longrightarrow> pending (resolve_request m j d) i = Some c" for j d
    using resolve_other(2) assms(2) by blast
  then show ?thesis using assms(2-4)
    by (cases x) (auto simp: op_asks_def op_gives_def open_request_simps add_chat_grant_def
        clear_chat_def)
qed

interpretation manager_box:
  reply_box perm_step op_asks op_gives "\<lambda>_. None" manager_sound pending decision_heard
proof (unfold_locales, goal_cases)
  case (1 s x)
  then show ?case by (rule manager_sound_step)
next
  case (2 s i c)
  then have "channels s c = ChanWaiting" by (auto simp: manager_sound_def dest: pending_waits)
  then show ?case by (simp add: decision_heard_def)
next
  case (3 s i c x a)
  then show ?case by (auto simp: op_gives_def decision_heard_def resolve_request_def split: perm_op.splits)
next
  case (4 s c a x)
  then show ?case by (rule manager_heard_stays)
next
  case (5 s i c x)
  then show ?case by (intro manager_keeps_waiting) auto
qed

text \<open>The first answer a history gives to a request.\<close>

definition answer_to :: "string \<Rightarrow> perm_op \<Rightarrow> decision option" where
  "answer_to i x = (case x of OpResolve j d \<Rightarrow> if j = i then Some d else None | _ \<Rightarrow> None)"

lemma manager_first_answer: "manager_box.first_answer i xs = find_map (answer_to i) xs"
proof -
  have "(\<lambda>x. case op_gives x of Some (j, a) \<Rightarrow> if j = i then Some a else None | None \<Rightarrow> None) = answer_to i"
    by (rule ext) (simp add: op_gives_def answer_to_def split: perm_op.split)
  then show ?thesis by (simp add: manager_box.first_answer_def)
qed

lemma manager_sound_open: "manager_sound m \<Longrightarrow> manager_sound (fst (open_request m i))"
  using manager_sound_step[of m "OpOpen i"] by simp

lemma receive_heard:
  "manager_inv m \<Longrightarrow> pending m i = Some c \<Longrightarrow> receive m c = StillWaiting"
  "decision_heard m c = Some d \<Longrightarrow> receive m c = Answered d"
  by (auto simp: receive_def decision_heard_def dest: pending_waits split: channel.splits)

text \<open>The grants a history leaves a chat with: those given after it was last cleared.\<close>

fun grants_after :: "string \<Rightarrow> perm_op list \<Rightarrow> (path \<times> access_mode) list \<Rightarrow> (path \<times> access_mode) list"
where
  "grants_after conv [] gs = gs"
| "grants_after conv (OpGrant c root mode # ops) gs =
     grants_after conv ops (if c = conv then gs @ [(root, mode)] else gs)"
| "grants_after conv (OpClear c # ops) gs = grants_after conv ops (if c = conv then [] else gs)"
| "grants_after conv (_ # ops) gs = grants_after conv ops gs"

definition grants_of :: "perm_manager \<Rightarrow> string \<Rightarrow> (path \<times> access_mode) list" where
  "grants_of m conv = (case chat_grants m conv of None \<Rightarrow> [] | Some gs \<Rightarrow> gs)"

lemma chat_allows_grants_of:
  "chat_allows sys m conv p r =
     list_ex (\<lambda>(root, mode). satisfies mode r \<and> path_within_root sys p root) (grants_of m conv)"
  by (simp add: chat_allows_def grants_of_def split: option.split)

lemma grants_of_step:
  "grants_of (perm_step m x) conv = grants_after conv [x] (grants_of m conv)"
  by (cases x) (auto simp: grants_of_def open_request_def Let_def resolve_request_def
      add_chat_grant_def clear_chat_def split: option.split)

lemma grants_after_Cons: "grants_after conv (x # ops) gs = grants_after conv ops (grants_after conv [x] gs)"
  by (cases x) simp_all

lemma grants_of_run: "grants_of (perm_run m ops) conv = grants_after conv ops (grants_of m conv)"
proof (induction ops arbitrary: m)
  case (Cons x ops)
  then show ?case by (simp add: grants_of_step grants_after_Cons[of conv x ops])
qed simp

section \<open>Properties\<close>

text \<open>C6: In every history of the manager a request that was opened, and whose id is not opened
  again, receives the first answer given to its id and no other: answers to other requests,
  grants, clearings and later answers to the same id change nothing, and until it is answered it
  is still waiting.\<close>

theorem request_gets_first_answer:
  assumes "OpOpen i \<notin> set later"
  shows "let m = perm_run new_manager earlier
         in receive (perm_run (fst (open_request m i)) later) (snd (open_request m i)) =
              (case find_map (answer_to i) later of None \<Rightarrow> StillWaiting | Some d \<Rightarrow> Answered d)"
proof -
  define m where "m = perm_run new_manager earlier"
  let ?m = "fst (open_request m i)" and ?c = "snd (open_request m i)"
  have "manager_sound m"
    unfolding m_def perm_run_def by (rule manager_box.sound_run[OF manager_sound_new])
  then have sound: "manager_sound ?m" by (rule manager_sound_open)
  have pend: "pending ?m i = Some ?c" by (simp add: open_request_def Let_def)
  have no: "\<forall>x \<in> set later. op_asks x \<noteq> Some i \<and> None \<noteq> Some i"
    using assms by (auto simp: op_asks_def split: perm_op.splits)
  note once = manager_box.answered_once[OF sound pend no, folded perm_run_def, unfolded manager_first_answer]
  have inv: "manager_inv (perm_run ?m later)"
    using manager_box.sound_run[OF sound, of later] by (simp add: perm_run_def manager_sound_def)
  have "receive (perm_run ?m later) ?c =
      (case find_map (answer_to i) later of None \<Rightarrow> StillWaiting | Some d \<Rightarrow> Answered d)"
    using once receive_heard[of "perm_run ?m later"] inv by (cases "find_map (answer_to i) later") auto
  then show ?thesis by (simp add: m_def)
qed

theorem request_gets_first_answer_witness:
  "let m = perm_run new_manager [OpOpen ''perm_b'']
   in receive (perm_run (fst (open_request m ''perm_a''))
        [OpResolve ''perm_b'' DecisionForever, OpResolve ''perm_a'' DecisionDeny, OpResolve ''perm_a'' DecisionOnce])
        (snd (open_request m ''perm_a'')) = Answered DecisionDeny"
  using request_gets_first_answer[of "''perm_a''"
      "[OpResolve ''perm_b'' DecisionForever, OpResolve ''perm_a'' DecisionDeny, OpResolve ''perm_a'' DecisionOnce]"
      "[OpOpen ''perm_b'']"]
  by (simp add: answer_to_def Let_def)

text \<open>In every history the manager pairs requests and channels exactly: every pending id has a
  waiting channel of its own, and every waiting channel belongs to a pending id, so no run waits
  for an answer that can no longer be given.\<close>

theorem manager_never_strands_a_request: "manager_inv (perm_run new_manager ops)"
  by (intro keeps_inv)

text \<open>After any history a chat may touch a path in a mode exactly when one of the grants given
  to that chat since it was last cleared is strong enough for the mode and its root contains the
  path; a grant of read access alone never allows a write, and a cleared chat allows nothing.\<close>

theorem chat_grants_exact:
  "(chat_allows sys (perm_run new_manager ops) conv p r \<longleftrightarrow>
      (\<exists>g \<in> set (grants_after conv ops []).
          (snd g = ModeReadWrite \<or> r = ModeRead) \<and> path_within_root sys p (fst g)))
   \<and> \<not> chat_allows sys (perm_run new_manager (ops @ [OpClear conv])) conv p r"
proof
  have "grants_of new_manager conv = []" by (simp add: grants_of_def new_manager_def)
  then show "chat_allows sys (perm_run new_manager ops) conv p r \<longleftrightarrow>
      (\<exists>g \<in> set (grants_after conv ops []).
          (snd g = ModeReadWrite \<or> r = ModeRead) \<and> path_within_root sys p (fst g))"
    by (simp add: chat_allows_grants_of grants_of_run list_ex_iff satisfies_iff split_beta)
  show "\<not> chat_allows sys (perm_run new_manager (ops @ [OpClear conv])) conv p r"
    by (simp add: perm_run_snoc cleared_chat_allows_nothing)
qed

end
