(* ===== verification/File_Access.thy ===== *)
theory File_Access imports Db_Store Permissions begin

text \<open>
  Clearance of a file tool (\<open>src-tauri/src/agent/filesystem.rs\<close>): what each tool does to the
  disk, how a model-supplied path is resolved, and \<open>authorize\<close>, which decides from the
  attached folder's trust, the saved grants, the chat's grants and, last, the user's answer
  whether the operation may run.

  The question to the user is an explicit exchange: the request that is sent is kept in the
  state, and the answer (\<open>None\<close> when the channel is dropped) is an argument.  The answer of
  the relax-prompts experiment (\<open>toolgate::skip_prompt\<close>) is an argument as well.
\<close>

section \<open>What each tool does to the disk\<close>

definition fs_handles :: "string \<Rightarrow> bool" where
  "fs_handles name \<longleftrightarrow> name \<in> set
     [''read_file'', ''list_directory'', ''search_files'', ''find_symbol'', ''write_file'',
      ''edit_file'', ''create_dir'', ''move_file'', ''delete_file'', ''changes'']"

definition impact :: "string \<Rightarrow> file_impact" where
  "impact name =
     (if name \<in> set [''read_file'', ''list_directory'', ''search_files'', ''find_symbol'', ''changes'']
      then ImpactRead
      else if name \<in> set [''write_file'', ''edit_file'', ''create_dir''] then ImpactModify
      else ImpactDestroy)"

definition is_read_only :: "string \<Rightarrow> bool" where
  "is_read_only name \<longleftrightarrow> impact name = ImpactRead"

definition required_mode :: "string \<Rightarrow> access_mode" where
  "required_mode name = (if impact name = ImpactRead then ModeRead else ModeReadWrite)"

definition grant_root :: "path \<Rightarrow> path" where
  "grant_root p = (case path_parent p of Some q \<Rightarrow> q | None \<Rightarrow> p)"

text \<open>
  \<open>is_relative\<close> on the components: no root.  (On Windows a path with a drive prefix but no
  root is relative too.)
\<close>

definition is_relative :: "path \<Rightarrow> bool" where
  "is_relative p \<longleftrightarrow> RootDir \<notin> set p"

definition resolve_path :: "os \<Rightarrow> path \<Rightarrow> path option \<Rightarrow> path" where
  "resolve_path sys p folder =
     canonicalize_lenient sys
       (case folder of Some root \<Rightarrow> if is_relative p then root @ p else p | None \<Rightarrow> p)"

definition not_anchored :: "string \<Rightarrow> string" where
  "not_anchored raw =
     CHR 0x22 # raw @ CHR 0x22 #
     '' is a relative path, but this conversation has no working folder, so there is '' @
     ''nothing to measure it against. Either give the full path to where it should go, or ask '' @
     ''the user to attach a folder in the Workbench panel. If this is something for them to '' @
     ''look at rather than a file they asked to keep, use create_artifact instead '' @ em_dash @
     '' an artifact needs no folder.''"

definition check_anchored :: "os \<Rightarrow> string \<Rightarrow> path option \<Rightarrow> string + unit" where
  "check_anchored sys raw folder =
     (if folder \<noteq> None \<or> \<not> is_relative (path_of sys raw) then Inr () else Inl (not_anchored raw))"

text \<open>The (verb, target) of a tool call; \<open>arg\<close> reads a string argument, \<open>''''\<close> when absent.\<close>

definition short_name_of :: "os \<Rightarrow> string \<Rightarrow> string \<Rightarrow> string" where
  "short_name_of sys raw dflt =
     (case path_file_name (path_of sys raw) of Some n \<Rightarrow> n | None \<Rightarrow> dflt)"

definition describe_file_tool :: "os \<Rightarrow> string \<Rightarrow> (string \<Rightarrow> string) \<Rightarrow> string \<times> string" where
  "describe_file_tool sys name arg =
     (let raw = (if arg ''path'' = [] then arg ''from'' else arg ''path'');
          short = short_name_of sys raw raw
      in if name = ''read_file'' then (''read'', short)
         else if name = ''list_directory'' then (''listed'', short)
         else if name = ''search_files'' then
           (''searched'',
            if arg ''query'' \<noteq> []
            then [CHR 0xE2, CHR 0x80, CHR 0x9C] @ arg ''query'' @ [CHR 0xE2, CHR 0x80, CHR 0x9D]
            else if arg ''glob'' \<noteq> [] then arg ''glob'' else short)
         else if name = ''find_symbol'' then (''looked up'', CHR 0x60 # arg ''name'' @ [CHR 0x60])
         else if name = ''write_file'' then (''wrote'', short)
         else if name = ''edit_file'' then (''edited'', short)
         else if name = ''create_dir'' then (''created folder'', short)
         else if name = ''move_file'' then
           (''moved'', short @ '' '' @ [CHR 0xE2, CHR 0x86, CHR 0x92] @ '' ''
                         @ short_name_of sys (arg ''to'') [])
         else if name = ''delete_file'' then (''deleted'', short)
         else if name = ''changes'' then (''reviewed'', ''my changes'')
         else (name, short))"

text \<open>The verbs are ASCII, so upper case of the first character is ASCII upper case.\<close>

definition capitalize :: "string \<Rightarrow> string" where
  "capitalize s = (case s of [] \<Rightarrow> [] | c # cs \<Rightarrow> upper_char c # cs)"

definition display_path :: "os \<Rightarrow> path \<Rightarrow> path option \<Rightarrow> string" where
  "display_path sys p folder =
     (case folder of
        None \<Rightarrow> path_text sys p
      | Some root \<Rightarrow>
          (case strip_prefix root p of
             None \<Rightarrow> path_text sys p
           | Some rel \<Rightarrow>
               if path_text sys rel \<noteq> []
               then map (\<lambda>c. if c = CHR 0x5C then CHR ''/'' else c) (path_text sys rel)
               else path_text sys p))"

section \<open>Asking and deciding\<close>

record access_state =
  acc_db :: db
  acc_perms :: perm_manager
  acc_sent :: "permission_request list"

text \<open>
  One question: register the request, show it, and take what comes back.  A dropped channel
  counts as a refusal (\<open>unwrap_or(Decision::Deny)\<close>).
\<close>

definition ask_user ::
  "access_state \<Rightarrow> permission_request \<Rightarrow> decision option \<Rightarrow> access_state \<times> decision" where
  "ask_user st req answer =
     (let (m, c) = open_request (acc_perms st) (req_id req);
          m' = (case answer of Some d \<Rightarrow> resolve_request m (req_id req) d
                              | None \<Rightarrow> drop_request m (req_id req));
          got = (case receive m' c of Answered d \<Rightarrow> d | _ \<Rightarrow> DecisionDeny)
      in (st\<lparr>acc_perms := m', acc_sent := acc_sent st @ [req]\<rparr>, got))"

definition headless_change_refusal :: "string \<Rightarrow> string" where
  "headless_change_refusal shown =
     ''Unattended runs can't ask permission, so this stopped instead of '' @
     ''prompting: changing '' @ shown @ '' needs an answer nobody is there to give.''"

definition headless_scope_refusal :: "os \<Rightarrow> path option \<Rightarrow> path \<Rightarrow> string" where
  "headless_scope_refusal sys folder root =
     (case folder of
        Some f \<Rightarrow>
          ''That's outside the folder this job was given ('' @ path_text sys f @
          ''), and an unattended run can't ask for more access '' @ em_dash @
          '' it stopped instead of prompting. Read what you need from inside that folder.''
      | None \<Rightarrow>
          ''This job wasn't given a folder, so it can't reach '' @ path_text sys root @ '' '' @
          em_dash @ '' and an unattended run can't ask for access. Give the job a folder in the '' @
          ''Schedule tab if it needs to read files.'')"

definition grant_covers :: "os \<Rightarrow> access_mode \<Rightarrow> path \<Rightarrow> grant \<Rightarrow> bool" where
  "grant_covers sys mode p g \<longleftrightarrow>
     satisfies (if grant_mode g = ''read-write'' then ModeReadWrite else ModeRead) mode
     \<and> path_within_root sys p (path_of sys (grant_path g))"

definition saved_grant_covers :: "os \<Rightarrow> db \<Rightarrow> access_mode \<Rightarrow> path \<Rightarrow> bool" where
  "saved_grant_covers sys d mode p =
     (case list_permissions d of Inl _ \<Rightarrow> False | Inr gs \<Rightarrow> list_ex (grant_covers sys mode p) gs)"

definition operation_summary :: "os \<Rightarrow> path \<Rightarrow> string \<Rightarrow> string option \<Rightarrow> string" where
  "operation_summary sys p name detail =
     (let (verb, target) = describe_file_tool sys name
            (\<lambda>k. if k = ''path'' then path_text sys p else [])
      in case detail of
           Some d \<Rightarrow> capitalize verb @ '' '' @ target @ '' '' @ em_dash @ '' '' @ d @ ''?''
         | None \<Rightarrow> capitalize verb @ '' '' @ target @ ''?'')"

text \<open>Inside the attached folder: \<open>Inr True\<close> is a clearance with \<open>in_folder\<close> set.\<close>

definition authorize_inside ::
  "os \<Rightarrow> (string \<Rightarrow> string option) \<Rightarrow> string \<Rightarrow> decision option \<Rightarrow> access_state \<Rightarrow> string
     \<Rightarrow> path option \<Rightarrow> trust \<Rightarrow> path \<Rightarrow> string \<Rightarrow> string option \<Rightarrow> bool
     \<Rightarrow> access_state \<times> (string + bool)" where
  "authorize_inside sys skip_prompt i answer st conv folder t p name detail headless =
     (case gate t (impact name) of
        Inl e \<Rightarrow> (st, Inl e)
      | Inr False \<Rightarrow> (st, Inr True)
      | Inr True \<Rightarrow>
          (case (if impact name = ImpactModify then skip_prompt name else None) of
             Some words \<Rightarrow>
               (st\<lparr>acc_db := or_unchanged (acc_db st)
                      (log_activity (acc_db st) (Some conv) ''decide'' words)\<rparr>, Inr True)
           | None \<Rightarrow>
               if headless then (st, Inl (headless_change_refusal (display_path sys p folder)))
               else
                 (case ask_user st
                         (request_operation i (operation_summary sys p name detail)
                            (path_text sys p) (required_mode name) detail) answer of
                    (st', DecisionDeny) \<Rightarrow>
                      (st', Inl (''The user declined that change to '' @ display_path sys p folder @ ''.''))
                  | (st', DecisionForever) \<Rightarrow>
                      (st'\<lparr>acc_db := or_unchanged (acc_db st')
                             (set_conversation_trust (acc_db st') conv (trust_as_str TrustAuto))\<rparr>,
                       Inr True)
                  | (st', _) \<Rightarrow> (st', Inr True))))"

definition authorize_outside ::
  "os \<Rightarrow> string \<Rightarrow> decision option \<Rightarrow> access_state \<Rightarrow> string \<Rightarrow> path option \<Rightarrow> path \<Rightarrow> string
     \<Rightarrow> bool \<Rightarrow> access_state \<times> (string + bool)" where
  "authorize_outside sys i answer st conv folder p name headless =
     (let mode = required_mode name; root = grant_root p in
      if saved_grant_covers sys (acc_db st) mode p then (st, Inr False)
      else if chat_allows sys (acc_perms st) conv p mode then (st, Inr False)
      else if headless then (st, Inl (headless_scope_refusal sys folder root))
      else
        (let verb = (if mode = ModeReadWrite then ''write files in'' else ''read files in'');
             summary = ''Poiesis wants to '' @ verb @ '' '' @ path_text sys root @ '' to answer this.''
         in case ask_user st (request_scope i summary (path_text sys root) mode) answer of
              (st', DecisionDeny) \<Rightarrow> (st', Inl ''You declined access to that folder.'')
            | (st', DecisionOnce) \<Rightarrow> (st', Inr False)
            | (st', DecisionChat) \<Rightarrow>
                (st'\<lparr>acc_perms := add_chat_grant (acc_perms st') conv root mode\<rparr>, Inr False)
            | (st', DecisionForever) \<Rightarrow>
                (st'\<lparr>acc_db := or_unchanged (acc_db st')
                       (add_permission (acc_db st') (path_text sys root) (mode_as_str mode))\<rparr>,
                 Inr False)))"

definition authorize ::
  "os \<Rightarrow> (string \<Rightarrow> string option) \<Rightarrow> string \<Rightarrow> decision option \<Rightarrow> access_state \<Rightarrow> string
     \<Rightarrow> path option \<Rightarrow> trust \<Rightarrow> path \<Rightarrow> string \<Rightarrow> string option \<Rightarrow> bool
     \<Rightarrow> access_state \<times> (string + bool)" where
  "authorize sys skip_prompt i answer st conv folder t p name detail headless =
     (if (case folder of Some root \<Rightarrow> path_within_root sys p root | None \<Rightarrow> False)
      then authorize_inside sys skip_prompt i answer st conv folder t p name detail headless
      else authorize_outside sys i answer st conv folder p name headless)"

section \<open>Lemmas\<close>

definition answer_or_deny :: "decision option \<Rightarrow> decision" where
  "answer_or_deny a = (case a of Some d \<Rightarrow> d | None \<Rightarrow> DecisionDeny)"

lemma ask_user_answer [simp]: "snd (ask_user st req answer) = answer_or_deny answer"
  by (auto simp: ask_user_def open_request_def Let_def answer_or_deny_def receive_def
      resolve_request_def drop_request_def drop_sender_def split: option.splits)

lemma ask_user_frame [simp]:
  "acc_db (fst (ask_user st req answer)) = acc_db st"
  "acc_sent (fst (ask_user st req answer)) = acc_sent st @ [req]"
  "chat_grants (acc_perms (fst (ask_user st req answer))) = chat_grants (acc_perms st)"
  by (auto simp: ask_user_def open_request_def Let_def resolve_request_def drop_request_def
      split: option.splits)

lemma ask_user_inv [keeps_inv]:
  assumes "manager_inv (acc_perms st)" and "answer \<noteq> None"
  shows "manager_inv (acc_perms (fst (ask_user st req answer)))"
proof -
  obtain d where d: "answer = Some d" using assms(2) by blast
  have "manager_inv (resolve_request (fst (open_request (acc_perms st) (req_id req))) (req_id req) d)"
    by (intro manager_inv_resolve manager_inv_open assms(1))
  then show ?thesis
    by (simp add: ask_user_def d split_beta Let_def)
qed

lemma required_mode_read_iff: "required_mode name = ModeRead \<longleftrightarrow> impact name = ImpactRead"
  by (simp add: required_mode_def)

lemma authorize_split:
  "authorize sys sk i a st conv folder t p name detail h =
     (case folder of
        Some root \<Rightarrow>
          if path_within_root sys p root
          then authorize_inside sys sk i a st conv folder t p name detail h
          else authorize_outside sys i a st conv folder p name h
      | None \<Rightarrow> authorize_outside sys i a st conv folder p name h)"
  by (simp add: authorize_def split: option.split)

text \<open>What every branch of the two halves does, as one case distinction each.\<close>

lemma inside_cases:
  obtains
    (refused) e where "gate t (impact name) = Inl e"
      "authorize_inside sys sk i a st conv folder t p name detail h = (st, Inl e)"
  | (silent) "gate t (impact name) = Inr False"
      "authorize_inside sys sk i a st conv folder t p name detail h = (st, Inr True)"
  | (relaxed) words where "gate t (impact name) = Inr True" "impact name = ImpactModify"
      "sk name = Some words"
      "authorize_inside sys sk i a st conv folder t p name detail h =
         (st\<lparr>acc_db := or_unchanged (acc_db st)
                (log_activity (acc_db st) (Some conv) ''decide'' words)\<rparr>, Inr True)"
  | (headless) "gate t (impact name) = Inr True" "h"
      "authorize_inside sys sk i a st conv folder t p name detail h =
         (st, Inl (headless_change_refusal (display_path sys p folder)))"
  | (asked) req st' where "gate t (impact name) = Inr True" "\<not> h"
      "req = request_operation i (operation_summary sys p name detail) (path_text sys p)
               (required_mode name) detail"
      "st' = fst (ask_user st req a)"
      "authorize_inside sys sk i a st conv folder t p name detail h =
         (case answer_or_deny a of
            DecisionDeny \<Rightarrow>
              (st', Inl (''The user declined that change to '' @ display_path sys p folder @ ''.''))
          | DecisionForever \<Rightarrow>
              (st'\<lparr>acc_db := or_unchanged (acc_db st')
                     (set_conversation_trust (acc_db st') conv (trust_as_str TrustAuto))\<rparr>, Inr True)
          | _ \<Rightarrow> (st', Inr True))"
proof (cases "gate t (impact name)")
  case (Inl e)
  then show ?thesis by (intro refused[of e]) (simp_all add: authorize_inside_def)
next
  case (Inr ask)
  show ?thesis
  proof (cases ask)
    case False
    with Inr show ?thesis by (intro silent) (simp_all add: authorize_inside_def)
  next
    case True
    define skipped where "skipped = (if impact name = ImpactModify then sk name else None)"
    show ?thesis
    proof (cases skipped)
      case (Some words)
      with Inr True show ?thesis
        by (intro relaxed[of words])
          (simp_all add: authorize_inside_def skipped_def split: if_splits)
    next
      case None
      define req where "req = request_operation i (operation_summary sys p name detail)
        (path_text sys p) (required_mode name) detail"
      show ?thesis
      proof (cases h)
        case True
        with Inr \<open>ask\<close> None show ?thesis
          by (intro headless) (simp_all add: authorize_inside_def skipped_def)
      next
        case False
        obtain st' d where q: "ask_user st req a = (st', d)" by fastforce
        then have "d = answer_or_deny a" using ask_user_answer[of st req a] by simp
        with q Inr \<open>ask\<close> None False show ?thesis
          by (intro asked[OF _ _ req_def refl])
            (simp_all add: authorize_inside_def skipped_def req_def split: decision.split)
      qed
    qed
  qed
qed

lemma outside_cases:
  obtains
    (granted) "saved_grant_covers sys (acc_db st) (required_mode name) p
                 \<or> chat_allows sys (acc_perms st) conv p (required_mode name)"
      "authorize_outside sys i a st conv folder p name h = (st, Inr False)"
  | (headless) "h" "authorize_outside sys i a st conv folder p name h =
        (st, Inl (headless_scope_refusal sys folder (grant_root p)))"
  | (asked) req st' where "\<not> h"
      "st' = fst (ask_user st req a)"
      "req_mode req = required_mode name" "req_path req = path_text sys (grant_root p)"
      "authorize_outside sys i a st conv folder p name h =
         (case answer_or_deny a of
            DecisionDeny \<Rightarrow> (st', Inl ''You declined access to that folder.'')
          | DecisionOnce \<Rightarrow> (st', Inr False)
          | DecisionChat \<Rightarrow>
              (st'\<lparr>acc_perms := add_chat_grant (acc_perms st') conv (grant_root p) (required_mode name)\<rparr>,
               Inr False)
          | DecisionForever \<Rightarrow>
              (st'\<lparr>acc_db := or_unchanged (acc_db st')
                     (add_permission (acc_db st') (path_text sys (grant_root p))
                        (mode_as_str (required_mode name)))\<rparr>, Inr False))"
proof (cases "saved_grant_covers sys (acc_db st) (required_mode name) p
                 \<or> chat_allows sys (acc_perms st) conv p (required_mode name)")
  case True
  then show ?thesis by (intro granted) (auto simp: authorize_outside_def Let_def)
next
  case False
  show ?thesis
  proof (cases h)
    case True
    with False show ?thesis by (intro headless) (auto simp: authorize_outside_def Let_def)
  next
    case nh: False
    define req where "req = request_scope i
      (''Poiesis wants to '' @ (if required_mode name = ModeReadWrite then ''write files in''
         else ''read files in'') @ '' '' @ path_text sys (grant_root p) @ '' to answer this.'')
      (path_text sys (grant_root p)) (required_mode name)"
    obtain st' d where q: "ask_user st req a = (st', d)" by fastforce
    then have "d = answer_or_deny a" using ask_user_answer[of st req a] by simp
    with q nh False show ?thesis
      by (intro asked[of "fst (ask_user st req a)" req])
        (simp_all add: authorize_outside_def Let_def req_def request_scope_def split: decision.split)
  qed
qed

section \<open>What a clearance rests on\<close>

definition inside_folder :: "os \<Rightarrow> path option \<Rightarrow> path \<Rightarrow> bool" where
  "inside_folder sys folder p =
     (case folder of Some root \<Rightarrow> path_within_root sys p root | None \<Rightarrow> False)"

lemma authorize_halves:
  "authorize sys sk i a st conv folder t p name detail h =
     (if inside_folder sys folder p
      then authorize_inside sys sk i a st conv folder t p name detail h
      else authorize_outside sys i a st conv folder p name h)"
  by (simp add: authorize_def inside_folder_def)

text \<open>
  The grounds on which the operation may run with no question at all, inside and outside the
  attached folder.
\<close>

definition silent_inside :: "(string \<Rightarrow> string option) \<Rightarrow> trust \<Rightarrow> string \<Rightarrow> bool" where
  "silent_inside sk t name \<longleftrightarrow>
     impact name = ImpactRead
     \<or> impact name = ImpactModify \<and> (t = TrustAuto \<or> t = TrustConfirm \<and> sk name \<noteq> None)"

definition silent_outside :: "os \<Rightarrow> access_state \<Rightarrow> string \<Rightarrow> string \<Rightarrow> path \<Rightarrow> bool" where
  "silent_outside sys st conv name p \<longleftrightarrow>
     saved_grant_covers sys (acc_db st) (required_mode name) p
     \<or> chat_allows sys (acc_perms st) conv p (required_mode name)"

lemma inside_silent:
  "silent_inside sk t name \<Longrightarrow>
     snd (authorize_inside sys sk i a st conv folder t p name detail h) = Inr True
     \<and> acc_sent (fst (authorize_inside sys sk i a st conv folder t p name detail h)) = acc_sent st
     \<and> acc_perms (fst (authorize_inside sys sk i a st conv folder t p name detail h)) = acc_perms st"
  by (cases t; cases "impact name"; cases "sk name") (auto simp: silent_inside_def authorize_inside_def)

lemma inside_not_silent:
  assumes "\<not> silent_inside sk t name"
  shows "(case authorize_inside sys sk i a st conv folder t p name detail h of
            (st', r) \<Rightarrow>
              if t = TrustReadOnly \<or> h then st' = st \<and> (\<exists>e. r = Inl e)
              else acc_sent st' = acc_sent st @
                     [request_operation i (operation_summary sys p name detail) (path_text sys p)
                        (required_mode name) detail]
                   \<and> (r = Inr True \<longleftrightarrow> answer_or_deny a \<noteq> DecisionDeny)
                   \<and> ((\<exists>e. r = Inl e) \<longleftrightarrow> answer_or_deny a = DecisionDeny)
                   \<and> (answer_or_deny a \<noteq> DecisionForever \<longrightarrow> acc_db st' = acc_db st)
                   \<and> chat_grants (acc_perms st') = chat_grants (acc_perms st))"
proof (cases rule: inside_cases[of t name sys sk i a st conv folder p detail h])
  case (refused e)
  then have "t = TrustReadOnly" using gate_refused_iff[of t "impact name"] by blast
  with refused show ?thesis by simp
next
  case silent
  then have "silent_inside sk t name" by (auto simp: gate_silent_iff silent_inside_def)
  with assms show ?thesis by simp
next
  case (relaxed words)
  then have "t = TrustConfirm" by (cases t) simp_all
  with relaxed assms show ?thesis by (simp add: silent_inside_def)
next
  case headless
  then show ?thesis by simp
next
  case (asked req st')
  then have "t \<noteq> TrustReadOnly" by (cases "impact name") auto
  with asked show ?thesis by (simp split: decision.split)
qed

lemma outside_silent:
  "silent_outside sys st conv name p \<Longrightarrow> authorize_outside sys i a st conv folder p name h = (st, Inr False)"
  by (auto simp: silent_outside_def authorize_outside_def Let_def)

lemma outside_not_silent:
  assumes "\<not> silent_outside sys st conv name p"
  shows "(case authorize_outside sys i a st conv folder p name h of
            (st', r) \<Rightarrow>
              if h then st' = st \<and> (\<exists>e. r = Inl e)
              else (\<exists>req. acc_sent st' = acc_sent st @ [req] \<and> req_mode req = required_mode name
                       \<and> req_path req = path_text sys (grant_root p))
                   \<and> (r = Inr False \<longleftrightarrow> answer_or_deny a \<noteq> DecisionDeny)
                   \<and> ((\<exists>e. r = Inl e) \<longleftrightarrow> answer_or_deny a = DecisionDeny)
                   \<and> (answer_or_deny a \<noteq> DecisionForever \<longrightarrow> acc_db st' = acc_db st)
                   \<and> (answer_or_deny a \<noteq> DecisionChat \<longrightarrow>
                        chat_grants (acc_perms st') = chat_grants (acc_perms st)))"
proof (cases rule: outside_cases[of sys st name p conv i a folder h])
  case granted
  with assms show ?thesis by (simp add: silent_outside_def)
next
  case headless
  then show ?thesis by simp
next
  case (asked req st')
  then show ?thesis by (auto split: decision.split)
qed

lemma forever_inside_trust:
  assumes "\<not> silent_inside sk t name" and "t \<noteq> TrustReadOnly" and "\<not> h"
  shows "acc_db (fst (authorize_inside sys sk i (Some DecisionForever) st conv folder t p name detail h)) =
     or_unchanged (acc_db st) (set_conversation_trust (acc_db st) conv ''auto'')"
proof (cases rule: inside_cases[of t name sys sk i "Some DecisionForever" st conv folder p detail h])
  case (refused e)
  then show ?thesis using assms(2) gate_refused_iff[of t "impact name"] by blast
next
  case silent
  then have "silent_inside sk t name" by (auto simp: gate_silent_iff silent_inside_def)
  with assms show ?thesis by simp
next
  case (relaxed words)
  then have "t = TrustConfirm" by (cases t) simp_all
  with relaxed assms show ?thesis by (simp add: silent_inside_def)
next
  case headless
  with assms show ?thesis by simp
next
  case (asked req st')
  then show ?thesis by (simp add: answer_or_deny_def trust_as_str_def)
qed

lemma outside_remembered:
  assumes "\<not> silent_outside sys st conv name p" and "\<not> h"
  shows "chat_grants (acc_perms (fst (authorize_outside sys i (Some DecisionChat) st conv folder p name h))) =
       chat_grants (add_chat_grant (acc_perms st) conv (grant_root p) (required_mode name))"
    and "acc_db (fst (authorize_outside sys i (Some DecisionForever) st conv folder p name h)) =
       or_unchanged (acc_db st) (add_permission (acc_db st) (path_text sys (grant_root p))
          (mode_as_str (required_mode name)))"
proof -
  show "chat_grants (acc_perms (fst (authorize_outside sys i (Some DecisionChat) st conv folder p name h))) =
       chat_grants (add_chat_grant (acc_perms st) conv (grant_root p) (required_mode name))"
    using assms
    by (cases rule: outside_cases[of sys st name p conv i "Some DecisionChat" folder h])
      (auto simp: silent_outside_def answer_or_deny_def add_chat_grant_def)
  show "acc_db (fst (authorize_outside sys i (Some DecisionForever) st conv folder p name h)) =
       or_unchanged (acc_db st) (add_permission (acc_db st) (path_text sys (grant_root p))
          (mode_as_str (required_mode name)))"
    using assms
    by (cases rule: outside_cases[of sys st name p conv i "Some DecisionForever" folder h])
      (auto simp: silent_outside_def answer_or_deny_def)
qed

lemma saved_grant_after_add:
  assumes "db_up d" and "path_of sys (path_text sys root) = root" and "path_within_root sys p root"
    and "satisfies m r"
  shows "saved_grant_covers sys (or_unchanged d (add_permission d (path_text sys root) (mode_as_str m))) r p"
proof -
  let ?g = "\<lparr>grant_path = path_text sys root, grant_mode = mode_as_str m\<rparr>"
  have "grant_covers sys r p ?g"
    using assms(2-4) by (cases m) (simp_all add: grant_covers_def mode_as_str_def)
  then show ?thesis
    using assms(1) set_upsert_grant[of "path_text sys root" "mode_as_str m" "db_permissions d"]
    by (auto simp: saved_grant_covers_def add_permission_def list_permissions_def db_up_def list_ex_iff)
qed

section \<open>Properties\<close>

text \<open>C5: A file operation is cleared exactly on one of its grounds: inside the attached folder a
  read, or a change the trust level or the relaxed prompts let through, or an answer that is not
  a refusal (never in a read-only folder and never with nobody there); outside it a saved grant,
  a grant of this chat, or such an answer.  In every other case it is refused.\<close>

theorem clearance_exact:
  "snd (authorize sys sk i a st conv folder t p name detail h) = Inr b \<longleftrightarrow>
     b = inside_folder sys folder p
     \<and> (if b then silent_inside sk t name \<or> t \<noteq> TrustReadOnly \<and> \<not> h \<and> answer_or_deny a \<noteq> DecisionDeny
        else silent_outside sys st conv name p \<or> \<not> h \<and> answer_or_deny a \<noteq> DecisionDeny)"
proof (cases "inside_folder sys folder p")
  case True
  show ?thesis
  proof (cases "silent_inside sk t name")
    case silent: True
    with True show ?thesis
      using inside_silent[OF silent, of sys i a st conv folder p detail h]
      by (auto simp: authorize_halves)
  next
    case False
    obtain st' r where q: "authorize_inside sys sk i a st conv folder t p name detail h = (st', r)"
      by fastforce
    have "\<exists>e. r = Inl e" if "r \<noteq> Inr True"
      using that inside_not_silent[OF False, where sys=sys and i=i and a=a and st=st and conv=conv and folder=folder and p=p and detail=detail and h=h] q
      by (auto split: if_splits)
    with True False q show ?thesis
      using inside_not_silent[OF False, where sys=sys and i=i and a=a and st=st and conv=conv and folder=folder and p=p and detail=detail and h=h]
      by (auto simp: authorize_halves split: if_splits)
  qed
next
  case False
  show ?thesis
  proof (cases "silent_outside sys st conv name p")
    case silent: True
    with False show ?thesis by (auto simp: authorize_halves outside_silent)
  next
    case loud: False
    obtain st' r where q: "authorize_outside sys i a st conv folder p name h = (st', r)"
      by fastforce
    have "\<exists>e. r = Inl e" if "r \<noteq> Inr False"
      using that outside_not_silent[OF loud, where i=i and a=a and folder=folder and h=h] q by (auto split: if_splits)
    with False loud q show ?thesis
      using outside_not_silent[OF loud, where i=i and a=a and folder=folder and h=h]
      by (auto simp: authorize_halves split: if_splits)
  qed
qed

text \<open>The user is shown one question when the operation has no silent ground, a person is there
  and the folder is not read-only, and none otherwise; in particular a run with nobody watching
  never asks, and leaves the grants and the questions as they were.\<close>

theorem asks_at_most_once:
  "(let st' = fst (authorize sys sk i a st conv folder t p name detail h);
        quiet = (if inside_folder sys folder p then silent_inside sk t name \<or> t = TrustReadOnly
                 else silent_outside sys st conv name p)
    in if quiet \<or> h then length (acc_sent st') = length (acc_sent st) \<and> acc_perms st' = acc_perms st
       else length (acc_sent st') = length (acc_sent st) + 1)"
proof (cases "inside_folder sys folder p")
  case True
  show ?thesis
  proof (cases "silent_inside sk t name")
    case silent: True
    with True show ?thesis
      using inside_silent[OF silent, of sys i a st conv folder p detail h]
      by (simp add: authorize_halves Let_def)
  next
    case False
    obtain st' r where q: "authorize_inside sys sk i a st conv folder t p name detail h = (st', r)"
      by fastforce
    with True False show ?thesis
      using inside_not_silent[OF False, where sys=sys and i=i and a=a and st=st and conv=conv and folder=folder and p=p and detail=detail and h=h]
      by (auto simp: authorize_halves Let_def split: if_splits)
  qed
next
  case False
  show ?thesis
  proof (cases "silent_outside sys st conv name p")
    case silent: True
    with False show ?thesis by (simp add: authorize_halves outside_silent Let_def)
  next
    case loud: False
    obtain st' r where q: "authorize_outside sys i a st conv folder p name h = (st', r)"
      by fastforce
    with False loud show ?thesis
      using outside_not_silent[OF loud, where i=i and a=a and folder=folder and h=h]
      by (auto simp: authorize_halves Let_def split: if_splits)
  qed
qed

text \<open>A refused operation leaves no permission behind: the store and the grants of every chat
  are what they were, whatever was asked and answered.\<close>

theorem refusal_grants_nothing:
  assumes "snd (authorize sys sk i a st conv folder t p name detail h) = Inl e"
  shows "acc_db (fst (authorize sys sk i a st conv folder t p name detail h)) = acc_db st
    \<and> chat_grants (acc_perms (fst (authorize sys sk i a st conv folder t p name detail h))) =
        chat_grants (acc_perms st)"
proof (cases "inside_folder sys folder p")
  case True
  have ns: "\<not> silent_inside sk t name"
    using assms True inside_silent[of sk t name sys i a st conv folder p detail h]
    by (auto simp: authorize_halves)
  obtain st' r where q: "authorize_inside sys sk i a st conv folder t p name detail h = (st', r)"
    by fastforce
  with True assms show ?thesis
    using inside_not_silent[OF ns, where sys=sys and i=i and a=a and st=st and conv=conv and folder=folder and p=p and detail=detail and h=h]
    by (auto simp: authorize_halves split: if_splits)
next
  case False
  have ns: "\<not> silent_outside sys st conv name p"
    using assms False by (auto simp: authorize_halves outside_silent)
  obtain st' r where q: "authorize_outside sys i a st conv folder p name h = (st', r)"
    by fastforce
  with False assms show ?thesis
    using outside_not_silent[OF ns, where i=i and a=a and folder=folder and h=h]
    by (auto simp: authorize_halves split: if_splits)
qed

definition work_state :: access_state where
  "work_state = \<lparr>acc_db = empty_db\<lparr>db_conversations := [''c'' \<mapsto>
       \<lparr>conv_project_id = None, folder_path = None, folder_trust = None, engines_off = False,
        workspace = False\<rparr>]\<rparr>, acc_perms = new_manager, acc_sent = []\<rparr>"

theorem refusal_grants_nothing_witness:
  "acc_db (fst (authorize work_os (\<lambda>_. None) ''p'' (Some DecisionDeny) work_state ''c'' None TrustAuto
      [RootDir, Normal ''work''] ''delete_file'' None False)) = acc_db work_state"
proof -
  have "snd (authorize work_os (\<lambda>_. None) ''p'' (Some DecisionDeny) work_state ''c'' None TrustAuto
      [RootDir, Normal ''work''] ''delete_file'' None False) = Inl ''You declined access to that folder.''"
    by (simp add: authorize_def authorize_outside_def Let_def work_state_def empty_db_def
        saved_grant_covers_def list_permissions_def chat_allows_def new_manager_def ask_user_def
        open_request_def resolve_request_def receive_def request_scope_def)
  from refusal_grants_nothing[OF this] show ?thesis by blast
qed

text \<open>Answering Forever inside the attached folder stops the questions for changes: with the
  store up and the chat known to it, the folder's trust reads as full access afterwards, and from
  then on every change in the folder that deletes nothing is cleared without a question.\<close>

theorem forever_inside_stops_asking:
  assumes "inside_folder sys folder p" and "\<not> silent_inside sk t name" and "t \<noteq> TrustReadOnly"
    and "db_up (acc_db st)" and "db_conversations (acc_db st) conv = Some c"
    and "impact name' \<noteq> ImpactDestroy" and "inside_folder sys folder p'"
  shows "let st' = fst (authorize sys sk i (Some DecisionForever) st conv folder t p name detail False);
             t' = trust_parse (snd (conversation_folder (acc_db st') conv))
         in t' = TrustAuto
            \<and> snd (authorize sys sk' i' a' st' conv folder t' p' name' detail' h') = Inr True
            \<and> acc_sent (fst (authorize sys sk' i' a' st' conv folder t' p' name' detail' h')) = acc_sent st'"
proof -
  define st' where "st' = fst (authorize sys sk i (Some DecisionForever) st conv folder t p name detail False)"
  have db: "acc_db st' = or_unchanged (acc_db st) (set_conversation_trust (acc_db st) conv ''auto'')"
    using forever_inside_trust[OF assms(2,3), of False sys i st conv folder p detail] assms(1)
    by (simp add: st'_def authorize_halves)
  obtain d' where d': "set_conversation_trust (acc_db st) conv ''auto'' = Inr d'"
    using assms(4) by (auto simp: set_conversation_trust_def db_up_def Let_def)
  have "snd (conversation_folder (acc_db st') conv) = ''auto''"
    using trust_roundtrip[OF assms(4,5) d'] by (simp add: db d')
  then have t': "trust_parse (snd (conversation_folder (acc_db st') conv)) = TrustAuto"
    by (simp add: trust_parse_def)
  have "silent_inside sk' TrustAuto name'"
    using assms(6) by (cases "impact name'") (simp_all add: silent_inside_def)
  from inside_silent[OF this, of sys i' a' st' conv folder p' detail' h'] assms(7) t'
  have "t' = TrustAuto \<Longrightarrow> snd (authorize sys sk' i' a' st' conv folder t' p' name' detail' h') = Inr True
      \<and> acc_sent (fst (authorize sys sk' i' a' st' conv folder t' p' name' detail' h')) = acc_sent st'" for t'
    by (simp add: authorize_halves)
  with t' show ?thesis by (simp add: st'_def[symmetric] Let_def)
qed

theorem forever_inside_stops_asking_witness:
  "let st' = fst (authorize work_os (\<lambda>_. None) ''p'' (Some DecisionForever) work_state ''c''
        (Some [RootDir, Normal ''work'']) TrustConfirm [RootDir, Normal ''work''] ''write_file'' None False)
   in trust_parse (snd (conversation_folder (acc_db st') ''c'')) = TrustAuto"
proof -
  have f: "inside_folder work_os (Some [RootDir, Normal ''work'']) [RootDir, Normal ''work'']"
    by (simp add: inside_folder_def within_root_refl work_os_def)
  have n: "\<not> silent_inside (\<lambda>_. None) TrustConfirm ''write_file''"
    by (simp add: silent_inside_def impact_def)
  have u: "db_up (acc_db work_state)" by (simp add: work_state_def db_up_def empty_db_def)
  show ?thesis
    using forever_inside_stops_asking[OF f n _ u, of "''c''" _ "''edit_file''" "[RootDir, Normal ''work'']"]
      f by (simp add: work_state_def impact_def Let_def)
qed

text \<open>An answer given for a place outside the folder is remembered as far as it was said: after
  Chat the same kind of access to that place needs no question in the chat, and after Forever, with
  the store up and the folder's text naming the folder, in no chat.\<close>

theorem outside_answer_remembered:
  assumes "\<not> inside_folder sys folder p" and "\<not> silent_outside sys st conv name p"
    and "path_within_root sys p' (grant_root p)" and "satisfies (required_mode name) (required_mode name')"
  shows "silent_outside sys (fst (authorize sys sk i (Some DecisionChat) st conv folder t p name detail False))
           conv name' p'
    \<and> (db_up (acc_db st) \<and> path_of sys (path_text sys (grant_root p)) = grant_root p
        \<longrightarrow> silent_outside sys
              (fst (authorize sys sk i (Some DecisionForever) st conv folder t p name detail False))
              conv' name' p')"
proof (intro conjI impI)
  have "chat_allows sys (add_chat_grant (acc_perms st) conv (grant_root p) (required_mode name)) conv p'
          (required_mode name')"
    by (rule grant_then_allowed[OF assms(3,4)])
  then show "silent_outside sys
      (fst (authorize sys sk i (Some DecisionChat) st conv folder t p name detail False)) conv name' p'"
    using outside_remembered(1)[OF assms(2), of False i folder] assms(1)
    by (simp add: silent_outside_def authorize_halves chat_allows_def)
next
  assume "db_up (acc_db st) \<and> path_of sys (path_text sys (grant_root p)) = grant_root p"
  then show "silent_outside sys
      (fst (authorize sys sk i (Some DecisionForever) st conv folder t p name detail False)) conv' name' p'"
    using outside_remembered(2)[OF assms(2), of False i folder] assms(1)
      saved_grant_after_add[OF _ _ assms(3,4), of "acc_db st"]
    by (simp add: silent_outside_def authorize_halves)
qed

theorem outside_answer_remembered_witness:
  "silent_outside work_os (fst (authorize work_os (\<lambda>_. None) ''p'' (Some DecisionChat) work_state ''c'' None
      TrustAuto [RootDir, Normal ''work'', Normal ''a''] ''write_file'' None False)) ''c'' ''read_file''
      [RootDir, Normal ''work'']"
proof -
  have root: "grant_root [RootDir, Normal ''work'', Normal ''a''] = [RootDir, Normal ''work'']"
    by (simp add: grant_root_def path_parent_def)
  show ?thesis
    using outside_answer_remembered[of work_os None "[RootDir, Normal ''work'', Normal ''a'']" work_state
        "''c''" "''write_file''" "[RootDir, Normal ''work'']" "''read_file''" "\<lambda>_. None" "''p''" TrustAuto None]
      within_root_refl[of work_os "[RootDir, Normal ''work'']"]
    by (simp add: root inside_folder_def silent_outside_def saved_grant_covers_def list_permissions_def
        work_state_def empty_db_def chat_allows_def new_manager_def satisfies_def required_mode_def
        impact_def work_os_def)
qed

end
