(* ===== verification/Connector_Gate.thy ===== *)
theory Connector_Gate imports Autonomy File_Access begin

text \<open>
  The gate of connector calls (\<open>src-tauri/src/agent/connector_gate.rs\<close>): what a tool does by
  its name (\<open>classify\<close>), whether a call may run now (\<open>admit\<close>), how sends are counted against
  the day's cap, and the text of a call left for approval and its parser.

  \<open>serde_json\<close> is a library: its printer and parser are arguments (\<open>pretty\<close>,
  \<open>json_of\<close>, \<open>string_map_of\<close>).  The Unicode tables are a \<open>unicode\<close> record.  The user's
  reply is an argument: \<open>None\<close> when the run was cancelled first.
\<close>

section \<open>Kinds of calls\<close>

datatype call_kind = KindRead | KindChange | KindSend

primrec kind_rank :: "call_kind \<Rightarrow> nat" where
  "kind_rank KindRead = 0"
| "kind_rank KindChange = 1"
| "kind_rank KindSend = 2"

lemma kind_rank_inj: "kind_rank a = kind_rank b \<Longrightarrow> a = b"
  by (cases a; cases b) simp_all

instantiation call_kind :: linorder begin

definition less_eq_call_kind :: "call_kind \<Rightarrow> call_kind \<Rightarrow> bool" where
  "less_eq_call_kind a b \<longleftrightarrow> kind_rank a \<le> kind_rank b"

definition less_call_kind :: "call_kind \<Rightarrow> call_kind \<Rightarrow> bool" where
  "less_call_kind a b \<longleftrightarrow> kind_rank a < kind_rank b"

instance
  by intro_classes (auto simp: less_eq_call_kind_def less_call_kind_def intro: kind_rank_inj)

end

lemma kind_le_simps [simp]:
  "KindRead \<le> k" "k \<le> KindSend" "k \<le> KindRead \<longleftrightarrow> k = KindRead" "KindSend \<le> k \<longleftrightarrow> k = KindSend"
  by (cases k; simp add: less_eq_call_kind_def)+

definition kind_as_str :: "call_kind \<Rightarrow> string" where
  "kind_as_str k = (case k of KindRead \<Rightarrow> ''read'' | KindChange \<Rightarrow> ''change'' | KindSend \<Rightarrow> ''send'')"

definition kind_parse :: "string \<Rightarrow> call_kind option" where
  "kind_parse s = (if s = ''read'' then Some KindRead else if s = ''change'' then Some KindChange
                   else if s = ''send'' then Some KindSend else None)"

lemma kind_parse_as_str [simp]: "kind_parse (kind_as_str k) = Some k"
  by (cases k) (simp_all add: kind_parse_def kind_as_str_def)

section \<open>Classification by name\<close>

definition READ_VERBS :: "string list" where
  "READ_VERBS = [''get'', ''list'', ''fetch'', ''search'', ''read'', ''find'', ''retrieve'', ''lookup'',
     ''download'', ''view'', ''check'', ''count'']"

definition SEND_VERBS :: "string list" where
  "SEND_VERBS = [''send'', ''reply'', ''respond'', ''forward'', ''post'', ''publish'', ''tweet'', ''retweet'',
     ''broadcast'', ''invite'', ''share'', ''refund'', ''charge'', ''pay'', ''payout'', ''transfer'']"

definition CREATE_VERBS :: "string list" where
  "CREATE_VERBS = [''create'', ''add'', ''new'']"

definition SENT_NOUNS :: "string list" where
  "SENT_NOUNS = [''message'', ''comment'', ''post'', ''email'', ''mail'', ''invoice'', ''payment'', ''refund'',
     ''reply'', ''tweet'', ''dm'']"

definition REMOVE_VERBS :: "string list" where
  "REMOVE_VERBS = [''delete'', ''remove'', ''destroy'', ''archive'', ''trash'', ''cancel'', ''revoke'']"

definition OTHER_VERBS :: "string list" where
  "OTHER_VERBS = [''update'', ''edit'', ''set'', ''modify'', ''patch'', ''put'', ''upload'', ''move'', ''rename'',
     ''copy'', ''duplicate'', ''close'', ''open'', ''merge'', ''assign'', ''complete'', ''mark'', ''reopen'',
     ''label'', ''unlabel'', ''star'', ''unstar'', ''pin'', ''unpin'', ''block'', ''unblock'', ''follow'',
     ''unfollow'', ''subscribe'', ''unsubscribe'', ''restore'', ''run'', ''execute'', ''start'', ''stop'',
     ''enable'', ''disable'', ''import'', ''export'', ''sync'', ''schedule'', ''reschedule'', ''accept'',
     ''decline'', ''approve'', ''reject'', ''append'', ''insert'', ''replace'', ''clear'', ''reset'', ''submit'',
     ''apply'', ''attach'', ''detach'', ''login'', ''logout'']"

definition singular :: "string \<Rightarrow> string" where
  "singular w =
     (if 3 < length w \<and> last w = CHR ''s'' \<and> drop (length w - 2) w \<noteq> ''ss'' then butlast w else w)"

definition is_in :: "string list \<Rightarrow> string \<Rightarrow> bool" where
  "is_in list w \<longleftrightarrow> w \<in> set list \<or> singular w \<in> set list"

definition is_verb :: "string \<Rightarrow> bool" where
  "is_verb w \<longleftrightarrow> is_in READ_VERBS w \<or> is_in SEND_VERBS w \<or> is_in CREATE_VERBS w
     \<or> is_in REMOVE_VERBS w \<or> is_in OTHER_VERBS w"

text \<open>
  The loop over the characters: \<open>prev\<close> is the character before (not looked at while \<open>cur\<close> is
  empty), \<open>cur\<close> the word being collected.
\<close>

fun words_loop :: "unicode \<Rightarrow> string \<Rightarrow> string \<Rightarrow> string list \<Rightarrow> string list" where
  "words_loop u prev cur [] = (if cur = [] then [] else [cur])"
| "words_loop u prev cur (c # cs) =
     (if \<not> char_alphanumeric u c
      then (if cur = [] then [] else [cur]) @ words_loop u c [] cs
      else
        (let next_lower = (case cs of [] \<Rightarrow> False | n # _ \<Rightarrow> char_lowercase u n);
             cut = (char_uppercase u c \<and> cur \<noteq> []
                    \<and> (char_lowercase u prev \<or> char_digit prev \<or> char_uppercase u prev \<and> next_lower))
         in if cut then cur # words_loop u c (char_to_lowercase u c) cs
            else words_loop u c (cur @ char_to_lowercase u c) cs))"

definition tool_words :: "unicode \<Rightarrow> string \<Rightarrow> string list" where
  "tool_words u tool =
     words_loop u [] [] (utf8_chars (case after_last ''__'' tool of Some r \<Rightarrow> r | None \<Rightarrow> tool))"

definition action_of :: "string list \<Rightarrow> string list" where
  "action_of ws = (if list_ex is_verb ws then dropWhile (\<lambda>w. \<not> is_verb w) ws else ws)"

definition sends_by_name :: "string list \<Rightarrow> bool" where
  "sends_by_name act =
     (case act of
        [] \<Rightarrow> False
      | first # _ \<Rightarrow>
          if is_in READ_VERBS first \<or> is_in REMOVE_VERBS first then False
          else if list_ex (is_in SEND_VERBS) act then True
          else \<not> list_ex (\<lambda>w. singular w = ''draft'') act
               \<and> list_ex (is_in CREATE_VERBS) act \<and> list_ex (is_in SENT_NOUNS) act)"

text \<open>\<open>hint\<close> is the server's read-only hint.\<close>

definition classify :: "unicode \<Rightarrow> string \<Rightarrow> bool option \<Rightarrow> call_kind" where
  "classify u tool hint =
     (let act = action_of (tool_words u tool) in
      if sends_by_name act then KindSend
      else if hint = Some True then KindRead
      else if (case act of [] \<Rightarrow> False | w # _ \<Rightarrow> is_in READ_VERBS w) then KindRead
      else KindChange)"

record mcp_tool =
  mt_name :: string
  mt_annotations :: "bool option option"

definition hints_of :: "mcp_tool \<Rightarrow> bool option" where
  "hints_of tool = (case mt_annotations tool of None \<Rightarrow> None | Some hint \<Rightarrow> hint)"

definition overrides_of ::
  "(string \<Rightarrow> (string \<rightharpoonup> string) option) \<Rightarrow> connector_policy \<Rightarrow> (string \<rightharpoonup> call_kind)" where
  "overrides_of string_map_of policy =
     (case (case tool_overrides policy of None \<Rightarrow> None | Some s \<Rightarrow> string_map_of s) of
        None \<Rightarrow> Map.empty
      | Some m \<Rightarrow> (\<lambda>tool. case m tool of None \<Rightarrow> None | Some k \<Rightarrow> kind_parse k))"

definition effective_kind :: "unicode \<Rightarrow> (string \<rightharpoonup> call_kind) \<Rightarrow> mcp_tool \<Rightarrow> call_kind" where
  "effective_kind u overrides tool =
     (case overrides (mt_name tool) of Some k \<Rightarrow> k
      | None \<Rightarrow> classify u (mt_name tool) (hints_of tool))"

section \<open>Calls\<close>

record part =
  part_app :: string
  part_name :: string
  part_kind :: call_kind
  part_sends :: int

record connector_call =
  call_connector_id :: string
  call_connector_name :: string
  call_app :: string
  call_tool :: string
  call_kind_of :: call_kind
  call_args :: json
  call_parts :: "part list"
  call_said :: "string option"
  call_shown :: "json option"
  call_tools :: "app_tool list"

definition call_groups :: "connector_call \<Rightarrow> part list" where
  "call_groups c =
     (if call_parts c \<noteq> [] then call_parts c
      else [\<lparr>part_app = call_app c, part_name = call_connector_name c, part_kind = call_kind_of c,
             part_sends = (if call_kind_of c = KindSend then 1 else 0)\<rparr>])"

definition call_label :: "connector_call \<Rightarrow> string" where
  "call_label c =
     (let names = map part_name (call_parts c) in
      case names of
        [] \<Rightarrow> call_connector_name c
      | [one] \<Rightarrow> one
      | _ \<Rightarrow> join_with '', '' (butlast names) @ '' and '' @ last names)"

definition action_text :: "unicode \<Rightarrow> string \<Rightarrow> string" where
  "action_text u tool = join_with '' '' (action_of (tool_words u tool))"

definition humanise :: "unicode \<Rightarrow> string \<Rightarrow> string" where
  "humanise u tool = join_with '' '' (tool_words u tool)"

definition TELLING_KEYS :: "string list" where
  "TELLING_KEYS = [''to'', ''recipient'', ''recipients'', ''channel'', ''channel_id'', ''chat_id'', ''title'',
     ''subject'', ''name'', ''email'', ''url'', ''query'', ''id'']"

definition telling_text :: "json \<Rightarrow> string option" where
  "telling_text v =
     (case v of
        JString s \<Rightarrow> Some (trim s)
      | JArray xs \<Rightarrow> Some (join_with '', '' (List.map_filter json_str xs))
      | JInt i \<Rightarrow> Some (show_int i)
      | JFloat s \<Rightarrow> Some s
      | _ \<Rightarrow> None)"

definition telling_argument :: "json \<Rightarrow> string option" where
  "telling_argument args =
     find_map (\<lambda>k. case json_get args k of
                     None \<Rightarrow> None
                   | Some v \<Rightarrow> (case telling_text v of None \<Rightarrow> None
                                 | Some t \<Rightarrow> if t \<noteq> [] then Some (ellipsize t 80) else None))
       TELLING_KEYS"

definition call_summary :: "unicode \<Rightarrow> connector_call \<Rightarrow> string" where
  "call_summary u c =
     (case call_said c of
        Some s \<Rightarrow> s
      | None \<Rightarrow>
          (let what = humanise u (call_tool c);
               target = (case telling_argument (call_args c) of None \<Rightarrow> []
                           | Some t \<Rightarrow> '' '' @ right_arrow @ '' '' @ t);
               app = call_label c
           in (case call_kind_of c of
                 KindRead \<Rightarrow> ''I'd like to read from ''
               | KindChange \<Rightarrow> ''I'd like to change something in ''
               | KindSend \<Rightarrow> ''I'd like to send something through '')
              @ app @ '': '' @ what @ target))"

definition ARGUMENTS_CAP :: nat where "ARGUMENTS_CAP = 4096"

definition arguments_text :: "(json \<Rightarrow> string) \<Rightarrow> json \<Rightarrow> string" where
  "arguments_text pretty args =
     (let s = pretty args in
      if length s \<le> ARGUMENTS_CAP then s
      else take (floor_boundary s ARGUMENTS_CAP) s @ ellipsis)"

section \<open>What a quick decision noted (\<open>agent/decide/toolgate.rs\<close>, \<open>AppNotes\<close>)\<close>

text \<open>
  The texts of the two notes are fields: they print floats.  A scope note's text depends on
  whether its question was added.
\<close>

record scope_note =
  scope_decision :: string
  scope_add :: bool
  scope_line :: "bool \<Rightarrow> string"
  scope_hover :: "bool \<Rightarrow> string"

record raise_note =
  raise_decision :: string
  raise_line :: string
  raise_hover :: string

record app_notes =
  note_scope :: "scope_note option"
  note_raised :: "raise_note option"

definition notes_adds_to :: "app_notes \<Rightarrow> call_kind \<Rightarrow> bool" where
  "notes_adds_to n strictest \<longleftrightarrow>
     strictest = KindRead \<and> (case note_scope n of None \<Rightarrow> False | Some s \<Rightarrow> scope_add s)"

definition joined_lines :: "string list \<Rightarrow> string option" where
  "joined_lines ls = (if ls \<noteq> [] then Some (join_with ('' '' @ middot @ '' '') ls) else None)"

definition notes_reason :: "app_notes \<Rightarrow> bool \<Rightarrow> string option" where
  "notes_reason n added =
     joined_lines
       ((case note_raised n of None \<Rightarrow> [] | Some up \<Rightarrow> [raise_line up])
        @ (case note_scope n of None \<Rightarrow> [] | Some s \<Rightarrow> [scope_line s (added \<and> scope_add s)]))"

definition notes_hover :: "app_notes \<Rightarrow> bool \<Rightarrow> string option" where
  "notes_hover n added =
     joined_lines
       ((case note_raised n of None \<Rightarrow> [] | Some up \<Rightarrow> [raise_hover up])
        @ (case note_scope n of None \<Rightarrow> [] | Some s \<Rightarrow> [scope_hover s (added \<and> scope_add s)]))"

definition label_refusal :: "app_notes \<Rightarrow> db \<Rightarrow> db" where
  "label_refusal n d =
     (let d1 = (case note_scope n of None \<Rightarrow> d
                  | Some s \<Rightarrow> note_outcome d (scope_decision s) ''right'' ''app-card'')
      in case note_raised n of None \<Rightarrow> d1
           | Some up \<Rightarrow> note_outcome d1 (raise_decision up) ''weak_right'' ''app-card'')"

section \<open>Proposals\<close>

definition render_app_proposal :: "(json \<Rightarrow> string) \<Rightarrow> connector_call \<Rightarrow> string \<Rightarrow> string" where
  "render_app_proposal pretty c said =
     ''Connector: '' @ call_connector_id c @ newline @ ''App: '' @ call_app c @ newline
     @ ''Tool: '' @ call_tool c @ newline @ ''Kind: '' @ kind_as_str (call_kind_of c) @ newline
     @ ''Summary: '' @ replace_char (CHR 0x0A) '' '' said @ newline @ newline @ pretty (call_args c)"

record app_proposal =
  ap_connector_id :: string
  ap_app :: string
  ap_tool :: string
  ap_kind :: call_kind
  ap_summary :: string
  ap_args :: json

record proposal_headers =
  ph_connector :: "string option"
  ph_app :: "string option"
  ph_tool :: "string option"
  ph_kind :: "call_kind option"
  ph_summary :: "string option"

definition no_headers :: proposal_headers where
  "no_headers = \<lparr>ph_connector = None, ph_app = None, ph_tool = None, ph_kind = None, ph_summary = None\<rparr>"

definition read_header :: "proposal_headers \<Rightarrow> string \<Rightarrow> proposal_headers" where
  "read_header h line =
     (case split_once '': '' line of
        None \<Rightarrow> h
      | Some (k, v) \<Rightarrow>
          if k = ''Connector'' then h\<lparr>ph_connector := Some v\<rparr>
          else if k = ''App'' then h\<lparr>ph_app := Some v\<rparr>
          else if k = ''Tool'' then h\<lparr>ph_tool := Some v\<rparr>
          else if k = ''Kind'' then h\<lparr>ph_kind := kind_parse v\<rparr>
          else if k = ''Summary'' then h\<lparr>ph_summary := Some v\<rparr>
          else h)"

definition or_empty :: "string option \<Rightarrow> string" where
  "or_empty s = (case s of None \<Rightarrow> [] | Some v \<Rightarrow> v)"

definition parse_app_proposal :: "(string \<Rightarrow> json option) \<Rightarrow> string \<Rightarrow> app_proposal option" where
  "parse_app_proposal json_of s =
     (case split_once (newline @ newline) s of
        None \<Rightarrow> None
      | Some (header, body) \<Rightarrow>
          (let h = foldl read_header no_headers (str_lines header) in
           case (ph_connector h, ph_tool h, ph_kind h, json_of body) of
             (Some i, Some t, Some k, Some v) \<Rightarrow>
               Some \<lparr>ap_connector_id = i, ap_app = or_empty (ph_app h), ap_tool = t, ap_kind = k,
                     ap_summary = or_empty (ph_summary h), ap_args = v\<rparr>
           | _ \<Rightarrow> None))"

section \<open>The gate\<close>

record gate_env =
  ge_conversation_id :: string
  ge_headless :: bool
  ge_day :: string
  ge_notes :: "app_notes option"

text \<open>The store, the permission manager and what the run showed: questions and inbox events.\<close>

record gate_state =
  gs_access :: access_state
  gs_emitted :: "(string \<times> string \<times> string) list"

datatype admission = AdmitRun | AdmitLeft string

definition gs_db :: "gate_state \<Rightarrow> db" where
  "gs_db st = acc_db (gs_access st)"

definition with_db :: "(db \<Rightarrow> db) \<Rightarrow> gate_state \<Rightarrow> gate_state" where
  "with_db f st = st\<lparr>gs_access := (gs_access st)\<lparr>acc_db := f (acc_db (gs_access st))\<rparr>\<rparr>"

definition log_decision :: "gate_env \<Rightarrow> connector_call \<Rightarrow> string \<Rightarrow> db \<Rightarrow> db" where
  "log_decision env c by_whom d =
     or_unchanged d (log_activity d (Some (ge_conversation_id env)) ''mcp''
       (join_with ('' '' @ middot @ '' '')
          [call_connector_name c, kind_as_str (call_kind_of c), call_tool c, by_whom]))"

definition count_part :: "string \<Rightarrow> string \<Rightarrow> db \<Rightarrow> part \<Rightarrow> db" where
  "count_part connector_id day d g =
     (if 0 < part_sends g
      then or_unchanged d (bump_app_send d connector_id (part_app g) day (part_sends g)) else d)"

definition count_sends :: "gate_env \<Rightarrow> connector_call \<Rightarrow> db \<Rightarrow> db" where
  "count_sends env c d = foldl (count_part (call_connector_id c) (ge_day env)) d (call_groups c)"

definition leave_for_approval ::
  "(json \<Rightarrow> string) \<Rightarrow> string \<Rightarrow> gate_env \<Rightarrow> connector_call \<Rightarrow> string \<Rightarrow> bool \<Rightarrow> gate_state
     \<Rightarrow> gate_state \<times> admission" where
  "leave_for_approval pretty pid env c said at_cap st =
     (let st1 = (case add_change_proposal (gs_db st) pid ''app'' None (render_app_proposal pretty c said)
                        said (Some said) of
                   Inl _ \<Rightarrow> st
                 | Inr (d, p) \<Rightarrow>
                     (with_db (\<lambda>_. d) st)\<lparr>gs_emitted := gs_emitted st @ [(prop_id p, ''app'', said)]\<rparr>)
      in (with_db (log_decision env c (if at_cap then ''cap'' else ''headless-refused'')) st1,
          AdmitLeft (''I need you to approve this: '' @ said @ ''. I've left it for you.'')))"

definition policy_of :: "db \<Rightarrow> string \<Rightarrow> part \<Rightarrow> connector_policy" where
  "policy_of d connector_id g =
     (case get_connector_policy d connector_id (part_app g) of
        Inl _ \<Rightarrow> policy_defaults connector_id (part_app g) | Inr p \<Rightarrow> p)"

definition sending_off :: string where
  "sending_off = ''The person has turned off sending through connected apps.''"

definition used_today :: "db \<Rightarrow> string \<Rightarrow> string \<Rightarrow> part \<Rightarrow> int" where
  "used_today d connector_id day g =
     (case app_send_count d connector_id (part_app g) day of Inl _ \<Rightarrow> 0 | Inr n \<Rightarrow> n)"

text \<open>
  One app of the call: \<open>Inl\<close> ends the call, otherwise whether it may run unasked, and what to
  say when the day's cap is why it may not.
\<close>

definition judge_part ::
  "db \<Rightarrow> string \<Rightarrow> string \<Rightarrow> bool \<Rightarrow> part \<Rightarrow> connector_policy \<Rightarrow> string + (bool \<times> string option)" where
  "judge_part d connector_id day added g policy =
     (case part_kind g of
        KindRead \<Rightarrow> Inr (read_policy policy \<noteq> ''ask'' \<and> \<not> added, None)
      | KindChange \<Rightarrow> Inr (change_policy policy = ''allow'', None)
      | KindSend \<Rightarrow>
          (let rung = autonomy_gate d ''app_send'' in
           if rung = RungOff then Inl sending_off
           else if send_policy policy = ''allow'' \<or> rung = RungAuto then
             (let used = used_today d connector_id day g in
              if used + part_sends g > send_cap policy
              then Inr (False, Some (''I've already sent '' @ show_int used @ '' things through ''
                                     @ part_name g @ '' today.''))
              else Inr (True, None))
           else Inr (False, None)))"

fun judge_parts ::
  "db \<Rightarrow> string \<Rightarrow> string \<Rightarrow> bool \<Rightarrow> (part \<times> connector_policy) list \<Rightarrow> bool \<times> string option
     \<Rightarrow> string + (bool \<times> string option)" where
  "judge_parts d i day added [] acc = Inr acc"
| "judge_parts d i day added ((g, policy) # gs) acc =
     (case judge_part d i day added g policy of
        Inl e \<Rightarrow> Inl e
      | Inr (ok, why) \<Rightarrow>
          judge_parts d i day added gs
            (fst acc \<and> ok, case snd acc of None \<Rightarrow> why | Some w \<Rightarrow> Some w))"

definition strictest_kind :: "connector_call \<Rightarrow> call_kind" where
  "strictest_kind c = Max (set (map part_kind (call_groups c)))"

definition always_policy :: "part \<Rightarrow> connector_policy \<Rightarrow> connector_policy" where
  "always_policy g p =
     (case part_kind g of
        KindRead \<Rightarrow> p\<lparr>read_policy := ''run''\<rparr>
      | KindChange \<Rightarrow> p\<lparr>change_policy := ''allow''\<rparr>
      | KindSend \<Rightarrow> p\<lparr>send_policy := ''allow''\<rparr>)"

definition save_always :: "(part \<times> connector_policy) list \<Rightarrow> db \<Rightarrow> db" where
  "save_always gps d =
     foldl (\<lambda>d (g, p). or_unchanged d (save_connector_policy d (always_policy g p))) d gps"

definition first_send_cap :: "(part \<times> connector_policy) list \<Rightarrow> int option" where
  "first_send_cap gps =
     map_option (send_cap \<circ> snd) (List.find (\<lambda>(g, _). part_kind g = KindSend) gps)"

definition connector_request ::
  "unicode \<Rightarrow> (json \<Rightarrow> string) \<Rightarrow> string \<Rightarrow> gate_env \<Rightarrow> connector_call \<Rightarrow> bool
     \<Rightarrow> (part \<times> connector_policy) list \<Rightarrow> string \<Rightarrow> permission_request" where
  "connector_request u pretty i env c added gps said =
     (let shown = (case call_shown c of Some v \<Rightarrow> v | None \<Rightarrow> call_args c);
          r = request_app_call i said (call_label c) (kind_as_str (strictest_kind c))
                (arguments_text pretty shown) (first_send_cap gps)
      in r\<lparr>req_tools := (if call_tools c \<noteq> [] then Some (call_tools c) else req_tools r),
           req_reason := (case ge_notes env of None \<Rightarrow> None | Some n \<Rightarrow> notes_reason n added),
           req_reason_hover := (case ge_notes env of None \<Rightarrow> None | Some n \<Rightarrow> notes_hover n added)\<rparr>)"

text \<open>
  \<open>until_cancelled(rx)\<close>: \<open>None\<close> when the run is cancelled first (the request stays pending),
  otherwise what the channel gives, a dropped channel counting as a refusal.
\<close>

definition ask_until_cancelled ::
  "access_state \<Rightarrow> permission_request \<Rightarrow> decision option option \<Rightarrow> access_state \<times> decision option" where
  "ask_until_cancelled st req reply =
     (case reply of
        None \<Rightarrow> (st\<lparr>acc_perms := fst (open_request (acc_perms st) (req_id req)),
                     acc_sent := acc_sent st @ [req]\<rparr>, None)
      | Some answer \<Rightarrow> (case ask_user st req answer of (st', d) \<Rightarrow> (st', Some d)))"

definition after_answer ::
  "unicode \<Rightarrow> gate_env \<Rightarrow> connector_call \<Rightarrow> (part \<times> connector_policy) list \<Rightarrow> gate_state
     \<Rightarrow> decision option \<Rightarrow> gate_state \<times> (string + admission)" where
  "after_answer u env c gps st d =
     (case d of
        None \<Rightarrow> (with_db (log_decision env c ''declined'') st,
                  Inl ''The person stopped the run before answering.'')
      | Some DecisionDeny \<Rightarrow>
          (with_db (\<lambda>d0. let d1 = log_decision env c ''declined'' d0
                         in case ge_notes env of None \<Rightarrow> d1 | Some n \<Rightarrow> label_refusal n d1) st,
           Inl (''The person declined to let me use '' @ humanise u (call_tool c) @ '' in ''
                @ call_label c @ ''.''))
      | Some DecisionForever \<Rightarrow>
          (with_db (\<lambda>d0. count_sends env c (log_decision env c ''always'' (save_always gps d0))) st,
           Inr AdmitRun)
      | Some _ \<Rightarrow>
          (with_db (\<lambda>d0. count_sends env c (log_decision env c ''once'' d0)) st, Inr AdmitRun))"

definition admit ::
  "unicode \<Rightarrow> (json \<Rightarrow> string) \<Rightarrow> string \<Rightarrow> string \<Rightarrow> decision option option \<Rightarrow> gate_env \<Rightarrow> connector_call
     \<Rightarrow> gate_state \<Rightarrow> gate_state \<times> (string + admission)" where
  "admit u pretty perm pid reply env c st =
     (let d = gs_db st;
          gps = map (\<lambda>g. (g, policy_of d (call_connector_id c) g)) (call_groups c);
          added = (case ge_notes env of None \<Rightarrow> False | Some n \<Rightarrow> notes_adds_to n (strictest_kind c))
      in case judge_parts d (call_connector_id c) (ge_day env) added gps (True, None) of
           Inl e \<Rightarrow> (st, Inl e)
         | Inr (True, _) \<Rightarrow> (with_db (count_sends env c) st, Inr AdmitRun)
         | Inr (False, why) \<Rightarrow>
             (let base = call_summary u c;
                  said = (case why of Some r \<Rightarrow> r @ '' '' @ base | None \<Rightarrow> base);
                  line = (case ge_notes env of None \<Rightarrow> None | Some n \<Rightarrow> notes_reason n added)
              in if ge_headless env then
                   (let told = (case (line, added) of
                                  (Some l, True) \<Rightarrow> said @ '' ('' @ l @ '')'' | _ \<Rightarrow> said);
                        (st', a) = leave_for_approval pretty pid env c told (why \<noteq> None) st
                    in (st', Inr a))
                 else
                   (let req = connector_request u pretty perm env c added gps said;
                        (acc, d') = ask_until_cancelled (gs_access st) req reply
                    in after_answer u env c gps (st\<lparr>gs_access := acc\<rparr>) d')))"

section \<open>What lets a call run unasked\<close>

definition runs_unasked :: "db \<Rightarrow> string \<Rightarrow> string \<Rightarrow> bool \<Rightarrow> part \<Rightarrow> bool" where
  "runs_unasked d i day added g =
     (let p = policy_of d i g in
      case part_kind g of
        KindRead \<Rightarrow> read_policy p \<noteq> ''ask'' \<and> \<not> added
      | KindChange \<Rightarrow> change_policy p = ''allow''
      | KindSend \<Rightarrow>
          (send_policy p = ''allow'' \<or> autonomy_gate d ''app_send'' = RungAuto)
          \<and> used_today d i day g + part_sends g \<le> send_cap p)"

definition sending_barred :: "db \<Rightarrow> connector_call \<Rightarrow> bool" where
  "sending_barred d c \<longleftrightarrow> autonomy_gate d ''app_send'' = RungOff \<and> KindSend \<in> part_kind ` set (call_groups c)"

definition added_of :: "gate_env \<Rightarrow> connector_call \<Rightarrow> bool" where
  "added_of env c = (case ge_notes env of None \<Rightarrow> False | Some n \<Rightarrow> notes_adds_to n (strictest_kind c))"

definition all_unasked :: "db \<Rightarrow> gate_env \<Rightarrow> connector_call \<Rightarrow> bool" where
  "all_unasked d env c \<longleftrightarrow>
     (\<forall>g \<in> set (call_groups c). runs_unasked d (call_connector_id c) (ge_day env) (added_of env c) g)"

definition policies_for :: "db \<Rightarrow> connector_call \<Rightarrow> (part \<times> connector_policy) list" where
  "policies_for d c = map (\<lambda>g. (g, policy_of d (call_connector_id c) g)) (call_groups c)"

lemma judge_part_barred:
  "autonomy_gate d ''app_send'' = RungOff \<Longrightarrow> part_kind g = KindSend
     \<Longrightarrow> judge_part d i day added g p = Inl sending_off"
  by (simp add: judge_part_def)

lemma judge_part_ok:
  "\<not> (autonomy_gate d ''app_send'' = RungOff \<and> part_kind g = KindSend)
     \<Longrightarrow> \<exists>w. judge_part d i day added g (policy_of d i g) = Inr (runs_unasked d i day added g, w)"
  by (cases "part_kind g") (auto simp: judge_part_def runs_unasked_def Let_def)

lemma judge_parts_barred:
  "autonomy_gate d ''app_send'' = RungOff \<Longrightarrow> KindSend \<in> part_kind ` set gs
     \<Longrightarrow> judge_parts d i day added (map (\<lambda>g. (g, policy_of d i g)) gs) acc = Inl sending_off"
proof (induction gs arbitrary: acc)
  case (Cons g gs)
  show ?case
  proof (cases "part_kind g = KindSend")
    case False
    with Cons.prems have "KindSend \<in> part_kind ` set gs" by auto
    moreover obtain w where "judge_part d i day added g (policy_of d i g) = Inr (runs_unasked d i day added g, w)"
      using judge_part_ok False by blast
    ultimately show ?thesis using Cons.IH Cons.prems(1) by simp
  qed (simp add: judge_part_barred Cons.prems(1))
qed simp

lemma judge_parts_ok:
  "\<not> (autonomy_gate d ''app_send'' = RungOff \<and> KindSend \<in> part_kind ` set gs)
     \<Longrightarrow> \<exists>w. judge_parts d i day added (map (\<lambda>g. (g, policy_of d i g)) gs) acc =
           Inr (fst acc \<and> (\<forall>g \<in> set gs. runs_unasked d i day added g), w)"
proof (induction gs arbitrary: acc)
  case Nil
  show ?case by (cases acc) simp
next
  case (Cons g gs)
  then have "\<not> (autonomy_gate d ''app_send'' = RungOff \<and> part_kind g = KindSend)" by auto
  then obtain w0 where j: "judge_part d i day added g (policy_of d i g) = Inr (runs_unasked d i day added g, w0)"
    using judge_part_ok by blast
  have "\<not> (autonomy_gate d ''app_send'' = RungOff \<and> KindSend \<in> part_kind ` set gs)"
    using Cons.prems by auto
  from Cons.IH[OF this, of "(fst acc \<and> runs_unasked d i day added g,
      case snd acc of None \<Rightarrow> w0 | Some w \<Rightarrow> Some w)"]
  show ?case using j by (auto simp: conj_assoc)
qed

text \<open>The four ways a call goes, as one case distinction.\<close>

lemma admit_cases:
  obtains
    (barred) "sending_barred (gs_db st) c"
      "admit u pretty perm pid reply env c st = (st, Inl sending_off)"
  | (unasked) "\<not> sending_barred (gs_db st) c" "all_unasked (gs_db st) env c"
      "admit u pretty perm pid reply env c st = (with_db (count_sends env c) st, Inr AdmitRun)"
  | (parked) said at_cap where "\<not> sending_barred (gs_db st) c" "\<not> all_unasked (gs_db st) env c"
      "ge_headless env"
      "admit u pretty perm pid reply env c st =
         (fst (leave_for_approval pretty pid env c said at_cap st),
          Inr (snd (leave_for_approval pretty pid env c said at_cap st)))"
  | (asked) req acc d where "\<not> sending_barred (gs_db st) c" "\<not> all_unasked (gs_db st) env c"
      "\<not> ge_headless env"
      "ask_until_cancelled (gs_access st) req reply = (acc, d)"
      "admit u pretty perm pid reply env c st =
         after_answer u env c (policies_for (gs_db st) c) (st\<lparr>gs_access := acc\<rparr>) d"
proof -
  let ?d = "gs_db st"
  let ?judged = "judge_parts ?d (call_connector_id c) (ge_day env) (added_of env c) (policies_for ?d c) (True, None)"
  note unfold = admit_def Let_def added_of_def[symmetric] policies_for_def[symmetric]
  show ?thesis
  proof (cases "sending_barred ?d c")
    case True
    then have "?judged = Inl sending_off"
      by (simp add: sending_barred_def policies_for_def judge_parts_barred)
    with True show ?thesis by (intro barred) (simp_all add: unfold)
  next
    case False
    then obtain why where j: "?judged = Inr (all_unasked ?d env c, why)"
      using judge_parts_ok[of ?d "call_groups c" "call_connector_id c" "ge_day env" "added_of env c" "(True, None)"]
      by (auto simp: all_unasked_def sending_barred_def policies_for_def)
    show ?thesis
    proof (cases "all_unasked ?d env c")
      case True
      with j False show ?thesis by (intro unasked) (simp_all add: unfold)
    next
      case asks: False
      show ?thesis
      proof (cases "ge_headless env")
        case True
        define said where "said = (case why of Some r \<Rightarrow> r @ '' '' @ call_summary u c | None \<Rightarrow> call_summary u c)"
        define told where "told = (case (case ge_notes env of None \<Rightarrow> None
            | Some n \<Rightarrow> notes_reason n (added_of env c), added_of env c) of
            (Some l, True) \<Rightarrow> said @ '' ('' @ l @ '')'' | _ \<Rightarrow> said)"
        show ?thesis
          using j False asks True
          by (intro parked[of told "why \<noteq> None"], unfold told_def said_def) (simp_all add: unfold split_beta)
      next
        case nh: False
        define said where "said = (case why of Some r \<Rightarrow> r @ '' '' @ call_summary u c | None \<Rightarrow> call_summary u c)"
        define req where "req = connector_request u pretty perm env c (added_of env c) (policies_for ?d c) said"
        obtain acc d where q: "ask_until_cancelled (gs_access st) req reply = (acc, d)" by fastforce
        show ?thesis
          using j False asks nh q
          by (intro asked[OF _ _ _ q]) (simp_all add: unfold req_def said_def)
      qed
    qed
  qed
qed

section \<open>Counting sends\<close>

definition count_in :: "db \<Rightarrow> string \<Rightarrow> string \<Rightarrow> string \<Rightarrow> int" where
  "count_in d i app day = (case db_sends d (i, app, day) of None \<Rightarrow> 0 | Some n \<Rightarrow> n)"

definition sends_to :: "string \<Rightarrow> part list \<Rightarrow> int" where
  "sends_to app gs = sum_list (map (\<lambda>g. if part_app g = app then max 0 (part_sends g) else 0) gs)"

lemma used_today_count: "db_readable d \<Longrightarrow> used_today d i day g = count_in d i (part_app g) day"
  by (simp add: used_today_def app_send_count_def count_in_def)

lemma count_part_frame [simp]:
  "db_readable (count_part i day d g) = db_readable d"
  "db_writable (count_part i day d g) = db_writable d"
  "db_settings (count_part i day d g) = db_settings d"
  "db_policies (count_part i day d g) = db_policies d"
  by (simp_all add: count_part_def)

lemma count_part_count:
  "db_writable d \<Longrightarrow> count_in (count_part i day d g) i' app day' =
     count_in d i' app day' + (if i' = i \<and> day' = day then sends_to app [g] else 0)"
  by (auto simp: count_part_def count_in_def bump_app_send_def or_unchanged_def sends_to_def
      split: option.splits)

lemma count_parts_count:
  "db_writable d \<Longrightarrow> count_in (foldl (count_part i day) d gs) i' app day' =
     count_in d i' app day' + (if i' = i \<and> day' = day then sends_to app gs else 0)"
proof (induction gs arbitrary: d)
  case Nil
  then show ?case by (simp add: sends_to_def)
next
  case (Cons g gs)
  then show ?case by (simp add: count_part_count) (simp add: sends_to_def)
qed

lemma count_sends_count:
  "db_writable d \<Longrightarrow> count_in (count_sends env c d) i app day =
     count_in d i app day
     + (if i = call_connector_id c \<and> day = ge_day env then sends_to app (call_groups c) else 0)"
  by (simp add: count_sends_def count_parts_count)

lemma log_decision_frame [simp]:
  "db_sends (log_decision env c w d) = db_sends d"
  "db_policies (log_decision env c w d) = db_policies d"
  "db_settings (log_decision env c w d) = db_settings d"
  "db_readable (log_decision env c w d) = db_readable d"
  "db_writable (log_decision env c w d) = db_writable d"
  by (simp_all add: log_decision_def)

lemma log_decision_proposals [simp]: "db_proposals (log_decision env c w d) = db_proposals d"
  by (simp add: log_decision_def log_activity_def or_unchanged_def)

lemma note_outcome_frame [simp]:
  "db_sends (note_outcome d i l s) = db_sends d"
  "db_policies (note_outcome d i l s) = db_policies d"
  "db_settings (note_outcome d i l s) = db_settings d"
  by (auto simp: note_outcome_def add_outcome_def split: option.splits)

lemma label_refusal_frame [simp]:
  "db_sends (label_refusal n d) = db_sends d"
  "db_policies (label_refusal n d) = db_policies d"
  "db_settings (label_refusal n d) = db_settings d"
  by (simp_all add: label_refusal_def split: option.split)

lemma save_always_frame [simp]:
  "db_sends (save_always gps d) = db_sends d"
  "db_settings (save_always gps d) = db_settings d"
  "db_readable (save_always gps d) = db_readable d"
  "db_writable (save_always gps d) = db_writable d"
  by (induction gps arbitrary: d) (auto simp: save_always_def split_beta)

lemma count_in_cong: "db_sends d = db_sends d' \<Longrightarrow> count_in d = count_in d'"
  by (intro ext) (simp add: count_in_def)

lemma gs_db_with_db [simp]: "gs_db (with_db f st) = f (gs_db st)"
  by (simp add: gs_db_def with_db_def)

lemma gs_emitted_with_db [simp]: "gs_emitted (with_db f st) = gs_emitted st"
  by (simp add: with_db_def)

lemma with_db_access [simp]:
  "acc_sent (gs_access (with_db f st)) = acc_sent (gs_access st)"
  "acc_perms (gs_access (with_db f st)) = acc_perms (gs_access st)"
  by (simp_all add: with_db_def)

lemma ask_until_cancelled_spec:
  assumes "ask_until_cancelled st req reply = (acc, d)"
  shows "acc_db acc = acc_db st" and "acc_sent acc = acc_sent st @ [req]"
    and "d = map_option answer_or_deny reply"
proof -
  have "acc_db acc = acc_db st \<and> acc_sent acc = acc_sent st @ [req] \<and> d = map_option answer_or_deny reply"
  proof (cases reply)
    case None
    then show ?thesis using assms by (auto simp: ask_until_cancelled_def)
  next
    case (Some answer)
    then have "acc = fst (ask_user st req answer)" "d = Some (snd (ask_user st req answer))"
      using assms by (simp_all add: ask_until_cancelled_def split_beta del: ask_user_answer)
    with Some show ?thesis by simp
  qed
  then show "acc_db acc = acc_db st" "acc_sent acc = acc_sent st @ [req]"
    "d = map_option answer_or_deny reply" by blast+
qed

lemma after_answer_run:
  "snd (after_answer u env c gps st d) = Inr a \<longleftrightarrow> a = AdmitRun \<and> d \<notin> {None, Some DecisionDeny}"
  by (cases d; cases "the d") (auto simp: after_answer_def)

lemma after_answer_count:
  assumes "db_writable (gs_db st)"
  shows "count_in (gs_db (fst (after_answer u env c gps st d))) i app day =
     count_in (gs_db st) i app day
     + (if d \<notin> {None, Some DecisionDeny} \<and> i = call_connector_id c \<and> day = ge_day env
        then sends_to app (call_groups c) else 0)"
proof -
  define n where "n = count_in (gs_db st) i app day"
  define m where "m = (if i = call_connector_id c \<and> day = ge_day env then sends_to app (call_groups c) else 0)"
  have same: "count_in d1 i app day = n" if "db_sends d1 = db_sends (gs_db st)" for d1
    using count_in_cong[OF that] by (simp add: n_def)
  have counted: "count_in (count_sends env c d1) i app day = n + m"
    if "db_sends d1 = db_sends (gs_db st)" "db_writable d1" for d1
    using count_sends_count[OF that(2), of env c i app day] same[OF that(1)] by (simp add: m_def)
  have "count_in (gs_db (fst (after_answer u env c gps st d))) i app day =
      n + (if d \<notin> {None, Some DecisionDeny} then m else 0)"
  proof (cases d)
    case None
    then show ?thesis by (simp add: after_answer_def same)
  next
    case (Some d')
    then show ?thesis using assms
      by (cases d') (simp_all add: after_answer_def same counted Let_def split: option.split)
  qed
  then show ?thesis by (cases d) (simp_all add: n_def m_def)
qed

lemma leave_spec:
  shows "db_sends (gs_db (fst (leave_for_approval pretty pid env c said cap st))) = db_sends (gs_db st)"
    and "acc_sent (gs_access (fst (leave_for_approval pretty pid env c said cap st))) = acc_sent (gs_access st)"
    and "acc_perms (gs_access (fst (leave_for_approval pretty pid env c said cap st))) = acc_perms (gs_access st)"
    and "\<exists>w. snd (leave_for_approval pretty pid env c said cap st) = AdmitLeft w"
    and "db_writable (gs_db st) \<Longrightarrow>
      db_proposals (gs_db (fst (leave_for_approval pretty pid env c said cap st))) = db_proposals (gs_db st) @
        [\<lparr>prop_id = pid, prop_target = ''app'', prop_slug = None,
          proposed_text = render_app_proposal pretty c said, rationale = said,
          prop_description = Some said, prop_status = ''pending''\<rparr>]"
  by (auto simp: leave_for_approval_def add_change_proposal_def Let_def gs_db_def with_db_def)

section \<open>The words of a name\<close>

lemma words_loop_concat:
  "concat (words_loop u prev cur cs) = cur @ concat (map (char_to_lowercase u) (filter (char_alphanumeric u) cs))"
  by (induction cs arbitrary: prev cur) (auto simp: Let_def)

lemma words_loop_nonempty:
  "\<forall>c \<in> set cs. char_to_lowercase u c \<noteq> [] \<Longrightarrow> [] \<notin> set (words_loop u prev cur cs)"
  by (induction cs arbitrary: prev cur) (auto simp: Let_def)

section \<open>The parser reads what the printer wrote\<close>

definition plain_field :: "string \<Rightarrow> bool" where
  "plain_field s \<longleftrightarrow> CHR 0x0A \<notin> set s \<and> CHR 0x0D \<notin> set s"

lemma split_once_skip:
  "CHR 0x0A \<notin> set l \<Longrightarrow>
   split_once (newline @ newline) (l @ s) = map_option (\<lambda>(a, b). (l @ a, b)) (split_once (newline @ newline) s)"
proof (cases "split_once (newline @ newline) s")
  case None
  moreover assume "CHR 0x0A \<notin> set l"
  ultimately show ?thesis by (induction l) auto
next
  case (Some r)
  moreover assume "CHR 0x0A \<notin> set l"
  ultimately show ?thesis by (induction l) (auto split: prod.split)
qed

lemma split_once_newline:
  "l \<noteq> [] \<Longrightarrow> CHR 0x0A \<notin> set l \<Longrightarrow>
   split_once (newline @ newline) (newline @ l @ s) =
     map_option (\<lambda>(a, b). (newline @ a, b)) (split_once (newline @ newline) (l @ s))"
  by (cases l) auto

lemma split_once_here: "split_once (newline @ newline) (newline @ newline @ s) = Some ([], s)"
  by simp

lemma split_once_lines:
  assumes "ls \<noteq> []" and "\<forall>l \<in> set ls. l \<noteq> [] \<and> CHR 0x0A \<notin> set l"
  shows "split_once (newline @ newline) (join_with newline ls @ newline @ newline @ body) =
     Some (join_with newline ls, body)"
  using assms
proof (induction ls rule: induct_list012)
  case (2 l)
  then have "CHR 0x0A \<notin> set l" by simp
  from split_once_skip[OF this, of "newline @ newline @ body"] show ?case
    by (simp only: join_with.simps split_once_here) simp
next
  case (3 l l' ls)
  define s where "s = join_with newline (l' # ls) @ newline @ newline @ body"
  obtain s' where s': "s = l' @ s'" by (cases ls) (simp_all add: s_def)
  have l: "CHR 0x0A \<notin> set l" and l': "l' \<noteq> []" "CHR 0x0A \<notin> set l'" using 3 by simp_all
  have IH: "split_once (newline @ newline) s = Some (join_with newline (l' # ls), body)"
    using 3 by (simp only: s_def) simp
  have "split_once (newline @ newline) (newline @ s) = Some (newline @ join_with newline (l' # ls), body)"
    using split_once_newline[OF l', of s'] IH s' by simp
  then have "split_once (newline @ newline) (l @ newline @ s) =
      Some (l @ newline @ join_with newline (l' # ls), body)"
    using split_once_skip[OF l, of "newline @ s"] by simp
  then show ?case by (simp add: s_def)
qed simp

lemma split_on_lines:
  "ls \<noteq> [] \<Longrightarrow> \<forall>l \<in> set ls. CHR 0x0A \<notin> set l \<Longrightarrow> split_on (CHR 0x0A) (join_with newline ls) = ls"
  by (induction ls rule: induct_list012) (auto simp: split_on_none split_on_append)

lemma str_lines_join:
  assumes "ls \<noteq> []" and "last ls \<noteq> []" and "\<forall>l \<in> set ls. CHR 0x0A \<notin> set l"
    and "\<forall>l \<in> set (butlast ls). l \<noteq> [] \<and> last l \<noteq> CHR 0x0D"
  shows "str_lines (join_with newline ls) = ls"
proof -
  have "map strip_cr (butlast ls) = butlast ls"
    using assms(4) by (intro map_idI) (simp add: strip_cr_def)
  with assms(1,2) show ?thesis
    by (simp add: str_lines_def split_on_lines[OF assms(1,3)] Let_def)
qed

lemma split_once_key:
  "CHR '':'' \<notin> set k \<Longrightarrow> split_once '': '' (k @ CHR '':'' # CHR '' '' # v) = Some (k, v)"
  by (induction k) auto

lemma read_header_line:
  "CHR '':'' \<notin> set k \<Longrightarrow> read_header h (k @ '': '' @ v) =
     (if k = ''Connector'' then h\<lparr>ph_connector := Some v\<rparr>
      else if k = ''App'' then h\<lparr>ph_app := Some v\<rparr>
      else if k = ''Tool'' then h\<lparr>ph_tool := Some v\<rparr>
      else if k = ''Kind'' then h\<lparr>ph_kind := kind_parse v\<rparr>
      else if k = ''Summary'' then h\<lparr>ph_summary := Some v\<rparr>
      else h)"
  by (simp add: read_header_def split_once_key)

definition header_lines :: "connector_call \<Rightarrow> string \<Rightarrow> string list" where
  "header_lines c said =
     [''Connector'' @ '': '' @ call_connector_id c, ''App'' @ '': '' @ call_app c,
      ''Tool'' @ '': '' @ call_tool c, ''Kind'' @ '': '' @ kind_as_str (call_kind_of c),
      ''Summary'' @ '': '' @ replace_char (CHR 0x0A) '' '' said]"

lemma render_lines:
  "render_app_proposal pretty c said =
     join_with newline (header_lines c said) @ newline @ newline @ pretty (call_args c)"
  by (simp add: render_app_proposal_def header_lines_def)

lemma kind_text_plain: "CHR 0x0A \<notin> set (kind_as_str k)" "last (''Kind'' @ '': '' @ kind_as_str k) \<noteq> CHR 0x0D"
  by (cases k; simp add: kind_as_str_def)+

lemma last_key_line: "CHR 0x0D \<notin> set v \<Longrightarrow> last (k @ '': '' @ v) \<noteq> CHR 0x0D"
  by (cases v rule: rev_cases) auto

lemma header_lines_ok:
  assumes "plain_field (call_connector_id c)" "plain_field (call_app c)" "plain_field (call_tool c)"
  shows "\<forall>l \<in> set (header_lines c said). l \<noteq> [] \<and> CHR 0x0A \<notin> set l"
    and "\<forall>l \<in> set (butlast (header_lines c said)). l \<noteq> [] \<and> last l \<noteq> CHR 0x0D"
proof -
  have "CHR 0x0A \<notin> set (replace_char (CHR 0x0A) '' '' said)"
    by (rule replace_char_gone) simp
  with assms kind_text_plain(1)[of "call_kind_of c"]
  show "\<forall>l \<in> set (header_lines c said). l \<noteq> [] \<and> CHR 0x0A \<notin> set l"
    by (simp add: header_lines_def plain_field_def)
  have "butlast (header_lines c said) =
     [''Connector'' @ '': '' @ call_connector_id c, ''App'' @ '': '' @ call_app c,
      ''Tool'' @ '': '' @ call_tool c, ''Kind'' @ '': '' @ kind_as_str (call_kind_of c)]"
    by (simp add: header_lines_def)
  moreover have "\<forall>l \<in> set [''Connector'' @ '': '' @ call_connector_id c, ''App'' @ '': '' @ call_app c,
      ''Tool'' @ '': '' @ call_tool c]. last l \<noteq> CHR 0x0D"
    using assms last_key_line unfolding plain_field_def by (simp only: list.set ball_simps) blast
  ultimately show "\<forall>l \<in> set (butlast (header_lines c said)). l \<noteq> [] \<and> last l \<noteq> CHR 0x0D"
    using kind_text_plain(2)[of "call_kind_of c"] by (simp only: list.set ball_simps) blast
qed

definition written_proposal :: "connector_call \<Rightarrow> string \<Rightarrow> app_proposal" where
  "written_proposal c said =
     \<lparr>ap_connector_id = call_connector_id c, ap_app = call_app c, ap_tool = call_tool c,
      ap_kind = call_kind_of c, ap_summary = replace_char (CHR 0x0A) '' '' said, ap_args = call_args c\<rparr>"

lemma read_header_lines:
  "foldl read_header no_headers (header_lines c said) =
     \<lparr>ph_connector = Some (call_connector_id c), ph_app = Some (call_app c), ph_tool = Some (call_tool c),
      ph_kind = Some (call_kind_of c), ph_summary = Some (replace_char (CHR 0x0A) '' '' said)\<rparr>"
  unfolding header_lines_def foldl_Cons foldl_Nil
  by (subst read_header_line, simp)+ (simp add: no_headers_def)

lemma parse_render:
  assumes "plain_field (call_connector_id c)" "plain_field (call_app c)" "plain_field (call_tool c)"
    and "json_of (pretty (call_args c)) = Some (call_args c)"
  shows "parse_app_proposal json_of (render_app_proposal pretty c said) = Some (written_proposal c said)"
proof -
  note ok = header_lines_ok[OF assms(1-3), of said]
  have ne: "header_lines c said \<noteq> []" "last (header_lines c said) \<noteq> []"
    by (simp_all add: header_lines_def)
  have "str_lines (join_with newline (header_lines c said)) = header_lines c said"
    using ok by (intro str_lines_join ne) blast+
  then show ?thesis
    using split_once_lines[OF ne(1) ok(1), of "pretty (call_args c)"] assms(4)
    by (simp add: parse_app_proposal_def render_lines read_header_lines written_proposal_def or_empty_def)
qed

section \<open>What Always leaves behind\<close>

definition policies_keyed :: "db \<Rightarrow> bool" where
  "policies_keyed d \<longleftrightarrow>
     (\<forall>i app p. db_policies d (i, app) = Some p \<longrightarrow> pol_connector_id p = i \<and> pol_app p = app)"

lemma policy_of_keyed:
  "policies_keyed d \<Longrightarrow> pol_connector_id (policy_of d i g) = i \<and> pol_app (policy_of d i g) = part_app g"
  by (auto simp: policy_of_def get_connector_policy_def policies_keyed_def policy_defaults_def
      split: sum.splits option.splits)

lemma always_policy_keyed [simp]:
  "pol_connector_id (always_policy g p) = pol_connector_id p" "pol_app (always_policy g p) = pol_app p"
  by (cases "part_kind g"; simp add: always_policy_def)+

lemma policy_of_cong: "db_policies d = db_policies d' \<Longrightarrow> db_readable d = db_readable d' \<Longrightarrow>
    policy_of d i g = policy_of d' i g"
  by (simp add: policy_of_def get_connector_policy_def)

lemma save_always_other:
  "\<forall>(h, p) \<in> set gps. pol_app p \<noteq> part_app g \<Longrightarrow> policy_of (save_always gps d) i g = policy_of d i g"
proof (induction gps arbitrary: d)
  case (Cons x gps)
  obtain h p where x: "x = (h, p)" by fastforce
  let ?d = "or_unchanged d (save_connector_policy d (always_policy h p))"
  have "policy_of ?d i g = policy_of d i g"
    using Cons.prems by (auto simp: x policy_of_def get_connector_policy_def save_connector_policy_def
        or_unchanged_def)
  with Cons show ?case by (simp add: save_always_def x)
qed (simp add: save_always_def)

lemma save_always_policy:
  assumes "db_up d" and "distinct (map (pol_app \<circ> snd) gps)" and "(g, p) \<in> set gps"
    and "pol_connector_id p = i" and "pol_app p = part_app g"
  shows "policy_of (save_always gps d) i g = stored_policy (always_policy g p)"
  using assms(1-3)
proof (induction gps arbitrary: d)
  case (Cons x gps)
  obtain h q where x: "x = (h, q)" by fastforce
  let ?d = "or_unchanged d (save_connector_policy d (always_policy h q))"
  have step: "save_always (x # gps) d = save_always gps ?d" by (simp add: save_always_def x)
  have up: "db_up ?d" using Cons.prems(1) by (simp add: db_up_def)
  show ?case
  proof (cases "(g, p) \<in> set gps")
    case True
    then show ?thesis using Cons.IH[OF up] Cons.prems(2) step by simp
  next
    case False
    with Cons.prems(3) have hq: "h = g" "q = p" by (simp_all add: x)
    have "pol_app (snd y) \<noteq> part_app g" if "y \<in> set gps" for y
      using Cons.prems(2) that assms(5) by (auto simp: x hq image_iff)
    then have "policy_of (save_always gps ?d) i g = policy_of ?d i g"
      by (intro save_always_other) (auto split: prod.split)
    moreover have "policy_of ?d i g = stored_policy (always_policy g p)"
      using Cons.prems(1) assms(4,5)
      by (simp add: hq policy_of_def get_connector_policy_def save_connector_policy_def db_up_def)
    ultimately show ?thesis using step by simp
  qed
qed simp

lemma count_sends_frame [simp]:
  "db_policies (count_sends env c d) = db_policies d"
  "db_readable (count_sends env c d) = db_readable d"
proof -
  have "db_policies (foldl (count_part i day) d gs) = db_policies d
      \<and> db_readable (foldl (count_part i day) d gs) = db_readable d" for i day gs
    by (induction gs arbitrary: d) simp_all
  then show "db_policies (count_sends env c d) = db_policies d"
    "db_readable (count_sends env c d) = db_readable d"
    by (simp_all add: count_sends_def)
qed

section \<open>Properties\<close>

text \<open>C1: A connector call runs exactly when sending is not switched off for a call that sends, and
  either every app it touches allows its share unasked (reads unless the person asked to be asked,
  changes only when always allowed, sends only when allowed and within the day's cap) or somebody
  was there to ask and answered with something other than a refusal.\<close>

theorem connector_call_runs_iff:
  "snd (admit u pretty perm pid reply env c st) = Inr AdmitRun \<longleftrightarrow>
     (if sending_barred (gs_db st) c then False
      else if all_unasked (gs_db st) env c then True
      else if ge_headless env then False
      else reply \<notin> {None, Some None, Some (Some DecisionDeny)})"
proof (cases rule: admit_cases[of st c u pretty perm pid reply env])
  case (parked said at_cap)
  then show ?thesis using leave_spec(4)[of pretty pid env c said at_cap st] by auto
next
  case (asked req acc d)
  have "d \<notin> {None, Some DecisionDeny} \<longleftrightarrow> reply \<notin> {None, Some None, Some (Some DecisionDeny)}"
    using ask_until_cancelled_spec(3)[OF asked(4)]
    by (auto simp: answer_or_deny_def split: option.splits)
  with asked show ?thesis by (simp add: after_answer_run)
qed simp_all

text \<open>C3: A send is counted when the call is admitted and only then, per app and per target: with a
  writable store, the counter of every connector, app and day grows by exactly the sends the
  admitted call makes through that app today, however it was admitted, and a call that is refused,
  cancelled or left for approval counts nothing.\<close>

theorem sends_counted_exactly:
  assumes "db_writable (gs_db st)"
  shows "count_in (gs_db (fst (admit u pretty perm pid reply env c st))) i app day =
     count_in (gs_db st) i app day
     + (if snd (admit u pretty perm pid reply env c st) = Inr AdmitRun
           \<and> i = call_connector_id c \<and> day = ge_day env
        then sends_to app (call_groups c) else 0)"
proof (cases rule: admit_cases[of st c u pretty perm pid reply env])
  case barred
  then show ?thesis by simp
next
  case unasked
  then show ?thesis using count_sends_count[OF assms] by simp
next
  case (parked said at_cap)
  then show ?thesis
    using leave_spec(1,4)[of pretty pid env c said at_cap st]
      count_in_cong[OF leave_spec(1)[of pretty pid env c said at_cap st]] by auto
next
  case (asked req acc d)
  let ?st = "st\<lparr>gs_access := acc\<rparr>"
  have db: "gs_db ?st = gs_db st"
    using ask_until_cancelled_spec(1)[OF asked(4)] by (simp add: gs_db_def)
  then have "db_writable (gs_db ?st)" using assms by simp
  from after_answer_count[OF this, of u env c "policies_for (gs_db st) c" d i app day]
  show ?thesis using asked(5) db by (simp add: after_answer_run)
qed

definition sample_call :: connector_call where
  "sample_call = \<lparr>call_connector_id = ''mail'', call_connector_name = ''Gmail'', call_app = [],
     call_tool = ''SEND_EMAIL'', call_kind_of = KindSend, call_args = JNull, call_parts = [],
     call_said = Some ''Send it'', call_shown = None, call_tools = []\<rparr>"

definition sample_env :: gate_env where
  "sample_env = \<lparr>ge_conversation_id = ''c'', ge_headless = False, ge_day = ''2025-01-01'', ge_notes = None\<rparr>"

definition sample_state :: "db \<Rightarrow> gate_state" where
  "sample_state d = \<lparr>gs_access = \<lparr>acc_db = d, acc_perms = new_manager, acc_sent = []\<rparr>, gs_emitted = []\<rparr>"

theorem sends_counted_exactly_witness:
  "count_in (gs_db (fst (admit ascii_only (\<lambda>_. []) ''p'' ''q'' (Some (Some DecisionOnce)) sample_env sample_call
      (sample_state empty_db)))) ''mail'' [] ''2025-01-01'' = 1"
proof -
  have w: "db_writable (gs_db (sample_state empty_db))"
    by (simp add: gs_db_def sample_state_def empty_db_def)
  have "snd (admit ascii_only (\<lambda>_. []) ''p'' ''q'' (Some (Some DecisionOnce)) sample_env sample_call
      (sample_state empty_db)) = Inr AdmitRun"
    by (simp add: admit_def Let_def sample_call_def call_groups_def sample_env_def sample_state_def
        gs_db_def judge_part_def autonomy_gate_def get_setting_def empty_db_def default_for_def
        AUTONOMY_DEFAULTS_def parse_rung_def policy_of_def get_connector_policy_def policy_defaults_def
        split_beta after_answer_run ask_until_cancelled_def answer_or_deny_def NO_AUTO_def)
  with sends_counted_exactly[OF w, of ascii_only "\<lambda>_. []" "''p''" "''q''" "Some (Some DecisionOnce)" sample_env
      sample_call "''mail''" "[]" "''2025-01-01''"]
  show ?thesis
    by (simp add: sample_call_def sample_env_def call_groups_def sends_to_def count_in_def gs_db_def
        sample_state_def empty_db_def)
qed

text \<open>C2: A send nobody was asked about stays within the day's cap: if a call ran without a question
  through apps that each appear once, then for every app it sends through, the day's count
  afterwards is at most that app's cap.\<close>

theorem silent_sends_within_cap:
  assumes "db_up (gs_db st)" and "distinct (map part_app (call_groups c))"
    and "snd (admit u pretty perm pid reply env c st) = Inr AdmitRun"
    and "acc_sent (gs_access (fst (admit u pretty perm pid reply env c st))) = acc_sent (gs_access st)"
    and "g \<in> set (call_groups c)" and "part_kind g = KindSend" and "0 \<le> part_sends g"
  shows "count_in (gs_db (fst (admit u pretty perm pid reply env c st))) (call_connector_id c) (part_app g)
           (ge_day env) \<le> send_cap (policy_of (gs_db st) (call_connector_id c) g)"
proof (cases rule: admit_cases[of st c u pretty perm pid reply env])
  case barred
  with assms(3) show ?thesis by simp
next
  case (parked said at_cap)
  with assms(3) leave_spec(4)[of pretty pid env c said at_cap st] show ?thesis by auto
next
  case (asked req acc d)
  have "acc_sent (gs_access (fst (after_answer u env c gps (st\<lparr>gs_access := acc\<rparr>) d))) = acc_sent acc" for gps
    by (cases d; cases "the d") (simp_all add: after_answer_def)
  with asked assms(4) ask_until_cancelled_spec(2)[OF asked(4)] show ?thesis by simp
next
  case unasked
  let ?i = "call_connector_id c"
  have "runs_unasked (gs_db st) ?i (ge_day env) (added_of env c) g"
    using unasked(2) assms(5) by (simp add: all_unasked_def)
  then have "count_in (gs_db st) ?i (part_app g) (ge_day env) + part_sends g \<le> send_cap (policy_of (gs_db st) ?i g)"
    using assms(1,6) by (simp add: runs_unasked_def used_today_count db_up_def Let_def)
  moreover have "sends_to (part_app g) (call_groups c) = part_sends g"
  proof -
    have "sends_to (part_app g) gs = (if g \<in> set gs then part_sends g else 0)"
      if "distinct (map part_app gs)" "\<forall>h \<in> set gs. part_app h = part_app g \<longrightarrow> h = g" for gs
      using that assms(7) by (induction gs) (auto simp: sends_to_def)
    moreover have "\<forall>h \<in> set (call_groups c). part_app h = part_app g \<longrightarrow> h = g"
      using assms(2,5) by (metis distinct_map inj_onD)
    ultimately show ?thesis using assms(2,5) by simp
  qed
  ultimately show ?thesis
    using unasked(3) count_sends_count[of "gs_db st" env c ?i "part_app g" "ge_day env"] assms(1)
    by (simp add: db_up_def)
qed

definition allow_db :: db where
  "allow_db = empty_db\<lparr>db_policies :=
     [(''mail'', []) \<mapsto> (policy_defaults ''mail'' [])\<lparr>send_policy := ''allow''\<rparr>]\<rparr>"

lemma allow_db_gate: "autonomy_gate allow_db ''app_send'' = RungAsk"
  by (simp add: autonomy_gate_def get_setting_def allow_db_def empty_db_def default_for_def
      AUTONOMY_DEFAULTS_def)

theorem silent_sends_within_cap_witness:
  "count_in (gs_db (fst (admit ascii_only (\<lambda>_. []) ''p'' ''q'' None sample_env sample_call
      (sample_state allow_db)))) ''mail'' [] ''2025-01-01'' \<le> 25"
proof -
  let ?g = "\<lparr>part_app = [], part_name = ''Gmail'', part_kind = KindSend, part_sends = 1\<rparr>"
  have gs: "call_groups sample_call = [?g]" by (simp add: call_groups_def sample_call_def)
  have pol: "policy_of allow_db ''mail'' ?g = (policy_defaults ''mail'' [])\<lparr>send_policy := ''allow''\<rparr>"
    by (simp add: policy_of_def get_connector_policy_def allow_db_def empty_db_def)
  have db: "gs_db (sample_state allow_db) = allow_db" by (simp add: gs_db_def sample_state_def)
  have i: "call_connector_id sample_call = ''mail''" by (simp add: sample_call_def)
  have up: "db_up allow_db" by (simp add: allow_db_def db_up_def empty_db_def)
  have used: "used_today allow_db ''mail'' day ?g = 0" for day
    by (simp add: used_today_def app_send_count_def allow_db_def empty_db_def)
  have adm: "admit ascii_only (\<lambda>_. []) ''p'' ''q'' None sample_env sample_call (sample_state allow_db) =
      (with_db (count_sends sample_env sample_call) (sample_state allow_db), Inr AdmitRun)"
    by (simp add: admit_def gs db i pol judge_part_def allow_db_gate Let_def policy_defaults_def used
        DEFAULT_SEND_CAP_def)
  have "send_cap (policy_of allow_db ''mail'' ?g) = 25"
    by (simp add: pol policy_defaults_def DEFAULT_SEND_CAP_def)
  with silent_sends_within_cap[of "sample_state allow_db" sample_call ascii_only "\<lambda>_. []" "''p''" "''q''" None
      sample_env ?g] up adm
  show ?thesis by (simp add: gs db i sample_env_def)
qed

text \<open>C4: With nobody watching, a call that would need a question is never asked and never run: it is
  left in the inbox as one pending proposal, and reading that proposal back gives exactly this
  call, its connector, app, tool, kind and arguments, provided the three names are single lines
  and the JSON library reads what it printed.\<close>

theorem headless_call_is_parked:
  assumes "ge_headless env" and "\<not> sending_barred (gs_db st) c" and "\<not> all_unasked (gs_db st) env c"
    and "db_writable (gs_db st)"
    and "plain_field (call_connector_id c)" "plain_field (call_app c)" "plain_field (call_tool c)"
    and "json_of (pretty (call_args c)) = Some (call_args c)"
  shows "(case admit u pretty perm pid reply env c st of
            (st', r) \<Rightarrow>
              (\<exists>w. r = Inr (AdmitLeft w)) \<and> acc_sent (gs_access st') = acc_sent (gs_access st)
              \<and> (\<exists>p said. db_proposals (gs_db st') = db_proposals (gs_db st) @ [p]
                   \<and> prop_status p = ''pending''
                   \<and> parse_app_proposal json_of (proposed_text p) = Some (written_proposal c said)))"
proof (cases rule: admit_cases[of st c u pretty perm pid reply env])
  case (parked said at_cap)
  then show ?thesis
    using leave_spec(2,4)[of pretty pid env c said at_cap st] leave_spec(5)[OF assms(4)]
      parse_render[where json_of=json_of and pretty=pretty and c=c and said=said] assms(5-8) by auto
qed (use assms in simp_all)

theorem headless_call_is_parked_witness:
  "\<exists>w. snd (admit ascii_only (\<lambda>_. ''null'') ''p'' ''q'' None (sample_env\<lparr>ge_headless := True\<rparr>) sample_call
      (sample_state empty_db)) = Inr (AdmitLeft w)"
proof -
  have db: "gs_db (sample_state empty_db) = empty_db" by (simp add: gs_db_def sample_state_def)
  have gate: "autonomy_gate empty_db ''app_send'' = RungAsk"
    by (simp add: autonomy_gate_def get_setting_def empty_db_def default_for_def AUTONOMY_DEFAULTS_def)
  have pol: "policy_of empty_db i g = policy_defaults i (part_app g)" for i g
    by (simp add: policy_of_def get_connector_policy_def empty_db_def)
  have n: "\<not> all_unasked empty_db (sample_env\<lparr>ge_headless := True\<rparr>) sample_call"
    by (simp add: all_unasked_def call_groups_def sample_call_def runs_unasked_def gate pol
        policy_defaults_def)
  show ?thesis
    using headless_call_is_parked[of "sample_env\<lparr>ge_headless := True\<rparr>" "sample_state empty_db" sample_call
        "\<lambda>_. Some JNull" "\<lambda>_. ''null''" ascii_only "''p''" "''q''" None] n
    by (simp add: db sending_barred_def gate plain_field_def sample_call_def split_beta) (simp add: empty_db_def)
qed

text \<open>A rendered proposal parses back to the call it was written for, whatever its summary says
  (line breaks in it become spaces), for names that are single lines and a JSON library that reads
  what it printed: accepting from the inbox runs what was parked.\<close>

theorem proposal_roundtrip:
  assumes "plain_field (call_connector_id c)" "plain_field (call_app c)" "plain_field (call_tool c)"
    and "json_of (pretty (call_args c)) = Some (call_args c)"
  shows "parse_app_proposal json_of (render_app_proposal pretty c said) = Some (written_proposal c said)"
  using assms by (rule parse_render)

theorem proposal_roundtrip_witness:
  "parse_app_proposal (\<lambda>_. Some JNull) (render_app_proposal (\<lambda>_. ''null'') sample_call (''a'' @ newline @ newline @ ''b'')) =
     Some \<lparr>ap_connector_id = ''mail'', ap_app = [], ap_tool = ''SEND_EMAIL'', ap_kind = KindSend,
           ap_summary = ''a  b'', ap_args = JNull\<rparr>"
  using proposal_roundtrip[of sample_call "\<lambda>_. Some JNull" "\<lambda>_. ''null''" "''a'' @ newline @ newline @ ''b''"]
  by (simp add: plain_field_def sample_call_def written_proposal_def replace_char_def)

text \<open>Always means always: after the person answers Forever, every app the question named keeps its
  policy with its own kind set to run unasked (reads run, changes allowed, sends allowed) and
  everything else as it was stored, whatever the other apps of the call were.\<close>

theorem always_is_remembered:
  assumes "db_up (gs_db st)" and "policies_keyed (gs_db st)" and "distinct (map part_app (call_groups c))"
    and "\<not> sending_barred (gs_db st) c" and "\<not> all_unasked (gs_db st) env c" and "\<not> ge_headless env"
    and "g \<in> set (call_groups c)"
  shows "policy_of (gs_db (fst (admit u pretty perm pid (Some (Some DecisionForever)) env c st)))
           (call_connector_id c) g =
         stored_policy (always_policy g (policy_of (gs_db st) (call_connector_id c) g))"
proof (cases rule: admit_cases[of st c u pretty perm pid "Some (Some DecisionForever)" env])
  case (asked req acc d)
  let ?gps = "policies_for (gs_db st) c"
  have d: "d = Some DecisionForever" and acc: "acc_db acc = acc_db (gs_access st)"
    using ask_until_cancelled_spec[OF asked(4)] by (simp_all add: answer_or_deny_def)
  have db: "gs_db (st\<lparr>gs_access := acc\<rparr>) = gs_db st" by (simp add: gs_db_def acc)
  have "map (pol_app \<circ> snd) ?gps = map part_app (call_groups c)"
    by (simp add: policies_for_def policy_of_keyed[OF assms(2)])
  with assms(3) have dist: "distinct (map (pol_app \<circ> snd) ?gps)" by simp
  have mem: "(g, policy_of (gs_db st) (call_connector_id c) g) \<in> set ?gps"
    using assms(7) by (auto simp: policies_for_def)
  have "policy_of (save_always ?gps (gs_db st)) (call_connector_id c) g =
      stored_policy (always_policy g (policy_of (gs_db st) (call_connector_id c) g))"
    by (intro save_always_policy[OF assms(1) dist mem]) (simp_all add: policy_of_keyed[OF assms(2)])
  moreover have "policy_of (gs_db (fst (admit u pretty perm pid (Some (Some DecisionForever)) env c st)))
      (call_connector_id c) g = policy_of (save_always ?gps (gs_db st)) (call_connector_id c) g"
    by (intro policy_of_cong) (simp_all add: asked(5) after_answer_def d db)
  ultimately show ?thesis by simp
qed (use assms in simp_all)

theorem always_is_remembered_witness:
  "send_policy (policy_of (gs_db (fst (admit ascii_only (\<lambda>_. []) ''p'' ''q'' (Some (Some DecisionForever)) sample_env
      sample_call (sample_state empty_db)))) ''mail''
      \<lparr>part_app = [], part_name = ''Gmail'', part_kind = KindSend, part_sends = 1\<rparr>) = ''allow''"
proof -
  let ?g = "\<lparr>part_app = [], part_name = ''Gmail'', part_kind = KindSend, part_sends = 1\<rparr>"
  have gs: "call_groups sample_call = [?g]" by (simp add: call_groups_def sample_call_def)
  have db: "gs_db (sample_state empty_db) = empty_db" by (simp add: gs_db_def sample_state_def)
  have i: "call_connector_id sample_call = ''mail''" by (simp add: sample_call_def)
  have gate: "autonomy_gate empty_db ''app_send'' = RungAsk"
    by (simp add: autonomy_gate_def get_setting_def empty_db_def default_for_def AUTONOMY_DEFAULTS_def)
  have pol: "policy_of empty_db ''mail'' ?g = policy_defaults ''mail'' []"
    by (simp add: policy_of_def get_connector_policy_def empty_db_def)
  have k: "policies_keyed empty_db" "db_up empty_db" by (simp_all add: policies_keyed_def empty_db_def db_up_def)
  have n: "\<not> all_unasked empty_db sample_env sample_call"
    by (simp add: all_unasked_def gs i runs_unasked_def gate pol policy_defaults_def)
  have h: "\<not> ge_headless sample_env" by (simp add: sample_env_def)
  have "policy_of (gs_db (fst (admit ascii_only (\<lambda>_. []) ''p'' ''q'' (Some (Some DecisionForever)) sample_env
      sample_call (sample_state empty_db)))) ''mail'' ?g =
      stored_policy (always_policy ?g (policy_defaults ''mail'' []))"
    using always_is_remembered[of "sample_state empty_db" sample_call sample_env ?g ascii_only "\<lambda>_. []" "''p''" "''q''"]
      k n h by (simp add: gs db i pol sending_barred_def gate)
  then show ?thesis by (simp add: stored_policy_def always_policy_def)
qed

text \<open>The server's read-only hint never makes a call stricter and never hides a send: it can
  only turn a call whose name says nothing into a read; a hint of false or no hint changes
  nothing.\<close>

theorem hint_never_hides_a_send:
  "classify u tool h \<le> classify u tool None
   \<and> (classify u tool h = KindSend \<longleftrightarrow> classify u tool None = KindSend)
   \<and> classify u tool (Some False) = classify u tool None
   \<and> (classify u tool h \<noteq> classify u tool None
        \<longleftrightarrow> h = Some True \<and> classify u tool None = KindChange)"
  by (auto simp: classify_def Let_def less_eq_call_kind_def)

text \<open>Cutting a tool's name into words loses no letter and makes none up: the words, joined, are
  the lower-case form of the name's letters and digits after the last double underscore, and no
  word is empty (lower case of a character being at least one character).\<close>

theorem tool_words_partition:
  assumes "\<And>ch. uc_to_lowercase u ch \<noteq> []"
  shows "concat (tool_words u tool) =
       concat (map (char_to_lowercase u) (filter (char_alphanumeric u)
         (utf8_chars (case after_last ''__'' tool of Some r \<Rightarrow> r | None \<Rightarrow> tool))))
     \<and> [] \<notin> set (tool_words u tool)"
proof -
  have "char_to_lowercase u c \<noteq> []" for c
    using assms by (auto simp: char_to_lowercase_def split: list.split)
  then show ?thesis by (simp add: tool_words_def words_loop_concat words_loop_nonempty)
qed

theorem tool_words_partition_witness:
  "[] \<notin> set (tool_words (ascii_only\<lparr>uc_to_lowercase := \<lambda>_. ''x''\<rparr>) ''mcp__slack__listChannels'')"
  using tool_words_partition[of "ascii_only\<lparr>uc_to_lowercase := \<lambda>_. ''x''\<rparr>" "''mcp__slack__listChannels''"]
  by simp

end
