(* ===== verification/Plan.thy ===== *)
theory Plan imports Db_Store begin

text \<open>
  The plan of a run (\<open>src-tauri/src/agent/plan.rs\<close>): the list the model writes through the
  \<open>plan\<close> tool, its revisions, the ticks the decision model gives, and \<open>execute\<close>, the tool
  call over its JSON arguments.  \<open>judged\<close> is an \<open>f32\<close> that is only carried: its 32 bits.

  A call changes the plan as it goes and can stop with an error after some of its parts took
  effect, so \<open>execute\<close> returns the plan next to the result.
\<close>

section \<open>Items\<close>

datatype plan_status = PlanTodo | PlanDoing | PlanDone | PlanDropped

definition plan_status_parse :: "string \<Rightarrow> plan_status option" where
  "plan_status_parse s =
     (let w = to_ascii_lowercase (trim s) in
      if w \<in> set [''todo'', ''to do'', ''pending''] then Some PlanTodo
      else if w \<in> set [''doing'', ''in_progress'', ''in progress'', ''running''] then Some PlanDoing
      else if w \<in> set [''done'', ''complete'', ''completed''] then Some PlanDone
      else if w \<in> set [''dropped'', ''skipped'', ''cancelled'', ''canceled''] then Some PlanDropped
      else None)"

definition as_note :: "plan_status \<Rightarrow> string" where
  "as_note s = (case s of PlanTodo \<Rightarrow> ''to do'' | PlanDoing \<Rightarrow> ''doing now'' | PlanDone \<Rightarrow> ''done''
                  | PlanDropped \<Rightarrow> ''dropped'')"

record plan_item =
  item_text :: string
  item_status :: plan_status
  item_why :: "string option"
  item_added :: bool
  item_judged :: "u32 option"
  item_decision :: "string option"

record plan =
  plan_items :: "plan_item list"
  plan_revisions :: nat
  plan_previous :: "string list list"
  awaiting_approval :: bool

definition default_plan :: plan where
  "default_plan = \<lparr>plan_items = [], plan_revisions = 0, plan_previous = [], awaiting_approval = False\<rparr>"

definition new_item :: "bool \<Rightarrow> string \<Rightarrow> plan_item" where
  "new_item later t =
     \<lparr>item_text = t, item_status = PlanTodo, item_why = None, item_added = later,
      item_judged = None, item_decision = None\<rparr>"

definition plan_is_empty :: "plan \<Rightarrow> bool" where
  "plan_is_empty p \<longleftrightarrow> plan_items p = []"

definition plan_set :: "plan \<Rightarrow> string list \<Rightarrow> plan" where
  "plan_set p texts =
     (let p1 = (if plan_items p \<noteq> []
                then p\<lparr>plan_previous := plan_previous p @ [map item_text (plan_items p)],
                       plan_revisions := plan_revisions p + 1\<rparr>
                else p)
      in p1\<lparr>plan_items := map (new_item False) texts\<rparr>)"

definition plan_add :: "plan \<Rightarrow> string list \<Rightarrow> plan" where
  "plan_add p texts = p\<lparr>plan_items := plan_items p @ map (new_item True) texts\<rparr>"

definition is_open :: "plan_item \<Rightarrow> bool" where
  "is_open i \<longleftrightarrow> item_status i = PlanTodo \<or> item_status i = PlanDoing"

definition open_items :: "plan \<Rightarrow> (nat \<times> plan_item) list" where
  "open_items p = filter (\<lambda>(_, i). is_open i) (enumerated (plan_items p))"

definition mark_judged :: "plan \<Rightarrow> nat \<Rightarrow> u32 \<Rightarrow> string \<Rightarrow> plan \<times> bool" where
  "mark_judged p index conf dec =
     (if index < length (plan_items p) \<and> is_open (plan_items p ! index)
      then (p\<lparr>plan_items := (plan_items p)[index := (plan_items p ! index)
                \<lparr>item_status := PlanDone, item_judged := Some conf, item_decision := Some dec\<rparr>]\<rparr>, True)
      else (p, False))"

definition reopen :: "plan \<Rightarrow> nat \<Rightarrow> plan \<times> string option" where
  "reopen p index =
     (if index < length (plan_items p) \<and> item_judged (plan_items p ! index) \<noteq> None
      then (p\<lparr>plan_items := (plan_items p)[index := (plan_items p ! index)
                \<lparr>item_status := PlanTodo, item_judged := None, item_decision := None\<rparr>]\<rparr>,
            item_decision (plan_items p ! index))
      else (p, None))"

definition no_such_item :: "nat \<Rightarrow> nat \<Rightarrow> string" where
  "no_such_item index n =
     ''There is no item '' @ show_nat index @ '' in the plan '' @ [CHR 0xE2, CHR 0x80, CHR 0x94]
     @ '' it has '' @ show_nat n @ '' item'' @ (if n = 1 then [] else ''s'')
     @ '', numbered 1 to '' @ show_nat (max n 1) @ ''.''"

definition plan_update :: "plan \<Rightarrow> nat \<Rightarrow> plan_status \<Rightarrow> string option \<Rightarrow> string + plan" where
  "plan_update p index status why =
     (if index = 0 \<or> length (plan_items p) < index then Inl (no_such_item index (length (plan_items p)))
      else Inr (p\<lparr>plan_items := (plan_items p)[index - 1 := (plan_items p ! (index - 1))
             \<lparr>item_status := status, item_judged := None, item_decision := None,
              item_why := (if status = PlanDropped
                           then (case why of Some w \<Rightarrow> if trim w \<noteq> [] then Some w else None | None \<Rightarrow> None)
                           else None)\<rparr>]\<rparr>))"

definition plan_current :: "plan \<Rightarrow> plan_item option" where
  "plan_current p =
     (case List.find (\<lambda>i. item_status i = PlanDoing) (plan_items p) of
        Some i \<Rightarrow> Some i
      | None \<Rightarrow> List.find (\<lambda>i. item_status i = PlanTodo) (plan_items p))"

definition unreached :: "plan \<Rightarrow> plan_item list" where
  "unreached p = filter is_open (plan_items p)"

definition render_item :: "nat \<Rightarrow> plan_item \<Rightarrow> string" where
  "render_item n i =
     show_nat (n + 1) @ ''. '' @ item_text i @ '' '' @ [CHR 0xE2, CHR 0x80, CHR 0x94] @ '' ''
     @ as_note (item_status i)
     @ (case item_why i of Some w \<Rightarrow> '': '' @ w | None \<Rightarrow> [])
     @ (if item_added i then '' (added later)'' else [])
     @ (if item_judged i \<noteq> None then '' (judged finished from your answer)'' else [])"

definition plan_render :: "plan \<Rightarrow> string" where
  "plan_render p = join_with newline (map (\<lambda>(n, i). render_item n i) (enumerated (plan_items p)))"

section \<open>Messages and the mode\<close>

definition system_message :: "string \<Rightarrow> json" where
  "system_message content = JObject [(''role'', JString ''system''), (''content'', JString content)]"

definition plan_message :: "plan \<Rightarrow> json option" where
  "plan_message p =
     (if plan_is_empty p then None
      else Some (system_message
        (''## Your plan for this run'' @ newline @ plan_render p @ newline
         @ ''Keep it true: call `plan` with `update` when you start an item and when you finish one. ''
         @ ''If you are about to do something that is not on the list, add it or rewrite the plan first.'')))"

definition wrap_up_message :: "plan \<Rightarrow> json option" where
  "wrap_up_message p =
     (if unreached p = [] then None
      else Some (system_message
        (''You planned this run and did not reach every item. Say plainly, at the end of your answer, ''
         @ ''what is still outstanding:'' @ newline
         @ join_with newline (map (\<lambda>i. ''- '' @ item_text i) (unreached p)))))"

datatype plan_mode = ModeAlways | ModeAuto | ModeNever

definition PLAN_MODE_KEY :: string where "PLAN_MODE_KEY = ''agent.plan_mode''"

definition plan_mode_parse :: "string \<Rightarrow> plan_mode" where
  "plan_mode_parse s = (if trim s = ''always'' then ModeAlways else if trim s = ''never'' then ModeNever
                        else ModeAuto)"

definition plan_mode_as_str :: "plan_mode \<Rightarrow> string" where
  "plan_mode_as_str m = (case m of ModeAlways \<Rightarrow> ''always'' | ModeAuto \<Rightarrow> ''auto'' | ModeNever \<Rightarrow> ''never'')"

definition plan_mode_current :: "db \<Rightarrow> plan_mode" where
  "plan_mode_current d =
     (case get_setting d PLAN_MODE_KEY of Some v \<Rightarrow> plan_mode_parse v | None \<Rightarrow> ModeAuto)"

definition offers_tool :: "plan_mode \<Rightarrow> bool" where
  "offers_tool m \<longleftrightarrow> m \<noteq> ModeNever"

definition describe_plan_call :: "json \<Rightarrow> string \<times> string" where
  "describe_plan_call args =
     (case Option.bind (json_get args ''items'') json_array of
        Some items \<Rightarrow> (''planned'', show_nat (length items) @ '' steps'')
      | None \<Rightarrow>
          (case Option.bind (json_get args ''add'') json_array of
             Some items \<Rightarrow> (''added to the plan'', show_nat (length items) @ '' more'')
           | None \<Rightarrow>
               (case json_get args ''update'' of
                  Some u \<Rightarrow>
                    (''updated the plan'',
                     ''item '' @ show_int (case Option.bind (json_get u ''index'') json_i64 of Some n \<Rightarrow> n | None \<Rightarrow> 0)
                     @ '' '' @ [CHR 0xE2, CHR 0x80, CHR 0x94] @ '' ''
                     @ (case Option.bind (json_get u ''status'') json_str of Some s \<Rightarrow> s | None \<Rightarrow> ''changed''))
                | None \<Rightarrow> (''planned'', []))))"

section \<open>The tool call\<close>

definition json_strings :: "json option \<Rightarrow> string list" where
  "json_strings v =
     (case Option.bind v json_array of
        None \<Rightarrow> []
      | Some xs \<Rightarrow> filter (\<lambda>s. s \<noteq> []) (map trim (List.map_filter json_str xs)))"

definition run_items :: "plan \<Rightarrow> json \<Rightarrow> plan \<times> (string + bool)" where
  "run_items p args =
     (if json_get args ''items'' = None then (p, Inr False)
      else (let items = json_strings (json_get args ''items'') in
            if items = []
            then (p, Inl ''A plan needs at least one item. Pass `items` as a list of short phrases.'')
            else (plan_set p items, Inr True)))"

definition run_add :: "plan \<Rightarrow> json \<Rightarrow> plan \<times> (string + bool)" where
  "run_add p args =
     (if json_get args ''add'' = None then (p, Inr False)
      else (let items = json_strings (json_get args ''add'') in
            if items = [] then (p, Inl ''`add` needs at least one item.'')
            else (if plan_is_empty p then plan_set p items else plan_add p items, Inr True)))"

definition update_list :: "json \<Rightarrow> json list" where
  "update_list args =
     (case (case json_get args ''updates'' of Some v \<Rightarrow> Some v | None \<Rightarrow> json_get args ''update'') of
        Some (JArray items) \<Rightarrow> items
      | Some one \<Rightarrow> [one]
      | None \<Rightarrow> [])"

definition run_update :: "plan \<Rightarrow> json \<Rightarrow> string + plan" where
  "run_update p u =
     (case Option.bind (json_get u ''index'') json_i64 of
        None \<Rightarrow> Inl ''`update` needs an `index`, numbered from 1.''
      | Some index \<Rightarrow>
          (case Option.bind (json_get u ''status'') json_str of
             None \<Rightarrow> Inl ''`update` needs a `status`: todo, doing, done or dropped.''
           | Some words \<Rightarrow>
               (case plan_status_parse words of
                  None \<Rightarrow> Inl (CHR 0x27 # words @ CHR 0x27 # '' is not a status. Use todo, doing, done or dropped.'')
                | Some status \<Rightarrow>
                    (let why = Option.bind (json_get u ''why'') json_str in
                     if status = PlanDropped \<and> (case why of None \<Rightarrow> True | Some w \<Rightarrow> trim w = [])
                     then Inl (''Dropping an item needs a `why` '' @ [CHR 0xE2, CHR 0x80, CHR 0x94]
                               @ '' it stays visible next to the item.'')
                     else plan_update p (if 0 \<le> index then nat index else 0) status why))))"

fun run_updates :: "plan \<Rightarrow> json list \<Rightarrow> bool \<Rightarrow> plan \<times> (string + bool)" where
  "run_updates p [] did = (p, Inr did)"
| "run_updates p (u # us) did =
     (case run_update p u of Inl e \<Rightarrow> (p, Inl e) | Inr p' \<Rightarrow> run_updates p' us True)"

definition plan_execute :: "plan \<Rightarrow> json \<Rightarrow> plan \<times> (string + string)" where
  "plan_execute p args =
     (case run_items p args of
        (p1, Inl e) \<Rightarrow> (p1, Inl e)
      | (p1, Inr did1) \<Rightarrow>
          (case run_add p1 args of
             (p2, Inl e) \<Rightarrow> (p2, Inl e)
           | (p2, Inr did2) \<Rightarrow>
               (case run_updates p2 (update_list args) (did1 \<or> did2) of
                  (p3, Inl e) \<Rightarrow> (p3, Inl e)
                | (p3, Inr did) \<Rightarrow>
                    if did then (p3, Inr (''The plan now reads:'' @ newline @ plan_render p3))
                    else (p3, Inl (''Nothing to do: pass `items` to write the plan, `add` to extend it, ''
                                   @ ''or `update` to move one item.'')))))"

section \<open>Well-formed plans\<close>

text \<open>
  What the fields promise: a guess belongs to a finished item and comes with its decision, a
  reason belongs to a dropped item and a dropped item has one, every item has words, and there
  is one archived version per revision.
\<close>

definition item_ok :: "plan_item \<Rightarrow> bool" where
  "item_ok i \<longleftrightarrow>
     item_text i \<noteq> []
   \<and> (item_judged i = None \<longleftrightarrow> item_decision i = None)
   \<and> (item_judged i \<noteq> None \<longrightarrow> item_status i = PlanDone)
   \<and> (case item_why i of None \<Rightarrow> item_status i \<noteq> PlanDropped
        | Some w \<Rightarrow> item_status i = PlanDropped \<and> trim w \<noteq> [])"

definition plan_inv :: "plan \<Rightarrow> bool" where
  "plan_inv p \<longleftrightarrow> (\<forall>i \<in> set (plan_items p). item_ok i) \<and> length (plan_previous p) = plan_revisions p"

definition texts_of :: "plan \<Rightarrow> string list" where
  "texts_of p = map item_text (plan_items p)"

text \<open>
  \<open>p'\<close> follows \<open>p\<close> with nothing lost: the archive of \<open>p\<close> is the beginning of the archive of
  \<open>p'\<close>, and the version after it (archived since, or the current one) begins with the items
  \<open>p\<close> had.
\<close>

definition plan_extends :: "plan \<Rightarrow> plan \<Rightarrow> bool" where
  "plan_extends p p' \<longleftrightarrow>
     (\<exists>v more. plan_previous p' @ [texts_of p'] = plan_previous p @ v # more
        \<and> (texts_of p \<noteq> [] \<longrightarrow> starts_with v (texts_of p)))"

lemma item_ok_new [simp]: "item_ok (new_item later t) \<longleftrightarrow> t \<noteq> []"
  by (simp add: item_ok_def new_item_def)

lemma texts_of_new [simp]: "map item_text (map (new_item later) ts) = ts"
  by (simp add: comp_def new_item_def)

lemma all_set_update:
  "\<forall>i \<in> set xs. P i \<Longrightarrow> P y \<Longrightarrow> \<forall>i \<in> set (xs[k := y]). P i"
  using set_update_subset_insert[of xs k y] by auto

lemma map_update_same: "f y = f (xs ! k) \<Longrightarrow> map f (xs[k := y]) = map f xs"
  by (metis list_update_id map_update map_update list_update_beyond not_le nth_map)

lemma json_strings_words: "t \<in> set (json_strings v) \<Longrightarrow> t \<noteq> []"
  by (auto simp: json_strings_def split: option.splits)

lemma plan_inv_set [keeps_inv]:
  "plan_inv p \<Longrightarrow> \<forall>t \<in> set ts. t \<noteq> [] \<Longrightarrow> plan_inv (plan_set p ts)"
  by (auto simp: plan_inv_def plan_set_def Let_def)

lemma plan_inv_add [keeps_inv]:
  "plan_inv p \<Longrightarrow> \<forall>t \<in> set ts. t \<noteq> [] \<Longrightarrow> plan_inv (plan_add p ts)"
  by (auto simp: plan_inv_def plan_add_def)

lemma plan_inv_items:
  "plan_inv p \<Longrightarrow> item_ok y \<Longrightarrow> plan_inv (p\<lparr>plan_items := (plan_items p)[k := y]\<rparr>)"
  using all_set_update[of "plan_items p" item_ok y k] by (simp add: plan_inv_def)

lemma plan_inv_nth: "plan_inv p \<Longrightarrow> k < length (plan_items p) \<Longrightarrow> item_ok (plan_items p ! k)"
  by (simp add: plan_inv_def)

lemma plan_inv_mark [keeps_inv]: "plan_inv p \<Longrightarrow> plan_inv (fst (mark_judged p k c d))"
  using plan_inv_nth[of p k]
  by (auto simp: mark_judged_def is_open_def item_ok_def intro!: plan_inv_items split: option.splits)

lemma plan_inv_reopen [keeps_inv]: "plan_inv p \<Longrightarrow> plan_inv (fst (reopen p k))"
  using plan_inv_nth[of p k]
  by (auto simp: reopen_def item_ok_def intro!: plan_inv_items split: option.splits)

lemma plan_inv_run_update [keeps_inv]:
  assumes "plan_inv p" and "run_update p u = Inr p'"
  shows "plan_inv p'"
proof -
  obtain index status why where u: "plan_update p index status why = Inr p'"
    and why: "\<not> (status = PlanDropped \<and> (case why of None \<Rightarrow> True | Some w \<Rightarrow> trim w = []))"
    using assms(2) by (auto simp: run_update_def Let_def split: option.splits if_splits)
  then have "index \<noteq> 0" "index \<le> length (plan_items p)" by (auto simp: plan_update_def split: if_splits)
  then have "item_ok (plan_items p ! (index - 1))" using plan_inv_nth[OF assms(1), of "index - 1"] by simp
  with u why show ?thesis
    by (auto simp: plan_update_def item_ok_def split: if_splits option.splits
        intro!: plan_inv_items assms(1))
qed

lemma plan_inv_run_updates [keeps_inv]: "plan_inv p \<Longrightarrow> plan_inv (fst (run_updates p us did))"
  by (induction p us did rule: run_updates.induct) (auto split: sum.split dest: plan_inv_run_update)

lemma plan_inv_run_items [keeps_inv]: "plan_inv p \<Longrightarrow> plan_inv (fst (run_items p args))"
  by (auto simp: run_items_def Let_def dest: json_strings_words intro!: plan_inv_set)

lemma plan_inv_run_add [keeps_inv]: "plan_inv p \<Longrightarrow> plan_inv (fst (run_add p args))"
  by (auto simp: run_add_def Let_def dest: json_strings_words intro!: plan_inv_set plan_inv_add)

text \<open>A call is its three parts one after the other, as far as they get.\<close>

lemma execute_stages:
  obtains
    (items) e where "snd (run_items p args) = Inl e" "plan_execute p args = (fst (run_items p args), Inl e)"
  | (add) e where "snd (run_add (fst (run_items p args)) args) = Inl e"
      "plan_execute p args = (fst (run_add (fst (run_items p args)) args), Inl e)"
  | (updates) r did where
      "fst (plan_execute p args) =
         fst (run_updates (fst (run_add (fst (run_items p args)) args)) (update_list args) did)"
      "snd (plan_execute p args) = r"
proof -
  obtain p1 r1 where 1: "run_items p args = (p1, r1)" by fastforce
  obtain p2 r2 where 2: "run_add p1 args = (p2, r2)" by fastforce
  show ?thesis
  proof (cases r1)
    case (Inl e)
    then show ?thesis using 1 by (intro items[of e]) (simp_all add: plan_execute_def)
  next
    case (Inr did1)
    show ?thesis
    proof (cases r2)
      case (Inl e)
      then show ?thesis using 1 2 \<open>r1 = Inr did1\<close> by (intro add[of e]) (simp_all add: plan_execute_def)
    next
      case (Inr did2)
      obtain p3 r3 where "run_updates p2 (update_list args) (did1 \<or> did2) = (p3, r3)" by fastforce
      then show ?thesis using 1 2 \<open>r1 = Inr did1\<close> Inr
        by (intro updates[of "did1 \<or> did2" "snd (plan_execute p args)"])
          (simp_all add: plan_execute_def split: sum.split)
    qed
  qed
qed

lemma plan_inv_execute [keeps_inv]: "plan_inv p \<Longrightarrow> plan_inv (fst (plan_execute p args))"
  by (rule execute_stages[of p args]) (simp_all add: keeps_inv)

section \<open>Nothing is lost\<close>

lemma extends_refl [simp]: "plan_extends p p"
  by (auto simp: plan_extends_def)

lemma extends_trans:
  assumes "plan_extends p p'" and "plan_extends p' p''"
  shows "plan_extends p p''"
proof -
  obtain v more where 1: "plan_previous p' @ [texts_of p'] = plan_previous p @ v # more"
    "texts_of p \<noteq> [] \<Longrightarrow> starts_with v (texts_of p)"
    using assms(1) by (auto simp: plan_extends_def)
  obtain w rest where 2: "plan_previous p'' @ [texts_of p''] = plan_previous p' @ w # rest"
    "texts_of p' \<noteq> [] \<Longrightarrow> starts_with w (texts_of p')"
    using assms(2) by (auto simp: plan_extends_def)
  show ?thesis
  proof (cases more rule: rev_cases)
    case Nil
    with 1(1) have v: "plan_previous p' = plan_previous p" "v = texts_of p'" by simp_all
    have "texts_of p \<noteq> [] \<Longrightarrow> texts_of p' \<noteq> []"
      using 1(2) by (auto simp: v(2) starts_with_iff)
    with v 1(2) 2 show ?thesis
      by (auto simp: plan_extends_def intro: starts_with_trans)
  next
    case (snoc ms m)
    with 1(1) have "plan_previous p' = plan_previous p @ v # ms" by simp
    with 1(2) 2(1) show ?thesis by (auto simp: plan_extends_def)
  qed
qed

lemma extends_same:
  "plan_previous p' = plan_previous p \<Longrightarrow> texts_of p' = texts_of p \<Longrightarrow> plan_extends p p'"
  by (auto simp: plan_extends_def)

lemma extends_set [simp]: "plan_extends p (plan_set p ts)"
  by (auto simp: plan_extends_def plan_set_def texts_of_def Let_def)

lemma extends_add [simp]: "plan_extends p (plan_add p ts)"
  by (auto simp: plan_extends_def plan_add_def texts_of_def starts_with_iff)

lemma extends_items:
  "item_text y = item_text (plan_items p ! k) \<Longrightarrow> plan_extends p (p\<lparr>plan_items := (plan_items p)[k := y]\<rparr>)"
  by (rule extends_same) (simp_all add: texts_of_def map_update_same)

lemma extends_mark [simp]: "plan_extends p (fst (mark_judged p k c d))"
  by (simp add: mark_judged_def extends_items)

lemma extends_reopen [simp]: "plan_extends p (fst (reopen p k))"
  by (simp add: reopen_def extends_items)

lemma extends_run_update: "run_update p u = Inr p' \<Longrightarrow> plan_extends p p'"
  by (auto simp: run_update_def plan_update_def Let_def split: option.splits if_splits
      intro!: extends_items)

lemma extends_run_updates: "plan_extends p (fst (run_updates p us did))"
  by (induction p us did rule: run_updates.induct)
    (auto split: sum.split intro: extends_trans dest: extends_run_update)

lemma extends_execute [simp]: "plan_extends p (fst (plan_execute p args))"
proof -
  have i: "plan_extends p (fst (run_items p args))" for p
    by (simp add: run_items_def Let_def)
  have a: "plan_extends p (fst (run_add p args))" for p
    by (simp add: run_add_def Let_def)
  show ?thesis
    by (rule execute_stages[of p args])
      (auto intro: extends_trans i a extends_trans[OF i extends_trans[OF a extends_run_updates]])
qed

section \<open>Histories\<close>

text \<open>What can happen to a run's plan: a tool call, a tick the decision model gives, a reopening.\<close>

datatype plan_event = CallPlan json | JudgeItem nat u32 string | ReopenItem nat

fun plan_event_step :: "plan \<Rightarrow> plan_event \<Rightarrow> plan" where
  "plan_event_step p (CallPlan args) = fst (plan_execute p args)"
| "plan_event_step p (JudgeItem k c d) = fst (mark_judged p k c d)"
| "plan_event_step p (ReopenItem k) = fst (reopen p k)"

lemma plan_inv_step [keeps_inv]: "plan_inv p \<Longrightarrow> plan_inv (plan_event_step p e)"
  by (cases e) (simp_all add: keeps_inv)

lemma plan_inv_default [keeps_inv]: "plan_inv default_plan"
  by (simp add: plan_inv_def default_plan_def)

lemma find_open:
  "List.find (\<lambda>i. item_status i = PlanDoing) xs = None \<and> List.find (\<lambda>i. item_status i = PlanTodo) xs = None
     \<longleftrightarrow> filter is_open xs = []"
  by (auto simp: find_None_iff filter_empty_conv is_open_def)

lemma filter_enumerated: "map snd (filter (\<lambda>(_, x). P x) (zip [n..<n + length xs] xs)) = filter P xs"
proof (induction xs arbitrary: n)
  case (Cons x xs)
  from Cons.IH[of "Suc n"] show ?case by (simp add: upt_conv_Cons del: upt_Suc)
qed simp

section \<open>Properties\<close>

text \<open>C14: Whatever calls the model makes, well formed or not, and whatever the decision model ticks or
  the user reopens, the plan stays well formed: only a finished item carries a guess and the guess
  its decision, a dropped item has its reason and no other item has one, no item is blank, and
  there is exactly one archived version per revision.\<close>

theorem plan_stays_well_formed: "plan_inv (foldl plan_event_step default_plan es)"
proof (induction es rule: rev_induct)
  case Nil
  show ?case by (simp add: plan_inv_default)
next
  case (snoc e es)
  then show ?case by (simp add: plan_inv_step)
qed

text \<open>C15: A plan loses nothing: after any sequence of calls (failed ones included), ticks and
  reopenings the archive begins with the archive there was, and the version that follows it, the
  current one or one archived since, begins with every item the plan had, in order.\<close>

theorem plan_loses_nothing: "plan_extends p (foldl plan_event_step p es)"
proof (induction es rule: rev_induct)
  case (snoc e es)
  have "plan_extends q (plan_event_step q e)" for q by (cases e) simp_all
  with snoc show ?case by (auto intro: extends_trans)
qed simp

text \<open>The meter, the list of open items and the wrap-up note agree: there is a current item exactly
  when something is unreached, it is one of the unreached, the wrap-up speaks exactly then, and
  the numbered open items are the unreached ones.\<close>

theorem plan_current_is_unreached:
  "(plan_current p = None \<longleftrightarrow> unreached p = [])
   \<and> set_option (plan_current p) \<subseteq> set (unreached p)
   \<and> (wrap_up_message p = None \<longleftrightarrow> unreached p = [])
   \<and> map snd (open_items p) = unreached p"
proof (intro conjI)
  show "plan_current p = None \<longleftrightarrow> unreached p = []"
    using find_open[of "plan_items p"] by (auto simp: plan_current_def unreached_def split: option.splits)
  show "set_option (plan_current p) \<subseteq> set (unreached p)"
    by (auto simp: plan_current_def unreached_def is_open_def split: option.splits dest: find_SomeD)
  show "wrap_up_message p = None \<longleftrightarrow> unreached p = []" by (simp add: wrap_up_message_def)
  show "map snd (open_items p) = unreached p"
    using filter_enumerated[where P=is_open and n=0 and xs="plan_items p"]
    by (simp add: open_items_def unreached_def)
qed

text \<open>A judged tick can be taken back by the user and names its decision, once: reopening the
  ticked item returns the decision and puts the item back to do with nothing else changed, and
  reopening it again, or after the model moved it itself, returns nothing.\<close>

theorem judged_tick_reopens_once:
  assumes "mark_judged p k c d = (p1, True)"
  shows "(case reopen p1 k of
            (p2, r) \<Rightarrow>
              r = Some d
              \<and> plan_items p2 = (plan_items p)[k := (plan_items p ! k)
                   \<lparr>item_status := PlanTodo, item_judged := None, item_decision := None\<rparr>]
              \<and> reopen p2 k = (p2, None))
     \<and> (case plan_update p1 (k + 1) s w of Inl e \<Rightarrow> False | Inr p2 \<Rightarrow> reopen p2 k = (p2, None))"
  using assms by (auto simp: mark_judged_def reopen_def plan_update_def split: if_splits)

theorem judged_tick_reopens_once_witness:
  "let p = plan_add default_plan [''read'', ''write'']
   in snd (reopen (fst (mark_judged p 1 0 ''dec'')) 1) = Some ''dec''"
proof -
  define p where "p = plan_add default_plan [''read'', ''write'']"
  have m: "mark_judged p 1 0 ''dec'' = (fst (mark_judged p 1 0 ''dec''), True)"
    by (simp add: p_def mark_judged_def plan_add_def default_plan_def new_item_def is_open_def)
  show ?thesis
    using judged_tick_reopens_once[OF m, of PlanDone None] by (simp add: p_def[symmetric] split_beta)
qed

end
