(* ===== verification/Fleet.thy ===== *)
theory Fleet imports Db_Store Reply_Box "HOL-Library.AList" begin

text \<open>
  Runs and the fleet (\<open>src-tauri/src/agent/fleet.rs\<close>): a run's limits, its inbox of steers,
  its questions and its cost; and the registry of live runs, with Stop for a run and everything
  it started.

  Clocks are milliseconds, ids come from outside.  A cancellation flag is shared by everybody
  who holds it, so flags live in the fleet's state and a handle has the number of its flag.
  The registry is a hash map whose iteration order is arbitrary: an association list in any
  order.
\<close>

section \<open>Steers, answers, stop reasons\<close>

datatype steer_source = SteerUser | SteerLead

record steer =
  steer_text :: string
  steer_from :: steer_source

definition steer_user :: "string \<Rightarrow> steer" where
  "steer_user t = \<lparr>steer_text = t, steer_from = SteerUser\<rparr>"

definition steer_message :: "steer \<Rightarrow> json" where
  "steer_message s =
     JObject [(''role'', JString ''user''),
              (''content'', JString (case steer_from s of SteerUser \<Rightarrow> steer_text s
                                       | SteerLead \<Rightarrow> ''New instruction: '' @ steer_text s))]"

record answer =
  ans_choices :: "string list"
  ans_text :: "string option"

definition wrote :: "answer \<Rightarrow> string option" where
  "wrote a = (case ans_text a of None \<Rightarrow> None | Some t \<Rightarrow> if trim t \<noteq> [] then Some (trim t) else None)"

definition to_result :: "answer \<Rightarrow> string" where
  "to_result a =
     (let chose = join_with '', '' (ans_choices a) in
      case (ans_choices a = [], wrote a) of
        (False, None) \<Rightarrow> ''The user chose: '' @ chose
      | (False, Some t) \<Rightarrow> ''The user chose: '' @ chose @ '', and added: '' @ t
      | (True, Some t) \<Rightarrow> ''The user wrote: '' @ t
      | (True, None) \<Rightarrow> ''The user gave no answer. Carry on with your best judgement.'')"

definition to_note :: "answer \<Rightarrow> string" where
  "to_note a =
     [CHR 0xE2, CHR 0x80, CHR 0x94] @
     (case (ans_choices a = [], wrote a) of
        (False, _) \<Rightarrow> '' you chose '' @ join_with '', '' (ans_choices a)
      | (True, Some t) \<Rightarrow>
          '' you wrote: '' @ chars_take 48 t @ (if 48 < chars_count t then ellipsis else [])
      | (True, None) \<Rightarrow> '' no answer'')"

datatype stop_reason = StopCompleted | StopAborted | StopTimeout | StopMaxSteps | StopError

definition stop_as_str :: "stop_reason \<Rightarrow> string" where
  "stop_as_str r = (case r of StopCompleted \<Rightarrow> ''completed'' | StopAborted \<Rightarrow> ''aborted''
     | StopTimeout \<Rightarrow> ''timeout'' | StopMaxSteps \<Rightarrow> ''max_steps'' | StopError \<Rightarrow> ''error'')"

definition is_partial :: "stop_reason \<Rightarrow> bool" where
  "is_partial r \<longleftrightarrow> r \<noteq> StopCompleted"

record usage =
  use_prompt_tokens :: u64
  use_output_tokens :: u64

record run_outcome =
  out_text :: string
  out_stop_reason :: stop_reason
  out_steps :: nat
  out_usage :: "usage option"

section \<open>Limits\<close>

record run_limits =
  max_iterations :: nat
  deadline :: "nat option"
  max_depth :: nat

definition default_limits :: run_limits where
  "default_limits = \<lparr>max_iterations = 12, deadline = None, max_depth = 1\<rparr>"

text \<open>\<open>str::parse::<usize>\<close>: an optional plus sign, digits, and a value that fits.\<close>

definition parse_usize :: "string \<Rightarrow> nat option" where
  "parse_usize s =
     (let ds = (case s of c # r \<Rightarrow> if c = CHR ''+'' then r else s | [] \<Rightarrow> []) in
      if ds \<noteq> [] \<and> list_all is_ascii_digit ds \<and> digits_value ds < 2 ^ 64 then Some (digits_value ds) else None)"

definition limits_top :: "db \<Rightarrow> run_limits" where
  "limits_top d =
     (let n = (case Option.bind (get_setting d ''agent.max_steps'') (\<lambda>v. parse_usize (trim v)) of
                 Some n \<Rightarrow> n | None \<Rightarrow> 12)
      in default_limits\<lparr>max_iterations := clamp 1 50 n\<rparr>)"

definition with_max_steps :: "run_limits \<Rightarrow> nat option \<Rightarrow> run_limits" where
  "with_max_steps l steps = (case steps of Some n \<Rightarrow> l\<lparr>max_iterations := clamp 1 50 n\<rparr> | None \<Rightarrow> l)"

definition limits_subagent :: "nat \<Rightarrow> run_limits" where
  "limits_subagent now = \<lparr>max_iterations = 8, deadline = Some (now + 300000), max_depth = 0\<rparr>"

definition out_of_time :: "run_limits \<Rightarrow> nat \<Rightarrow> bool" where
  "out_of_time l now = (case deadline l of None \<Rightarrow> False | Some d \<Rightarrow> d \<le> now)"

section \<open>A run's handle\<close>

text \<open>
  An answer's channel: waiting, answered, closed because the question was forgotten, or deaf
  because the run no longer listens.
\<close>

datatype reply_cell = ReplyWaiting | ReplySent answer | ReplyClosed | ReplyDeaf

record run_handle =
  h_id :: string
  h_cancel :: nat
  h_inbox :: "steer list"
  h_parent :: "string option"
  h_depth :: nat
  h_conversation_id :: string
  h_started_at :: nat
  h_steps :: u64
  h_prompt_tokens :: u64
  h_output_tokens :: u64
  h_usage_known :: bool
  h_questions :: "string \<rightharpoonup> nat"
  h_cells :: "nat \<Rightarrow> reply_cell"
  h_next :: nat

definition close_cell :: "nat option \<Rightarrow> (nat \<Rightarrow> reply_cell) \<Rightarrow> (nat \<Rightarrow> reply_cell)" where
  "close_cell old cells = (case old of None \<Rightarrow> cells | Some c \<Rightarrow> cells(c := ReplyClosed))"

definition ask_question :: "run_handle \<Rightarrow> string \<Rightarrow> run_handle \<times> nat" where
  "ask_question h i =
     (h\<lparr>h_questions := (h_questions h)(i \<mapsto> h_next h),
        h_cells := (close_cell (h_questions h i) (h_cells h))(h_next h := ReplyWaiting),
        h_next := Suc (h_next h)\<rparr>, h_next h)"

definition answer_question :: "run_handle \<Rightarrow> string \<Rightarrow> answer \<Rightarrow> run_handle \<times> bool" where
  "answer_question h i a =
     (case h_questions h i of
        None \<Rightarrow> (h, False)
      | Some c \<Rightarrow>
          (let h' = h\<lparr>h_questions := (h_questions h)(i := None)\<rparr> in
           if h_cells h c = ReplyWaiting then (h'\<lparr>h_cells := (h_cells h)(c := ReplySent a)\<rparr>, True)
           else (h', False)))"

definition drop_question :: "run_handle \<Rightarrow> string \<Rightarrow> run_handle" where
  "drop_question h i =
     h\<lparr>h_questions := (h_questions h)(i := None), h_cells := close_cell (h_questions h i) (h_cells h)\<rparr>"

definition queue_steer :: "run_handle \<Rightarrow> steer \<Rightarrow> run_handle" where
  "queue_steer h s = h\<lparr>h_inbox := h_inbox h @ [s]\<rparr>"

definition drain_steers :: "run_handle \<Rightarrow> run_handle \<times> steer list" where
  "drain_steers h = (h\<lparr>h_inbox := []\<rparr>, h_inbox h)"

definition bump_steps :: "run_handle \<Rightarrow> run_handle \<times> u64" where
  "bump_steps h = (h\<lparr>h_steps := h_steps h + 1\<rparr>, h_steps h + 1)"

definition elapsed_ms :: "run_handle \<Rightarrow> nat \<Rightarrow> u64" where
  "elapsed_ms h now = of_nat (now - h_started_at h)"

definition add_usage :: "run_handle \<Rightarrow> usage \<Rightarrow> run_handle" where
  "add_usage h u =
     h\<lparr>h_prompt_tokens := h_prompt_tokens h + use_prompt_tokens u,
       h_output_tokens := h_output_tokens h + use_output_tokens u, h_usage_known := True\<rparr>"

definition run_usage :: "run_handle \<Rightarrow> usage option" where
  "run_usage h =
     (if \<not> h_usage_known h then None
      else Some \<lparr>use_prompt_tokens = h_prompt_tokens h, use_output_tokens = h_output_tokens h\<rparr>)"

section \<open>The fleet\<close>

record fleet =
  fl_runs :: "(string \<times> run_handle) list"
  fl_flags :: "nat \<Rightarrow> bool"

definition new_fleet :: fleet where
  "new_fleet = \<lparr>fl_runs = [], fl_flags = (\<lambda>_. False)\<rparr>"

definition new_handle :: "string \<Rightarrow> string \<Rightarrow> nat \<Rightarrow> string option \<Rightarrow> nat \<Rightarrow> nat \<Rightarrow> run_handle" where
  "new_handle i conv flag parent depth now =
     \<lparr>h_id = i, h_cancel = flag, h_inbox = [], h_parent = parent, h_depth = depth,
      h_conversation_id = conv, h_started_at = now, h_steps = 0, h_prompt_tokens = 0,
      h_output_tokens = 0, h_usage_known = False, h_questions = Map.empty,
      h_cells = (\<lambda>_. ReplyClosed), h_next = 0\<rparr>"

definition open_run ::
  "fleet \<Rightarrow> string \<Rightarrow> string \<Rightarrow> nat \<Rightarrow> string option \<Rightarrow> nat \<Rightarrow> nat \<Rightarrow> fleet \<times> run_handle" where
  "open_run fl uuid conv flag parent depth now =
     (let h = new_handle (''run_'' @ uuid) conv flag parent depth now
      in (fl\<lparr>fl_runs := AList.update (h_id h) h (fl_runs fl)\<rparr>, h))"

definition get_run :: "fleet \<Rightarrow> string \<Rightarrow> run_handle option" where
  "get_run fl i = map_of (fl_runs fl) i"

definition close_run :: "fleet \<Rightarrow> string \<Rightarrow> fleet" where
  "close_run fl i = fl\<lparr>fl_runs := AList.delete i (fl_runs fl)\<rparr>"

definition children_of :: "fleet \<Rightarrow> string \<Rightarrow> run_handle list" where
  "children_of fl i = filter (\<lambda>r. h_parent r = Some i) (map snd (fl_runs fl))"

definition roots :: "fleet \<Rightarrow> run_handle list" where
  "roots fl = filter (\<lambda>r. h_parent r = None) (map snd (fl_runs fl))"

definition cancel_flag :: "fleet \<Rightarrow> nat \<Rightarrow> fleet" where
  "cancel_flag fl c = fl\<lparr>fl_flags := (fl_flags fl)(c := True)\<rparr>"

definition cancel_run :: "fleet \<Rightarrow> string \<Rightarrow> fleet" where
  "cancel_run fl i = (case get_run fl i of None \<Rightarrow> fl | Some h \<Rightarrow> cancel_flag fl (h_cancel h))"

lemma cancel_run_runs [simp]: "fl_runs (cancel_run fl i) = fl_runs fl"
  by (simp add: cancel_run_def cancel_flag_def split: option.split)

lemma children_of_cancel_run [simp]: "children_of (cancel_run fl i) j = children_of fl j"
  by (simp add: children_of_def)

text \<open>The loop of \<open>cancel_tree\<close>; the top of the stack is the head of the list.\<close>

function cancel_loop :: "fleet \<Rightarrow> string list \<Rightarrow> string list \<Rightarrow> fleet" where
  "cancel_loop fl seen [] = fl"
| "cancel_loop fl seen (current # stack) =
     (if current \<in> set seen then cancel_loop fl seen stack
      else cancel_loop (cancel_run fl current) (current # seen)
             (rev (map h_id (children_of fl current)) @ stack))"
  by pat_completeness auto
termination
proof (relation "measures [\<lambda>(fl, seen, stack). card ((h_id ` snd ` set (fl_runs fl) \<union> set stack) - set seen),
                           \<lambda>(fl, seen, stack). length stack]", goal_cases)
  case 1
  show ?case by simp
next
  case (2 fl seen current stack)
  have "h_id ` snd ` set (fl_runs fl) \<union> set stack - set seen
      = h_id ` snd ` set (fl_runs fl) \<union> set (current # stack) - set seen"
    using 2 by auto
  then show ?case by simp
next
  case (3 fl seen current stack)
  let ?ids = "h_id ` snd ` set (fl_runs fl)"
  have "set (rev (map h_id (children_of fl current)) @ stack) \<subseteq> ?ids \<union> set stack"
    by (auto simp: children_of_def image_image)
  then have "(?ids \<union> set (rev (map h_id (children_of fl current)) @ stack)) - set (current # seen)
      \<subset> (?ids \<union> set (current # stack)) - set seen"
    using 3 by auto
  then have "card ((?ids \<union> set (rev (map h_id (children_of fl current)) @ stack)) - set (current # seen))
      < card ((?ids \<union> set (current # stack)) - set seen)"
    by (intro psubset_card_mono) simp_all
  then show ?case by simp
qed

definition cancel_tree :: "fleet \<Rightarrow> string \<Rightarrow> fleet" where
  "cancel_tree fl i = cancel_loop fl [] [i]"

definition cancel_all :: "fleet \<Rightarrow> fleet" where
  "cancel_all fl = foldl (\<lambda>fl r. cancel_flag fl (h_cancel r)) fl (map snd (fl_runs fl))"

section \<open>What Stop reaches\<close>

definition started_by :: "fleet \<Rightarrow> (string \<times> string) set" where
  "started_by fl = {(i, h_id r) | i r. r \<in> snd ` set (fl_runs fl) \<and> h_parent r = Some i}"

definition run_flag :: "fleet \<Rightarrow> string \<Rightarrow> nat \<Rightarrow> bool" where
  "run_flag fl i f \<longleftrightarrow> (\<exists>h. get_run fl i = Some h \<and> h_cancel h = f)"

lemma children_started: "set (map h_id (children_of fl i)) = started_by fl `` {i}"
  by (auto simp: children_of_def started_by_def image_iff)

lemma started_by_cancel [simp]: "started_by (cancel_run fl i) = started_by fl"
  by (simp add: started_by_def)

lemma run_flag_cancel [simp]: "run_flag (cancel_run fl i) = run_flag fl"
  by (intro ext) (simp add: run_flag_def get_run_def)

lemma flags_cancel_run: "fl_flags (cancel_run fl i) f \<longleftrightarrow> fl_flags fl f \<or> run_flag fl i f"
  by (auto simp: cancel_run_def cancel_flag_def run_flag_def split: option.split)

text \<open>A way out of a set whose edges end in the set or in the stack goes through the stack.\<close>

lemma leaves_through:
  assumes "(x, j) \<in> r\<^sup>*" and "x \<in> seen" and "r `` seen \<subseteq> seen \<union> stack" and "j \<notin> seen"
  shows "\<exists>y \<in> stack. (y, j) \<in> r\<^sup>*"
  using assms
proof (induction rule: converse_rtrancl_induct)
  case (step x y)
  then show ?case by blast
qed blast

lemma reach_unfold: "r\<^sup>* `` {i} = insert i (r\<^sup>* `` (r `` {i}))"
proof -
  have "r\<^sup>* = Id \<union> r O r\<^sup>*" by (rule rtrancl_unfold[of r, unfolded r_comp_rtrancl_eq[symmetric]])
  then have "r\<^sup>* `` {i} = (Id \<union> r O r\<^sup>*) `` {i}" by simp
  then show ?thesis by auto
qed

lemma cancel_loop_flags:
  "started_by fl `` set seen \<subseteq> set seen \<union> set stack \<Longrightarrow>
   fl_flags (cancel_loop fl seen stack) f \<longleftrightarrow>
     fl_flags fl f \<or> (\<exists>j \<in> (started_by fl)\<^sup>* `` set stack - set seen. run_flag fl j f)"
proof (induction fl seen stack rule: cancel_loop.induct)
  case (1 fl seen)
  then show ?case by simp
next
  case (2 fl seen current stack)
  let ?r = "started_by fl"
  show ?case
  proof (cases "current \<in> set seen")
    case True
    then have closed: "?r `` set seen \<subseteq> set seen \<union> set stack" using 2(3) by auto
    have "?r\<^sup>* `` set (current # stack) - set seen = ?r\<^sup>* `` set stack - set seen"
      using leaves_through[OF _ True closed] by auto
    then show ?thesis using 2(1)[OF True closed] True by simp
  next
    case False
    let ?stack' = "rev (map h_id (children_of fl current)) @ stack"
    have kids: "set ?stack' = ?r `` {current} \<union> set stack" using children_started[of fl current] by simp
    have "started_by (cancel_run fl current) `` set (current # seen) \<subseteq> set (current # seen) \<union> set ?stack'"
      using 2(3) kids by auto
    from 2(2)[OF False this]
    have "fl_flags (cancel_loop fl seen (current # stack)) f \<longleftrightarrow>
        fl_flags fl f \<or> run_flag fl current f
        \<or> (\<exists>j \<in> ?r\<^sup>* `` (?r `` {current} \<union> set stack) - set (current # seen). run_flag fl j f)"
      using False kids by (simp add: flags_cancel_run)
    moreover have "?r\<^sup>* `` set (current # stack) - set seen =
        insert current (?r\<^sup>* `` (?r `` {current} \<union> set stack) - set (current # seen))"
      using reach_unfold[of ?r current] False by (auto simp: Image_Un)
    ultimately show ?thesis by auto
  qed
qed

lemma cancel_loop_runs [simp]: "fl_runs (cancel_loop fl seen stack) = fl_runs fl"
  by (induction fl seen stack rule: cancel_loop.induct) simp_all

section \<open>A run's questions are a reply box\<close>

datatype run_event =
    AskQuestion string
  | AnswerQuestion string answer
  | DropQuestion string
  | QueueSteer steer
  | AddUsage usage
  | BumpSteps

fun run_step :: "run_handle \<Rightarrow> run_event \<Rightarrow> run_handle" where
  "run_step h (AskQuestion i) = fst (ask_question h i)"
| "run_step h (AnswerQuestion i a) = fst (answer_question h i a)"
| "run_step h (DropQuestion i) = drop_question h i"
| "run_step h (QueueSteer s) = queue_steer h s"
| "run_step h (AddUsage u) = add_usage h u"
| "run_step h BumpSteps = fst (bump_steps h)"

definition event_asks :: "run_event \<Rightarrow> string option" where
  "event_asks e = (case e of AskQuestion i \<Rightarrow> Some i | _ \<Rightarrow> None)"

definition event_gives :: "run_event \<Rightarrow> (string \<times> answer) option" where
  "event_gives e = (case e of AnswerQuestion i a \<Rightarrow> Some (i, a) | _ \<Rightarrow> None)"

definition event_drops :: "run_event \<Rightarrow> string option" where
  "event_drops e = (case e of DropQuestion i \<Rightarrow> Some i | _ \<Rightarrow> None)"

text \<open>Pending questions have channels of their own that wait, and no channel beyond the next is used.\<close>

definition questions_sound :: "run_handle \<Rightarrow> bool" where
  "questions_sound h \<longleftrightarrow>
     (\<forall>i c. h_questions h i = Some c \<longrightarrow> h_cells h c = ReplyWaiting)
   \<and> (\<forall>i j c. h_questions h i = Some c \<longrightarrow> h_questions h j = Some c \<longrightarrow> i = j)
   \<and> (\<forall>c \<ge> h_next h. h_cells h c = ReplyClosed)"

lemma questions_soundD:
  assumes "questions_sound h"
  shows "h_questions h i = Some c \<Longrightarrow> h_cells h c = ReplyWaiting"
    and "h_questions h i = Some c \<Longrightarrow> h_questions h j = Some c \<Longrightarrow> i = j"
    and "h_next h \<le> c \<Longrightarrow> h_cells h c = ReplyClosed"
    and "h_questions h i = Some c \<Longrightarrow> c < h_next h"
proof -
  show "h_questions h i = Some c \<Longrightarrow> h_cells h c = ReplyWaiting"
    and "h_questions h i = Some c \<Longrightarrow> h_questions h j = Some c \<Longrightarrow> i = j"
    and high: "h_next h \<le> c \<Longrightarrow> h_cells h c = ReplyClosed"
    using assms unfolding questions_sound_def by blast+
  assume "h_questions h i = Some c"
  then have "h_cells h c = ReplyWaiting" using assms unfolding questions_sound_def by blast
  then show "c < h_next h"
    using assms unfolding questions_sound_def by (metis not_le reply_cell.distinct(3))
qed

lemma questions_soundI:
  assumes "\<And>i c. h_questions h i = Some c \<Longrightarrow> h_cells h c = ReplyWaiting"
    and "\<And>i j c. h_questions h i = Some c \<Longrightarrow> h_questions h j = Some c \<Longrightarrow> i = j"
    and "\<And>c. h_next h \<le> c \<Longrightarrow> h_cells h c = ReplyClosed"
  shows "questions_sound h"
  unfolding questions_sound_def using assms by blast

lemma close_cell_other: "old \<noteq> Some c \<Longrightarrow> close_cell old cells c = cells c"
  by (auto simp: close_cell_def split: option.split)

lemma close_cell_closed: "cells c = ReplyClosed \<Longrightarrow> close_cell old cells c = ReplyClosed"
  by (auto simp: close_cell_def split: option.split)

lemma questions_sound_ask:
  assumes q: "questions_sound h"
  shows "questions_sound (fst (ask_question h i))"
proof (rule questions_soundI)
  fix j c assume "h_questions (fst (ask_question h i)) j = Some c"
  then show "h_cells (fst (ask_question h i)) c = ReplyWaiting"
    using questions_soundD(1)[OF q, of j c] questions_soundD(2)[OF q, of j c i]
      close_cell_other[of "h_questions h i" c "h_cells h"]
    by (auto simp: ask_question_def split: if_splits)
next
  fix j k c
  assume "h_questions (fst (ask_question h i)) j = Some c" "h_questions (fst (ask_question h i)) k = Some c"
  then show "j = k"
    using questions_soundD(2,4)[OF q, of _ c] by (auto simp: ask_question_def split: if_splits)
next
  fix c assume "h_next (fst (ask_question h i)) \<le> c"
  then show "h_cells (fst (ask_question h i)) c = ReplyClosed"
    using questions_soundD(3)[OF q, of c] by (auto simp: ask_question_def close_cell_closed)
qed

lemma questions_sound_answer:
  assumes q: "questions_sound h"
  shows "questions_sound (fst (answer_question h i a))"
proof (cases "h_questions h i")
  case None
  with q show ?thesis by (simp add: answer_question_def)
next
  case (Some c0)
  then have r: "fst (answer_question h i a) =
      h\<lparr>h_questions := (h_questions h)(i := None), h_cells := (h_cells h)(c0 := ReplySent a)\<rparr>"
    using questions_soundD(1)[OF q Some] by (simp add: answer_question_def Let_def)
  show ?thesis unfolding r
  proof (rule questions_soundI, goal_cases)
    case (1 j c)
    then show ?case using questions_soundD(1)[OF q, of j c] questions_soundD(2)[OF q Some, of j]
      by (auto split: if_splits)
  next
    case (2 j k c)
    then show ?case using questions_soundD(2)[OF q, of j c k] by (auto split: if_splits)
  next
    case (3 c)
    then show ?case using questions_soundD(3)[OF q, of c] questions_soundD(4)[OF q Some] by auto
  qed
qed

lemma questions_sound_drop:
  assumes q: "questions_sound h"
  shows "questions_sound (drop_question h i)"
proof (rule questions_soundI, goal_cases)
  case (1 j c)
  then show ?case
    using questions_soundD(1)[OF q, of j c] questions_soundD(2)[OF q, of j c i]
      close_cell_other[of "h_questions h i" c "h_cells h"]
    by (auto simp: drop_question_def split: if_splits)
next
  case (2 j k c)
  then show ?case using questions_soundD(2)[OF q, of j c k] by (auto simp: drop_question_def split: if_splits)
next
  case (3 c)
  then show ?case using questions_soundD(3)[OF q, of c] by (simp add: drop_question_def close_cell_closed)
qed

lemma questions_sound_frame:
  "h_questions h' = h_questions h \<Longrightarrow> h_cells h' = h_cells h \<Longrightarrow> h_next h' = h_next h
     \<Longrightarrow> questions_sound h' = questions_sound h"
  by (simp add: questions_sound_def)

lemma questions_sound_step: "questions_sound h \<Longrightarrow> questions_sound (run_step h e)"
  using questions_sound_frame[of "queue_steer h s" h for s] questions_sound_frame[of "add_usage h u" h for u]
    questions_sound_frame[of "fst (bump_steps h)" h]
  by (cases e) (simp_all add: questions_sound_ask questions_sound_answer questions_sound_drop
      queue_steer_def add_usage_def bump_steps_def)

definition answer_heard :: "run_handle \<Rightarrow> nat \<Rightarrow> answer option" where
  "answer_heard h c = (case h_cells h c of ReplySent a \<Rightarrow> Some a | _ \<Rightarrow> None)"

lemma answer_heard_stays:
  assumes q: "questions_sound h" and "answer_heard h c = Some a"
  shows "answer_heard (run_step h e) c = Some a"
proof -
  have sent: "h_cells h c = ReplySent a" using assms(2) by (auto simp: answer_heard_def split: reply_cell.splits)
  then have np: "h_questions h j \<noteq> Some c" for j using questions_soundD(1)[OF q, of j c] by auto
  have "c \<noteq> h_next h" using questions_soundD(3)[OF q, of c] sent by auto
  then have "h_cells (run_step h e) c = ReplySent a" using sent np
    by (cases e) (auto simp: ask_question_def answer_question_def drop_question_def close_cell_other
        queue_steer_def add_usage_def bump_steps_def Let_def split: option.split)
  then show ?thesis by (simp add: answer_heard_def)
qed

lemma question_keeps_waiting:
  assumes "h_questions h i = Some c" and "event_asks e \<noteq> Some i" and "event_drops e \<noteq> Some i"
    and "\<And>a. event_gives e \<noteq> Some (i, a)"
  shows "h_questions (run_step h e) i = Some c"
  using assms
  by (cases e) (auto simp: event_asks_def event_drops_def event_gives_def ask_question_def
      answer_question_def drop_question_def queue_steer_def add_usage_def bump_steps_def Let_def
      split: option.split)

interpretation question_box:
  reply_box run_step event_asks event_gives event_drops questions_sound h_questions answer_heard
proof (unfold_locales, goal_cases)
  case (1 h e)
  then show ?case by (rule questions_sound_step)
next
  case (2 h i c)
  then show ?case by (simp add: answer_heard_def questions_soundD(1))
next
  case (3 h i c e a)
  then have "e = AnswerQuestion i a" by (auto simp: event_gives_def split: run_event.splits)
  with 3 show ?case by (simp add: answer_heard_def answer_question_def questions_soundD(1) Let_def)
next
  case (4 h c a e)
  then show ?case by (rule answer_heard_stays)
next
  case (5 h i c e)
  then show ?case by (intro question_keeps_waiting) auto
qed

definition answer_given :: "string \<Rightarrow> run_event \<Rightarrow> answer option" where
  "answer_given i e = (case e of AnswerQuestion j a \<Rightarrow> if j = i then Some a else None | _ \<Rightarrow> None)"

lemma question_first_answer: "question_box.first_answer i es = find_map (answer_given i) es"
proof -
  have "(\<lambda>e. case event_gives e of Some (j, a) \<Rightarrow> if j = i then Some a else None | None \<Rightarrow> None) = answer_given i"
    by (rule ext) (simp add: event_gives_def answer_given_def split: run_event.split)
  then show ?thesis by (simp add: question_box.first_answer_def)
qed

lemma questions_sound_new: "questions_sound (new_handle i conv flag parent depth now)"
  by (simp add: questions_sound_def new_handle_def)

lemma answer_accepted:
  "questions_sound h \<Longrightarrow> snd (answer_question h i a) \<longleftrightarrow> h_questions h i \<noteq> None"
  by (auto simp: answer_question_def questions_soundD(1) Let_def split: option.split)

lemma answered_not_waiting:
  assumes "questions_sound h" and "h_questions h i = Some c" and "\<forall>e \<in> set es. event_asks e \<noteq> Some i"
    and "find_map (answer_given i) es \<noteq> None"
  shows "h_questions (foldl run_step h es) i = None"
proof -
  have gone: "h_questions (foldl run_step h es) i = None"
    if "h_questions h i = None" "\<forall>e \<in> set es. event_asks e \<noteq> Some i" for h es
    using that
  proof (induction es arbitrary: h)
    case (Cons e es)
    have "h_questions (run_step h e) i = None"
      using Cons.prems by (cases e) (auto simp: event_asks_def ask_question_def answer_question_def
          drop_question_def queue_steer_def add_usage_def bump_steps_def Let_def split: option.split)
    with Cons show ?case by simp
  qed simp
  show ?thesis using assms(3,4)
  proof (induction es arbitrary: h)
    case (Cons e es)
    show ?case
    proof (cases "answer_given i e")
      case (Some a)
      then have "e = AnswerQuestion i a" by (auto simp: answer_given_def split: run_event.splits if_splits)
      then have "h_questions (run_step h e) i = None"
        by (simp add: answer_question_def Let_def split: option.split)
      then show ?thesis using gone[of "run_step h e" es] Cons.prems(1) by simp
    qed (use Cons in simp)
  qed simp
qed

text \<open>The steers of a history, and what the loop drains at each of its safe points.\<close>

fun steer_history :: "run_handle \<Rightarrow> steer option list \<Rightarrow> run_handle \<times> steer list list" where
  "steer_history h [] = (h, [])"
| "steer_history h (Some s # xs) = steer_history (queue_steer h s) xs"
| "steer_history h (None # xs) =
     (let (h1, out) = drain_steers h; (h2, outs) = steer_history h1 xs in (h2, out # outs))"

lemma steer_history_keeps:
  "concat (snd (steer_history h xs)) @ h_inbox (fst (steer_history h xs)) =
     h_inbox h @ List.map_filter id xs"
  by (induction h xs rule: steer_history.induct)
    (auto simp: drain_steers_def queue_steer_def Let_def split_beta List.map_filter_simps)

lemma add_usage_sum:
  "run_usage (foldl add_usage h us) =
     (if us = [] then run_usage h
      else Some \<lparr>use_prompt_tokens = h_prompt_tokens h + sum_list (map use_prompt_tokens us),
                 use_output_tokens = h_output_tokens h + sum_list (map use_output_tokens us)\<rparr>)"
  by (induction us arbitrary: h) (auto simp: add_usage_def run_usage_def add.assoc)

section \<open>Properties\<close>

text \<open>Stopping a run stops exactly its tree: afterwards a flag is set when it was set before or
  when it belongs to the run itself or to a run started by it, directly or through others;
  nothing else is touched, the registry stays as it was, and the walk ends even if the parents
  of the registered runs form a circle.\<close>

theorem cancel_tree_stops_exactly_the_tree:
  "(fl_flags (cancel_tree fl i) f \<longleftrightarrow>
      fl_flags fl f \<or> (\<exists>j h. (i, j) \<in> (started_by fl)\<^sup>* \<and> get_run fl j = Some h \<and> h_cancel h = f))
   \<and> fl_runs (cancel_tree fl i) = fl_runs fl"
  using cancel_loop_flags[of fl "[]" "[i]" f] by (auto simp: cancel_tree_def run_flag_def)

text \<open>A question a run asked receives the first answer given to it and no other, whatever else
  happens to the run: as long as it is not asked again or forgotten, the run hears exactly the
  first answer, and giving an answer reports success exactly when none was given before.\<close>

theorem question_answered_once:
  assumes "AskQuestion i \<notin> set later" and "DropQuestion i \<notin> set later"
  shows "let h0 = foldl run_step (new_handle r conv flag parent depth now) earlier;
             (h, c) = ask_question h0 i;
             h' = foldl run_step h later
         in answer_heard h' c = find_map (answer_given i) later
            \<and> (snd (answer_question h' i a) \<longleftrightarrow> find_map (answer_given i) later = None)"
proof -
  define h0 where "h0 = foldl run_step (new_handle r conv flag parent depth now) earlier"
  obtain h c where hc: "ask_question h0 i = (h, c)" by fastforce
  have "questions_sound h0" unfolding h0_def by (rule question_box.sound_run[OF questions_sound_new])
  then have s: "questions_sound h" using questions_sound_ask[of h0 i] hc by simp
  have w: "h_questions h i = Some c" using hc by (auto simp: ask_question_def)
  have no: "\<forall>e \<in> set later. event_asks e \<noteq> Some i \<and> event_drops e \<noteq> Some i"
    using assms by (auto simp: event_asks_def event_drops_def split: run_event.splits)
  note once = question_box.answered_once[OF s w no, unfolded question_first_answer]
  have s': "questions_sound (foldl run_step h later)" by (rule question_box.sound_run[OF s])
  have "h_questions (foldl run_step h later) i \<noteq> None \<longleftrightarrow> find_map (answer_given i) later = None"
    using once answered_not_waiting[OF s w, of later] no by (cases "find_map (answer_given i) later") auto
  with once answer_accepted[OF s', of i a] show ?thesis
    by (simp add: h0_def[symmetric] hc Let_def)
qed

theorem question_answered_once_witness:
  "let (h, c) = ask_question (new_handle ''r'' ''c'' 0 None 0 0) ''q'';
       yes = \<lparr>ans_choices = [''A''], ans_text = None\<rparr>;
       h' = foldl run_step h [QueueSteer (steer_user ''hurry''), AnswerQuestion ''q'' yes]
   in answer_heard h' c = Some yes \<and> \<not> snd (answer_question h' ''q'' \<lparr>ans_choices = [], ans_text = None\<rparr>)"
  using question_answered_once[of "''q''" "[QueueSteer (steer_user ''hurry''),
      AnswerQuestion ''q'' \<lparr>ans_choices = [''A''], ans_text = None\<rparr>]" "''r''" "''c''" 0 None 0 0 "[]"
      "\<lparr>ans_choices = [], ans_text = None\<rparr>"]
  by (simp add: answer_given_def Let_def split_beta)

text \<open>Instructions that arrive mid-run are neither lost, repeated nor reordered: whatever the
  interleaving of arrivals and safe points, what was drained so far followed by what still waits
  is what waited at first followed by every arrival, in order; and the cost of a run is the sum
  of the turns that reported, modulo the counters' 64 bits, and unknown when none did.\<close>

theorem steers_in_order_and_cost_summed:
  "concat (snd (steer_history h xs)) @ h_inbox (fst (steer_history h xs)) = h_inbox h @ List.map_filter id xs
   \<and> run_usage (foldl add_usage (new_handle r conv flag parent depth now) us) =
       (if us = [] then None
        else Some \<lparr>use_prompt_tokens = sum_list (map use_prompt_tokens us),
                   use_output_tokens = sum_list (map use_output_tokens us)\<rparr>)"
  using steer_history_keeps[of h xs] add_usage_sum[of "new_handle r conv flag parent depth now" us]
  by (simp add: new_handle_def run_usage_def)

text \<open>A run's step budget is always between 1 and 50, whatever the setting says and whatever
  number a command asks for, and it is the default of 12 when the setting is missing or not a
  number.\<close>

theorem step_budget_bounded:
  "1 \<le> max_iterations (with_max_steps (limits_top d) n)
   \<and> max_iterations (with_max_steps (limits_top d) n) \<le> 50
   \<and> max_iterations (limits_top d) =
       (case Option.bind (get_setting d ''agent.max_steps'') (\<lambda>v. parse_usize (trim v)) of
          None \<Rightarrow> 12 | Some k \<Rightarrow> clamp 1 50 k)"
  by (auto simp: with_max_steps_def limits_top_def clamp_def default_limits_def split: option.split)

end
