(* ===== verification/Voice_Floor.thy ===== *)
theory Voice_Floor imports Rust_Prelude begin

text \<open>
  Turn-taking of the voice mode (\<open>src-tauri/src/runtime/voice_floor.rs\<close>): who has the floor,
  when a turn is over, and when the user cutting in stops Poiesis.

  Times are milliseconds in a \<open>u64\<close>; the code only compares them and subtracts with
  \<open>saturating_sub\<close>, which is the subtraction of natural numbers, so they are \<open>nat\<close> here.
\<close>

datatype floor =
    Listening
  | UserSpeaking nat
  | UserPause nat nat
  | Thinking
  | Speaking u64
  | Ducked u64 nat

definition floor_name :: "floor \<Rightarrow> string" where
  "floor_name f =
     (case f of Listening \<Rightarrow> ''listening''
      | UserSpeaking _ \<Rightarrow> ''user_speaking'' | UserPause _ _ \<Rightarrow> ''user_speaking''
      | Thinking \<Rightarrow> ''thinking''
      | Speaking _ \<Rightarrow> ''speaking'' | Ducked _ _ \<Rightarrow> ''speaking'')"

record floor_config =
  cut_in_commit_ms :: nat
  unduck_ms :: nat
  min_user_turn_ms :: nat
  end_silence_ms :: nat
  complete_silence_ms :: nat
  incomplete_silence_ms :: nat
  max_turn_ms :: nat
  cut_in :: bool

definition default_floor_config :: floor_config where
  "default_floor_config =
     \<lparr>cut_in_commit_ms = 180, unduck_ms = 120, min_user_turn_ms = 280, end_silence_ms = 600,
      complete_silence_ms = 300, incomplete_silence_ms = 1200, max_turn_ms = 30000, cut_in = True\<rparr>"

datatype floor_action = NoAction | EndOfTurn | Discard | Duck | Unduck | Yield

datatype ending = EndingComplete | EndingUnknown | EndingIncomplete

section \<open>What the words say\<close>

definition OPEN_EN :: "string list" where
  "OPEN_EN = [''and'', ''or'', ''but'', ''so'', ''because'', ''if'', ''when'', ''that'', ''which'', ''the'',
     ''a'', ''an'', ''my'', ''your'', ''to'', ''of'', ''with'']"

definition OPEN_DE :: "string list" where
  "OPEN_DE = [''und'', ''oder'', ''aber'', ''weil'', ''dass'', ''wenn'', ''ob'', ''der'', ''die'', ''das'',
     ''ein'', ''eine'', ''mein'', ''dein'', ''zu'', ''mit'', ''von'', ''also'']"

definition last_word :: "unicode \<Rightarrow> string \<Rightarrow> string" where
  "last_word u s =
     (let tail = rev (takeWhile (\<lambda>c. \<not> char_whitespace c) (rev (utf8_chars s)));
          keep = (\<lambda>c. \<not> char_alphanumeric u c)
      in str_lowercase u (concat (rev (dropWhile keep (rev (dropWhile keep tail))))))"

definition ending_of :: "unicode \<Rightarrow> string \<Rightarrow> string \<Rightarrow> ending" where
  "ending_of u said language =
     (let s = trim said; cs = utf8_chars s in
      if cs \<noteq> [] \<and> last cs \<in> set [''.'', ''?'', [CHR 0x21], ellipsis] then EndingComplete
      else
        (let w = last_word u s in
         if w = [] then EndingUnknown
         else if (if language = ''de'' then w \<in> set OPEN_DE
                  else if language = ''en'' then w \<in> set OPEN_EN
                  else w \<in> set OPEN_DE \<or> w \<in> set OPEN_EN)
         then EndingIncomplete else EndingUnknown))"

definition WORDS_DE :: "string list" where
  "WORDS_DE = [''ich'', ''du'', ''und'', ''der'', ''die'', ''das'', ''ist'', ''nicht'', ''ein'', ''eine'', ''mit'',
     [CHR ''f'', CHR 0xC3, CHR 0xBC, CHR ''r''], ''auf'', ''wie'', ''was'', ''kannst'', ''bitte'', ''mir'', ''ja'',
     ''nein'', ''wir'', ''sie'', ''es'', ''zu'', ''von'', ''den'', ''dem'', ''auch'', ''aber'', ''wenn'']"

definition WORDS_EN :: "string list" where
  "WORDS_EN = [''i'', ''you'', ''and'', ''the'', ''is'', ''not'', ''a'', ''an'', ''with'', ''for'', ''on'', ''how'',
     ''what'', ''can'', ''please'', ''me'', ''yes'', ''no'', ''we'', ''it'', ''to'', ''of'', ''that'', ''this'',
     ''are'', ''do'', ''have'', ''but'', ''if'', ''my'']"

definition guess_language :: "unicode \<Rightarrow> string \<Rightarrow> string option" where
  "guess_language u said =
     (let ws = filter (\<lambda>w. w \<noteq> [])
                 (split_where (\<lambda>c. \<not> char_alphanumeric u c) (utf8_chars (str_lowercase u said)));
          de = length (filter (\<lambda>w. w \<in> set WORDS_DE) ws);
          en = length (filter (\<lambda>w. w \<in> set WORDS_EN) ws)
      in if de + en < 2 \<or> de = en then None else if en < de then Some ''de'' else Some ''en'')"

section \<open>The machine\<close>

record floor_machine =
  fm_config :: floor_config
  fm_floor :: floor
  fm_overlap_since :: "nat option"
  fm_quiet_since :: "nat option"
  fm_ending :: ending

definition new_floor_machine :: "floor_config \<Rightarrow> floor_machine" where
  "new_floor_machine c =
     \<lparr>fm_config = c, fm_floor = Listening, fm_overlap_since = None, fm_quiet_since = None,
      fm_ending = EndingUnknown\<rparr>"

definition set_cut_in :: "floor_machine \<Rightarrow> bool \<Rightarrow> floor_machine" where
  "set_cut_in m on = m\<lparr>fm_config := (fm_config m)\<lparr>cut_in := on\<rparr>\<rparr>"

definition end_turn :: "floor_machine \<Rightarrow> floor_machine \<times> floor_action" where
  "end_turn m = (m\<lparr>fm_floor := Thinking, fm_overlap_since := None\<rparr>, EndOfTurn)"

definition needed_silence :: "floor_machine \<Rightarrow> nat" where
  "needed_silence m =
     (case fm_ending m of
        EndingComplete \<Rightarrow> complete_silence_ms (fm_config m)
      | EndingUnknown \<Rightarrow> end_silence_ms (fm_config m)
      | EndingIncomplete \<Rightarrow> incomplete_silence_ms (fm_config m))"

definition or_now :: "nat option \<Rightarrow> nat \<Rightarrow> nat" where
  "or_now t now = (case t of Some s \<Rightarrow> s | None \<Rightarrow> now)"

definition observe :: "floor_machine \<Rightarrow> nat \<Rightarrow> bool \<Rightarrow> floor_machine \<times> floor_action" where
  "observe m now speech =
     (let cfg = fm_config m in
      case fm_floor m of
        Listening \<Rightarrow>
          (if speech then m\<lparr>fm_floor := UserSpeaking now, fm_ending := EndingUnknown\<rparr> else m, NoAction)
      | UserSpeaking since \<Rightarrow>
          if max_turn_ms cfg \<le> now - since then end_turn m
          else (if \<not> speech then m\<lparr>fm_floor := UserPause since now\<rparr> else m, NoAction)
      | UserPause speech_since silence_since \<Rightarrow>
          if speech then (m\<lparr>fm_floor := UserSpeaking speech_since, fm_ending := EndingUnknown\<rparr>, NoAction)
          else
            (let silence = now - silence_since; spoke = silence_since - speech_since in
             if spoke < min_user_turn_ms cfg then
               (if end_silence_ms cfg \<le> silence then (m\<lparr>fm_floor := Listening\<rparr>, Discard) else (m, NoAction))
             else if max_turn_ms cfg \<le> now - speech_since \<or> needed_silence m \<le> silence then end_turn m
             else (m, NoAction))
      | Thinking \<Rightarrow>
          if \<not> cut_in cfg then (m, NoAction)
          else if \<not> speech then (m\<lparr>fm_overlap_since := None\<rparr>, NoAction)
          else
            (let since = or_now (fm_overlap_since m) now in
             if cut_in_commit_ms cfg \<le> now - since
             then (m\<lparr>fm_overlap_since := None, fm_floor := UserSpeaking since, fm_ending := EndingUnknown\<rparr>, Yield)
             else (m\<lparr>fm_overlap_since := Some since\<rparr>, NoAction))
      | Speaking generation \<Rightarrow>
          if cut_in cfg \<and> speech
          then (m\<lparr>fm_floor := Ducked generation now, fm_quiet_since := None\<rparr>, Duck)
          else (m, NoAction)
      | Ducked generation overlap_since \<Rightarrow>
          if speech then
            (if cut_in_commit_ms cfg \<le> now - overlap_since
             then (m\<lparr>fm_quiet_since := None, fm_floor := UserSpeaking overlap_since, fm_ending := EndingUnknown\<rparr>, Yield)
             else (m\<lparr>fm_quiet_since := None\<rparr>, NoAction))
          else
            (let quiet = or_now (fm_quiet_since m) now in
             if unduck_ms cfg \<le> now - quiet
             then (m\<lparr>fm_quiet_since := None, fm_floor := Speaking generation\<rparr>, Unduck)
             else (m\<lparr>fm_quiet_since := Some quiet\<rparr>, NoAction)))"

definition set_partial_text :: "unicode \<Rightarrow> floor_machine \<Rightarrow> string \<Rightarrow> string \<Rightarrow> floor_machine" where
  "set_partial_text u m said language =
     (case fm_floor m of UserPause _ _ \<Rightarrow> m\<lparr>fm_ending := ending_of u said language\<rparr> | _ \<Rightarrow> m)"

definition assistant_started :: "floor_machine \<Rightarrow> u64 \<Rightarrow> floor_machine" where
  "assistant_started m generation =
     (if fm_floor m = Thinking \<or> fm_floor m = Listening
      then m\<lparr>fm_floor := Speaking generation, fm_overlap_since := None\<rparr> else m)"

definition assistant_finished :: "floor_machine \<Rightarrow> floor_machine" where
  "assistant_finished m =
     (case fm_floor m of
        Listening \<Rightarrow> m | UserSpeaking _ \<Rightarrow> m | UserPause _ _ \<Rightarrow> m
      | _ \<Rightarrow> m\<lparr>fm_floor := Listening, fm_overlap_since := None, fm_quiet_since := None\<rparr>)"

section \<open>Histories\<close>

datatype floor_event =
    Window nat bool
  | SetCutIn bool
  | PartialText string string
  | AssistantStarted u64
  | AssistantFinished

fun floor_step :: "unicode \<Rightarrow> floor_machine \<Rightarrow> floor_event \<Rightarrow> floor_machine \<times> floor_action" where
  "floor_step u m (Window t s) = observe m t s"
| "floor_step u m (SetCutIn on) = (set_cut_in m on, NoAction)"
| "floor_step u m (PartialText said l) = (set_partial_text u m said l, NoAction)"
| "floor_step u m (AssistantStarted g) = (assistant_started m g, NoAction)"
| "floor_step u m AssistantFinished = (assistant_finished m, NoAction)"

inductive floor_reach :: "unicode \<Rightarrow> floor_config \<Rightarrow> floor_event list \<Rightarrow> floor_machine \<Rightarrow> bool"
  for u c where
  start: "floor_reach u c [] (new_floor_machine c)"
| step: "floor_reach u c es m \<Longrightarrow> floor_step u m e = (m', act) \<Longrightarrow> floor_reach u c (es @ [e]) m'"

inductive_cases floor_reach_snocE: "floor_reach u c (es @ [e]) m'"

lemma reach_window: "floor_reach u c es m \<Longrightarrow> floor_reach u c (es @ [Window t s]) (fst (observe m t s))"
  by (rule floor_reach.step[of u c es m "Window t s" _ "snd (observe m t s)"]) simp_all

lemma reach_started: "floor_reach u c es m \<Longrightarrow> floor_reach u c (es @ [AssistantStarted g]) (assistant_started m g)"
  by (rule floor_reach.step[of u c es m "AssistantStarted g" _ NoAction]) simp_all

section \<open>The timers' specification: who has the floor, without the clock\<close>

datatype view = ViewListening | ViewUser | ViewThinking | ViewSpeaking | ViewDucked

definition view_of :: "floor \<Rightarrow> view" where
  "view_of f =
     (case f of Listening \<Rightarrow> ViewListening | UserSpeaking _ \<Rightarrow> ViewUser | UserPause _ _ \<Rightarrow> ViewUser
      | Thinking \<Rightarrow> ViewThinking | Speaking _ \<Rightarrow> ViewSpeaking | Ducked _ _ \<Rightarrow> ViewDucked)"

text \<open>What a caller may see: each action says where the floor goes.\<close>

inductive spec_step :: "view \<Rightarrow> floor_event \<Rightarrow> floor_action \<Rightarrow> view \<Rightarrow> bool" where
  hear: "spec_step ViewListening (Window t True) NoAction ViewUser"
| idle: "spec_step ViewListening (Window t False) NoAction ViewListening"
| talk: "spec_step ViewUser (Window t s) NoAction ViewUser"
| turn: "spec_step ViewUser (Window t s) EndOfTurn ViewThinking"
| forget: "spec_step ViewUser (Window t False) Discard ViewListening"
| wait: "spec_step ViewThinking (Window t s) NoAction ViewThinking"
| cut: "spec_step ViewThinking (Window t True) Yield ViewUser"
| play: "spec_step ViewSpeaking (Window t s) NoAction ViewSpeaking"
| duck: "spec_step ViewSpeaking (Window t True) Duck ViewDucked"
| low: "spec_step ViewDucked (Window t s) NoAction ViewDucked"
| unduck: "spec_step ViewDucked (Window t False) Unduck ViewSpeaking"
| yield: "spec_step ViewDucked (Window t True) Yield ViewUser"
| config: "spec_step v (SetCutIn on) NoAction v"
| text_: "spec_step v (PartialText said l) NoAction v"
| begins: "v = ViewThinking \<or> v = ViewListening \<Longrightarrow> spec_step v (AssistantStarted g) NoAction ViewSpeaking"
| late: "v \<noteq> ViewThinking \<Longrightarrow> v \<noteq> ViewListening \<Longrightarrow> spec_step v (AssistantStarted g) NoAction v"
| falls_silent: "v \<noteq> ViewListening \<Longrightarrow> v \<noteq> ViewUser \<Longrightarrow> spec_step v AssistantFinished NoAction ViewListening"
| already_silent: "v = ViewListening \<or> v = ViewUser \<Longrightarrow> spec_step v AssistantFinished NoAction v"

inductive_simps spec_window: "spec_step v (Window t s) act v'"

lemma spec_step_determined:
  "spec_step v e act v' \<Longrightarrow> spec_step v e act v'' \<Longrightarrow> v' = v''"
  by (induction rule: spec_step.induct) (auto elim: spec_step.cases)

lemma observe_refines: "spec_step (view_of (fm_floor m)) (Window t s) (snd (observe m t s))
    (view_of (fm_floor (fst (observe m t s))))"
  by (cases "fm_floor m")
    (auto simp: spec_window observe_def view_of_def end_turn_def Let_def)

section \<open>Every time stands for a window\<close>

definition heard_at :: "floor_event list \<Rightarrow> nat \<Rightarrow> bool" where
  "heard_at es t \<longleftrightarrow> Window t True \<in> set es"

definition quiet_at :: "floor_event list \<Rightarrow> nat \<Rightarrow> bool" where
  "quiet_at es t \<longleftrightarrow> Window t False \<in> set es"

definition times_backed :: "floor_event list \<Rightarrow> floor_machine \<Rightarrow> bool" where
  "times_backed es m \<longleftrightarrow>
     (case fm_floor m of
        UserSpeaking s \<Rightarrow> heard_at es s
      | UserPause s q \<Rightarrow> heard_at es s \<and> quiet_at es q
      | Ducked _ s \<Rightarrow> heard_at es s
      | _ \<Rightarrow> True)
   \<and> (case fm_overlap_since m of None \<Rightarrow> True | Some s \<Rightarrow> heard_at es s)"

lemma heard_quiet_snoc [simp]:
  "heard_at (es @ [e]) t \<longleftrightarrow> e = Window t True \<or> heard_at es t"
  "quiet_at (es @ [e]) t \<longleftrightarrow> e = Window t False \<or> quiet_at es t"
  by (auto simp: heard_at_def quiet_at_def)

lemma times_backed_weaken: "times_backed es m \<Longrightarrow> times_backed (es @ [e]) m"
  by (auto simp: times_backed_def split: floor.splits option.splits)

lemma times_backed_observe:
  "times_backed es m \<Longrightarrow> times_backed (es @ [Window t s]) (fst (observe m t s))"
  by (cases "fm_floor m"; cases "fm_overlap_since m")
    (auto simp: times_backed_def observe_def end_turn_def or_now_def Let_def)

lemma times_backed_others:
  "times_backed es m \<Longrightarrow> times_backed es (set_cut_in m on)"
  "times_backed es m \<Longrightarrow> times_backed es (set_partial_text u m said l)"
  "times_backed es m \<Longrightarrow> times_backed es (assistant_started m g)"
  "times_backed es m \<Longrightarrow> times_backed es (assistant_finished m)"
  by (auto simp: times_backed_def set_cut_in_def set_partial_text_def assistant_started_def
      assistant_finished_def split: floor.splits)

lemma times_backed_step:
  "times_backed es m \<Longrightarrow> times_backed (es @ [e]) (fst (floor_step u m e))"
  by (cases e) (simp_all add: times_backed_observe times_backed_others times_backed_weaken)

lemma reach_times_backed: "floor_reach u c es m \<Longrightarrow> times_backed es m"
proof (induction rule: floor_reach.induct)
  case start
  then show ?case by (simp add: times_backed_def new_floor_machine_def)
next
  case (step es m e m' act)
  then show ?case using times_backed_step[of es m e u] by simp
qed

text \<open>The configured times never change; only \<open>cut_in\<close> does.\<close>

lemma step_config: "\<exists>on. fm_config (fst (floor_step u m e)) = (fm_config m)\<lparr>cut_in := on\<rparr>"
proof -
  have same: "\<exists>on. x = x\<lparr>cut_in := on\<rparr>" for x :: floor_config
    by (rule exI[of _ "cut_in x"]) simp
  have "fm_config (fst (observe m t s)) = fm_config m" for t s
    by (cases "fm_floor m") (auto simp: observe_def end_turn_def Let_def)
  moreover have "fm_config (set_partial_text u m said l) = fm_config m" for said l
    by (simp add: set_partial_text_def split: floor.split)
  moreover have "fm_config (assistant_finished m) = fm_config m"
    by (simp add: assistant_finished_def split: floor.split)
  ultimately show ?thesis
    using same by (cases e) (auto simp: set_cut_in_def assistant_started_def)
qed

lemma reach_config: "floor_reach u c es m \<Longrightarrow> \<exists>on. fm_config m = c\<lparr>cut_in := on\<rparr>"
proof (induction rule: floor_reach.induct)
  case start
  show ?case by (rule exI[of _ "cut_in c"]) (simp add: new_floor_machine_def)
next
  case (step es m e m' act)
  then obtain on on' where "fm_config m = c\<lparr>cut_in := on\<rparr>" "fm_config m' = (fm_config m)\<lparr>cut_in := on'\<rparr>"
    using step_config[of u m e] by auto
  then show ?case by (intro exI[of _ on']) simp
qed

section \<open>Silence ends a turn\<close>

definition silent_windows :: "floor_machine \<Rightarrow> nat list \<Rightarrow> floor_machine" where
  "silent_windows m ts = foldl (\<lambda>m t. fst (observe m t False)) m ts"

definition longest_pause :: "floor_config \<Rightarrow> nat" where
  "longest_pause c = max (end_silence_ms c) (max (complete_silence_ms c) (incomplete_silence_ms c))"

definition turn_over :: "floor_machine \<Rightarrow> bool" where
  "turn_over m \<longleftrightarrow> fm_floor m = Thinking \<or> fm_floor m = Listening"

lemma turn_over_stays: "turn_over m \<Longrightarrow> turn_over (fst (observe m t False))"
  by (auto simp: turn_over_def observe_def Let_def)

lemma turn_over_run: "turn_over m \<Longrightarrow> turn_over (silent_windows m ts)"
  by (induction ts arbitrary: m) (simp_all add: silent_windows_def turn_over_stays)

lemma needed_silence_le: "needed_silence m \<le> longest_pause (fm_config m)"
  by (auto simp: needed_silence_def longest_pause_def split: ending.split)

lemma pause_step:
  assumes "fm_floor m = UserPause s q"
  shows "turn_over (fst (observe m t False)) \<or> fst (observe m t False) = m"
    and "q + longest_pause (fm_config m) \<le> t \<Longrightarrow> turn_over (fst (observe m t False))"
proof -
  show "turn_over (fst (observe m t False)) \<or> fst (observe m t False) = m"
    using assms by (simp add: observe_def turn_over_def end_turn_def Let_def)
  assume "q + longest_pause (fm_config m) \<le> t"
  then have "needed_silence m \<le> t - q" "end_silence_ms (fm_config m) \<le> t - q"
    using needed_silence_le[of m] by (auto simp: longest_pause_def)
  with assms show "turn_over (fst (observe m t False))"
    by (simp add: observe_def turn_over_def end_turn_def Let_def)
qed

lemma pause_run:
  "fm_floor m = UserPause s q \<Longrightarrow> ts \<noteq> [] \<Longrightarrow> q + longest_pause (fm_config m) \<le> last ts
     \<Longrightarrow> turn_over (silent_windows m ts)"
proof (induction ts arbitrary: m)
  case (Cons t ts)
  have step: "silent_windows m (t # ts) = silent_windows (fst (observe m t False)) ts"
    by (simp add: silent_windows_def)
  show ?case
  proof (cases "turn_over (fst (observe m t False))")
    case True
    then show ?thesis by (simp add: step turn_over_run)
  next
    case False
    then have same: "fst (observe m t False) = m" using pause_step(1)[OF Cons.prems(1)] by blast
    have "ts \<noteq> []" using False pause_step(2)[OF Cons.prems(1)] Cons.prems(3) by (cases ts) auto
    with Cons same show ?thesis by (simp add: step)
  qed
qed simp

section \<open>Properties\<close>

text \<open>C10: The machine implements the turn-taking table, whatever its timers say: each step of it, on any
  window or event, is a step of the clockless specification, in which every action names the one
  place the floor goes (Duck only from speaking, Unduck and Yield only back out of ducked or
  thinking, EndOfTurn and Discard only from the user's turn), so a caller that follows the actions
  always knows who has the floor.\<close>

theorem floor_refines_spec:
  "spec_step (view_of (fm_floor m)) e (snd (floor_step u m e)) (view_of (fm_floor (fst (floor_step u m e))))"
proof (cases e)
  case (Window t s)
  then show ?thesis using observe_refines[of m t s] by simp
next
  case (SetCutIn on)
  then show ?thesis by (simp add: set_cut_in_def spec_step.config)
next
  case (PartialText said l)
  moreover have "fm_floor (set_partial_text u m said l) = fm_floor m"
    by (simp add: set_partial_text_def split: floor.split)
  ultimately show ?thesis by (simp add: spec_step.text_)
next
  case (AssistantStarted g)
  then show ?thesis
    by (cases "fm_floor m") (auto simp: assistant_started_def view_of_def intro: spec_step.begins spec_step.late)
next
  case AssistantFinished
  then show ?thesis
    by (cases "fm_floor m")
      (auto simp: assistant_finished_def view_of_def intro: spec_step.falls_silent spec_step.already_silent)
qed

text \<open>Poiesis is stopped only by speech that has lasted: in every reachable state, when a window makes
  the machine yield, that window is speech and speech was heard at least the commit time before
  it, so one cough shorter than that never stops it.\<close>

theorem yield_needs_lasting_speech:
  assumes "floor_reach u c es m" and "observe m t s = (m', Yield)"
  shows "s \<and> (\<exists>t0. heard_at (es @ [Window t s]) t0 \<and> cut_in_commit_ms c \<le> t - t0)"
proof -
  have b: "times_backed es m" by (rule reach_times_backed[OF assms(1)])
  have cfg: "cut_in_commit_ms (fm_config m) = cut_in_commit_ms c"
    using reach_config[OF assms(1)] by auto
  show ?thesis
  proof (cases "fm_floor m")
    case Thinking
    then have s: "s" "cut_in_commit_ms c \<le> t - or_now (fm_overlap_since m) t"
      using assms(2) cfg by (auto simp: observe_def Let_def split: if_splits)
    have "heard_at (es @ [Window t s]) (or_now (fm_overlap_since m) t)"
      using b s(1) by (auto simp: times_backed_def or_now_def split: option.splits)
    with s show ?thesis by blast
  next
    case (Ducked g o0)
    then have s: "s" "cut_in_commit_ms c \<le> t - o0"
      using assms(2) cfg by (auto simp: observe_def Let_def split: if_splits)
    have "heard_at (es @ [Window t s]) o0" using b Ducked by (simp add: times_backed_def)
    with s show ?thesis by blast
  qed (use assms(2) in \<open>auto simp: observe_def end_turn_def Let_def split: if_splits\<close>)
qed

theorem yield_needs_lasting_speech_witness:
  "\<exists>t0. heard_at [AssistantStarted 1, Window 0 True, Window 180 True] t0 \<and> 180 \<le> 180 - t0"
proof -
  define m1 where "m1 = assistant_started (new_floor_machine default_floor_config) 1"
  define m where "m = fst (observe m1 0 True)"
  have r: "floor_reach ascii_only default_floor_config (([] @ [AssistantStarted 1]) @ [Window 0 True]) m"
    unfolding m_def m1_def by (intro reach_window reach_started floor_reach.start)
  have y: "observe m 180 True = (fst (observe m 180 True), Yield)"
    by (simp add: m_def m1_def observe_def assistant_started_def new_floor_machine_def
        default_floor_config_def Let_def)
  from yield_needs_lasting_speech[OF r y] show ?thesis
    by (simp add: default_floor_config_def)
qed

text \<open>A turn is sent only when there was one: in every reachable state, when a window ends the
  user's turn, speech was heard, and either it lasted at least the shortest turn before a quiet
  window, or the longest turn has passed since it began.\<close>

theorem end_of_turn_needs_a_turn:
  assumes "floor_reach u c es m" and "observe m t s = (m', EndOfTurn)"
  shows "\<exists>t0. heard_at es t0 \<and>
     (max_turn_ms c \<le> t - t0 \<or> (\<exists>q. quiet_at es q \<and> min_user_turn_ms c \<le> q - t0))"
proof -
  have b: "times_backed es m" by (rule reach_times_backed[OF assms(1)])
  have cfg: "max_turn_ms (fm_config m) = max_turn_ms c" "min_user_turn_ms (fm_config m) = min_user_turn_ms c"
    using reach_config[OF assms(1)] by auto
  show ?thesis
  proof (cases "fm_floor m")
    case (UserSpeaking s0)
    then have "max_turn_ms c \<le> t - s0" using assms(2) cfg by (auto simp: observe_def split: if_splits)
    with b UserSpeaking show ?thesis by (auto simp: times_backed_def)
  next
    case (UserPause s0 q)
    then have "min_user_turn_ms c \<le> q - s0"
      using assms(2) cfg by (auto simp: observe_def Let_def split: if_splits)
    with b UserPause show ?thesis by (auto simp: times_backed_def)
  qed (use assms(2) in \<open>auto simp: observe_def Let_def split: if_splits\<close>)
qed

theorem end_of_turn_needs_a_turn_witness:
  "\<exists>t0. heard_at [Window 0 True] t0 \<and>
     (30000 \<le> 30000 - t0 \<or> (\<exists>q. quiet_at [Window 0 True] q \<and> 280 \<le> q - t0))"
proof -
  define m where "m = fst (observe (new_floor_machine default_floor_config) 0 True)"
  have r: "floor_reach ascii_only default_floor_config ([] @ [Window 0 True]) m"
    unfolding m_def by (intro reach_window floor_reach.start)
  have y: "observe m 30000 False = (fst (observe m 30000 False), EndOfTurn)"
    by (simp add: m_def observe_def new_floor_machine_def default_floor_config_def end_turn_def)
  from end_of_turn_needs_a_turn[OF r y] show ?thesis
    by (simp add: default_floor_config_def)
qed

text \<open>C11: A user who goes quiet is not waited for forever: if the user was speaking and then only quiet
  windows come, the last of them at least the longest configured pause after the first, the
  floor is no longer the user's, and the turn was sent or dropped.\<close>

theorem quiet_ends_the_users_turn:
  assumes "fm_floor m = UserSpeaking s" and "t0 + longest_pause (fm_config m) \<le> t"
  shows "turn_over (silent_windows m (t0 # ts @ [t]))"
proof -
  let ?m = "fst (observe m t0 False)"
  have step: "silent_windows m (t0 # ts @ [t]) = silent_windows ?m (ts @ [t])"
    by (simp add: silent_windows_def)
  show ?thesis
  proof (cases "turn_over ?m")
    case True
    then show ?thesis by (simp only: step turn_over_run)
  next
    case False
    then have "fm_floor ?m = UserPause s t0" "fm_config ?m = fm_config m"
      using assms(1) by (auto simp: observe_def end_turn_def turn_over_def split: if_splits)
    with assms(2) show ?thesis by (simp only: step) (rule pause_run, simp_all)
  qed
qed

theorem quiet_ends_the_users_turn_witness:
  "turn_over (silent_windows (fst (observe (new_floor_machine default_floor_config) 0 True)) [400, 500, 1600])"
proof -
  let ?m = "fst (observe (new_floor_machine default_floor_config) 0 True)"
  have "fm_floor ?m = UserSpeaking 0" "400 + longest_pause (fm_config ?m) \<le> 1600"
    by (simp_all add: observe_def new_floor_machine_def longest_pause_def default_floor_config_def)
  from quiet_ends_the_users_turn[OF this, of "[500]"] show ?thesis by simp
qed

end
