(* ===== verification/Decide_Policy.thy ===== *)
theory Decide_Policy imports Rust_Prelude begin

text \<open>
  The policy table of the quick decisions (\<open>src-tauri/src/agent/decide/policy.rs\<close>): one row per
  purpose, its variants for a streaming turn, the composer and an unattended run, and the choice
  of the backend.

  A bar is an \<open>f32\<close>; the table keeps its 32 bits.  The bars are between 0 and 1, where the
  order of the bits (as an unsigned number) is the order of the floats.
\<close>

datatype purpose =
    RetSufficiency | MemScope | ReflectCritic | GoalMet | HandoverRoute | ToolSelect | ReflectGate
  | UntrustedFlag | Classify | PlanDoneCheck | SteerClass | UnverifiedClaim | RunIf | MailTriage
  | ClaimVerdict | ClaimCheckable | BrowserCheck | ToolRisk | AppKind

definition ALL_PURPOSES :: "purpose list" where
  "ALL_PURPOSES = [RetSufficiency, MemScope, ReflectCritic, GoalMet, HandoverRoute, ToolSelect, ReflectGate,
     UntrustedFlag, Classify, PlanDoneCheck, SteerClass, UnverifiedClaim, RunIf, MailTriage, ClaimVerdict,
     ClaimCheckable, BrowserCheck, ToolRisk, AppKind]"

datatype decide_mode = Reflex | Assisted | Verify | GateMode

datatype decide_impact = CostCheap | CostVisible | CostCostly | CostIrreversible

datatype escalation = EscNone | EscEvidence | EscSlow | EscUser

datatype needs_vision = VisionNo | VisionAny | VisionYes

datatype measure =
    MeasurePTrue | MeasureTopProb | MeasurePFalse | MeasureConfidence
  | MeasureOption string | MeasureLevel nat

record threshold =
  th_measure :: measure
  th_calibrated :: u32
  th_uncalibrated :: u32

definition threshold_at :: "threshold \<Rightarrow> bool \<Rightarrow> u32" where
  "threshold_at t calibrated = (if calibrated then th_calibrated t else th_uncalibrated t)"

record policy_row =
  row_purpose :: purpose
  row_mode :: decide_mode
  row_impact :: decide_impact
  row_act_at :: threshold
  row_escalate :: escalation
  row_background :: bool
  row_needs_fast :: bool
  row_needs_vision :: needs_vision
  row_deadline_ms :: nat
  row_state_cap_tokens :: nat
  row_experiment :: "string option"
  row_typing :: bool

definition CLOUD_MIN_DEADLINE_MS :: nat where "CLOUD_MIN_DEADLINE_MS = 800"

definition cloud_deadline :: "policy_row \<Rightarrow> nat" where
  "cloud_deadline r = max (row_deadline_ms r) CLOUD_MIN_DEADLINE_MS"

text \<open>The bits of the bars the table uses.\<close>

abbreviation f0_5 :: u32 where "f0_5 \<equiv> 0x3F000000"
abbreviation f0_6 :: u32 where "f0_6 \<equiv> 0x3F19999A"
abbreviation f0_7 :: u32 where "f0_7 \<equiv> 0x3F333333"
abbreviation f0_8 :: u32 where "f0_8 \<equiv> 0x3F4CCCCD"
abbreviation f0_85 :: u32 where "f0_85 \<equiv> 0x3F59999A"
abbreviation f0_9 :: u32 where "f0_9 \<equiv> 0x3F666666"
abbreviation f0_95 :: u32 where "f0_95 \<equiv> 0x3F733333"
abbreviation f1_0 :: u32 where "f1_0 \<equiv> 0x3F800000"

definition purpose_name :: "purpose \<Rightarrow> string" where
  "purpose_name p =
     (case p of
        RetSufficiency \<Rightarrow> ''ret-sufficiency'' | MemScope \<Rightarrow> ''mem-scope''
      | ReflectCritic \<Rightarrow> ''reflect-critic'' | GoalMet \<Rightarrow> ''goal-met''
      | HandoverRoute \<Rightarrow> ''handover-route'' | ToolSelect \<Rightarrow> ''tool-select''
      | ReflectGate \<Rightarrow> ''reflect-gate'' | UntrustedFlag \<Rightarrow> ''untrusted-flag''
      | Classify \<Rightarrow> ''classify'' | PlanDoneCheck \<Rightarrow> ''plan-done'' | SteerClass \<Rightarrow> ''steer-class''
      | UnverifiedClaim \<Rightarrow> ''unverified-claim'' | RunIf \<Rightarrow> ''run-if'' | MailTriage \<Rightarrow> ''mail-triage''
      | ClaimVerdict \<Rightarrow> ''claim-verdict'' | ClaimCheckable \<Rightarrow> ''claim-checkable''
      | BrowserCheck \<Rightarrow> ''browser-check'' | ToolRisk \<Rightarrow> ''tool-risk'' | AppKind \<Rightarrow> ''app-kind'')"

definition is_check :: "purpose \<Rightarrow> bool" where
  "is_check p \<longleftrightarrow> p = ClaimCheckable \<or> p = ClaimVerdict"

definition is_bulk :: "purpose \<Rightarrow> bool" where
  "is_bulk p \<longleftrightarrow> p = Classify \<or> p = ClaimCheckable"

definition row_of ::
  "purpose \<Rightarrow> decide_mode \<Rightarrow> decide_impact \<Rightarrow> measure \<Rightarrow> u32 \<Rightarrow> escalation \<Rightarrow> bool \<Rightarrow> bool \<Rightarrow> nat \<Rightarrow> nat
     \<Rightarrow> policy_row" where
  "row_of p mode imp m at esc background needs_fast deadline_s cap =
     \<lparr>row_purpose = p, row_mode = mode, row_impact = imp,
      row_act_at = \<lparr>th_measure = m, th_calibrated = at, th_uncalibrated = at\<rparr>,
      row_escalate = esc, row_background = background, row_needs_fast = needs_fast,
      row_needs_vision = VisionNo, row_deadline_ms = 1000 * deadline_s, row_state_cap_tokens = cap,
      row_experiment = None, row_typing = False\<rparr>"

definition bars :: "measure \<Rightarrow> u32 \<Rightarrow> u32 \<Rightarrow> policy_row \<Rightarrow> policy_row" where
  "bars m cal uncal r = r\<lparr>row_act_at := \<lparr>th_measure = m, th_calibrated = cal, th_uncalibrated = uncal\<rparr>\<rparr>"

definition behind_fast_slow :: "policy_row \<Rightarrow> policy_row" where
  "behind_fast_slow r = r\<lparr>row_experiment := Some ''fast-slow''\<rparr>"

definition policy :: "purpose \<Rightarrow> policy_row" where
  "policy p =
     (case p of
        RetSufficiency \<Rightarrow> row_of p Assisted CostCheap MeasurePTrue f0_5 EscNone False True 5 4000
      | MemScope \<Rightarrow> row_of p Reflex CostCheap MeasureConfidence f0_6 EscNone True False 30 2000
      | ReflectCritic \<Rightarrow> row_of p Assisted CostVisible MeasureTopProb f0_5 EscSlow True False 30 12000
      | GoalMet \<Rightarrow> row_of p Assisted CostVisible MeasurePTrue f0_8 EscNone False True 8 6000
      | HandoverRoute \<Rightarrow> row_of p Assisted CostCheap MeasureConfidence f0_6 EscSlow False True 8 4000
      | ToolSelect \<Rightarrow>
          behind_fast_slow (bars MeasurePFalse f0_85 f0_95
            ((row_of p Assisted CostVisible MeasurePFalse f0_85 EscNone False True 1 2000)\<lparr>row_deadline_ms := 300\<rparr>))
      | ReflectGate \<Rightarrow>
          behind_fast_slow (bars MeasurePFalse f0_7 f0_85
            (row_of p Reflex CostCheap MeasurePFalse f0_7 EscNone True False 30 6000))
      | UntrustedFlag \<Rightarrow>
          behind_fast_slow (row_of p Reflex CostCheap MeasurePTrue f0_7 EscNone True False 30 6000)
      | Classify \<Rightarrow>
          behind_fast_slow (bars MeasureTopProb f0_6 f0_7
            ((row_of p Assisted CostCheap MeasureTopProb f0_6 EscNone False False 30 6000)
               \<lparr>row_needs_vision := VisionAny\<rparr>))
      | PlanDoneCheck \<Rightarrow>
          behind_fast_slow (bars MeasurePTrue f0_8 f1_0
            (row_of p Assisted CostVisible MeasurePTrue f0_8 EscNone False True 5 6000))
      | SteerClass \<Rightarrow>
          behind_fast_slow (bars (MeasureOption ''stop'') f0_9 f1_0
            ((row_of p Reflex CostVisible (MeasureOption ''stop'') f0_9 EscNone False True 1 2000)
               \<lparr>row_deadline_ms := 500\<rparr>))
      | UnverifiedClaim \<Rightarrow>
          behind_fast_slow (bars MeasurePFalse f0_85 f0_95
            (row_of p Assisted CostVisible MeasurePFalse f0_85 EscNone False True 3 6000))
      | RunIf \<Rightarrow> behind_fast_slow (row_of p Reflex CostVisible MeasurePTrue f0_5 EscNone True False 30 6000)
      | MailTriage \<Rightarrow>
          (row_of p Reflex CostVisible MeasureTopProb f0_6 EscNone True False 30 4000)
             \<lparr>row_experiment := Some ''mail-triage''\<rparr>
      | ClaimVerdict \<Rightarrow>
          behind_fast_slow (row_of p Verify CostVisible MeasureTopProb f0_85 EscSlow False False 60 6000)
      | ClaimCheckable \<Rightarrow>
          behind_fast_slow (row_of p Verify CostVisible MeasurePTrue f0_85 EscNone False False 30 2000)
      | BrowserCheck \<Rightarrow>
          behind_fast_slow ((row_of p Verify CostCostly (MeasureOption ''fine'') f0_8 EscUser False True 4 2000)
             \<lparr>row_needs_vision := VisionAny\<rparr>)
      | ToolRisk \<Rightarrow>
          behind_fast_slow (row_of p GateMode CostIrreversible (MeasureLevel 3) f0_8 EscNone False True 1 3000)
      | AppKind \<Rightarrow>
          behind_fast_slow (row_of p GateMode CostIrreversible (MeasureOption ''send'') f0_6 EscNone False True 1 2000))"

definition live_policy :: "purpose \<Rightarrow> policy_row" where
  "live_policy p =
     (if p = HandoverRoute
      then behind_fast_slow (bars MeasureTopProb f0_85 f0_85
             ((policy p)\<lparr>row_impact := CostVisible, row_deadline_ms := 300\<rparr>))
      else policy p)"

definition typing_policy :: "purpose \<Rightarrow> policy_row" where
  "typing_policy p =
     (policy p)\<lparr>row_typing := True, row_background := False, row_needs_fast := True,
                row_deadline_ms := 500, row_experiment := Some ''fast-slow''\<rparr>"

definition headless_policy :: "purpose \<Rightarrow> policy_row" where
  "headless_policy p =
     (if p = ToolRisk \<or> p = AppKind
      then (policy p)\<lparr>row_background := True, row_needs_fast := False, row_deadline_ms := 30000\<rparr>
      else policy p)"

datatype backend_kind = BackendLocal | BackendCloud

definition override_key :: "purpose \<Rightarrow> string" where
  "override_key p = ''decide.backend.'' @ purpose_name p"

definition resolve_backend :: "policy_row \<Rightarrow> string option \<Rightarrow> string option \<Rightarrow> backend_kind" where
  "resolve_backend row global_setting own =
     (if own = Some ''cloud'' then BackendCloud
      else if own = Some ''local'' then BackendLocal
      else if row_background row then BackendLocal
      else if global_setting = Some ''cloud'' then BackendCloud
      else BackendLocal)"

section \<open>Lemmas\<close>

lemma all_purposes [simp]: "p \<in> set ALL_PURPOSES"
  by (cases p) (simp_all add: ALL_PURPOSES_def)

lemma row_simps [simp]:
  "row_purpose (row_of p a b c d e f g h i) = p"
  "row_background (row_of p a b c d e f g h i) = f"
  "row_background (bars m x y r) = row_background r"
  "row_background (behind_fast_slow r) = row_background r"
  "row_act_at (behind_fast_slow r) = row_act_at r"
  "row_act_at (bars m x y r) = \<lparr>th_measure = m, th_calibrated = x, th_uncalibrated = y\<rparr>"
  "row_act_at (row_of p a b c d e f g h i) = \<lparr>th_measure = c, th_calibrated = d, th_uncalibrated = d\<rparr>"
  "row_purpose (bars m x y r) = row_purpose r"
  "row_purpose (behind_fast_slow r) = row_purpose r"
  by (simp_all add: row_of_def bars_def behind_fast_slow_def)

lemma purpose_name_inj: "purpose_name p = purpose_name q \<Longrightarrow> p = q"
proof -
  have "distinct (map purpose_name ALL_PURPOSES)" by (simp add: ALL_PURPOSES_def purpose_name_def)
  then have "inj_on purpose_name (set ALL_PURPOSES)" by (simp add: distinct_map)
  then show "purpose_name p = purpose_name q \<Longrightarrow> p = q" by (auto dest: inj_onD)
qed

section \<open>Properties\<close>

text \<open>Having no calibration can only make a decision harder to act on: in every row, and in its
  variants for a streaming turn, the composer and an unattended run, the uncalibrated bar is at
  least the calibrated one and at most one, and the row is the row of its own purpose.\<close>

theorem uncalibrated_bar_never_lower:
  "r = policy p \<or> r = live_policy p \<or> r = typing_policy p \<or> r = headless_policy p
     \<Longrightarrow> threshold_at (row_act_at r) True \<le> threshold_at (row_act_at r) False
         \<and> threshold_at (row_act_at r) False \<le> f1_0 \<and> row_purpose r = p"
proof -
  have "threshold_at (row_act_at (policy p)) True \<le> threshold_at (row_act_at (policy p)) False
      \<and> threshold_at (row_act_at (policy p)) False \<le> f1_0 \<and> row_purpose (policy p) = p"
    by (cases p) (simp_all add: policy_def threshold_at_def)
  moreover have "row_act_at (typing_policy p) = row_act_at (policy p)"
    "row_act_at (headless_policy p) = row_act_at (policy p)"
    "row_purpose (typing_policy p) = row_purpose (policy p)"
    "row_purpose (headless_policy p) = row_purpose (policy p)"
    by (simp_all add: typing_policy_def headless_policy_def)
  moreover have "threshold_at (row_act_at (live_policy p)) True \<le> threshold_at (row_act_at (live_policy p)) False
      \<and> threshold_at (row_act_at (live_policy p)) False \<le> f1_0 \<and> row_purpose (live_policy p) = p"
    using calculation(1) by (simp add: live_policy_def threshold_at_def policy_def)
  ultimately show "r = policy p \<or> r = live_policy p \<or> r = typing_policy p \<or> r = headless_policy p
     \<Longrightarrow> threshold_at (row_act_at r) True \<le> threshold_at (row_act_at r) False
         \<and> threshold_at (row_act_at r) False \<le> f1_0 \<and> row_purpose r = p"
    by auto
qed

theorem uncalibrated_bar_never_lower_witness:
  "th_calibrated (row_act_at (policy ToolSelect)) \<le> th_uncalibrated (row_act_at (policy ToolSelect))"
  using uncalibrated_bar_never_lower[of "policy ToolSelect" ToolSelect] by (simp add: threshold_at_def)

text \<open>The global backend setting never sends a background decision out: a purpose whose row is a
  background row is asked in the cloud only when that very purpose's own override says cloud, the
  overrides of two purposes are two different settings, and in an unattended run the two gate
  purposes are background rows too.\<close>

theorem background_stays_local:
  "(row_background (policy p) \<longrightarrow> (resolve_backend (policy p) g own = BackendCloud \<longleftrightarrow> own = Some ''cloud''))
   \<and> (override_key p = override_key q \<longleftrightarrow> p = q)
   \<and> row_background (headless_policy ToolRisk) \<and> row_background (headless_policy AppKind)"
  using purpose_name_inj[of p q]
  by (auto simp: resolve_backend_def override_key_def headless_policy_def)

theorem background_stays_local_witness:
  "resolve_backend (policy MemScope) (Some ''cloud'') None = BackendLocal"
proof -
  have "row_background (policy MemScope)" by (simp add: policy_def)
  then have "resolve_backend (policy MemScope) (Some ''cloud'') None \<noteq> BackendCloud"
    using background_stays_local[of MemScope "Some ''cloud''" None MemScope] by simp
  then show ?thesis by (cases "resolve_backend (policy MemScope) (Some ''cloud'') None") simp_all
qed

end
