(* ===== verification/Sliding_Window.thy ===== *)
theory Sliding_Window imports Rust_Prelude begin

text \<open>
  The contract of a rolling limit: a deque of time stamps whose front is dropped while it has
  aged out, and to which the present moment is appended when something is let through.  The
  budgets of background decisions and the restarts of the local engine are both kept this way;
  the lemmas are proved once here and each component interprets the locale on its own test for
  an entry that has aged out.
\<close>

lemma length_filter_mono:
  "(\<And>x. x \<in> set xs \<Longrightarrow> P x \<Longrightarrow> Q x) \<Longrightarrow> length (filter P xs) \<le> length (filter Q xs)"
  by (induction xs) (auto intro: le_SucI)

locale sliding_window =
  fixes aged :: "int \<Rightarrow> int \<Rightarrow> bool"
  assumes aged_later: "aged n t \<Longrightarrow> n \<le> n' \<Longrightarrow> aged n' t"
    and aged_older: "aged n t \<Longrightarrow> t' \<le> t \<Longrightarrow> aged n t'"
    and now_is_young: "\<not> aged n n"
begin

text \<open>How many entries of a log lie in the window that ends at \<open>T\<close>.\<close>

definition window_count :: "int \<Rightarrow> int list \<Rightarrow> nat" where
  "window_count T ts = length (filter (\<lambda>t. \<not> aged T t \<and> t \<le> T) ts)"

text \<open>The deque holds exactly the entries of the log that have not aged out at \<open>m\<close>.\<close>

definition window_queue :: "int list \<Rightarrow> int list \<Rightarrow> int \<Rightarrow> bool" where
  "window_queue ts q m \<longleftrightarrow> sorted ts \<and> (\<forall>t \<in> set ts. t \<le> m) \<and> q = filter (\<lambda>t. \<not> aged m t) ts"

lemma window_queue_Nil: "window_queue [] [] m"
  by (simp add: window_queue_def)

lemma window_count_Nil: "window_count T [] = 0"
  by (simp add: window_count_def)

lemma drop_is_filter: "sorted q \<Longrightarrow> dropWhile (aged n) q = filter (\<lambda>t. \<not> aged n t) q"
proof (induction q)
  case (Cons t q)
  show ?case
  proof (cases "aged n t")
    case False
    then have "\<forall>x \<in> set (t # q). \<not> aged n x" using Cons.prems aged_older by auto
    then show ?thesis using False by (simp add: filter_id_conv)
  qed (use Cons in simp)
qed simp

lemma window_queue_expire:
  assumes "window_queue ts q m" and "m \<le> n"
  shows "window_queue ts (dropWhile (aged n) q) n"
proof -
  have q: "q = filter (\<lambda>t. \<not> aged m t) ts" "sorted ts" "\<forall>t \<in> set ts. t \<le> m"
    using assms(1) by (simp_all add: window_queue_def)
  then have "dropWhile (aged n) q = filter (\<lambda>t. \<not> aged n t) q"
    by (intro drop_is_filter) (simp add: sorted_filter[of id, simplified])
  also have "\<dots> = filter (\<lambda>t. \<not> aged n t) ts"
    using aged_later[OF _ assms(2)] by (auto simp: q(1) intro: filter_cong)
  finally show ?thesis using q assms(2) by (auto simp: window_queue_def)
qed

lemma window_queue_push: "window_queue ts q n \<Longrightarrow> window_queue (ts @ [n]) (q @ [n]) n"
  by (auto simp: window_queue_def sorted_append now_is_young)

lemma window_count_push:
  assumes "window_queue ts q n" and "length q < K" and "\<And>T. window_count T ts \<le> K"
  shows "window_count T (ts @ [n]) \<le> K"
proof (cases "n \<le> T")
  case False
  then show ?thesis using assms(3)[of T] by (simp add: window_count_def)
next
  case True
  have "window_count T ts \<le> length q"
    using assms(1) aged_later[OF _ True]
    unfolding window_queue_def window_count_def by (auto intro!: length_filter_mono)
  then show ?thesis using assms(2) by (simp add: window_count_def)
qed

end

end
