(* ===== verification/Decide_Control.thy ===== *)
theory Decide_Control imports Sliding_Window Decide_Policy "HOL-Library.AList" begin

text \<open>
  The budgets of the quick decisions (\<open>src-tauri/src/agent/decide/control.rs\<close>): how many a turn,
  a check of an answer and an hour of background work may ask, what is done with an answer below
  its bar, and the counters behind it.

  The hash maps are association lists, the deques lists with the oldest entry first, and times
  are epoch milliseconds.  Whether an answer reaches its row's bar is a comparison of floats: an
  argument.
\<close>

section \<open>Limits\<close>

definition TURN_DECISIONS :: nat where "TURN_DECISIONS = 20"
definition TURN_ESCALATIONS :: nat where "TURN_ESCALATIONS = 3"
definition BACKGROUND_PER_HOUR :: nat where "BACKGROUND_PER_HOUR = 200"
definition UNTRUSTED_PER_HOUR :: nat where "UNTRUSTED_PER_HOUR = BACKGROUND_PER_HOUR div 2"
definition MAIL_PER_HOUR :: nat where "MAIL_PER_HOUR = 60"
definition CLASSIFY_PER_TURN :: nat where "CLASSIFY_PER_TURN = 1000"
definition VERIFY_CLAIMS :: nat where "VERIFY_CLAIMS = 25"
definition CHECK_SENTENCES :: nat where "CHECK_SENTENCES = 40"
definition VERIFY_REVIEWS :: nat where "VERIFY_REVIEWS = 4"
definition HOUR_MS :: int where "HOUR_MS = 3600000"
definition TURNS_KEPT :: nat where "TURNS_KEPT = 64"

lemmas budget_defs = TURN_DECISIONS_def TURN_ESCALATIONS_def BACKGROUND_PER_HOUR_def UNTRUSTED_PER_HOUR_def
  MAIL_PER_HOUR_def CLASSIFY_PER_TURN_def VERIFY_CLAIMS_def CHECK_SENTENCES_def VERIFY_REVIEWS_def
  TURNS_KEPT_def

datatype limit =
    LimitDecisions | LimitEscalations | LimitRepeat | LimitBackground | LimitShare | LimitMailShare
  | LimitClassify | LimitClaims | LimitSentences | LimitReviews

definition limit_code :: "limit \<Rightarrow> string" where
  "limit_code l =
     (case l of LimitDecisions \<Rightarrow> ''decisions'' | LimitEscalations \<Rightarrow> ''escalations'' | LimitRepeat \<Rightarrow> ''repeat''
      | LimitBackground \<Rightarrow> ''background'' | LimitShare \<Rightarrow> ''share'' | LimitMailShare \<Rightarrow> ''mail-share''
      | LimitClassify \<Rightarrow> ''classify'' | LimitClaims \<Rightarrow> ''claims'' | LimitSentences \<Rightarrow> ''sentences''
      | LimitReviews \<Rightarrow> ''reviews'')"

datatype decide_gate = GateOpen | GateClosed

datatype act = ActGo | ActBelow | ActBlocked

datatype action = Acted | TookDefault | Escalated escalation | OverBudget limit | ActionBlocked

definition escalation_code :: "escalation \<Rightarrow> string" where
  "escalation_code e = (case e of EscNone \<Rightarrow> ''none'' | EscEvidence \<Rightarrow> ''evidence'' | EscSlow \<Rightarrow> ''slow''
                          | EscUser \<Rightarrow> ''user'')"

definition action_code :: "action \<Rightarrow> string" where
  "action_code a =
     (case a of Acted \<Rightarrow> ''acted'' | TookDefault \<Rightarrow> ''default''
      | Escalated e \<Rightarrow> ''escalated:'' @ escalation_code e
      | OverBudget l \<Rightarrow> ''budget:'' @ limit_code l
      | ActionBlocked \<Rightarrow> ''blocked'')"

text \<open>\<open>reaches\<close> compares the answer with the row's bar.\<close>

definition evaluate :: "(threshold \<Rightarrow> 'a \<Rightarrow> bool \<Rightarrow> bool) \<Rightarrow> purpose \<Rightarrow> 'a \<Rightarrow> bool \<Rightarrow> decide_gate \<Rightarrow> act" where
  "evaluate reaches p ans calibrated g =
     (if g = GateClosed then ActBlocked
      else if reaches (row_act_at (policy p)) ans calibrated then ActGo
      else ActBelow)"

section \<open>The counters\<close>

record turn =
  turn_decisions :: nat
  turn_escalations :: nat
  turn_classified :: nat
  turn_seen :: "(purpose \<times> string) list"

definition default_turn :: turn where
  "default_turn = \<lparr>turn_decisions = 0, turn_escalations = 0, turn_classified = 0, turn_seen = []\<rparr>"

record check =
  check_verified :: nat
  check_reviewed :: nat
  check_sentences :: nat

definition default_check :: check where
  "default_check = \<lparr>check_verified = 0, check_reviewed = 0, check_sentences = 0\<rparr>"

record controller =
  ctl_turns :: "(string \<times> turn) list"
  ctl_order :: "string list"
  ctl_checks :: "(string \<times> check) list"
  ctl_background :: "int list"
  ctl_untrusted :: "int list"
  ctl_mail :: "int list"

definition default_controller :: controller where
  "default_controller = \<lparr>ctl_turns = [], ctl_order = [], ctl_checks = [], ctl_background = [],
                         ctl_untrusted = [], ctl_mail = []\<rparr>"

fun let_go_oldest :: "(string \<times> turn) list \<Rightarrow> string list \<Rightarrow> (string \<times> turn) list \<times> string list" where
  "let_go_oldest turns [] = (turns, [])"
| "let_go_oldest turns (old # order) =
     (if TURNS_KEPT < length (old # order) then let_go_oldest (AList.delete old turns) order
      else (turns, old # order))"

definition begin_turn :: "controller \<Rightarrow> string \<Rightarrow> controller" where
  "begin_turn c k =
     (let (turns, order) = let_go_oldest (AList.update k default_turn (ctl_turns c))
                             (filter (\<lambda>j. j \<noteq> k) (ctl_order c) @ [k])
      in c\<lparr>ctl_turns := turns, ctl_order := order\<rparr>)"

definition begin_check :: "controller \<Rightarrow> string \<Rightarrow> controller" where
  "begin_check c k =
     (let kept = (if TURNS_KEPT \<le> length (ctl_checks c) \<and> map_of (ctl_checks c) k = None then []
                  else ctl_checks c)
      in c\<lparr>ctl_checks := AList.update k default_check kept\<rparr>)"

definition older_than_hour :: "int \<Rightarrow> int \<Rightarrow> bool" where
  "older_than_hour now t \<longleftrightarrow> HOUR_MS \<le> now - t"

definition expire :: "int \<Rightarrow> controller \<Rightarrow> controller" where
  "expire now c =
     c\<lparr>ctl_background := dropWhile (older_than_hour now) (ctl_background c),
       ctl_untrusted := dropWhile (older_than_hour now) (ctl_untrusted c),
       ctl_mail := dropWhile (older_than_hour now) (ctl_mail c)\<rparr>"

definition admit_background :: "controller \<Rightarrow> purpose \<Rightarrow> int \<Rightarrow> controller \<times> (limit + unit)" where
  "admit_background c0 p now =
     (let c = expire now c0; flag = (p = UntrustedFlag); mail = (p = MailTriage) in
      if flag \<and> UNTRUSTED_PER_HOUR \<le> length (ctl_untrusted c) then (c, Inl LimitShare)
      else if mail \<and> MAIL_PER_HOUR \<le> length (ctl_mail c) then (c, Inl LimitMailShare)
      else if BACKGROUND_PER_HOUR \<le> length (ctl_background c) then (c, Inl LimitBackground)
      else (c\<lparr>ctl_background := ctl_background c @ [now],
              ctl_untrusted := (if flag then ctl_untrusted c @ [now] else ctl_untrusted c),
              ctl_mail := (if mail then ctl_mail c @ [now] else ctl_mail c)\<rparr>, Inr ()))"

definition check_of :: "controller \<Rightarrow> string \<Rightarrow> check" where
  "check_of c k = (case map_of (ctl_checks c) k of Some x \<Rightarrow> x | None \<Rightarrow> default_check)"

definition put_check :: "controller \<Rightarrow> string \<Rightarrow> check \<Rightarrow> controller" where
  "put_check c k x = c\<lparr>ctl_checks := AList.update k x (ctl_checks c)\<rparr>"

definition turn_of :: "controller \<Rightarrow> string \<Rightarrow> turn" where
  "turn_of c k = (case map_of (ctl_turns c) k of Some t \<Rightarrow> t | None \<Rightarrow> default_turn)"

definition put_turn :: "controller \<Rightarrow> string \<Rightarrow> turn \<Rightarrow> controller" where
  "put_turn c k t = c\<lparr>ctl_turns := AList.update k t (ctl_turns c)\<rparr>"

definition remember_turn :: "controller \<Rightarrow> string \<Rightarrow> controller" where
  "remember_turn c k =
     (if map_of (ctl_turns c) k \<noteq> None then c
      else (let (turns, order) = let_go_oldest (ctl_turns c) (ctl_order c @ [k])
            in c\<lparr>ctl_turns := turns, ctl_order := order\<rparr>))"

text \<open>\<open>entry(key).or_default()\<close> leaves the entry in the map also when the limit refuses.\<close>

definition admit_in_turn :: "controller \<Rightarrow> string \<Rightarrow> purpose \<Rightarrow> string \<Rightarrow> controller \<times> (limit + unit)" where
  "admit_in_turn c0 k p state_hash =
     (let c = remember_turn c0 k; t = turn_of c k in
      if p = Classify then
        (if CLASSIFY_PER_TURN \<le> turn_classified t then (put_turn c k t, Inl LimitClassify)
         else (put_turn c k (t\<lparr>turn_classified := turn_classified t + 1\<rparr>), Inr ()))
      else if TURN_DECISIONS \<le> turn_decisions t then (put_turn c k t, Inl LimitDecisions)
      else if (p, state_hash) \<in> set (turn_seen t) then (put_turn c k t, Inl LimitRepeat)
      else (put_turn c k (t\<lparr>turn_seen := (p, state_hash) # turn_seen t,
                            turn_decisions := turn_decisions t + 1\<rparr>), Inr ()))"

definition admit_decision ::
  "controller \<Rightarrow> string option \<Rightarrow> purpose \<Rightarrow> string \<Rightarrow> bool \<Rightarrow> int \<Rightarrow> controller \<times> (limit + unit)" where
  "admit_decision c key p state_hash background now =
     (if background then admit_background c p now
      else case key of
        None \<Rightarrow> (c, Inr ())
      | Some k \<Rightarrow>
          if p = ClaimCheckable then
            (let x = check_of c k in
             if CHECK_SENTENCES \<le> check_sentences x then (put_check c k x, Inl LimitSentences)
             else (put_check c k (x\<lparr>check_sentences := check_sentences x + 1\<rparr>), Inr ()))
          else if p = ClaimVerdict then
            (let x = check_of c k in
             if VERIFY_CLAIMS \<le> check_verified x then (put_check c k x, Inl LimitClaims)
             else (put_check c k (x\<lparr>check_verified := check_verified x + 1\<rparr>), Inr ()))
          else admit_in_turn c k p state_hash)"

definition escalate :: "controller \<Rightarrow> string option \<Rightarrow> controller \<times> (limit + unit)" where
  "escalate c key =
     (case key of
        None \<Rightarrow> (c, Inr ())
      | Some k \<Rightarrow>
          (let t = turn_of c k in
           if TURN_ESCALATIONS \<le> turn_escalations t then (put_turn c k t, Inl LimitEscalations)
           else (put_turn c k (t\<lparr>turn_escalations := turn_escalations t + 1\<rparr>), Inr ())))"

definition review :: "controller \<Rightarrow> string option \<Rightarrow> controller \<times> (limit + unit)" where
  "review c key =
     (case key of
        None \<Rightarrow> (c, Inr ())
      | Some k \<Rightarrow>
          (let x = check_of c k in
           if VERIFY_REVIEWS \<le> check_reviewed x then (put_check c k x, Inl LimitReviews)
           else (put_check c k (x\<lparr>check_reviewed := check_reviewed x + 1\<rparr>), Inr ())))"

definition after_with :: "controller \<Rightarrow> purpose \<Rightarrow> act \<Rightarrow> string option \<Rightarrow> controller \<times> action" where
  "after_with c p a key =
     (case a of
        ActGo \<Rightarrow> (c, Acted)
      | ActBlocked \<Rightarrow> (c, ActionBlocked)
      | ActBelow \<Rightarrow>
          if p = ClaimVerdict then
            (case review c key of
               (c', Inr _) \<Rightarrow> (c', Escalated EscSlow) | (c', Inl l) \<Rightarrow> (c', OverBudget l))
          else
            (case row_escalate (policy p) of
               EscNone \<Rightarrow> (c, TookDefault)
             | e \<Rightarrow> (case escalate c key of
                       (c', Inr _) \<Rightarrow> (c', Escalated e) | (c', Inl l) \<Rightarrow> (c', OverBudget l))))"

section \<open>An hour's budget\<close>

text \<open>
  \<open>hour_count\<close> counts the entries of the hour that ends at \<open>T\<close>; the three deques are rolling
  limits over the test \<open>older_than_hour\<close>.
\<close>

interpretation hour: sliding_window older_than_hour
  by unfold_locales (auto simp: older_than_hour_def HOUR_MS_def)

definition hour_count :: "int \<Rightarrow> int list \<Rightarrow> nat" where
  "hour_count T ts = length (filter (\<lambda>t. T - HOUR_MS < t \<and> t \<le> T) ts)"

lemma hour_count_window: "hour_count T ts = hour.window_count T ts"
  unfolding hour_count_def hour.window_count_def
  by (intro arg_cong[of _ _ length] filter_cong) (auto simp: older_than_hour_def)

abbreviation hour_queue :: "int list \<Rightarrow> int list \<Rightarrow> int \<Rightarrow> bool" where
  "hour_queue \<equiv> hour.window_queue"

lemmas hour_queue_expire = hour.window_queue_expire
lemmas hour_queue_push = hour.window_queue_push
lemmas hour_count_push = hour.window_count_push[folded hour_count_window]

definition log_times :: "(purpose \<times> int) list \<Rightarrow> int list" where
  "log_times A = map snd A"

definition of_purpose :: "purpose \<Rightarrow> (purpose \<times> int) list \<Rightarrow> (purpose \<times> int) list" where
  "of_purpose p A = filter (\<lambda>(q, _). q = p) A"

definition budget_ok :: "(purpose \<times> int) list \<Rightarrow> controller \<Rightarrow> int \<Rightarrow> bool" where
  "budget_ok A c m \<longleftrightarrow>
     hour_queue (log_times A) (ctl_background c) m
   \<and> hour_queue (log_times (of_purpose UntrustedFlag A)) (ctl_untrusted c) m
   \<and> hour_queue (log_times (of_purpose MailTriage A)) (ctl_mail c) m
   \<and> (\<forall>T. hour_count T (log_times A) \<le> BACKGROUND_PER_HOUR)
   \<and> (\<forall>T. hour_count T (log_times (of_purpose UntrustedFlag A)) \<le> UNTRUSTED_PER_HOUR)
   \<and> (\<forall>T. hour_count T (log_times (of_purpose MailTriage A)) \<le> MAIL_PER_HOUR)"

lemma log_times_snoc [simp]: "log_times (A @ [(p, n)]) = log_times A @ [n]"
  by (simp add: log_times_def)

lemma of_purpose_snoc [simp]:
  "of_purpose p (A @ [(q, n)]) = (if q = p then of_purpose p A @ [(q, n)] else of_purpose p A)"
  by (simp add: of_purpose_def)

lemma budget_expire: "budget_ok A c m \<Longrightarrow> m \<le> n \<Longrightarrow> budget_ok A (expire n c) n"
  by (auto simp: budget_ok_def expire_def intro: hour_queue_expire)

lemma budget_push:
  assumes "budget_ok A c n" and "length (ctl_background c) < BACKGROUND_PER_HOUR"
    and "p = UntrustedFlag \<Longrightarrow> length (ctl_untrusted c) < UNTRUSTED_PER_HOUR"
    and "p = MailTriage \<Longrightarrow> length (ctl_mail c) < MAIL_PER_HOUR"
  shows "budget_ok (A @ [(p, n)])
     (c\<lparr>ctl_background := ctl_background c @ [n],
        ctl_untrusted := (if p = UntrustedFlag then ctl_untrusted c @ [n] else ctl_untrusted c),
        ctl_mail := (if p = MailTriage then ctl_mail c @ [n] else ctl_mail c)\<rparr>) n"
  using assms by (auto simp: budget_ok_def intro: hour_queue_push hour_count_push)

lemma budget_admit:
  assumes "budget_ok A c m" and "m \<le> n"
  shows "(case admit_background c p n of
            (c', Inr _) \<Rightarrow> budget_ok (A @ [(p, n)]) c' n
          | (c', Inl _) \<Rightarrow> budget_ok A c' n)"
  using budget_expire[OF assms] budget_push[OF budget_expire[OF assms], of p]
  by (auto simp: admit_background_def Let_def)

section \<open>Histories\<close>

datatype ctl_event =
    BeginTurn string
  | BeginCheck string
  | AskDecision "string option" purpose string
  | AskBackground purpose int
  | Escalate "string option"
  | Review "string option"

fun ctl_step :: "controller \<Rightarrow> ctl_event \<Rightarrow> controller" where
  "ctl_step c (BeginTurn k) = begin_turn c k"
| "ctl_step c (BeginCheck k) = begin_check c k"
| "ctl_step c (AskDecision key p h) = fst (admit_decision c key p h False 0)"
| "ctl_step c (AskBackground p now) = fst (admit_decision c None p [] True now)"
| "ctl_step c (Escalate key) = fst (escalate c key)"
| "ctl_step c (Review key) = fst (review c key)"

text \<open>The background decisions a history admits, in order.\<close>

fun background_log :: "controller \<Rightarrow> ctl_event list \<Rightarrow> (purpose \<times> int) list" where
  "background_log c [] = []"
| "background_log c (e # es) =
     (case e of
        AskBackground p now \<Rightarrow>
          (case admit_decision c None p [] True now of
             (c', Inr _) \<Rightarrow> (p, now) # background_log c' es
           | (c', Inl _) \<Rightarrow> background_log c' es)
      | _ \<Rightarrow> background_log (ctl_step c e) es)"

fun clock_of :: "ctl_event list \<Rightarrow> int list" where
  "clock_of [] = []"
| "clock_of (AskBackground p now # es) = now # clock_of es"
| "clock_of (_ # es) = clock_of es"

lemma put_frames [simp]:
  "ctl_background (put_check c k x) = ctl_background c" "ctl_untrusted (put_check c k x) = ctl_untrusted c"
  "ctl_mail (put_check c k x) = ctl_mail c" "ctl_turns (put_check c k x) = ctl_turns c"
  "ctl_order (put_check c k x) = ctl_order c"
  "ctl_background (put_turn c k t) = ctl_background c" "ctl_untrusted (put_turn c k t) = ctl_untrusted c"
  "ctl_mail (put_turn c k t) = ctl_mail c" "ctl_checks (put_turn c k t) = ctl_checks c"
  "ctl_order (put_turn c k t) = ctl_order c"
  by (simp_all add: put_check_def put_turn_def)

lemma remember_frames [simp]:
  "ctl_background (remember_turn c k) = ctl_background c" "ctl_untrusted (remember_turn c k) = ctl_untrusted c"
  "ctl_mail (remember_turn c k) = ctl_mail c" "ctl_checks (remember_turn c k) = ctl_checks c"
  by (simp_all add: remember_turn_def Let_def split_beta)

text \<open>Nothing but a background decision touches the hour's deques.\<close>

lemma foreground_keeps_queues:
  assumes "\<And>p now. e \<noteq> AskBackground p now"
  shows "ctl_background (ctl_step c e) = ctl_background c \<and> ctl_untrusted (ctl_step c e) = ctl_untrusted c
     \<and> ctl_mail (ctl_step c e) = ctl_mail c"
proof (cases e)
  case (BeginTurn k)
  then show ?thesis by (simp add: begin_turn_def Let_def split_beta)
next
  case (BeginCheck k)
  then show ?thesis by (simp add: begin_check_def)
next
  case (AskDecision key p h)
  then show ?thesis
    by (cases key) (simp_all add: admit_decision_def admit_in_turn_def Let_def)
next
  case (AskBackground p now)
  with assms show ?thesis by blast
next
  case (Escalate key)
  then show ?thesis by (cases key) (simp_all add: escalate_def Let_def)
next
  case (Review key)
  then show ?thesis by (cases key) (simp_all add: review_def Let_def)
qed

lemma budget_foreground:
  "budget_ok A c m \<Longrightarrow> (\<And>p now. e \<noteq> AskBackground p now) \<Longrightarrow> budget_ok A (ctl_step c e) m"
  using foreground_keeps_queues[of e c] by (simp add: budget_ok_def)

lemma budget_log:
  "budget_ok A c m \<Longrightarrow> sorted (m # clock_of es) \<Longrightarrow> \<exists>c' m'. budget_ok (A @ background_log c es) c' m'"
proof (induction es arbitrary: A c m)
  case Nil
  then show ?case by auto
next
  case (Cons e es)
  show ?case
  proof (cases "\<exists>p now. e = AskBackground p now")
    case True
    then obtain p now where e: "e = AskBackground p now" by blast
    have ord: "m \<le> now" "sorted (now # clock_of es)" using Cons.prems(2) by (simp_all add: e)
    obtain c' r where q: "admit_background c p now = (c', r)" by fastforce
    show ?thesis
    proof (cases r)
      case (Inl l)
      then have "budget_ok A c' now" using budget_admit[OF Cons.prems(1) ord(1), of p] q by simp
      from Cons.IH[OF this ord(2)] show ?thesis using Inl q by (simp add: e admit_decision_def)
    next
      case (Inr u)
      then have "budget_ok (A @ [(p, now)]) c' now" using budget_admit[OF Cons.prems(1) ord(1), of p] q by simp
      from Cons.IH[OF this ord(2)] show ?thesis using Inr q by (simp add: e admit_decision_def)
    qed
  next
    case False
    then have "budget_ok A (ctl_step c e) m" using budget_foreground[OF Cons.prems(1), of e] by blast
    moreover have "sorted (m # clock_of es)" using Cons.prems(2) False by (cases e) auto
    moreover have "background_log c (e # es) = background_log (ctl_step c e) es"
      using False by (cases e) auto
    ultimately show ?thesis using Cons.IH by simp
  qed
qed

lemma budget_start: "budget_ok [] default_controller m"
  by (simp add: budget_ok_def hour.window_queue_Nil hour_count_def log_times_def of_purpose_def
      default_controller_def)

section \<open>A turn's and a check's budgets\<close>

definition turn_ok :: "turn \<Rightarrow> bool" where
  "turn_ok t \<longleftrightarrow> turn_decisions t \<le> TURN_DECISIONS \<and> turn_escalations t \<le> TURN_ESCALATIONS
     \<and> turn_classified t \<le> CLASSIFY_PER_TURN \<and> distinct (turn_seen t)
     \<and> length (turn_seen t) = turn_decisions t"

definition check_ok :: "check \<Rightarrow> bool" where
  "check_ok x \<longleftrightarrow> check_verified x \<le> VERIFY_CLAIMS \<and> check_reviewed x \<le> VERIFY_REVIEWS
     \<and> check_sentences x \<le> CHECK_SENTENCES"

definition ctl_inv :: "controller \<Rightarrow> bool" where
  "ctl_inv c \<longleftrightarrow> (\<forall>(k, t) \<in> set (ctl_turns c). turn_ok t) \<and> (\<forall>(k, x) \<in> set (ctl_checks c). check_ok x)"

lemma set_alist_update: "x \<in> set (AList.update k v al) \<Longrightarrow> x = (k, v) \<or> x \<in> set al"
  by (induction al) (auto split: if_splits)

lemma set_let_go: "x \<in> set (fst (let_go_oldest turns order)) \<Longrightarrow> x \<in> set turns"
  by (induction turns order rule: let_go_oldest.induct)
    (auto simp: AList.delete_eq split: if_splits)

lemma turn_ok_default [simp]: "turn_ok default_turn"
  by (simp add: turn_ok_def default_turn_def)

lemma check_ok_default [simp]: "check_ok default_check"
  by (simp add: check_ok_def default_check_def)

lemma ctl_inv_turn: "ctl_inv c \<Longrightarrow> turn_ok (turn_of c k)"
  by (auto simp: ctl_inv_def turn_of_def split: option.split dest: map_of_SomeD)

lemma ctl_inv_check: "ctl_inv c \<Longrightarrow> check_ok (check_of c k)"
  by (auto simp: ctl_inv_def check_of_def split: option.split dest: map_of_SomeD)

lemma ctl_inv_put_turn: "ctl_inv c \<Longrightarrow> turn_ok t \<Longrightarrow> ctl_inv (put_turn c k t)"
  by (auto simp: ctl_inv_def put_turn_def dest!: set_alist_update)

lemma ctl_inv_put_check: "ctl_inv c \<Longrightarrow> check_ok x \<Longrightarrow> ctl_inv (put_check c k x)"
  by (auto simp: ctl_inv_def put_check_def dest!: set_alist_update)

lemma ctl_inv_remember: "ctl_inv c \<Longrightarrow> ctl_inv (remember_turn c k)"
  by (auto simp: ctl_inv_def remember_turn_def Let_def split_beta dest!: set_let_go)

lemma ctl_inv_begin_turn [keeps_inv]: "ctl_inv c \<Longrightarrow> ctl_inv (begin_turn c k)"
  by (auto simp: ctl_inv_def begin_turn_def Let_def split_beta dest!: set_let_go set_alist_update)

lemma ctl_inv_begin_check [keeps_inv]: "ctl_inv c \<Longrightarrow> ctl_inv (begin_check c k)"
  by (auto simp: ctl_inv_def begin_check_def dest!: set_alist_update split: if_splits)

lemma ctl_inv_escalate [keeps_inv]: "ctl_inv c \<Longrightarrow> ctl_inv (fst (escalate c key))"
  using ctl_inv_turn[of c]
  by (auto simp: escalate_def Let_def turn_ok_def intro!: ctl_inv_put_turn split: option.split)

lemma ctl_inv_review [keeps_inv]: "ctl_inv c \<Longrightarrow> ctl_inv (fst (review c key))"
  using ctl_inv_check[of c]
  by (auto simp: review_def Let_def check_ok_def intro!: ctl_inv_put_check split: option.split)

lemma ctl_inv_in_turn: "ctl_inv c \<Longrightarrow> ctl_inv (fst (admit_in_turn c k p h))"
  using ctl_inv_turn[OF ctl_inv_remember, of c k k] ctl_inv_remember[of c k]
  by (auto simp: admit_in_turn_def Let_def turn_ok_def intro!: ctl_inv_put_turn)

lemma ctl_inv_background: "ctl_inv c \<Longrightarrow> ctl_inv (fst (admit_background c p now))"
  by (auto simp: ctl_inv_def admit_background_def expire_def Let_def)

lemma ctl_inv_admit [keeps_inv]: "ctl_inv c \<Longrightarrow> ctl_inv (fst (admit_decision c key p h bg now))"
proof (cases bg)
  case True
  then show "ctl_inv c \<Longrightarrow> ?thesis" by (simp add: admit_decision_def ctl_inv_background)
next
  case False
  show "ctl_inv c \<Longrightarrow> ?thesis"
  proof (cases key)
    case None
    then show "ctl_inv c \<Longrightarrow> ?thesis" using False by (simp add: admit_decision_def)
  next
    case (Some k)
    then show "ctl_inv c \<Longrightarrow> ?thesis"
      using False ctl_inv_check[of c k]
      by (auto simp: admit_decision_def Let_def check_ok_def ctl_inv_in_turn intro!: ctl_inv_put_check)
  qed
qed

lemma ctl_inv_step [keeps_inv]: "ctl_inv c \<Longrightarrow> ctl_inv (ctl_step c e)"
  by (cases e) (simp_all add: keeps_inv)

lemma ctl_inv_start: "ctl_inv default_controller"
  by (simp add: ctl_inv_def default_controller_def)

lemma alist_update_new: "k \<notin> fst ` set al \<Longrightarrow> AList.update k v al = al @ [(k, v)]"
  by (induction al) auto

lemma escalate_unknown:
  assumes "k \<notin> fst ` set (ctl_turns c)"
  shows "ctl_turns (fst (escalate c (Some k))) = ctl_turns c @ [(k, default_turn\<lparr>turn_escalations := 1\<rparr>)]"
    and "ctl_order (fst (escalate c (Some k))) = ctl_order c"
proof -
  have "turn_of c k = default_turn"
    using assms by (simp add: turn_of_def map_of_eq_None_iff[THEN iffD2])
  then have "fst (escalate c (Some k)) = put_turn c k (default_turn\<lparr>turn_escalations := 1\<rparr>)"
    by (simp add: escalate_def TURN_ESCALATIONS_def default_turn_def)
  then show "ctl_turns (fst (escalate c (Some k))) = ctl_turns c @ [(k, default_turn\<lparr>turn_escalations := 1\<rparr>)]"
    and "ctl_order (fst (escalate c (Some k))) = ctl_order c"
    by (simp_all add: put_turn_def alist_update_new[OF assms])
qed

lemma escalations_pile_up:
  "distinct ks \<Longrightarrow> set ks \<inter> fst ` set (ctl_turns c) = {} \<Longrightarrow>
   (let c' = foldl ctl_step c (map (\<lambda>k. Escalate (Some k)) ks)
    in length (ctl_turns c') = length (ctl_turns c) + length ks \<and> ctl_order c' = ctl_order c)"
proof (induction ks arbitrary: c)
  case (Cons k ks)
  then have "k \<notin> fst ` set (ctl_turns c)" by auto
  note esc = escalate_unknown[OF this]
  have "set ks \<inter> fst ` set (ctl_turns (fst (escalate c (Some k)))) = {}"
    using Cons.prems by (auto simp: esc(1))
  from Cons.IH[OF _ this] Cons.prems(1) show ?case by (simp add: esc Let_def)
qed simp

lemma let_go_oldest_length: "length (snd (let_go_oldest turns order)) \<le> TURNS_KEPT"
  by (induction turns order rule: let_go_oldest.induct) (auto simp: TURNS_KEPT_def)

section \<open>What was granted\<close>

text \<open>
  The ghost log of what a conversation was let do, over a history with its newest event first.  It
  begins again with the turn (the check), and when its entry is let go.
\<close>

datatype grant = Asked purpose string | Sorted | Raised | Judged | Reviewed | Read

fun now_at :: "ctl_event list \<Rightarrow> controller" where
  "now_at [] = default_controller"
| "now_at (e # es) = ctl_step (now_at es) e"

definition turn_held :: "controller \<Rightarrow> string \<Rightarrow> bool" where
  "turn_held c k \<longleftrightarrow> map_of (ctl_turns c) k \<noteq> None"

definition check_held :: "controller \<Rightarrow> string \<Rightarrow> bool" where
  "check_held c k \<longleftrightarrow> map_of (ctl_checks c) k \<noteq> None"

definition granted :: "'s \<times> (limit + unit) \<Rightarrow> grant \<Rightarrow> grant list" where
  "granted r g = (case snd r of Inr _ \<Rightarrow> [g] | Inl _ \<Rightarrow> [])"

fun turn_grants :: "controller \<Rightarrow> ctl_event \<Rightarrow> string \<Rightarrow> grant list" where
  "turn_grants c (AskDecision (Some j) p h) k =
     (if j = k \<and> p \<noteq> ClaimCheckable \<and> p \<noteq> ClaimVerdict
      then granted (admit_decision c (Some j) p h False 0) (if p = Classify then Sorted else Asked p h) else [])"
| "turn_grants c (Escalate (Some j)) k = (if j = k then granted (escalate c (Some j)) Raised else [])"
| "turn_grants c _ k = []"

fun check_grants :: "controller \<Rightarrow> ctl_event \<Rightarrow> string \<Rightarrow> grant list" where
  "check_grants c (AskDecision (Some j) p h) k =
     (if j = k \<and> (p = ClaimCheckable \<or> p = ClaimVerdict)
      then granted (admit_decision c (Some j) p h False 0) (if p = ClaimVerdict then Judged else Read) else [])"
| "check_grants c (Review (Some j)) k = (if j = k then granted (review c (Some j)) Reviewed else [])"
| "check_grants c _ k = []"

fun turn_log :: "ctl_event list \<Rightarrow> string \<Rightarrow> grant list" where
  "turn_log [] k = []"
| "turn_log (e # es) k =
     (if e = BeginTurn k \<or> \<not> turn_held (now_at (e # es)) k then []
      else turn_grants (now_at es) e k @ turn_log es k)"

fun check_log :: "ctl_event list \<Rightarrow> string \<Rightarrow> grant list" where
  "check_log [] k = []"
| "check_log (e # es) k =
     (if e = BeginCheck k \<or> \<not> check_held (now_at (e # es)) k then []
      else check_grants (now_at es) e k @ check_log es k)"

definition asked_in :: "grant list \<Rightarrow> (purpose \<times> string) list" where
  "asked_in gs = List.map_filter (\<lambda>g. case g of Asked p h \<Rightarrow> Some (p, h) | _ \<Rightarrow> None) gs"

definition times :: "grant \<Rightarrow> grant list \<Rightarrow> nat" where
  "times g gs = length (filter (\<lambda>x. x = g) gs)"

lemma log_counts [simp]:
  "asked_in [] = []" "asked_in (g # gs) = (case g of Asked p h \<Rightarrow> [(p, h)] | _ \<Rightarrow> []) @ asked_in gs"
  "times g [] = 0" "times g (x # gs) = (if x = g then 1 else 0) + times g gs"
  by (auto simp: asked_in_def times_def map_filter_simps split: grant.split)

definition tally_turn :: "turn \<Rightarrow> grant list \<Rightarrow> bool" where
  "tally_turn t gs \<longleftrightarrow> turn_seen t = asked_in gs \<and> turn_decisions t = length (asked_in gs)
     \<and> turn_classified t = times Sorted gs \<and> turn_escalations t = times Raised gs"

definition tally_check :: "check \<Rightarrow> grant list \<Rightarrow> bool" where
  "tally_check x gs \<longleftrightarrow> check_verified x = times Judged gs \<and> check_reviewed x = times Reviewed gs
     \<and> check_sentences x = times Read gs"

text \<open>What the counters answer to the next question.\<close>

definition verdict_of :: "turn \<Rightarrow> check \<Rightarrow> purpose \<Rightarrow> string \<Rightarrow> limit + unit" where
  "verdict_of t x p h =
     (if p = ClaimCheckable then (if CHECK_SENTENCES \<le> check_sentences x then Inl LimitSentences else Inr ())
      else if p = ClaimVerdict then (if VERIFY_CLAIMS \<le> check_verified x then Inl LimitClaims else Inr ())
      else if p = Classify then (if CLASSIFY_PER_TURN \<le> turn_classified t then Inl LimitClassify else Inr ())
      else if TURN_DECISIONS \<le> turn_decisions t then Inl LimitDecisions
      else if (p, h) \<in> set (turn_seen t) then Inl LimitRepeat else Inr ())"

lemma map_of_let_go: "map_of turns k = None \<Longrightarrow> map_of (fst (let_go_oldest turns order)) k = None"
  by (induction turns order rule: let_go_oldest.induct) (auto simp: delete_conv' split: if_splits)

lemma let_go_changes: "map_of (fst (let_go_oldest turns order)) k \<in> {None, map_of turns k}"
  by (induction turns order rule: let_go_oldest.induct) (auto simp: delete_conv' split: if_splits)

lemma put_lookup [simp]:
  "turn_of (put_turn c j t) k = (if j = k then t else turn_of c k)"
  "turn_held (put_turn c j t) k \<longleftrightarrow> j = k \<or> turn_held c k"
  "check_of (put_check c j x) k = (if j = k then x else check_of c k)"
  "check_held (put_check c j x) k \<longleftrightarrow> j = k \<or> check_held c k"
  "check_of (put_turn c j t) k = check_of c k" "check_held (put_turn c j t) k = check_held c k"
  "turn_of (put_check c j x) k = turn_of c k" "turn_held (put_check c j x) k = turn_held c k"
  by (simp_all add: turn_of_def turn_held_def check_of_def check_held_def put_turn_def put_check_def update_conv')

lemma remember_lookup [simp]: "turn_of (remember_turn c k) k = turn_of c k"
  using map_of_let_go[of "ctl_turns c" k "ctl_order c @ [k]"]
  by (auto simp: remember_turn_def turn_of_def Let_def split_beta)

lemma remember_checks [simp]: "check_of (remember_turn c j) k = check_of c k"
  "check_held (remember_turn c j) k = check_held c k"
  by (simp_all add: check_of_def check_held_def)

text \<open>A step on another conversation keeps the counters or lets the entry go.\<close>

definition same_or_gone :: "controller \<Rightarrow> controller \<Rightarrow> string \<Rightarrow> bool" where
  "same_or_gone c' c k \<longleftrightarrow> map_of (ctl_turns c') k \<in> {None, map_of (ctl_turns c) k}"

lemma remember_same: "same_or_gone (remember_turn c j) c k"
  using let_go_changes[of "ctl_turns c" "ctl_order c @ [j]" k]
  by (simp add: same_or_gone_def remember_turn_def Let_def split_beta)

lemma same_turn: "same_or_gone c' c k \<Longrightarrow> turn_held c' k \<Longrightarrow> turn_of c' k = turn_of c k \<and> turn_held c k"
  by (auto simp: same_or_gone_def turn_of_def turn_held_def)

lemma begin_other: "j \<noteq> k \<Longrightarrow> same_or_gone (begin_turn c j) c k"
  using let_go_changes[of "AList.update j default_turn (ctl_turns c)" "filter (\<lambda>i. i \<noteq> j) (ctl_order c) @ [j]" k]
  by (simp add: same_or_gone_def begin_turn_def Let_def split_beta update_conv')

lemma begun_turn: "turn_of (begin_turn c k) k = default_turn"
  using let_go_changes[of "AList.update k default_turn (ctl_turns c)" "filter (\<lambda>i. i \<noteq> k) (ctl_order c) @ [k]" k]
  by (auto simp: turn_of_def begin_turn_def Let_def split_beta update_conv')

lemma admit_verdict:
  "snd (admit_decision c (Some k) p h False now) = verdict_of (turn_of c k) (check_of c k) p h"
  by (simp add: admit_decision_def admit_in_turn_def verdict_of_def Let_def)

lemma verdict_in_turn:
  "p \<noteq> ClaimCheckable \<Longrightarrow> p \<noteq> ClaimVerdict \<Longrightarrow> snd (admit_in_turn c k p h) = verdict_of (turn_of c k) x p h"
  by (simp add: admit_in_turn_def verdict_of_def Let_def)

lemma background_tables:
  "ctl_turns (fst (admit_background c p now)) = ctl_turns c" "ctl_checks (fst (admit_background c p now)) = ctl_checks c"
  "ctl_order (fst (admit_background c p now)) = ctl_order c"
  by (simp_all add: admit_background_def expire_def Let_def)

lemma begin_tables:
  "ctl_checks (begin_turn c j) = ctl_checks c" "ctl_turns (begin_check c j) = ctl_turns c"
  "ctl_order (begin_check c j) = ctl_order c"
  by (simp_all add: begin_turn_def begin_check_def Let_def split_beta)

text \<open>The event asks about the turn of another conversation, or about none.\<close>

lemma in_turn_tally:
  assumes "tally_turn (turn_of c k) gs" and "p \<noteq> ClaimCheckable" "p \<noteq> ClaimVerdict"
  shows "tally_turn (turn_of (fst (admit_in_turn c k p h)) k)
    (granted (admit_in_turn c k p h) (if p = Classify then Sorted else Asked p h) @ gs)"
  using assms by (auto simp: admit_in_turn_def Let_def granted_def tally_turn_def)

lemma in_turn_other:
  assumes "j \<noteq> k" and "turn_held (fst (admit_in_turn c j p h)) k"
  shows "turn_of (fst (admit_in_turn c j p h)) k = turn_of c k"
  using assms same_turn[OF remember_same, of c j k]
  by (auto simp: admit_in_turn_def Let_def split: if_splits)

lemma tally_turn_step:
  assumes tally: "tally_turn (turn_of c k) gs" and e: "e \<noteq> BeginTurn k" and held: "turn_held (ctl_step c e) k"
  shows "tally_turn (turn_of (ctl_step c e) k) (turn_grants c e k @ gs)"
proof (cases e)
  case (BeginTurn j)
  then have "j \<noteq> k" using e by auto
  then show ?thesis using same_turn[OF begin_other[OF \<open>j \<noteq> k\<close>]] held tally BeginTurn by auto
next
  case (AskDecision key p h)
  show ?thesis
  proof (cases key)
    case (Some j)
    consider (check) "p = ClaimCheckable \<or> p = ClaimVerdict" | (turn) "p \<noteq> ClaimCheckable" "p \<noteq> ClaimVerdict" by blast
    then show ?thesis
    proof cases
      case check
      then show ?thesis using tally AskDecision Some by (auto simp: admit_decision_def Let_def)
    next
      case turn
      then have "admit_decision c (Some j) p h False 0 = admit_in_turn c j p h" by (simp add: admit_decision_def)
      then show ?thesis using tally held AskDecision Some turn in_turn_tally[OF tally turn] in_turn_other[of j k c p h]
        by (cases "j = k") auto
    qed
  qed (use tally AskDecision in \<open>simp add: admit_decision_def\<close>)
next
  case (Escalate key)
  then show ?thesis using tally
    by (cases key) (auto simp: escalate_def Let_def granted_def tally_turn_def)
next
  case (Review key)
  then show ?thesis using tally by (cases key) (auto simp: review_def Let_def)
qed (use tally in \<open>simp_all add: admit_decision_def turn_of_def background_tables begin_tables\<close>)

lemma tallied_turn: "tally_turn (turn_of (now_at es) k) (turn_log es k)"
proof (induction es)
  case Nil
  show ?case by (simp add: tally_turn_def turn_of_def default_controller_def default_turn_def)
next
  case (Cons e es)
  have fresh: "tally_turn default_turn []" by (simp add: tally_turn_def default_turn_def)
  consider (begun) "e = BeginTurn k" | (gone) "\<not> turn_held (now_at (e # es)) k"
    | (on) "e \<noteq> BeginTurn k" "turn_held (now_at (e # es)) k" by blast
  then show ?case
  proof cases
    case begun
    then show ?thesis using fresh by (simp add: begun_turn)
  next
    case gone
    then have "turn_of (now_at (e # es)) k = default_turn" by (simp add: turn_held_def turn_of_def)
    then show ?thesis using gone fresh by simp
  next
    case on
    then show ?thesis using tally_turn_step[OF Cons.IH, of e] by simp
  qed
qed

lemma check_begun: "check_of (begin_check c k) k = default_check"
  by (simp add: check_of_def begin_check_def update_conv')

lemma check_other:
  "j \<noteq> k \<Longrightarrow> check_held (begin_check c j) k \<Longrightarrow> check_of (begin_check c j) k = check_of c k"
  by (auto simp: check_of_def check_held_def begin_check_def update_conv' split: if_splits)

lemma in_turn_checks:
  "check_of (fst (admit_in_turn c j p h)) k = check_of c k" "check_held (fst (admit_in_turn c j p h)) k = check_held c k"
  by (simp_all add: admit_in_turn_def Let_def)

lemma tally_check_step:
  assumes tally: "tally_check (check_of c k) gs" and e: "e \<noteq> BeginCheck k" and held: "check_held (ctl_step c e) k"
  shows "tally_check (check_of (ctl_step c e) k) (check_grants c e k @ gs)"
proof (cases e)
  case (BeginCheck j)
  then have "j \<noteq> k" using e by auto
  then show ?thesis using check_other[of j k c] held tally BeginCheck by simp
next
  case (AskDecision key p h)
  then show ?thesis using tally
    by (cases key) (auto simp: admit_decision_def Let_def granted_def tally_check_def in_turn_checks)
next
  case (Escalate key)
  then show ?thesis using tally by (cases key) (auto simp: escalate_def Let_def)
next
  case (Review key)
  then show ?thesis using tally
    by (cases key) (auto simp: review_def Let_def granted_def tally_check_def)
qed (use tally in \<open>simp_all add: admit_decision_def check_of_def background_tables begin_tables\<close>)

lemma tallied_check: "tally_check (check_of (now_at es) k) (check_log es k)"
proof (induction es)
  case Nil
  show ?case by (simp add: tally_check_def check_of_def default_controller_def default_check_def)
next
  case (Cons e es)
  have fresh: "tally_check default_check []" by (simp add: tally_check_def default_check_def)
  consider (begun) "e = BeginCheck k" | (gone) "\<not> check_held (now_at (e # es)) k"
    | (on) "e \<noteq> BeginCheck k" "check_held (now_at (e # es)) k" by blast
  then show ?case
  proof cases
    case begun
    then show ?thesis using fresh by (simp add: check_begun)
  next
    case gone
    then have "check_of (now_at (e # es)) k = default_check" by (simp add: check_held_def check_of_def)
    then show ?thesis using gone fresh by simp
  next
    case on
    then show ?thesis using tally_check_step[OF Cons.IH, of e] by simp
  qed
qed

lemma ctl_inv_now: "ctl_inv (now_at es)"
  by (induction es) (simp_all add: ctl_inv_start ctl_inv_step)

subsection \<open>How long a turn and a check are remembered\<close>

fun turn_key :: "ctl_event \<Rightarrow> string list" where
  "turn_key (BeginTurn j) = [j]"
| "turn_key (AskDecision (Some j) p h) = [j]"
| "turn_key _ = []"

text \<open>The other conversations that came up since the turn was begun.\<close>

fun others_since :: "ctl_event list \<Rightarrow> string \<Rightarrow> string list" where
  "others_since [] k = []"
| "others_since (e # es) k =
     (if e = BeginTurn k then [] else filter (\<lambda>j. j \<noteq> k) (turn_key e) @ others_since es k)"

fun check_key :: "ctl_event \<Rightarrow> string list" where
  "check_key (BeginCheck j) = [j]"
| "check_key (AskDecision (Some j) p h) = (if p = ClaimCheckable \<or> p = ClaimVerdict then [j] else [])"
| "check_key (Review (Some j)) = [j]"
| "check_key _ = []"

definition check_keys :: "ctl_event list \<Rightarrow> string list" where
  "check_keys es = concat (map check_key es)"

text \<open>The order names remembered turns, each once.\<close>

definition order_ok :: "controller \<Rightarrow> bool" where
  "order_ok c \<longleftrightarrow> distinct (ctl_order c) \<and> (\<forall>j \<in> set (ctl_order c). turn_held c j)"

lemma let_go_order:
  assumes "distinct order" and "\<forall>j \<in> set order. j \<in> X \<or> map_of turns j \<noteq> None"
  shows "distinct (snd (let_go_oldest turns order)) \<and> (\<forall>j \<in> set (snd (let_go_oldest turns order)).
      j \<in> X \<or> map_of (fst (let_go_oldest turns order)) j \<noteq> None)"
  using assms
proof (induction turns order rule: let_go_oldest.induct)
  case (2 turns old order)
  have "\<forall>j \<in> set order. j \<in> X \<or> map_of (AList.delete old turns) j \<noteq> None"
    using 2(2,3) by (auto simp: delete_conv')
  with 2 show ?case by simp
qed simp

lemma let_go_keeps:
  assumes "distinct (pre @ k # post)" and "length post < TURNS_KEPT"
  shows "\<exists>pre'. snd (let_go_oldest turns (pre @ k # post)) = pre' @ k # post
    \<and> map_of (fst (let_go_oldest turns (pre @ k # post))) k = map_of turns k"
  using assms by (induction pre arbitrary: turns) (auto simp: delete_conv')

text \<open>Where \<open>k\<close> stands in the order, with what came after it.\<close>

definition behind :: "controller \<Rightarrow> string \<Rightarrow> string set \<Rightarrow> bool" where
  "behind c k J \<longleftrightarrow> order_ok c \<and> turn_held c k \<and> (\<exists>pre post. ctl_order c = pre @ k # post \<and> set post \<subseteq> J)"

lemma order_ok_begin: "order_ok c \<Longrightarrow> order_ok (begin_turn c j)"
  using let_go_order[of "filter (\<lambda>i. i \<noteq> j) (ctl_order c) @ [j]" "{}" "AList.update j default_turn (ctl_turns c)"]
  by (auto simp: order_ok_def begin_turn_def turn_held_def Let_def split_beta update_conv')

lemma order_ok_put: "order_ok c \<Longrightarrow> order_ok (put_turn c j t)"
  by (auto simp: order_ok_def)

lemma order_ok_remember:
  assumes "order_ok c"
  shows "order_ok (put_turn (remember_turn c j) j t)"
proof (cases "turn_held c j")
  case True
  then show ?thesis using assms by (simp add: remember_turn_def turn_held_def order_ok_put)
next
  case False
  then have "distinct (ctl_order c @ [j])" "\<forall>i \<in> set (ctl_order c @ [j]). i \<in> {j} \<or> map_of (ctl_turns c) i \<noteq> None"
    using assms by (auto simp: order_ok_def turn_held_def)
  from let_go_order[OF this] False show ?thesis
    by (auto simp: order_ok_def remember_turn_def turn_held_def put_turn_def Let_def split_beta update_conv')
qed

lemma behind_length:
  assumes "order_ok c" and "ctl_order c = pre @ k # post" and "set post \<subseteq> J" and "finite J"
  shows "length post \<le> card J"
  using assms card_mono[of J "set post"] by (simp add: order_ok_def distinct_card)

lemma filter_split: "j \<noteq> k \<Longrightarrow> filter (\<lambda>i. i \<noteq> j) (pre @ k # post) @ [j]
    = filter (\<lambda>i. i \<noteq> j) pre @ k # (filter (\<lambda>i. i \<noteq> j) post @ [j])"
  by simp

lemma behind_begin:
  assumes "behind c k J" and "j \<noteq> k" and "finite J" and "card (insert j J) < TURNS_KEPT"
  shows "behind (begin_turn c j) k (insert j J)"
proof -
  obtain pre post where o: "ctl_order c = pre @ k # post" "set post \<subseteq> J" and ok: "order_ok c" and h: "turn_held c k"
    using assms(1) by (auto simp: behind_def)
  let ?post = "filter (\<lambda>i. i \<noteq> j) post @ [j]"
  have d: "distinct (filter (\<lambda>i. i \<noteq> j) pre @ k # ?post)" using ok o(1) assms(2) by (auto simp: order_ok_def)
  have "length ?post = card (set ?post)" using d by (metis distinct.simps(2) distinct_append distinct_card)
  also have "\<dots> \<le> card (insert j J)" by (rule card_mono) (use o(2) assms(3) in auto)
  finally have l: "length ?post < TURNS_KEPT" using assms(4) by simp
  obtain pre' where k: "ctl_order (begin_turn c j) = pre' @ k # ?post"
    "map_of (ctl_turns (begin_turn c j)) k = map_of (AList.update j default_turn (ctl_turns c)) k"
    using let_go_keeps[OF d l] filter_split[OF assms(2)] o(1)
    by (auto simp: begin_turn_def Let_def split_beta)
  have "set ?post \<subseteq> insert j J" using o(2) by auto
  moreover have "turn_held (begin_turn c j) k" using k(2) h assms(2) by (simp add: turn_held_def update_conv')
  ultimately show ?thesis using k(1) order_ok_begin[OF ok] unfolding behind_def by blast
qed

lemma behind_remember:
  assumes "behind c k J" and "j \<noteq> k" and "finite J" and "card (insert j J) < TURNS_KEPT"
  shows "behind (put_turn (remember_turn c j) j t) k (insert j J)"
proof -
  obtain pre post where o: "ctl_order c = pre @ k # post" "set post \<subseteq> J" and ok: "order_ok c" and h: "turn_held c k"
    using assms(1) by (auto simp: behind_def)
  have "turn_held (remember_turn c j) k \<and> (\<exists>pre post. ctl_order (remember_turn c j) = pre @ k # post \<and> set post \<subseteq> insert j J)"
  proof (cases "turn_held c j")
    case True
    then show ?thesis using h o by (auto simp: remember_turn_def turn_held_def)
  next
    case False
    then have d: "distinct (pre @ k # (post @ [j]))" using ok o(1) assms(2) by (auto simp: order_ok_def)
    have "length (post @ [j]) = card (set (post @ [j]))" using d by (metis distinct.simps(2) distinct_append distinct_card)
    also have "\<dots> \<le> card (insert j J)" by (rule card_mono) (use o(2) assms(3) in auto)
    finally have l: "length (post @ [j]) < TURNS_KEPT" using assms(4) by simp
    obtain pre' where "ctl_order (remember_turn c j) = pre' @ k # (post @ [j])"
      "map_of (ctl_turns (remember_turn c j)) k = map_of (ctl_turns c) k"
      using let_go_keeps[OF d l, of "ctl_turns c"] o(1) False
      by (auto simp: remember_turn_def turn_held_def Let_def split_beta)
    moreover have "set (post @ [j]) \<subseteq> insert j J" using o(2) by auto
    ultimately show ?thesis using h unfolding turn_held_def by metis
  qed
  then show ?thesis using order_ok_remember[OF ok, of j t] by (auto simp: behind_def)
qed

lemma behind_same:
  assumes "behind c k J" and "J \<subseteq> J'" and "order_ok c'" and "ctl_order c' = ctl_order c" and "turn_held c' k"
  shows "behind c' k J'"
  using assms unfolding behind_def by fastforce

lemma behind_wider: "behind c k J \<Longrightarrow> J \<subseteq> J' \<Longrightarrow> behind c k J'"
  unfolding behind_def by fast

lemma behind_put: "behind c k J \<Longrightarrow> behind (put_turn c j t) k J"
  using behind_same[of c k J J "put_turn c j t"] by (auto simp: behind_def order_ok_put)

lemma held_remember: "turn_held c j \<Longrightarrow> remember_turn c j = c"
  by (simp add: turn_held_def remember_turn_def)

lemma in_turn_is_put: "\<exists>t. fst (admit_in_turn c j p h) = put_turn (remember_turn c j) j t"
  by (auto simp: admit_in_turn_def Let_def)

lemma same_tables_behind:
  "ctl_turns c' = ctl_turns c \<Longrightarrow> ctl_order c' = ctl_order c \<Longrightarrow> behind c' k J = behind c k J"
  by (simp add: behind_def order_ok_def turn_held_def)

lemma behind_in_turn:
  assumes "behind c k J" and "finite J" and "card (set (filter (\<lambda>i. i \<noteq> k) [j]) \<union> J) < TURNS_KEPT"
  shows "behind (fst (admit_in_turn c j p h)) k (set (filter (\<lambda>i. i \<noteq> k) [j]) \<union> J)"
proof -
  obtain t where t: "fst (admit_in_turn c j p h) = put_turn (remember_turn c j) j t" using in_turn_is_put by blast
  show ?thesis
  proof (cases "j = k")
    case True
    moreover have "turn_held c k" using assms(1) by (simp add: behind_def)
    ultimately show ?thesis using behind_put[OF assms(1), of j t] by (simp add: t[unfolded \<open>j = k\<close>] held_remember)
  next
    case False
    then show ?thesis using behind_remember[OF assms(1) False assms(2)] assms(3) by (simp add: t)
  qed
qed

lemma behind_step:
  assumes b: "behind c k J" and fin: "finite J" and e: "e \<noteq> BeginTurn k"
    and few: "card (set (filter (\<lambda>j. j \<noteq> k) (turn_key e)) \<union> J) < TURNS_KEPT"
  shows "behind (ctl_step c e) k (set (filter (\<lambda>j. j \<noteq> k) (turn_key e)) \<union> J)"
proof (cases e)
  case (BeginTurn j)
  then have "j \<noteq> k" using e by auto
  then show ?thesis using behind_begin[OF b _ fin, of j] few BeginTurn by simp
next
  case (AskDecision key p h)
  show ?thesis
  proof (cases key)
    case (Some j)
    have wide: "behind c' k (set (filter (\<lambda>i. i \<noteq> k) [j]) \<union> J)"
      if "ctl_turns c' = ctl_turns c" "ctl_order c' = ctl_order c" for c'
    proof -
      have "behind c' k J" using b same_tables_behind[OF that] by simp
      then show ?thesis by (rule behind_wider) simp
    qed
    consider (check) "p = ClaimCheckable \<or> p = ClaimVerdict" | (turn) "p \<noteq> ClaimCheckable" "p \<noteq> ClaimVerdict" by blast
    then show ?thesis
    proof cases
      case check
      then show ?thesis using AskDecision Some wide by (auto simp: admit_decision_def Let_def)
    next
      case turn
      then show ?thesis using AskDecision Some few behind_in_turn[OF b fin, of j] by (simp add: admit_decision_def)
    qed
  qed (use b AskDecision in \<open>simp add: admit_decision_def\<close>)
next
  case (Escalate key)
  then show ?thesis using b
    by (cases key) (simp_all add: escalate_def Let_def behind_put)
next
  case (Review key)
  then have "ctl_turns (ctl_step c e) = ctl_turns c" "ctl_order (ctl_step c e) = ctl_order c"
    by (cases key; simp add: review_def Let_def)+
  from same_tables_behind[OF this] b Review show ?thesis by simp
next
  case (BeginCheck j)
  then have "ctl_turns (ctl_step c e) = ctl_turns c" "ctl_order (ctl_step c e) = ctl_order c"
    by (simp_all add: begin_tables)
  from same_tables_behind[OF this] b BeginCheck show ?thesis by simp
next
  case (AskBackground p now)
  then have "ctl_turns (ctl_step c e) = ctl_turns c" "ctl_order (ctl_step c e) = ctl_order c"
    by (simp_all add: admit_decision_def background_tables)
  from same_tables_behind[OF this] b AskBackground show ?thesis by simp
qed

lemma order_ok_step: "order_ok c \<Longrightarrow> order_ok (ctl_step c e)"
proof (cases e)
  case (BeginTurn j)
  assume "order_ok c"
  then show ?thesis using BeginTurn by (simp add: order_ok_begin)
next
  case (AskDecision key p h)
  assume ok: "order_ok c"
  have "order_ok (fst (admit_in_turn c j p h))" for j
    using in_turn_is_put[of c j p h] order_ok_remember[OF ok, of j] by metis
  moreover have "order_ok (put_check c j x)" for j x using ok by (simp add: order_ok_def)
  ultimately show ?thesis using ok AskDecision by (cases key) (auto simp: admit_decision_def Let_def)
next
  case (Escalate key)
  assume "order_ok c"
  then show ?thesis using Escalate by (cases key) (auto simp: escalate_def Let_def order_ok_put)
next
  case (Review key)
  assume "order_ok c"
  then show ?thesis using Review by (cases key) (auto simp: review_def Let_def order_ok_def)
qed (simp_all add: order_ok_def turn_held_def begin_tables admit_decision_def background_tables)

lemma order_ok_now: "order_ok (now_at es)"
  by (induction es) (simp_all add: order_ok_step, simp add: order_ok_def default_controller_def)

lemma behind_begun:
  assumes "order_ok c"
  shows "behind (begin_turn c k) k {}"
proof -
  have "distinct (filter (\<lambda>i. i \<noteq> k) (ctl_order c) @ k # [])" "length ([] :: string list) < TURNS_KEPT"
    using assms by (auto simp: order_ok_def TURNS_KEPT_def)
  from let_go_keeps[OF this, of "AList.update k default_turn (ctl_turns c)"]
  have "\<exists>pre. ctl_order (begin_turn c k) = pre @ k # []" "turn_held (begin_turn c k) k"
    by (auto simp: begin_turn_def turn_held_def Let_def split_beta update_conv')
  then show ?thesis using order_ok_begin[OF assms] by (auto simp: behind_def)
qed

lemma turn_stays:
  assumes "BeginTurn k \<in> set es" and "length (remdups (others_since es k)) < 64"
  shows "turn_held (now_at es) k"
proof -
  have "behind (now_at es) k (set (others_since es k))"
    using assms
  proof (induction es)
    case (Cons e es)
    show ?case
    proof (cases "e = BeginTurn k")
      case True
      then show ?thesis using behind_begun[OF order_ok_now] by simp
    next
      case False
      have few: "card (set (filter (\<lambda>j. j \<noteq> k) (turn_key e)) \<union> set (others_since es k)) < TURNS_KEPT"
        using Cons.prems(2) False by (simp add: length_remdups_card_conv TURNS_KEPT_def Un_commute)
      then have "length (remdups (others_since es k)) < 64"
        using card_mono[of "set (filter (\<lambda>j. j \<noteq> k) (turn_key e)) \<union> set (others_since es k)" "set (others_since es k)"]
        by (simp add: length_remdups_card_conv TURNS_KEPT_def)
      then have "behind (now_at es) k (set (others_since es k))" using Cons.IH Cons.prems(1) False by auto
      from behind_step[OF this _ False few] False show ?thesis by simp
    qed
  qed simp
  then show ?thesis by (simp add: behind_def)
qed

definition checks_known :: "controller \<Rightarrow> string set \<Rightarrow> bool" where
  "checks_known c J \<longleftrightarrow> distinct (map fst (ctl_checks c)) \<and> fst ` set (ctl_checks c) = J"

lemma checks_put: "checks_known c J \<Longrightarrow> checks_known (put_check c j x) (insert j J)"
  by (simp add: checks_known_def put_check_def distinct_update dom_update)

lemma checks_begin:
  assumes "checks_known c J" and "card (insert j J) \<le> TURNS_KEPT" and "finite J"
  shows "checks_known (begin_check c j) (insert j J)"
proof -
  have "length (ctl_checks c) = card J"
    using assms(1) distinct_card[of "map fst (ctl_checks c)"] by (simp add: checks_known_def)
  then have "\<not> (TURNS_KEPT \<le> length (ctl_checks c) \<and> map_of (ctl_checks c) j = None)"
    using assms by (auto simp: checks_known_def map_of_eq_None_iff)
  then show ?thesis using assms(1) by (auto simp: checks_known_def begin_check_def distinct_update dom_update)
qed

lemma checks_step:
  assumes "checks_known c J" and "card (set (check_key e) \<union> J) \<le> TURNS_KEPT" and "finite J"
  shows "checks_known (ctl_step c e) (set (check_key e) \<union> J)"
proof (cases e)
  case (BeginCheck j)
  then show ?thesis using checks_begin[OF assms(1) _ assms(3), of j] assms(2) by simp
next
  case (AskDecision key p h)
  have "ctl_checks (fst (admit_in_turn c j p h)) = ctl_checks c" for j
    by (simp add: admit_in_turn_def Let_def)
  then show ?thesis using AskDecision assms(1) checks_put[OF assms(1)]
    by (cases key) (auto simp: admit_decision_def Let_def checks_known_def)
next
  case (Escalate key)
  then show ?thesis using assms(1) by (cases key) (auto simp: escalate_def Let_def checks_known_def)
next
  case (Review key)
  then show ?thesis using assms(1) checks_put[OF assms(1)] by (cases key) (auto simp: review_def Let_def)
qed (use assms(1) in \<open>simp_all add: admit_decision_def background_tables begin_tables checks_known_def\<close>)

lemma checks_stay:
  assumes "k \<in> set (check_keys es)" and "length (remdups (check_keys es)) \<le> 64"
  shows "check_held (now_at es) k"
proof -
  have "checks_known (now_at es) (set (check_keys es))" using assms(2)
  proof (induction es)
    case (Cons e es)
    have few: "card (set (check_key e) \<union> set (check_keys es)) \<le> TURNS_KEPT"
      using Cons.prems by (simp add: length_remdups_card_conv TURNS_KEPT_def check_keys_def)
    then have "length (remdups (check_keys es)) \<le> 64"
      using card_mono[of "set (check_key e) \<union> set (check_keys es)" "set (check_keys es)"]
      by (simp add: length_remdups_card_conv TURNS_KEPT_def)
    from checks_step[OF Cons.IH[OF this] few] show ?case by (simp add: check_keys_def)
  qed (simp add: checks_known_def check_keys_def default_controller_def)
  then show ?thesis using assms(1) by (auto simp: checks_known_def check_held_def map_of_eq_None_iff)
qed

section \<open>Properties\<close>

text \<open>C12: Background work keeps to its hour: in every history of turns, checks, questions and
  escalations in which the clock does not go back, any span of one hour contains at most 200
  admitted background decisions, of which at most 100 are checks of outside text and at most 60
  are mail.\<close>

theorem background_budget_holds_every_hour:
  assumes "sorted (clock_of es)"
  shows "let A = background_log default_controller es
     in hour_count T (log_times A) \<le> 200
        \<and> hour_count T (log_times (of_purpose UntrustedFlag A)) \<le> 100
        \<and> hour_count T (log_times (of_purpose MailTriage A)) \<le> 60"
proof -
  define m where "m = (case clock_of es of [] \<Rightarrow> 0 | t # _ \<Rightarrow> t)"
  have "sorted (m # clock_of es)" using assms by (cases "clock_of es") (auto simp: m_def)
  from budget_log[OF budget_start this] show ?thesis
    by (auto simp: budget_ok_def budget_defs Let_def)
qed

theorem background_budget_holds_every_hour_witness:
  "hour_count 5 (log_times (background_log default_controller
     [AskBackground MailTriage 0, BeginTurn ''c'', AskBackground UntrustedFlag 5])) \<le> 200"
  using background_budget_holds_every_hour[of "[AskBackground MailTriage 0, BeginTurn ''c'',
      AskBackground UntrustedFlag 5]" 5]
  by (simp add: Let_def)

text \<open>C13: No turn and no check is granted more than its budget.  Counted in the questions themselves, not
  in the counters: in every history (newest first), since its turn was last begun and as long as
  the turn is remembered, a conversation was let ask at most 20 decisions, all different, sort
  at most 1000 items and escalate at most 3 times; since its check was last begun and as long as that
  is remembered, it had at most 25 claims judged, 4 reviewed and 40 sentences asked about.  The
  next call is granted exactly when that leaves room and, for a decision, it was not granted before.
  A turn that was begun is remembered while fewer than 64 other conversations come up after it, and
  every check while no more than 64 conversations have had one.  Beyond that a turn or a check that
  still goes on may be forgotten and starts its counts again.\<close>

theorem turn_and_check_budgets_hold:
  "let T = turn_log es (k :: string); C = check_log es k; c = now_at es in
     distinct (asked_in T) \<and> length (asked_in T) \<le> 20 \<and> times Sorted T \<le> 1000 \<and> times Raised T \<le> 3
   \<and> times Judged C \<le> 25 \<and> times Reviewed C \<le> 4 \<and> times Read C \<le> 40
   \<and> snd (admit_decision c (Some k) p h False now) =
        (if p = ClaimCheckable then (if times Read C < 40 then Inr () else Inl LimitSentences)
         else if p = ClaimVerdict then (if times Judged C < 25 then Inr () else Inl LimitClaims)
         else if p = Classify then (if times Sorted T < 1000 then Inr () else Inl LimitClassify)
         else if 20 \<le> length (asked_in T) then Inl LimitDecisions
         else if (p, h) \<in> set (asked_in T) then Inl LimitRepeat else Inr ())
   \<and> snd (escalate c (Some k)) = (if times Raised T < 3 then Inr () else Inl LimitEscalations)
   \<and> snd (review c (Some k)) = (if times Reviewed C < 4 then Inr () else Inl LimitReviews)
   \<and> (BeginTurn k \<in> set es \<longrightarrow> length (remdups (others_since es k)) < 64 \<longrightarrow> turn_held c k)
   \<and> (k \<in> set (check_keys es) \<longrightarrow> length (remdups (check_keys es)) \<le> 64 \<longrightarrow> check_held c k)"
proof -
  let ?T = "turn_log es k" and ?C = "check_log es k" and ?c = "now_at es"
  note t = tallied_turn[of es k] and x = tallied_check[of es k]
  have "turn_ok (turn_of ?c k)" "check_ok (check_of ?c k)"
    using ctl_inv_turn ctl_inv_check ctl_inv_now by blast+
  then have b: "distinct (asked_in ?T)" "length (asked_in ?T) \<le> 20" "times Sorted ?T \<le> 1000" "times Raised ?T \<le> 3"
    "times Judged ?C \<le> 25" "times Reviewed ?C \<le> 4" "times Read ?C \<le> 40"
    using t x by (auto simp: turn_ok_def check_ok_def tally_turn_def tally_check_def budget_defs)
  have "snd (admit_decision ?c (Some k) p h False now) = verdict_of (turn_of ?c k) (check_of ?c k) p h"
    by (rule admit_verdict)
  moreover have "snd (escalate ?c (Some k)) = (if times Raised ?T < 3 then Inr () else Inl LimitEscalations)"
    using t by (simp add: escalate_def Let_def tally_turn_def budget_defs)
  moreover have "snd (review ?c (Some k)) = (if times Reviewed ?C < 4 then Inr () else Inl LimitReviews)"
    using x by (simp add: review_def Let_def tally_check_def budget_defs)
  ultimately show ?thesis
    using b t x turn_stays[of k es] checks_stay[of k es]
    by (simp add: Let_def verdict_of_def tally_turn_def tally_check_def budget_defs not_less)
qed

theorem turn_and_check_budgets_hold_witness:
  "turn_held (now_at [AskDecision (Some ''b'') GoalMet ''h'', BeginCheck ''a'', BeginTurn ''a'']) ''a''
   \<and> check_held (now_at [AskDecision (Some ''b'') GoalMet ''h'', BeginCheck ''a'', BeginTurn ''a'']) ''a''"
  using turn_and_check_budgets_hold[of "[AskDecision (Some ''b'') GoalMet ''h'', BeginCheck ''a'', BeginTurn ''a'']"
      "''a''" GoalMet "''h''" 0]
  by (simp add: Let_def check_keys_def)

text \<open>A check that still goes on starts its counts again when 64 conversations have had one and another
  comes: all of them are let go.\<close>

theorem checks_are_let_go_together:
  assumes "distinct ks" and "length ks = 64" and "k \<notin> set ks"
  shows "ctl_checks (foldl ctl_step default_controller (map BeginCheck ks @ [BeginCheck k])) = [(k, default_check)]"
proof -
  have "ctl_checks (foldl ctl_step c (map BeginCheck js)) = ctl_checks c @ map (\<lambda>j. (j, default_check)) js"
    if "distinct js" "set js \<inter> fst ` set (ctl_checks c) = {}" "length (ctl_checks c) + length js \<le> 64" for js c
    using that
  proof (induction js arbitrary: c)
    case (Cons j js)
    have new: "ctl_checks (begin_check c j) = ctl_checks c @ [(j, default_check)]"
      using Cons.prems(2,3) by (simp add: begin_check_def TURNS_KEPT_def alist_update_new)
    have "set js \<inter> fst ` set (ctl_checks (begin_check c j)) = {}" using Cons.prems(1,2) by (auto simp: new)
    from Cons.IH[OF _ this] Cons.prems(1,3) show ?case by (simp add: new)
  qed simp
  from this[of ks default_controller] assms(1,2)
  have all: "ctl_checks (foldl ctl_step default_controller (map BeginCheck ks)) = map (\<lambda>j. (j, default_check)) ks"
    by (simp add: default_controller_def)
  have "map_of (map (\<lambda>j. (j, default_check)) ks) k = None" using assms(3) by (auto simp: map_of_eq_None_iff)
  then show ?thesis using assms(2) by (simp add: begin_check_def all TURNS_KEPT_def)
qed

text \<open>The memory of turns is bounded by the order of turns only: starting a turn leaves at most 64
  in that order, but an escalation of a conversation without a turn adds one that is not in the
  order, so as many conversations as escalate are remembered, none of them ever let go by it.\<close>

theorem escalated_turns_are_not_in_the_order:
  assumes "distinct ks"
  shows "let c = foldl ctl_step default_controller (map (\<lambda>k. Escalate (Some k)) ks)
     in length (ctl_turns c) = length ks \<and> ctl_order c = []
        \<and> length (ctl_order (begin_turn c j)) \<le> TURNS_KEPT"
  using escalations_pile_up[OF assms, of default_controller]
  by (simp add: Let_def default_controller_def begin_turn_def split_beta let_go_oldest_length)

theorem escalated_turns_are_not_in_the_order_witness:
  "length (ctl_turns (foldl ctl_step default_controller (map (\<lambda>k. Escalate (Some k)) [''a'', ''b'']))) = 2"
  using escalated_turns_are_not_in_the_order[of "[''a'', ''b'']" "[]"] by (simp add: Let_def)

text \<open>A closed gate closes: whatever the answer, its fit and the row, a decision whose gate is closed
  is recorded as blocked and costs no budget, and a decision is acted on only with the gate open
  and the row's bar reached.\<close>

theorem closed_gate_beats_every_answer:
  "after_with c p (evaluate reaches p ans fit GateClosed) key = (c, ActionBlocked)
   \<and> (snd (after_with c p (evaluate reaches p ans fit g) key) = Acted \<longleftrightarrow>
        g = GateOpen \<and> reaches (row_act_at (policy p)) ans fit)"
proof -
  have "snd (after_with c p ActBelow key) \<noteq> Acted"
    by (auto simp: after_with_def split: prod.split sum.split escalation.split)
  then show ?thesis
    by (cases g) (auto simp: evaluate_def after_with_def)
qed

end
