(* ===== verification/Diff.thy ===== *)
theory Diff imports Rust_Prelude "HOL-Library.Sublist" begin

text \<open>
  Line diffs (\<open>src-tauri/src/agent/diff.rs\<close>): the edit script with its trimmed ends and its
  table of longest common subsequences, the hunks with context, the counts and the unified text.

  The table is the list of its rows; a cell is a \<open>u32\<close> in the code and at most the shorter
  length, which the cell cap keeps far below \<open>2 ^ 32\<close>, so cells are \<open>nat\<close>.
\<close>

definition LCS_CELL_CAP :: nat where "LCS_CELL_CAP = 4000000"
definition CONTEXT_LINES :: nat where "CONTEXT_LINES = 3"

datatype line_kind = LineContext | LineAdded | LineRemoved

record diff_line =
  dl_kind :: line_kind
  dl_text :: string
  dl_old_no :: "nat option"
  dl_new_no :: "nat option"

record hunk =
  hk_old_start :: nat
  hk_old_lines :: nat
  hk_new_start :: nat
  hk_new_lines :: nat
  hk_lines :: "diff_line list"

definition context_line :: "string \<Rightarrow> nat \<Rightarrow> nat \<Rightarrow> diff_line" where
  "context_line t o_no n_no = \<lparr>dl_kind = LineContext, dl_text = t, dl_old_no = Some o_no, dl_new_no = Some n_no\<rparr>"

definition removed_line :: "string \<Rightarrow> nat \<Rightarrow> diff_line" where
  "removed_line t o_no = \<lparr>dl_kind = LineRemoved, dl_text = t, dl_old_no = Some o_no, dl_new_no = None\<rparr>"

definition added_line :: "string \<Rightarrow> nat \<Rightarrow> diff_line" where
  "added_line t n_no = \<lparr>dl_kind = LineAdded, dl_text = t, dl_old_no = None, dl_new_no = Some n_no\<rparr>"

section \<open>The edit script\<close>

definition common_prefix :: "'a list \<Rightarrow> 'a list \<Rightarrow> nat" where
  "common_prefix xs ys = length (takeWhile (\<lambda>(a, b). a = b) (zip xs ys))"

text \<open>A row of the table from the row below it, computed from the right.\<close>

fun lcs_row :: "'a \<Rightarrow> 'a list \<Rightarrow> nat list \<Rightarrow> nat list" where
  "lcs_row x [] below = [0]"
| "lcs_row x (y # ys) below =
     (let right = lcs_row x ys (tl below)
      in (if x = y then hd (tl below) + 1 else max (hd below) (hd right)) # right)"

fun lcs_table :: "'a list \<Rightarrow> 'a list \<Rightarrow> nat list list" where
  "lcs_table [] b = [replicate (length b + 1) 0]"
| "lcs_table (x # a) b = (let rows = lcs_table a b in lcs_row x b (hd rows) # rows)"

definition rest_lines :: "nat \<Rightarrow> string list \<Rightarrow> string list \<Rightarrow> nat \<Rightarrow> nat \<Rightarrow> diff_line list" where
  "rest_lines before a b i j =
     map (\<lambda>i. removed_line (a ! i) (before + i + 1)) [i..<length a]
     @ map (\<lambda>j. added_line (b ! j) (before + j + 1)) [j..<length b]"

function walk :: "nat \<Rightarrow> nat list list \<Rightarrow> string list \<Rightarrow> string list \<Rightarrow> nat \<Rightarrow> nat \<Rightarrow> diff_line list" where
  "walk before table a b i j =
     (if i < length a \<and> j < length b then
        (if a ! i = b ! j
         then context_line (a ! i) (before + i + 1) (before + j + 1) # walk before table a b (i + 1) (j + 1)
         else if table ! i ! (j + 1) \<le> table ! (i + 1) ! j
         then removed_line (a ! i) (before + i + 1) # walk before table a b (i + 1) j
         else added_line (b ! j) (before + j + 1) # walk before table a b i (j + 1))
      else rest_lines before a b i j)"
  by pat_completeness auto
termination
  by (relation "measure (\<lambda>(_, _, a, b, i, j). (length a - i) + (length b - j))") auto

declare walk.simps [simp del]

definition middle_script :: "nat \<Rightarrow> string list \<Rightarrow> string list \<Rightarrow> diff_line list" where
  "middle_script before a b =
     (if a \<noteq> [] \<and> b \<noteq> [] \<and> length a * length b \<le> LCS_CELL_CAP
      then walk before (lcs_table a b) a b 0 0
      else rest_lines before a b 0 0)"

definition edit_script :: "string list \<Rightarrow> string list \<Rightarrow> diff_line list" where
  "edit_script old new =
     (let before = common_prefix old new;
          max_after = min (length old) (length new) - before;
          after = common_prefix (take max_after (rev old)) (take max_after (rev new));
          a = take (length old - after - before) (drop before old);
          b = take (length new - after - before) (drop before new)
      in map (\<lambda>i. context_line (old ! i) (i + 1) (i + 1)) [0..<before]
         @ middle_script before a b
         @ map (\<lambda>k. context_line (old ! (length old - after + k)) (length old - after + k + 1)
                      (length new - after + k + 1)) [0..<after])"

section \<open>Hunks\<close>

fun group_end :: "nat \<Rightarrow> nat list \<Rightarrow> nat \<times> nat list" where
  "group_end e [] = (e, [])"
| "group_end e (c # cs) =
     (if c \<le> e + 2 * CONTEXT_LINES + 1 then group_end c cs else (e, c # cs))"

lemma group_end_shorter: "length (snd (group_end e cs)) \<le> length cs"
  by (induction e cs rule: group_end.induct) (auto simp: le_SucI)

function hunk_ranges :: "nat \<Rightarrow> nat list \<Rightarrow> (nat \<times> nat) list" where
  "hunk_ranges n [] = []"
| "hunk_ranges n (c # cs) =
     (c - CONTEXT_LINES, min (fst (group_end c cs) + CONTEXT_LINES + 1) n)
       # hunk_ranges n (snd (group_end c cs))"
  by pat_completeness auto
termination
  by (relation "measure (\<lambda>(_, cs). length cs)") (auto simp: less_Suc_eq_le group_end_shorter)

definition slice :: "nat \<Rightarrow> nat \<Rightarrow> 'a list \<Rightarrow> 'a list" where
  "slice start stop xs = take (stop - start) (drop start xs)"

definition start_no :: "(diff_line \<Rightarrow> nat option) \<Rightarrow> diff_line list \<Rightarrow> diff_line list \<Rightarrow> nat" where
  "start_no no lines before =
     (case find_map no lines of Some n \<Rightarrow> n
      | None \<Rightarrow> (case find_map no (rev before) of Some n \<Rightarrow> n | None \<Rightarrow> 0))"

definition make_hunk :: "diff_line list \<Rightarrow> nat \<times> nat \<Rightarrow> hunk" where
  "make_hunk script r =
     (let ls = slice (fst r) (snd r) script
      in \<lparr>hk_old_start = start_no dl_old_no ls (take (fst r) script),
          hk_old_lines = length (filter (\<lambda>l. dl_kind l \<noteq> LineAdded) ls),
          hk_new_start = start_no dl_new_no ls (take (fst r) script),
          hk_new_lines = length (filter (\<lambda>l. dl_kind l \<noteq> LineRemoved) ls),
          hk_lines = ls\<rparr>)"

definition changed_at :: "diff_line list \<Rightarrow> nat list" where
  "changed_at script = map fst (filter (\<lambda>(_, l). dl_kind l \<noteq> LineContext) (enumerated script))"

definition hunks :: "string \<Rightarrow> string \<Rightarrow> hunk list" where
  "hunks old new =
     (let script = edit_script (str_lines old) (str_lines new)
      in map (make_hunk script) (hunk_ranges (length script) (changed_at script)))"

definition counts :: "hunk list \<Rightarrow> nat \<times> nat" where
  "counts hs =
     foldl (\<lambda>(a, r) l. case dl_kind l of LineAdded \<Rightarrow> (a + 1, r) | LineRemoved \<Rightarrow> (a, r + 1)
                        | LineContext \<Rightarrow> (a, r))
       (0, 0) (concat (map hk_lines hs))"

definition unified_line :: "diff_line \<Rightarrow> string" where
  "unified_line l =
     (case dl_kind l of LineContext \<Rightarrow> CHR '' '' | LineAdded \<Rightarrow> CHR ''+'' | LineRemoved \<Rightarrow> CHR ''-'')
       # dl_text l @ newline"

definition unified :: "string \<Rightarrow> bool \<Rightarrow> bool \<Rightarrow> hunk list \<Rightarrow> string" where
  "unified label old_exists new_exists hs =
     ''--- '' @ (if old_exists then ''a/'' @ label else ''/dev/null'') @ newline
     @ ''+++ '' @ (if new_exists then ''b/'' @ label else ''/dev/null'') @ newline
     @ concat (map (\<lambda>h.
         ''@@ -'' @ show_nat (hk_old_start h) @ '','' @ show_nat (hk_old_lines h) @ '' +''
         @ show_nat (hk_new_start h) @ '','' @ show_nat (hk_new_lines h) @ '' @@'' @ newline
         @ concat (map unified_line (hk_lines h))) hs)"

section \<open>The specification: longest common subsequences\<close>

fun lcs_len :: "'a list \<Rightarrow> 'a list \<Rightarrow> nat" where
  "lcs_len [] ys = 0"
| "lcs_len (x # xs) [] = 0"
| "lcs_len (x # xs) (y # ys) =
     (if x = y then lcs_len xs ys + 1 else max (lcs_len xs (y # ys)) (lcs_len (x # xs) ys))"

lemma lcs_len_Nil2 [simp]: "lcs_len xs [] = 0"
  by (cases xs) simp_all

lemma lcs_len_upper: "subseq s xs \<Longrightarrow> subseq s ys \<Longrightarrow> length s \<le> lcs_len xs ys"
proof (induction xs ys arbitrary: s rule: lcs_len.induct)
  case (3 x xs y ys)
  show ?case
  proof (cases s)
    case (Cons z zs)
    show ?thesis
    proof (cases "x = y")
      case True
      show ?thesis
      proof (cases "z = x")
        case True
        then have "subseq zs xs" "subseq zs ys" using 3(4,5) Cons \<open>x = y\<close> by simp_all
        from 3(1)[OF \<open>x = y\<close> this] show ?thesis using Cons \<open>x = y\<close> by simp
      next
        case False
        then have "subseq s xs" "subseq s ys" using 3(4,5) Cons \<open>x = y\<close> by simp_all
        from 3(1)[OF \<open>x = y\<close> this] show ?thesis using \<open>x = y\<close> by simp
      qed
    next
      case False
      show ?thesis
      proof (cases "z = x")
        case True
        then have "subseq s ys" using 3(5) Cons False by simp
        from 3(3)[OF False 3(4) this] show ?thesis using False by simp
      next
        case ne: False
        then have "subseq s xs" using 3(4) Cons by simp
        from 3(2)[OF False this 3(5)] show ?thesis using False by simp
      qed
    qed
  qed simp
qed simp_all

lemma lcs_len_reached: "\<exists>s. subseq s xs \<and> subseq s ys \<and> length s = lcs_len xs ys"
proof (induction xs ys rule: lcs_len.induct)
  case (3 x xs y ys)
  show ?case
  proof (cases "x = y")
    case True
    from 3(1)[OF True] obtain s where "subseq s xs" "subseq s ys" "length s = lcs_len xs ys" by blast
    with True show ?thesis by (intro exI[of _ "x # s"]) simp
  next
    case False
    show ?thesis
    proof (cases "lcs_len (x # xs) ys \<le> lcs_len xs (y # ys)")
      case True
      with 3(2)[OF False] False show ?thesis by (auto simp: max_def)
    next
      case le: False
      with 3(3)[OF False] False show ?thesis by (auto simp: max_def)
    qed
  qed
qed auto

lemma lcs_len_greatest:
  "(\<And>s. subseq s xs \<Longrightarrow> subseq s ys \<Longrightarrow> \<exists>t. length t = length s \<and> subseq t xs' \<and> subseq t ys')
     \<Longrightarrow> lcs_len xs ys \<le> lcs_len xs' ys'"
  using lcs_len_reached[of xs ys] lcs_len_upper by metis

lemma subseq_rev: "subseq s xs \<Longrightarrow> subseq (rev s) (rev xs)"
proof (induction s xs rule: list_emb.induct)
  case (list_emb_Cons xs ys y)
  then show ?case by (simp add: list_emb_append2 subseq_rev_drop_many)
next
  case (list_emb_Cons2 x y xs ys)
  then show ?case by simp
qed simp

lemma lcs_len_rev: "lcs_len (rev xs) (rev ys) = lcs_len xs ys"
proof -
  have le: "lcs_len us vs \<le> lcs_len (rev us) (rev vs)" for us vs :: "'a list"
  proof (rule lcs_len_greatest)
    fix s assume "subseq s us" "subseq s vs"
    then show "\<exists>t. length t = length s \<and> subseq t (rev us) \<and> subseq t (rev vs)"
      by (intro exI[of _ "rev s"]) (simp add: subseq_rev)
  qed
  from le[of xs ys] le[of "rev xs" "rev ys"] show ?thesis by simp
qed

lemma lcs_len_prefix: "lcs_len (p @ xs) (p @ ys) = length p + lcs_len xs ys"
  by (induction p) simp_all

lemma lcs_len_suffix: "lcs_len (xs @ s) (ys @ s) = lcs_len xs ys + length s"
  using lcs_len_rev[of "xs @ s" "ys @ s"] lcs_len_rev[of xs ys] by (simp add: lcs_len_prefix)

section \<open>The table holds the lengths\<close>

definition lcs_values :: "'a list \<Rightarrow> 'a list \<Rightarrow> nat list" where
  "lcs_values a b = map (\<lambda>j. lcs_len a (drop j b)) [0..<length b + 1]"

lemma lcs_values_Cons: "lcs_values a (y # ys) = lcs_len a (y # ys) # lcs_values a ys"
proof -
  have "[0..<length (y # ys) + 1] = 0 # map Suc [0..<length ys + 1]"
    by (simp add: upt_conv_Cons map_Suc_upt del: upt_Suc)
  then show ?thesis by (simp add: lcs_values_def comp_def del: upt_Suc)
qed

lemma lcs_values_hd: "hd (lcs_values a b) = lcs_len a b"
proof (cases b)
  case Nil
  then show ?thesis by (simp add: lcs_values_def)
next
  case (Cons y ys)
  then show ?thesis by (simp add: lcs_values_Cons)
qed

lemma lcs_row_values: "lcs_row x b (lcs_values a b) = lcs_values (x # a) b"
proof (induction b)
  case Nil
  then show ?case by (simp add: lcs_values_def)
next
  case (Cons y ys)
  then show ?case by (simp add: lcs_values_Cons lcs_values_hd Let_def)
qed

lemma lcs_table_hd: "hd (lcs_table a b) = lcs_values a b"
proof (induction a)
  case Nil
  show ?case by (simp add: lcs_values_def map_replicate_const del: upt_Suc replicate_Suc)
next
  case (Cons x a)
  then show ?case by (simp add: lcs_row_values)
qed

lemma lcs_table_nth: "i \<le> length a \<Longrightarrow> lcs_table a b ! i = lcs_values (drop i a) b"
proof (induction a arbitrary: i)
  case Nil
  then show ?case using lcs_table_hd[of "[]" b] by simp
next
  case (Cons x a)
  then show ?case
    by (cases i) (simp_all add: lcs_table_hd lcs_row_values)
qed

lemma lcs_table_cell:
  "i \<le> length a \<Longrightarrow> j \<le> length b \<Longrightarrow> lcs_table a b ! i ! j = lcs_len (drop i a) (drop j b)"
  by (simp add: lcs_table_nth lcs_values_def del: upt_Suc)

section \<open>What a script says\<close>

definition old_side :: "diff_line list \<Rightarrow> diff_line list" where
  "old_side ls = filter (\<lambda>l. dl_kind l \<noteq> LineAdded) ls"

definition new_side :: "diff_line list \<Rightarrow> diff_line list" where
  "new_side ls = filter (\<lambda>l. dl_kind l \<noteq> LineRemoved) ls"

text \<open>
  \<open>spells i j xs ys ls\<close>: read from line \<open>i\<close> of the old file and \<open>j\<close> of the new one, the script
  has the lines \<open>xs\<close> on its old side and \<open>ys\<close> on its new side, numbered one by one, and a line
  has a number only on the sides it is on.
\<close>

definition spells :: "nat \<Rightarrow> nat \<Rightarrow> string list \<Rightarrow> string list \<Rightarrow> diff_line list \<Rightarrow> bool" where
  "spells i j xs ys ls \<longleftrightarrow>
     map dl_text (old_side ls) = xs \<and> map dl_text (new_side ls) = ys
   \<and> map dl_old_no (old_side ls) = map Some [i + 1..<i + 1 + length xs]
   \<and> map dl_new_no (new_side ls) = map Some [j + 1..<j + 1 + length ys]
   \<and> (\<forall>l \<in> set ls. (dl_kind l = LineAdded \<longrightarrow> dl_old_no l = None) \<and> (dl_kind l = LineRemoved \<longrightarrow> dl_new_no l = None))"

definition context_count :: "diff_line list \<Rightarrow> nat" where
  "context_count ls = length (filter (\<lambda>l. dl_kind l = LineContext) ls)"

lemma spells_Nil [simp]: "spells i j [] [] []"
  by (simp add: spells_def old_side_def new_side_def)

lemma map_Some_upt_append:
  assumes "map f u = map Some [k + 1..<k + 1 + m]" and "map f v = map Some [k + m + 1..<k + m + 1 + n]"
  shows "map f (u @ v) = map Some [k + 1..<k + 1 + (m + n)]"
proof -
  have "[k + 1..<k + 1 + (m + n)] = [k + 1..<k + 1 + m] @ [k + m + 1..<k + m + 1 + n]"
    using upt_add_eq_append[of "k + 1" "k + 1 + m" n] by (simp add: ac_simps)
  with assms show ?thesis by simp
qed

lemma spells_append:
  assumes "spells i j xs ys ls" and "spells (i + length xs) (j + length ys) xs' ys' ls'"
  shows "spells i j (xs @ xs') (ys @ ys') (ls @ ls')"
proof -
  have "map dl_old_no (old_side ls @ old_side ls') = map Some [i + 1..<i + 1 + (length xs + length xs')]"
    using assms unfolding spells_def by (intro map_Some_upt_append) blast+
  moreover have "map dl_new_no (new_side ls @ new_side ls') = map Some [j + 1..<j + 1 + (length ys + length ys')]"
    using assms unfolding spells_def by (intro map_Some_upt_append) blast+
  moreover have "old_side (ls @ ls') = old_side ls @ old_side ls'" "new_side (ls @ ls') = new_side ls @ new_side ls'"
    by (simp_all add: old_side_def new_side_def)
  ultimately show ?thesis using assms unfolding spells_def by (auto simp del: upt_Suc)
qed

lemma spells_one:
  "spells i j [t] [t] [context_line t (i + 1) (j + 1)]"
  "spells i j [t] [] [removed_line t (i + 1)]"
  "spells i j [] [t] [added_line t (j + 1)]"
  by (simp_all add: spells_def old_side_def new_side_def context_line_def removed_line_def added_line_def)

lemma spells_context: "spells (i + 1) (j + 1) xs ys ls \<Longrightarrow> spells i j (t # xs) (t # ys) (context_line t (i + 1) (j + 1) # ls)"
  using spells_append[OF spells_one(1)[of i j t], of xs ys ls] by simp

lemma spells_removed: "spells (i + 1) j xs ys ls \<Longrightarrow> spells i j (t # xs) ys (removed_line t (i + 1) # ls)"
  using spells_append[OF spells_one(2)[of i j t], of xs ys ls] by simp

lemma spells_added: "spells i (j + 1) xs ys ls \<Longrightarrow> spells i j xs (t # ys) (added_line t (j + 1) # ls)"
  using spells_append[OF spells_one(3)[of i j t], of xs ys ls] by simp

lemma spells_removed_run:
  "spells i j xs [] (map (\<lambda>k. removed_line (xs ! k) (i + k + 1)) [0..<length xs])"
proof (induction xs arbitrary: i)
  case (Cons x xs)
  have "[0..<length (x # xs)] = 0 # map Suc [0..<length xs]"
    by (simp add: upt_conv_Cons map_Suc_upt del: upt_Suc)
  with spells_removed[OF Cons[of "i + 1"], of x] show ?case by (simp add: comp_def del: upt_Suc)
qed simp

lemma spells_added_run:
  "spells i j [] ys (map (\<lambda>k. added_line (ys ! k) (j + k + 1)) [0..<length ys])"
proof (induction ys arbitrary: j)
  case (Cons y ys)
  have "[0..<length (y # ys)] = 0 # map Suc [0..<length ys]"
    by (simp add: upt_conv_Cons map_Suc_upt del: upt_Suc)
  with spells_added[OF Cons[of "j + 1"], of y] show ?case by (simp add: comp_def del: upt_Suc)
qed simp

lemma spells_context_run:
  "spells i j xs xs (map (\<lambda>k. context_line (xs ! k) (i + k + 1) (j + k + 1)) [0..<length xs])"
proof (induction xs arbitrary: i j)
  case (Cons x xs)
  have "[0..<length (x # xs)] = 0 # map Suc [0..<length xs]"
    by (simp add: upt_conv_Cons map_Suc_upt del: upt_Suc)
  with spells_context[OF Cons[of "i + 1" "j + 1"], of x] show ?case by (simp add: comp_def del: upt_Suc)
qed simp

lemma map_from: "map f [i..<n] = map (\<lambda>k. f (i + k)) [0..<n - i]"
  by (rule nth_equalityI) simp_all

lemma rest_lines_spells:
  assumes "i \<le> length a" and "j \<le> length b"
  shows "spells (before + i) (before + j) (drop i a) (drop j b) (rest_lines before a b i j)"
proof -
  have r: "map (\<lambda>i. removed_line (a ! i) (before + i + 1)) [i..<length a]
      = map (\<lambda>k. removed_line (drop i a ! k) (before + i + k + 1)) [0..<length (drop i a)]"
    using assms by (subst map_from) (simp add: ac_simps)
  have d: "map (\<lambda>j. added_line (b ! j) (before + j + 1)) [j..<length b]
      = map (\<lambda>k. added_line (drop j b ! k) (before + j + k + 1)) [0..<length (drop j b)]"
    using assms by (subst map_from) (simp add: ac_simps)
  have "spells (before + i) (before + j) (drop i a @ []) ([] @ drop j b) (rest_lines before a b i j)"
    unfolding rest_lines_def r d
    using spells_added_run[of "before + i + length (drop i a)" "before + j" "drop j b"]
    by (intro spells_append[OF spells_removed_run]) simp
  then show ?thesis by simp
qed

lemma walk_spells:
  "i \<le> length a \<Longrightarrow> j \<le> length b \<Longrightarrow>
     spells (before + i) (before + j) (drop i a) (drop j b) (walk before table a b i j)"
proof (induction before table a b i j rule: walk.induct)
  case (1 before table a b i j)
  show ?case
  proof (cases "i < length a \<and> j < length b")
    case True
    then have dr: "drop i a = a ! i # drop (i + 1) a" "drop j b = b ! j # drop (j + 1) b"
      by (simp_all add: Cons_nth_drop_Suc)
    consider "a ! i = b ! j" | "a ! i \<noteq> b ! j" "table ! i ! (j + 1) \<le> table ! (i + 1) ! j"
      | "a ! i \<noteq> b ! j" "\<not> table ! i ! (j + 1) \<le> table ! (i + 1) ! j" by blast
    then show ?thesis
    proof cases
      case 1
      from "1.IH"(1)[OF True 1] True have
        "spells (before + i + 1) (before + j + 1) (drop (i + 1) a) (drop (j + 1) b) (walk before table a b (i + 1) (j + 1))"
        by (simp add: ac_simps)
      from spells_context[OF this, of "a ! i"] True 1 show ?thesis
        unfolding dr by (subst walk.simps) simp
    next
      case 2
      from "1.IH"(2)[OF True 2] True have
        "spells (before + i + 1) (before + j) (drop (i + 1) a) (drop j b) (walk before table a b (i + 1) j)"
        by (simp add: ac_simps)
      from spells_removed[OF this, of "a ! i"] True 2 show ?thesis
        unfolding dr(1) by (subst walk.simps) simp
    next
      case 3
      from "1.IH"(3)[OF True 3] True have
        "spells (before + i) (before + j + 1) (drop i a) (drop (j + 1) b) (walk before table a b i (j + 1))"
        by (simp add: ac_simps)
      from spells_added[OF this, of "b ! j"] True 3 show ?thesis
        unfolding dr(2) by (subst walk.simps) simp
    qed
  next
    case False
    then have "walk before table a b i j = rest_lines before a b i j" by (subst walk.simps) (simp only: if_False)
    with rest_lines_spells[OF 1(4,5)] show ?thesis by simp
  qed
qed

lemma context_count_simps [simp]:
  "context_count [] = 0"
  "context_count (context_line t m n # ls) = context_count ls + 1"
  "context_count (removed_line t m # ls) = context_count ls"
  "context_count (added_line t m # ls) = context_count ls"
  "context_count (ls @ ls') = context_count ls + context_count ls'"
  by (simp_all add: context_count_def context_line_def removed_line_def added_line_def)

lemma context_count_rest [simp]: "context_count (rest_lines before a b i j) = 0"
  by (auto simp: context_count_def rest_lines_def removed_line_def added_line_def filter_empty_conv)

lemma context_count_run: "context_count (map (\<lambda>k. context_line (f k) (g k) (h k)) ks) = length ks"
  by (induction ks) simp_all

lemma walk_context:
  "i \<le> length a \<Longrightarrow> j \<le> length b \<Longrightarrow>
     context_count (walk before (lcs_table a b) a b i j) = lcs_len (drop i a) (drop j b)"
proof (induction before "lcs_table a b" a b i j rule: walk.induct)
  case (1 before a b i j)
  show ?case
  proof (cases "i < length a \<and> j < length b")
    case True
    then have dr: "drop i a = a ! i # drop (i + 1) a" "drop j b = b ! j # drop (j + 1) b"
      by (simp_all add: Cons_nth_drop_Suc)
    from True have cells: "lcs_table a b ! i ! (j + 1) = lcs_len (drop i a) (drop (j + 1) b)"
      "lcs_table a b ! (i + 1) ! j = lcs_len (drop (i + 1) a) (drop j b)"
      by (simp_all add: lcs_table_cell)
    consider "a ! i = b ! j" | "a ! i \<noteq> b ! j" "lcs_table a b ! i ! (j + 1) \<le> lcs_table a b ! (i + 1) ! j"
      | "a ! i \<noteq> b ! j" "\<not> lcs_table a b ! i ! (j + 1) \<le> lcs_table a b ! (i + 1) ! j" by blast
    then show ?thesis
    proof cases
      case 1
      with "1.hyps"(1)[OF True 1] True show ?thesis
        unfolding dr by (subst walk.simps) simp
    next
      case 2
      with "1.hyps"(2)[OF True 2] True cells have "context_count (walk before (lcs_table a b) a b i j)
          = max (lcs_len (drop (i + 1) a) (drop j b)) (lcs_len (drop i a) (drop (j + 1) b))"
        by (subst walk.simps) simp
      with 2 show ?thesis unfolding dr by simp
    next
      case 3
      with "1.hyps"(3)[OF True 3] True cells have "context_count (walk before (lcs_table a b) a b i j)
          = max (lcs_len (drop (i + 1) a) (drop j b)) (lcs_len (drop i a) (drop (j + 1) b))"
        by (subst walk.simps) simp
      with 3 show ?thesis unfolding dr by simp
    qed
  next
    case False
    then show ?thesis by (subst walk.simps) (auto simp: not_less)
  qed
qed

section \<open>The whole script\<close>

lemma common_prefix_Nil [simp]: "common_prefix [] ys = 0" "common_prefix xs [] = 0"
  by (simp_all add: common_prefix_def)

lemma common_prefix_Cons [simp]:
  "common_prefix (x # xs) (y # ys) = (if x = y then common_prefix xs ys + 1 else 0)"
  by (simp add: common_prefix_def)

lemma common_prefix_bound: "common_prefix xs ys \<le> length xs \<and> common_prefix xs ys \<le> length ys"
  by (induction xs ys rule: list_induct2') auto

lemma common_prefix_take: "take (common_prefix xs ys) xs = take (common_prefix xs ys) ys"
  by (induction xs ys rule: list_induct2') auto

lemma take_rev_same:
  assumes "n \<le> length xs" and "n \<le> length ys" and "take n (rev xs) = take n (rev ys)"
  shows "drop (length xs - n) xs = drop (length ys - n) ys"
  using assms by (simp add: take_rev)

text \<open>The two files fall into what they share in front, two middles, and what they share behind.\<close>

lemma trimmed_ends:
  assumes "before = common_prefix old new"
    and "max_after = min (length old) (length new) - before"
    and "after = common_prefix (take max_after (rev old)) (take max_after (rev new))"
  shows "before \<le> length old" "before \<le> length new"
    and "before + after \<le> length old" "before + after \<le> length new"
    and "take before new = take before old"
    and "drop (length new - after) new = drop (length old - after) old"
    and "old = take before old @ take (length old - after - before) (drop before old) @ drop (length old - after) old"
    and "new = take before new @ take (length new - after - before) (drop before new) @ drop (length new - after) new"
proof -
  show b: "before \<le> length old" "before \<le> length new"
    using assms(1) common_prefix_bound by auto
  have "after \<le> max_after"
    using assms(3) common_prefix_bound[of "take max_after (rev old)" "take max_after (rev new)"] by simp
  then show a: "before + after \<le> length old" "before + after \<le> length new"
    using assms(2) b by simp_all
  show "take before new = take before old"
    using assms(1) common_prefix_take[of old new] by simp
  have "take after (take max_after (rev old)) = take after (take max_after (rev new))"
    using assms(3) common_prefix_take by metis
  then have "take after (rev old) = take after (rev new)"
    using \<open>after \<le> max_after\<close> by (simp add: min_absorb1)
  with a show "drop (length new - after) new = drop (length old - after) old"
    using take_rev_same[of after old new] by simp
  have split3: "xs = take k xs @ take (length xs - n - k) (drop k xs) @ drop (length xs - n) xs"
    if "k + n \<le> length xs" for k n and xs :: "'a list"
  proof -
    have "drop (length xs - n) xs = drop (length xs - n - k) (drop k xs)"
      using that by (simp add: drop_drop)
    then have "drop k xs = take (length xs - n - k) (drop k xs) @ drop (length xs - n) xs"
      by (metis append_take_drop_id)
    then show ?thesis by (metis append_take_drop_id)
  qed
  show "old = take before old @ take (length old - after - before) (drop before old) @ drop (length old - after) old"
    using split3 a(1) by blast
  show "new = take before new @ take (length new - after - before) (drop before new) @ drop (length new - after) new"
    using split3 a(2) by blast
qed

lemma middle_script_spells:
  "spells before before a b (middle_script before a b)"
  using walk_spells[of 0 a 0 b before] rest_lines_spells[of 0 a 0 b before]
  by (simp add: middle_script_def)

lemma middle_script_context:
  "length a * length b \<le> LCS_CELL_CAP \<Longrightarrow> context_count (middle_script before a b) = lcs_len a b"
  using walk_context[of 0 a 0 b before] by (auto simp: middle_script_def)

lemma edit_script_parts:
  obtains front rear a b before after where
    "old = front @ a @ rear" "new = front @ b @ rear"
    "length front = before" "length rear = after"
    "edit_script old new =
       map (\<lambda>k. context_line (front ! k) (0 + k + 1) (0 + k + 1)) [0..<length front]
       @ middle_script before a b
       @ map (\<lambda>k. context_line (rear ! k) (before + length a + k + 1) (before + length b + k + 1)) [0..<length rear]"
proof -
  define before where "before = common_prefix old new"
  define max_after where "max_after = min (length old) (length new) - before"
  define after where "after = common_prefix (take max_after (rev old)) (take max_after (rev new))"
  note ends = trimmed_ends[OF before_def max_after_def after_def]
  let ?a = "take (length old - after - before) (drop before old)"
  let ?b = "take (length new - after - before) (drop before new)"
  let ?front = "take before old" and ?rear = "drop (length old - after) old"
  have lens: "length ?front = before" "length ?rear = after"
    "before + length ?a = length old - after" "before + length ?b = length new - after"
    using ends(1-4) by simp_all
  have "edit_script old new =
      map (\<lambda>i. context_line (old ! i) (i + 1) (i + 1)) [0..<before] @ middle_script before ?a ?b
      @ map (\<lambda>k. context_line (old ! (length old - after + k)) (length old - after + k + 1)
               (length new - after + k + 1)) [0..<after]"
    by (simp add: edit_script_def before_def max_after_def after_def Let_def)
  moreover have "map (\<lambda>i. context_line (old ! i) (i + 1) (i + 1)) [0..<before]
      = map (\<lambda>k. context_line (?front ! k) (0 + k + 1) (0 + k + 1)) [0..<length ?front]"
    using ends(1) by simp
  moreover have "map (\<lambda>k. context_line (old ! (length old - after + k)) (length old - after + k + 1)
               (length new - after + k + 1)) [0..<after]
      = map (\<lambda>k. context_line (?rear ! k) (before + length ?a + k + 1) (before + length ?b + k + 1)) [0..<length ?rear]"
    unfolding lens using ends(3) by simp
  ultimately show thesis
    using that[of ?front ?a ?rear ?b before after] ends(5-8) lens(1,2) by simp
qed

lemma edit_script_spells: "spells 0 0 old new (edit_script old new)"
proof -
  obtain front rear a b before after where
    parts: "old = front @ a @ rear" "new = front @ b @ rear" "length front = before"
    and script: "edit_script old new =
       map (\<lambda>k. context_line (front ! k) (0 + k + 1) (0 + k + 1)) [0..<length front]
       @ middle_script before a b
       @ map (\<lambda>k. context_line (rear ! k) (before + length a + k + 1) (before + length b + k + 1)) [0..<length rear]"
    by (rule edit_script_parts)
  have "spells (0 + length front) (0 + length front) (a @ rear) (b @ rear) (middle_script before a b
       @ map (\<lambda>k. context_line (rear ! k) (before + length a + k + 1) (before + length b + k + 1)) [0..<length rear])"
    using spells_context_run[of "before + length a" "before + length b" rear] parts(3)
    by (intro spells_append) (simp_all add: middle_script_spells)
  from spells_append[OF spells_context_run[of 0 0 front] this] show ?thesis
    unfolding script using parts(1,2) by simp
qed

lemma edit_script_longest:
  assumes "length old * length new \<le> LCS_CELL_CAP"
  shows "context_count (edit_script old new) = lcs_len old new"
proof -
  obtain front rear a b before after where
    parts: "old = front @ a @ rear" "new = front @ b @ rear"
    and script: "edit_script old new =
       map (\<lambda>k. context_line (front ! k) (0 + k + 1) (0 + k + 1)) [0..<length front]
       @ middle_script before a b
       @ map (\<lambda>k. context_line (rear ! k) (before + length a + k + 1) (before + length b + k + 1)) [0..<length rear]"
    by (rule edit_script_parts)
  have "length a * length b \<le> length old * length new"
    unfolding parts by (intro mult_le_mono) simp_all
  with assms have "context_count (middle_script before a b) = lcs_len a b"
    by (intro middle_script_context) simp
  then show ?thesis
    unfolding script unfolding parts by (simp add: context_count_run lcs_len_prefix lcs_len_suffix)
qed

section \<open>Hunks, read as a patch\<close>

text \<open>
  What a reader of a unified diff does: copy the old file up to where a hunk starts, write the
  hunk's new side, skip what its header says it takes of the old file. A hunk that takes no
  line of the old file starts after the line its header names.
\<close>

definition hunk_from :: "hunk \<Rightarrow> nat" where
  "hunk_from h = (if hk_old_lines h = 0 then hk_old_start h else hk_old_start h - 1)"

fun patch :: "nat \<Rightarrow> hunk list \<Rightarrow> string list \<Rightarrow> string list" where
  "patch at [] old = drop at old"
| "patch at (h # hs) old =
     slice at (hunk_from h) old @ map dl_text (new_side (hk_lines h))
     @ patch (hunk_from h + hk_old_lines h) hs old"

definition is_changed :: "diff_line \<Rightarrow> bool" where
  "is_changed l \<longleftrightarrow> dl_kind l \<noteq> LineContext"

lemma changed_at_filter: "changed_at ls = filter (\<lambda>i. is_changed (ls ! i)) [0..<length ls]"
proof -
  have "map fst (filter (\<lambda>(_, l). P l) (zip [k..<k + length ls] ls)) = filter (\<lambda>i. P (ls ! (i - k))) [k..<k + length ls]"
    for P and k :: nat
  proof (induction ls arbitrary: k)
    case (Cons l ls)
    have "filter (\<lambda>i. P (ls ! (i - Suc k))) [Suc k..<Suc k + length ls]
        = filter (\<lambda>i. P ((l # ls) ! (i - k))) [Suc k..<Suc k + length ls]"
      by (rule filter_cong) (auto simp: nth_Cons' Suc_diff_le)
    with Cons[of "Suc k"] show ?case by (simp add: upt_conv_Cons del: upt_Suc)
  qed simp
  from this[of "\<lambda>l. dl_kind l \<noteq> LineContext" 0] show ?thesis
    by (simp add: changed_at_def is_changed_def)
qed

lemma group_end_split:
  assumes "sorted_wrt (<) (c # cs)"
  obtains g where "c # cs = g @ snd (group_end c cs)" "fst (group_end c cs) \<in> set g"
    "\<forall>x \<in> set g. x \<le> fst (group_end c cs)"
    "\<forall>x \<in> set (snd (group_end c cs)). fst (group_end c cs) + 7 < x"
proof -
  have "\<exists>g. e # cs = g @ snd (group_end e cs) \<and> fst (group_end e cs) \<in> set g
      \<and> (\<forall>x \<in> set g. x \<le> fst (group_end e cs)) \<and> (\<forall>x \<in> set (snd (group_end e cs)). fst (group_end e cs) + 7 < x)"
    if "sorted_wrt (<) (e # cs)" for e
    using that
  proof (induction e cs rule: group_end.induct)
    case (1 e)
    then show ?case by simp
  next
    case (2 e c cs)
    show ?case
    proof (cases "c \<le> e + 2 * CONTEXT_LINES + 1")
      case True
      with 2 obtain g where "c # cs = g @ snd (group_end c cs)" "fst (group_end c cs) \<in> set g"
        "\<forall>x \<in> set g. x \<le> fst (group_end c cs)" "\<forall>x \<in> set (snd (group_end c cs)). fst (group_end c cs) + 7 < x"
        by auto
      moreover have "e < fst (group_end c cs)" using 2(2) calculation(1,2) by (auto simp: Cons_eq_append_conv)
      moreover have "group_end e (c # cs) = group_end c cs" using True by simp
      ultimately show ?thesis by (intro exI[of _ "e # g"]) (metis append_Cons insert_iff less_imp_le list.set(2) order_refl)
    next
      case False
      with 2(2) show ?thesis by (intro exI[of _ "[e]"]) (auto simp: CONTEXT_LINES_def)
    qed
  qed
  with assms that show thesis by blast
qed

text \<open>Positions of the script, on either side.\<close>

definition old_at :: "diff_line list \<Rightarrow> nat \<Rightarrow> nat" where
  "old_at ls p = length (old_side (take p ls))"

definition new_at :: "diff_line list \<Rightarrow> nat \<Rightarrow> nat" where
  "new_at ls p = length (new_side (take p ls))"

lemma filter_slice:
  assumes "p \<le> q"
  shows "filter P (slice p q ls) = slice (length (filter P (take p ls))) (length (filter P (take q ls))) (filter P ls)"
proof -
  have q: "take q ls = take p ls @ slice p q ls"
    using assms by (simp add: slice_def) (metis le_add_diff_inverse take_add)
  have "filter P ls = filter P (take p ls) @ filter P (slice p q ls) @ filter P (drop q ls)"
    by (metis append_assoc append_take_drop_id filter_append q)
  then show ?thesis by (simp add: slice_def q)
qed

lemma at_mono: "p \<le> q \<Longrightarrow> old_at ls p \<le> old_at ls q" "p \<le> q \<Longrightarrow> new_at ls p \<le> new_at ls q"
  by (auto simp: old_at_def new_at_def old_side_def new_side_def min_absorb1
        dest!: le_Suc_ex simp: take_add)

lemma old_slice: "p \<le> q \<Longrightarrow> old_side (slice p q ls) = slice (old_at ls p) (old_at ls q) (old_side ls)"
  by (simp add: old_side_def old_at_def filter_slice)

lemma new_slice: "p \<le> q \<Longrightarrow> new_side (slice p q ls) = slice (new_at ls p) (new_at ls q) (new_side ls)"
  by (simp add: new_side_def new_at_def filter_slice)

lemma slice_map: "slice p q (map f xs) = map f (slice p q xs)"
  by (simp add: slice_def take_map drop_map)

lemma slice_append_drop: "p \<le> q \<Longrightarrow> slice p q xs @ drop q xs = drop p xs"
  by (simp add: slice_def) (metis append_take_drop_id drop_drop le_add_diff_inverse2)

lemma unchanged_sides: "\<forall>l \<in> set ls. \<not> is_changed l \<Longrightarrow> old_side ls = ls \<and> new_side ls = ls"
  by (auto simp: old_side_def new_side_def is_changed_def)

lemma find_map_first:
  "find_map f xs = (case filter (\<lambda>x. f x \<noteq> None) xs of [] \<Rightarrow> None | y # _ \<Rightarrow> f y)"
  by (induction xs) auto

lemma numbered_old:
  assumes "spells 0 0 old new ls" and "set xs \<subseteq> set ls"
  shows "filter (\<lambda>l. dl_old_no l \<noteq> None) xs = old_side xs"
proof -
  have "(dl_old_no l \<noteq> None) = (dl_kind l \<noteq> LineAdded)" if "l \<in> set ls" for l
  proof (cases "dl_kind l = LineAdded")
    case True
    with assms(1) that show ?thesis by (simp add: spells_def)
  next
    case False
    with that have "dl_old_no l \<in> set (map dl_old_no (old_side ls))" by (simp add: old_side_def)
    with assms(1) False show ?thesis by (auto simp: spells_def simp del: upt_Suc)
  qed
  with assms(2) show ?thesis unfolding old_side_def by (intro filter_cong) auto
qed

lemma old_numbers:
  assumes "spells 0 0 old new ls" and "p \<le> q"
  shows "map dl_old_no (old_side (slice p q ls)) = slice (old_at ls p) (old_at ls q) (map Some [1..<1 + length old])"
  using assms by (simp add: spells_def old_slice slice_map[symmetric] del: upt_Suc)

lemma take_is_slice: "take p xs = slice 0 p xs"
  by (simp add: slice_def)

lemma old_at_le: "spells 0 0 old new ls \<Longrightarrow> old_at ls p \<le> length old"
  by (auto simp: spells_def old_at_def old_side_def)
     (metis append_take_drop_id filter_append le_add1 length_append length_map)

lemma slice_head:
  assumes "x # r = slice p q xs"
  shows "p < length xs \<and> x = xs ! p"
proof -
  obtain ys where "drop p xs = x # ys" using assms by (cases "q - p"; cases "drop p xs") (auto simp: slice_def)
  then show ?thesis by (metis drop_all list.distinct(1) not_less nth_via_drop)
qed

lemma start_no_old:
  assumes "spells 0 0 old new ls" and "s \<le> t"
  shows "start_no dl_old_no (slice s t ls) (take s ls)
      = (if old_side (slice s t ls) = [] then old_at ls s else old_at ls s + 1)"
proof (cases "old_side (slice s t ls)")
  case (Cons y r)
  have sub: "set (slice s t ls) \<subseteq> set ls"
    by (auto simp: slice_def dest!: in_set_takeD in_set_dropD)
  have "dl_old_no y # map dl_old_no r = slice (old_at ls s) (old_at ls t) (map Some [1..<1 + length old])"
    using old_numbers[OF assms] Cons by simp
  then have "dl_old_no y = Some (old_at ls s + 1)"
    by (auto dest!: slice_head simp del: upt_Suc)
  then show ?thesis using Cons numbered_old[OF assms(1) sub]
    by (simp add: start_no_def find_map_first)
next
  case Nil
  have subs: "set (slice s t ls) \<subseteq> set ls" "set (rev (take s ls)) \<subseteq> set ls"
    by (auto simp: slice_def dest!: in_set_takeD in_set_dropD)
  have "map dl_old_no (old_side (take s ls)) = map Some [1..<1 + old_at ls s]"
    using old_numbers[OF assms(1), of 0 s] old_at_le[OF assms(1), of s]
    by (simp add: take_is_slice[symmetric] old_at_def[of ls 0] old_side_def[of "[]"] take_map del: upt_Suc)
  moreover have "map dl_old_no (old_side (rev (take s ls))) = rev (map dl_old_no (old_side (take s ls)))"
    by (simp add: old_side_def rev_filter rev_map)
  ultimately have rv: "map dl_old_no (old_side (rev (take s ls))) = rev (map Some [1..<1 + old_at ls s])"
    by simp
  show ?thesis
  proof (cases "old_side (rev (take s ls))")
    case c: Nil
    with arg_cong[OF rv, of length] have "old_at ls s = 0" by (simp del: upt_Suc)
    with c Nil numbered_old[OF assms(1) subs(1)] numbered_old[OF assms(1) subs(2)] show ?thesis
      by (simp add: start_no_def find_map_first)
  next
    case c: (Cons y r)
    with rv have "dl_old_no y = Some (old_at ls s)" by (cases "old_at ls s") auto
    with c Nil numbered_old[OF assms(1) subs(1)] numbered_old[OF assms(1) subs(2)] show ?thesis
      by (simp add: start_no_def find_map_first)
  qed
qed

lemma hunk_from_make:
  assumes "spells 0 0 old new ls" and "s \<le> t"
  shows "hunk_from (make_hunk ls (s, t)) = old_at ls s"
    and "hunk_from (make_hunk ls (s, t)) + hk_old_lines (make_hunk ls (s, t)) = old_at ls t"
proof -
  have n: "hk_old_lines (make_hunk ls (s, t)) = length (old_side (slice s t ls))"
    by (simp add: make_hunk_def Let_def old_side_def)
  show from_at: "hunk_from (make_hunk ls (s, t)) = old_at ls s"
    using start_no_old[OF assms] n by (simp add: hunk_from_def make_hunk_def Let_def)
  have "take t ls = take s ls @ slice s t ls"
    using assms(2) by (simp add: slice_def) (metis le_add_diff_inverse take_add)
  then have "old_at ls t = old_at ls s + length (old_side (slice s t ls))"
    by (simp add: old_at_def old_side_def)
  with from_at n show "hunk_from (make_hunk ls (s, t)) + hk_old_lines (make_hunk ls (s, t)) = old_at ls t"
    by simp
qed

text \<open>Between two hunks both files have the same lines.\<close>

lemma unchanged_slice:
  assumes "spells 0 0 old new ls" and "p \<le> q" and "q \<le> length ls" and "\<forall>i \<in> {p..<q}. \<not> is_changed (ls ! i)"
  shows "slice (old_at ls p) (old_at ls q) old = slice (new_at ls p) (new_at ls q) new"
proof -
  have "\<forall>l \<in> set (slice p q ls). \<not> is_changed l"
    using assms(3,4) by (auto simp: slice_def in_set_conv_nth)
  then have "old_side (slice p q ls) = new_side (slice p q ls)"
    using unchanged_sides by metis
  moreover have "slice (old_at ls p) (old_at ls q) old = map dl_text (old_side (slice p q ls))"
    using assms(1,2) by (simp add: spells_def old_slice slice_map[symmetric] del: upt_Suc)
  moreover have "slice (new_at ls p) (new_at ls q) new = map dl_text (new_side (slice p q ls))"
    using assms(1,2) by (simp add: spells_def new_slice slice_map[symmetric] del: upt_Suc)
  ultimately show ?thesis by simp
qed

lemma at_end:
  assumes "spells 0 0 old new ls"
  shows "old_at ls (length ls) = length old" "new_at ls (length ls) = length new"
  using assms by (auto simp: spells_def old_at_def new_at_def dest: map_eq_imp_length_eq)

lemma filter_rest:
  assumes "filter P [p..<n] = g @ r" and "\<forall>x \<in> set g. x < t" and "\<forall>x \<in> set r. t \<le> x" and "p \<le> t"
  shows "r = filter P [t..<n]"
proof -
  have "filter (\<lambda>x. t \<le> x) (g @ r) = r"
    using assms(2,3) by (auto simp: filter_id_conv filter_empty_conv not_le)
  moreover have "filter (\<lambda>x. t \<le> x) (filter P [p..<n]) = filter P (filter (\<lambda>x. t \<le> x) [p..<n])"
    by (simp add: conj_commute)
  moreover have "filter (\<lambda>x. t \<le> x) [p..<n] = [t..<n]"
  proof (cases "t \<le> n")
    case True
    then have "[p..<n] = [p..<t] @ [t..<n]" using assms(4) by (metis le_Suc_ex upt_add_eq_append)
    then show ?thesis by (auto simp: filter_id_conv filter_empty_conv)
  qed (auto simp: filter_empty_conv)
  ultimately show ?thesis using assms(1) by simp
qed

text \<open>One hunk: it starts after the last one, no change lies between, the rest lies behind it.\<close>

lemma hunk_step:
  assumes cs: "c # cs = filter (\<lambda>i. is_changed (ls ! i)) [p..<length ls]"
    and far: "\<forall>x \<in> set (c # cs). p \<le> x - CONTEXT_LINES"
    and ranges: "s = c - CONTEXT_LINES" "t = min (fst (group_end c cs) + CONTEXT_LINES + 1) (length ls)"
  shows "p \<le> s" "s \<le> t" "t \<le> length ls" "\<forall>i \<in> {p..<s}. \<not> is_changed (ls ! i)"
    and "snd (group_end c cs) = filter (\<lambda>i. is_changed (ls ! i)) [t..<length ls]"
    and "\<forall>x \<in> set (snd (group_end c cs)). t \<le> x - CONTEXT_LINES"
proof -
  define e where "e = fst (group_end c cs)"
  define r where "r = snd (group_end c cs)"
  have sorted: "sorted_wrt (<) (c # cs)"
    unfolding cs by (intro sorted_wrt_filter) simp
  obtain g where g: "c # cs = g @ r" "e \<in> set g" "\<forall>x \<in> set g. x \<le> e" "\<forall>x \<in> set r. e + 7 < x"
    using group_end_split[OF sorted] unfolding e_def r_def by blast
  have mem: "x \<in> set (c # cs) \<Longrightarrow> p \<le> x \<and> x < length ls" for x
    unfolding cs by simp
  have e: "e < length ls" "c \<le> e"
    using g(1,2) mem[of e] sorted by (auto simp: Cons_eq_append_conv intro: less_imp_le)
  with far mem[of c] show st: "p \<le> s" "s \<le> t" "t \<le> length ls"
    by (auto simp: ranges e_def CONTEXT_LINES_def)
  have "e < t" using e by (simp add: ranges e_def CONTEXT_LINES_def)
  have below: "t \<le> x \<and> t \<le> x - CONTEXT_LINES" if "x \<in> set r" for x
    using g(4) that by (auto simp: ranges e_def[symmetric] CONTEXT_LINES_def)
  then show "\<forall>x \<in> set (snd (group_end c cs)). t \<le> x - CONTEXT_LINES" by (simp add: r_def)
  show "snd (group_end c cs) = filter (\<lambda>i. is_changed (ls ! i)) [t..<length ls]"
    unfolding r_def[symmetric]
    by (rule filter_rest[where p = p and g = g]) (use cs g st below \<open>e < t\<close> in auto)
  show "\<forall>i \<in> {p..<s}. \<not> is_changed (ls ! i)"
  proof (rule ballI, rule notI)
    fix i assume i: "i \<in> {p..<s}" and "is_changed (ls ! i)"
    then have "i \<in> set (c # cs)" unfolding cs using st by simp
    with sorted i show False by (auto simp: ranges)
  qed
qed

lemma patch_hunks:
  assumes "spells 0 0 old new ls"
  shows "cs = filter (\<lambda>i. is_changed (ls ! i)) [p..<length ls] \<Longrightarrow> p \<le> length ls
    \<Longrightarrow> \<forall>c \<in> set cs. p \<le> c - CONTEXT_LINES
    \<Longrightarrow> patch (old_at ls p) (map (make_hunk ls) (hunk_ranges (length ls) cs)) old = drop (new_at ls p) new"
proof (induction "length ls" cs arbitrary: p rule: hunk_ranges.induct)
  case 1
  then have "\<forall>i \<in> {p..<length ls}. \<not> is_changed (ls ! i)" by (auto simp: filter_empty_conv dest!: sym[of "[]"])
  from unchanged_slice[OF assms 1(2) order_refl this] at_end[OF assms] show ?case
    by (simp add: slice_def)
next
  case (2 c cs)
  define s where "s = c - CONTEXT_LINES"
  define t where "t = min (fst (group_end c cs) + CONTEXT_LINES + 1) (length ls)"
  note step = hunk_step[OF 2(2) 2(4) s_def t_def]
  have rest: "patch (old_at ls t) (map (make_hunk ls) (hunk_ranges (length ls) (snd (group_end c cs)))) old
      = drop (new_at ls t) new"
    using 2(1)[OF step(5,3,6)] .
  have gap: "slice (old_at ls p) (old_at ls s) old = slice (new_at ls p) (new_at ls s) new"
    using unchanged_slice[OF assms step(1) _ step(4)] step(2,3) by simp
  have "map dl_text (new_side (hk_lines (make_hunk ls (s, t)))) = slice (new_at ls s) (new_at ls t) new"
    using assms step(2) by (simp add: make_hunk_def Let_def spells_def new_slice slice_map[symmetric] del: upt_Suc)
  moreover have "hunk_ranges (length ls) (c # cs) = (s, t) # hunk_ranges (length ls) (snd (group_end c cs))"
    by (simp add: s_def t_def)
  ultimately show ?case
    using gap rest hunk_from_make[OF assms step(2)] step(1,2) by (simp add: slice_append_drop at_mono)
qed

lemma hunks_keep_changes:
  "cs = filter (\<lambda>i. is_changed (ls ! i)) [p..<length ls] \<Longrightarrow> p \<le> length ls
    \<Longrightarrow> \<forall>c \<in> set cs. p \<le> c - CONTEXT_LINES
    \<Longrightarrow> filter is_changed (concat (map hk_lines (map (make_hunk ls) (hunk_ranges (length ls) cs))))
        = filter is_changed (drop p ls)"
proof (induction "length ls" cs arbitrary: p rule: hunk_ranges.induct)
  case 1
  then have "\<forall>i \<in> {p..<length ls}. \<not> is_changed (ls ! i)" by (auto simp: filter_empty_conv dest!: sym[of "[]"])
  then have "filter is_changed (drop p ls) = []" by (auto simp: filter_empty_conv in_set_conv_nth)
  then show ?case by simp
next
  case (2 c cs)
  define s where "s = c - CONTEXT_LINES"
  define t where "t = min (fst (group_end c cs) + CONTEXT_LINES + 1) (length ls)"
  note step = hunk_step[OF 2(2) 2(4) s_def t_def]
  have "filter is_changed (slice p s ls) = []"
    using step(1-4) by (auto simp: filter_empty_conv slice_def in_set_conv_nth)
  then have "filter is_changed (drop p ls) = filter is_changed (drop s ls)"
    using slice_append_drop[OF step(1), of ls] by (metis append_Nil filter_append)
  also have "\<dots> = filter is_changed (slice s t ls) @ filter is_changed (drop t ls)"
    using slice_append_drop[OF step(2), of ls] by (metis filter_append)
  finally have "filter is_changed (drop p ls) = filter is_changed (slice s t ls) @ filter is_changed (drop t ls)" .
  moreover have "hunk_ranges (length ls) (c # cs) = (s, t) # hunk_ranges (length ls) (snd (group_end c cs))"
    by (simp add: s_def t_def)
  ultimately show ?case
    using 2(1)[OF step(5,3,6)] by (simp add: make_hunk_def Let_def)
qed

lemma counts_filter:
  "counts hs = (length (filter (\<lambda>l. dl_kind l = LineAdded) (concat (map hk_lines hs))),
                length (filter (\<lambda>l. dl_kind l = LineRemoved) (concat (map hk_lines hs))))"
proof -
  have k: "foldl (\<lambda>(a, r) l. case dl_kind l of LineAdded \<Rightarrow> (a + 1, r) | LineRemoved \<Rightarrow> (a, r + 1) | LineContext \<Rightarrow> (a, r)) (a, r) ls
      = (a + length (filter (\<lambda>l. dl_kind l = LineAdded) ls), r + length (filter (\<lambda>l. dl_kind l = LineRemoved) ls))"
    for a r :: nat and ls
    by (induction ls arbitrary: a r) (auto split: line_kind.split)
  show ?thesis unfolding counts_def k by simp
qed

lemma counts_changed:
  assumes "filter is_changed (concat (map hk_lines hs)) = filter is_changed ls"
  shows "counts hs = (length (filter (\<lambda>l. dl_kind l = LineAdded) ls), length (filter (\<lambda>l. dl_kind l = LineRemoved) ls))"
proof -
  have "filter (\<lambda>l. dl_kind l = k) (filter is_changed xs) = filter (\<lambda>l. dl_kind l = k) xs" if "k \<noteq> LineContext" for k xs
    using that by (induction xs) (auto simp: is_changed_def)
  with assms show ?thesis unfolding counts_filter by (metis line_kind.distinct(1,3))
qed

lemma side_lengths:
  "length (old_side ls) = context_count ls + length (filter (\<lambda>l. dl_kind l = LineRemoved) ls)"
  "length (new_side ls) = context_count ls + length (filter (\<lambda>l. dl_kind l = LineAdded) ls)"
  by (induction ls) (auto simp: old_side_def new_side_def context_count_def, (metis line_kind.exhaust)+)

lemma edit_script_same: "filter is_changed (edit_script ls ls) = []"
proof -
  have "common_prefix ls ls = length ls" by (induction ls) simp_all
  then show ?thesis
    by (auto simp: edit_script_def middle_script_def rest_lines_def is_changed_def context_line_def filter_empty_conv)
qed

section \<open>Properties\<close>

text \<open>C16: The hunks of a diff are a correct patch: read as a unified diff (copy up to the line a
  header names, write the new side, skip what it takes of the old one), they turn the lines of
  the old file into the lines of the new one.\<close>

theorem hunks_patch_old_into_new:
  "patch 0 (hunks old new) (str_lines old) = str_lines new"
  using patch_hunks[OF edit_script_spells[of "str_lines old" "str_lines new"] changed_at_filter]
  by (simp add: hunks_def Let_def old_at_def new_at_def old_side_def new_side_def)

text \<open>C17: Within the cell cap a diff is minimal: the lines it leaves unmarked are a common
  subsequence of both files, and no common subsequence is longer.\<close>

theorem diff_keeps_a_longest_common_subsequence:
  assumes "length old * length new \<le> LCS_CELL_CAP"
  shows "\<exists>kept. kept = map dl_text (filter (\<lambda>l. dl_kind l = LineContext) (edit_script old new))
    \<and> subseq kept old \<and> subseq kept new
    \<and> (\<forall>s. subseq s old \<longrightarrow> subseq s new \<longrightarrow> length s \<le> length kept)"
proof -
  let ?kept = "map dl_text (filter (\<lambda>l. dl_kind l = LineContext) (edit_script old new))"
  have side: "subseq ?kept (map dl_text (filter (\<lambda>l. dl_kind l \<noteq> k) (edit_script old new)))" if "k \<noteq> LineContext" for k
  proof -
    have "filter (\<lambda>l. dl_kind l = LineContext) ls = filter (\<lambda>l. dl_kind l = LineContext) (filter (\<lambda>l. dl_kind l \<noteq> k) ls)" for ls
      using that by (induction ls) auto
    then show ?thesis by (metis subseq_filter_left subseq_map)
  qed
  have "subseq ?kept old" "subseq ?kept new"
    using side[of LineAdded] side[of LineRemoved] edit_script_spells[of old new]
    by (simp_all add: spells_def old_side_def new_side_def del: upt_Suc)
  moreover have "length ?kept = lcs_len old new"
    using edit_script_longest[OF assms] by (simp add: context_count_def)
  ultimately show ?thesis by (metis lcs_len_upper)
qed

theorem diff_keeps_a_longest_common_subsequence_witness:
  "length [''a'', ''b''] * length [''b'', ''c''] \<le> LCS_CELL_CAP
   \<and> subseq (map dl_text (filter (\<lambda>l. dl_kind l = LineContext) (edit_script [''a'', ''b''] [''b'', ''c'']))) [''b'', ''c'']
   \<and> map dl_kind (edit_script [''a'', ''b''] [''b'', ''c'']) = [LineRemoved, LineContext, LineAdded]"
proof -
  have cap: "length [''a'', ''b''] * length [''b'', ''c''] \<le> LCS_CELL_CAP"
    by (simp add: LCS_CELL_CAP_def)
  have "edit_script [''a'', ''b''] [''b'', ''c'']
      = [removed_line ''a'' 1, context_line ''b'' 2 1, added_line ''c'' 2]"
    by (simp add: edit_script_def common_prefix_def middle_script_def LCS_CELL_CAP_def walk.simps rest_lines_def
        numeral_2_eq_2)
  then show ?thesis
    using diff_keeps_a_longest_common_subsequence[OF cap] cap
    by (auto simp: removed_line_def context_line_def added_line_def)
qed

text \<open>The counts shown over a diff are those of the whole script: kept lines and added lines
  make up the new file, kept lines and removed lines the old one; and a diff without hunks means
  the files have the same lines.\<close>

theorem counts_add_up:
  "\<exists>kept. length (str_lines new) = kept + fst (counts (hunks old new))
        \<and> length (str_lines old) = kept + snd (counts (hunks old new))
        \<and> kept = context_count (edit_script (str_lines old) (str_lines new))
   \<and> (hunks old new = [] \<longleftrightarrow> str_lines old = str_lines new)"
proof -
  let ?ls = "edit_script (str_lines old) (str_lines new)"
  have "counts (hunks old new) = (length (filter (\<lambda>l. dl_kind l = LineAdded) ?ls), length (filter (\<lambda>l. dl_kind l = LineRemoved) ?ls))"
    unfolding hunks_def Let_def
    using hunks_keep_changes[OF changed_at_filter, of ?ls] by (intro counts_changed) simp
  moreover have "length (str_lines new) = length (new_side ?ls)" "length (str_lines old) = length (old_side ?ls)"
    using edit_script_spells[of "str_lines old" "str_lines new"] unfolding spells_def
    by (metis length_map)+
  moreover have "hunks old new = [] \<longleftrightarrow> str_lines old = str_lines new"
  proof
    assume "hunks old new = []"
    then show "str_lines old = str_lines new"
      using patch_hunks[OF edit_script_spells[of "str_lines old" "str_lines new"] changed_at_filter]
      by (simp add: hunks_def Let_def old_at_def new_at_def old_side_def new_side_def)
  next
    assume same: "str_lines old = str_lines new"
    have "changed_at (edit_script (str_lines new) (str_lines new)) = []"
      using edit_script_same[of "str_lines new"]
      by (auto simp: changed_at_filter filter_empty_conv)
    then show "hunks old new = []" by (simp add: hunks_def Let_def same)
  qed
  ultimately show ?thesis by (auto simp: side_lengths)
qed

end
