(* ===== verification/Engine_Rules.thy ===== *)
theory Engine_Rules imports Db_Store Permissions begin

text \<open>
  When work is handed to an agent app (\<open>src-tauri/src/engines/rules.rs\<close>): the mode, the user's
  rules and the guards of an agent, which agents a run is offered and why the others are not,
  the citation a handover is held to, and the routing question's options.  The rows are those of
  \<open>db/engines.rs\<close>, the catalog that of \<open>engines/catalog.rs\<close> with \<open>shared/engines.json\<close>.

  \<open>serde_json::from_str\<close> is an argument (\<open>of_json\<close>: the fields as they stand in the text), and so
  are the file system and the ids of new rows.
\<close>

section \<open>Modes and rows\<close>

definition MAX_RULE_CHARS :: nat where "MAX_RULE_CHARS = 140"
definition MAX_RULES :: nat where "MAX_RULES = 24"

datatype use_mode = UseOnRequest | UseSuggest | UseAuto

definition use_mode_parse :: "string \<Rightarrow> use_mode" where
  "use_mode_parse s = (if s = ''auto'' then UseAuto else if s = ''on_request'' then UseOnRequest else UseSuggest)"

definition use_mode_as_str :: "use_mode \<Rightarrow> string" where
  "use_mode_as_str m = (case m of UseOnRequest \<Rightarrow> ''on_request'' | UseSuggest \<Rightarrow> ''suggest'' | UseAuto \<Rightarrow> ''auto'')"

definition valid_mode :: "string \<Rightarrow> bool" where
  "valid_mode s \<longleftrightarrow> s \<in> set [''on_request'', ''suggest'', ''auto'']"

record engine_row =
  er_id :: string
  er_kind :: string
  er_display_name :: string
  er_program :: "string option"
  er_found_path :: "string option"
  er_args_json :: string
  er_env_json :: string
  er_enabled :: bool
  er_version :: "string option"
  er_signed_in :: "bool option"
  er_paid_by :: "string option"
  er_last_probe_at :: "int option"
  er_last_error :: "string option"
  er_payment :: string
  er_trust_ceiling :: string
  er_headless :: bool
  er_memory_tools :: bool
  er_app_tools :: bool
  er_model :: "string option"
  er_extra_args :: string
  er_use_mode :: string
  er_guards_json :: string
  er_rules_seeded :: bool
  er_created_at :: int
  er_updated_at :: int

definition new_engine_row :: "string \<Rightarrow> string \<Rightarrow> string \<Rightarrow> int \<Rightarrow> engine_row" where
  "new_engine_row i kind name now =
     \<lparr>er_id = i, er_kind = kind, er_display_name = name, er_program = None, er_found_path = None,
      er_args_json = ''[]'', er_env_json = ''{}'', er_enabled = False, er_version = None,
      er_signed_in = None, er_paid_by = None, er_last_probe_at = None, er_last_error = None,
      er_payment = ''plan'', er_trust_ceiling = ''confirm'', er_headless = False,
      er_memory_tools = False, er_app_tools = False, er_model = None, er_extra_args = ''[]'',
      er_use_mode = (if kind = ''acp'' then ''on_request'' else ''suggest''),
      er_guards_json = ''{}'', er_rules_seeded = False, er_created_at = now, er_updated_at = now\<rparr>"

record engine_rule =
  ru_id :: string
  ru_engine_id :: string
  ru_kind :: string
  ru_text :: string
  ru_enabled :: bool
  ru_auto :: bool
  ru_position :: int
  ru_source :: string
  ru_hits :: int
  ru_overrides :: int

text \<open>
  The three tables.  Engines stand in the order of their \<open>created_at, id\<close> and rules in the order
  of theirs, so a query that sorts by position first is a stable sort.
\<close>

record engine_tables =
  et_engines :: "engine_row list"
  et_rules :: "engine_rule list"
  et_runs :: "(string \<times> string) list"

definition list_engines :: "db \<Rightarrow> engine_tables \<Rightarrow> db_error + engine_row list" where
  "list_engines d t = (if db_readable d then Inr (et_engines t) else Inl DbError)"

definition get_engine :: "db \<Rightarrow> engine_tables \<Rightarrow> string \<Rightarrow> db_error + engine_row option" where
  "get_engine d t i =
     (if db_readable d then Inr (List.find (\<lambda>r. er_id r = i) (et_engines t)) else Inl DbError)"

definition list_engine_rules :: "db \<Rightarrow> engine_tables \<Rightarrow> string \<Rightarrow> db_error + engine_rule list" where
  "list_engine_rules d t i =
     (if db_readable d then Inr (sort_key ru_position (filter (\<lambda>r. ru_engine_id r = i) (et_rules t)))
      else Inl DbError)"

definition next_position :: "engine_tables \<Rightarrow> string \<Rightarrow> int" where
  "next_position t i =
     (let ps = map ru_position (filter (\<lambda>r. ru_engine_id r = i) (et_rules t))
      in if ps = [] then 0 else Max (set ps) + 1)"

text \<open>The position is 0 when the query fails; the insert fails then too when the store is not writable.\<close>

definition insert_engine_rule ::
  "db \<Rightarrow> engine_tables \<Rightarrow> string \<Rightarrow> engine_rule \<Rightarrow> db_error + (engine_tables \<times> engine_rule)" where
  "insert_engine_rule d t new_id r =
     (let r' = r\<lparr>ru_id := new_id, ru_hits := 0, ru_overrides := 0,
                 ru_position := (if db_readable d then next_position t (ru_engine_id r) else 0)\<rparr>
      in if db_writable d then Inr (t\<lparr>et_rules := et_rules t @ [r']\<rparr>, r') else Inl DbError)"

definition save_engine_rule :: "db \<Rightarrow> engine_tables \<Rightarrow> engine_rule \<Rightarrow> db_error + engine_tables" where
  "save_engine_rule d t r =
     (if db_writable d
      then Inr (t\<lparr>et_rules := map (\<lambda>q. if ru_id q = ru_id r
             then q\<lparr>ru_kind := ru_kind r, ru_text := ru_text r, ru_enabled := ru_enabled r,
                    ru_auto := ru_auto r, ru_source := ru_source r\<rparr> else q) (et_rules t)\<rparr>)
      else Inl DbError)"

definition delete_engine_rule :: "db \<Rightarrow> engine_tables \<Rightarrow> string \<Rightarrow> db_error + engine_tables" where
  "delete_engine_rule d t i =
     (if db_writable d then Inr (t\<lparr>et_rules := filter (\<lambda>q. ru_id q \<noteq> i) (et_rules t)\<rparr>) else Inl DbError)"

definition clear_engine_rules :: "db \<Rightarrow> engine_tables \<Rightarrow> string \<Rightarrow> db_error + engine_tables" where
  "clear_engine_rules d t i =
     (if db_writable d then Inr (t\<lparr>et_rules := filter (\<lambda>q. ru_engine_id q \<noteq> i) (et_rules t)\<rparr>) else Inl DbError)"

definition mark_engine_rules_seeded ::
  "db \<Rightarrow> engine_tables \<Rightarrow> string \<Rightarrow> string \<Rightarrow> db_error + engine_tables" where
  "mark_engine_rules_seeded d t i mode =
     (if db_writable d
      then Inr (t\<lparr>et_engines := map (\<lambda>r. if er_id r = i then r\<lparr>er_rules_seeded := True, er_use_mode := mode\<rparr> else r)
                   (et_engines t)\<rparr>)
      else Inl DbError)"

definition count_engine_runs :: "db \<Rightarrow> engine_tables \<Rightarrow> string \<Rightarrow> string \<Rightarrow> nat" where
  "count_engine_runs d t conv i =
     (if db_readable d then length (filter (\<lambda>r. r = (conv, i)) (et_runs t)) else 0)"

section \<open>Kinds, the catalog and readiness\<close>

datatype engine_kind = EngineClaudeCode | EngineCodex | EngineAcp

definition engine_kind_parse :: "string \<Rightarrow> engine_kind option" where
  "engine_kind_parse s =
     (if s = ''claude-code'' then Some EngineClaudeCode
      else if s = ''codex'' then Some EngineCodex
      else if s = ''acp'' then Some EngineAcp else None)"

definition engine_kind_as_str :: "engine_kind \<Rightarrow> string" where
  "engine_kind_as_str k =
     (case k of EngineClaudeCode \<Rightarrow> ''claude-code'' | EngineCodex \<Rightarrow> ''codex'' | EngineAcp \<Rightarrow> ''acp'')"

text \<open>The columns of the bundled catalog that the rules read: the id, and whether a way to make the agent ask is recorded.\<close>

record catalog_entry =
  cat_id :: string
  cat_kind :: engine_kind
  cat_asks :: bool

definition engine_catalog :: "catalog_entry list" where
  "engine_catalog =
     [\<lparr>cat_id = ''claude-code'', cat_kind = EngineClaudeCode, cat_asks = False\<rparr>,
      \<lparr>cat_id = ''codex'', cat_kind = EngineCodex, cat_asks = False\<rparr>,
      \<lparr>cat_id = ''acp:opencode'', cat_kind = EngineAcp, cat_asks = True\<rparr>]"

definition catalog_find :: "string \<Rightarrow> catalog_entry option" where
  "catalog_find i = List.find (\<lambda>e. cat_id e = i) engine_catalog"

definition delegate_ready :: "engine_kind \<Rightarrow> string \<Rightarrow> bool" where
  "delegate_ready k i =
     (case k of EngineClaudeCode \<Rightarrow> True
      | EngineAcp \<Rightarrow> (case catalog_find i of Some e \<Rightarrow> cat_asks e | None \<Rightarrow> False)
      | EngineCodex \<Rightarrow> True)"

definition engine_ready :: "engine_row \<Rightarrow> bool" where
  "engine_ready r = (case engine_kind_parse (er_kind r) of Some k \<Rightarrow> delegate_ready k (er_id r) | None \<Rightarrow> False)"

section \<open>Guards\<close>

record guards =
  code_projects_only :: bool
  min_trust :: string
  max_per_conversation :: nat
  not_in_projects :: "string list"

definition valid_trust :: "string \<Rightarrow> bool" where
  "valid_trust t \<longleftrightarrow> t \<in> set [''read-only'', ''confirm'', ''auto'']"

record stored_guards =
  sg_code_projects_only :: "bool option"
  sg_min_trust :: "string option"
  sg_max_per_conversation :: "nat option"
  sg_not_in_projects :: "string list option"

definition no_stored_guards :: stored_guards where
  "no_stored_guards = \<lparr>sg_code_projects_only = None, sg_min_trust = None,
     sg_max_per_conversation = None, sg_not_in_projects = None\<rparr>"

text \<open>
  The derived reader: a field may be missing or null, must not stand twice, must have its type;
  unknown fields are skipped; an array of exactly four values is read in the order of the fields.
\<close>

definition read_bool :: "json \<Rightarrow> bool option" where
  "read_bool v = (case v of JBool b \<Rightarrow> Some b | _ \<Rightarrow> None)"

definition read_u32 :: "json \<Rightarrow> nat option" where
  "read_u32 v = (case v of JInt i \<Rightarrow> if 0 \<le> i \<and> i < 2 ^ 32 then Some (nat i) else None | _ \<Rightarrow> None)"

definition read_strings :: "json \<Rightarrow> string list option" where
  "read_strings v =
     (case v of JArray xs \<Rightarrow> if list_all (\<lambda>x. json_str x \<noteq> None) xs then Some (map (the \<circ> json_str) xs) else None
      | _ \<Rightarrow> None)"

definition read_opt :: "(json \<Rightarrow> 'a option) \<Rightarrow> json \<Rightarrow> 'a option option" where
  "read_opt f v = (case v of JNull \<Rightarrow> Some None | _ \<Rightarrow> map_option Some (f v))"

definition read_field :: "(json \<Rightarrow> 'a option) \<Rightarrow> (string \<times> json) list \<Rightarrow> string \<Rightarrow> 'a option option" where
  "read_field f fs k =
     (case filter (\<lambda>(n, _). n = k) fs of
        [] \<Rightarrow> Some None | [(_, v)] \<Rightarrow> read_opt f v | _ \<Rightarrow> None)"

definition build_guards ::
  "bool option option \<Rightarrow> string option option \<Rightarrow> nat option option \<Rightarrow> string list option option
     \<Rightarrow> stored_guards option" where
  "build_guards a b c e =
     (case (a, b, c, e) of
        (Some a, Some b, Some c, Some e) \<Rightarrow>
          Some \<lparr>sg_code_projects_only = a, sg_min_trust = b, sg_max_per_conversation = c,
                sg_not_in_projects = e\<rparr>
      | _ \<Rightarrow> None)"

definition read_guards :: "json \<Rightarrow> stored_guards option" where
  "read_guards v =
     (case v of
        JObject fs \<Rightarrow>
          build_guards (read_field read_bool fs ''code_projects_only'') (read_field json_str fs ''min_trust'')
            (read_field read_u32 fs ''max_per_conversation'') (read_field read_strings fs ''not_in_projects'')
      | JArray [a, b, c, e] \<Rightarrow>
          build_guards (read_opt read_bool a) (read_opt json_str b) (read_opt read_u32 c) (read_opt read_strings e)
      | _ \<Rightarrow> None)"

definition resolve_guards :: "(string \<Rightarrow> json option) \<Rightarrow> string \<Rightarrow> string \<Rightarrow> guards" where
  "resolve_guards of_json j kind =
     (let s = (case Option.bind (of_json j) read_guards of Some s \<Rightarrow> s | None \<Rightarrow> no_stored_guards)
      in \<lparr>code_projects_only = (case sg_code_projects_only s of Some b \<Rightarrow> b | None \<Rightarrow> kind \<noteq> ''acp''),
          min_trust = (case sg_min_trust s of Some t \<Rightarrow> if valid_trust t then t else ''confirm'' | None \<Rightarrow> ''confirm''),
          max_per_conversation = clamp 1 20 (case sg_max_per_conversation s of Some n \<Rightarrow> n | None \<Rightarrow> 5),
          not_in_projects = (case sg_not_in_projects s of Some ps \<Rightarrow> ps | None \<Rightarrow> [])\<rparr>)"

text \<open>\<open>to_json\<close> before it is printed: the fields in the order of the struct.\<close>

definition guards_json :: "guards \<Rightarrow> json" where
  "guards_json g =
     JObject [(''code_projects_only'', JBool (code_projects_only g)), (''min_trust'', JString (min_trust g)),
              (''max_per_conversation'', JInt (int (max_per_conversation g))),
              (''not_in_projects'', JArray (map JString (not_in_projects g)))]"

definition validate_guards :: "guards \<Rightarrow> string + unit" where
  "validate_guards g =
     (if \<not> valid_trust (min_trust g)
      then Inl ''The lowest folder access must be read only, ask first or full.''
      else if \<not> (1 \<le> max_per_conversation g \<and> max_per_conversation g \<le> 20)
      then Inl ''The most handovers per chat is between 1 and 20.''
      else Inr ())"

record code_files =
  cf_is_file :: "path \<Rightarrow> bool"
  cf_exists :: "path \<Rightarrow> bool"
  cf_entries :: "path \<Rightarrow> string list option"

definition PROJECT_FILES :: "string list" where
  "PROJECT_FILES =
     [''Cargo.toml'', ''package.json'', ''pyproject.toml'', ''setup.py'', ''requirements.txt'', ''go.mod'',
      ''pom.xml'', ''build.gradle'', ''build.gradle.kts'', ''Gemfile'', ''composer.json'', ''CMakeLists.txt'',
      ''Makefile'', ''deno.json'', ''mix.exs'', ''pubspec.yaml'', ''Package.swift'']"

text \<open>The first \<open>n\<close> of a path and its ancestors (\<open>ancestors().take(n)\<close>).\<close>

fun first_ancestors :: "nat \<Rightarrow> path \<Rightarrow> path list" where
  "first_ancestors 0 p = []"
| "first_ancestors (Suc n) p = p # (case path_parent p of None \<Rightarrow> [] | Some q \<Rightarrow> first_ancestors n q)"

definition is_code_project :: "code_files \<Rightarrow> path \<Rightarrow> bool" where
  "is_code_project fs folder \<longleftrightarrow>
     list_ex (\<lambda>f. cf_is_file fs (folder @ [Normal f])) PROJECT_FILES
   \<or> (case cf_entries fs folder of
        None \<Rightarrow> False
      | Some names \<Rightarrow>
          list_ex (\<lambda>n. let n' = to_ascii_lowercase n
                       in ends_with n' ''.sln'' \<or> ends_with n' ''.csproj'' \<or> ends_with n' ''.fsproj'') names)
   \<or> list_ex (\<lambda>q. cf_exists fs (q @ [Normal ''.git''])) (first_ancestors 6 folder)"

section \<open>Default rules\<close>

definition default_rules :: "string \<Rightarrow> (string \<times> string) list" where
  "default_rules kind =
     (if kind = ''acp'' then []
      else
        [(''use'', ''Changes to code that touch more than one file.''),
         (''use'', ''Running the tests or the build and fixing what fails.''),
         (''use'', ''Refactors, renames and migrations across a project.''),
         (''use'', ''Tracking down a bug that needs running code to find.''),
         (''avoid'', ''Explaining or reviewing code when nothing needs to change. I can read it myself.''),
         (''avoid'', ''One small edit in one file.''),
         (''avoid'', ''Anything that isn't code: mail, calendar, research, writing.'')])"

definition default_mode :: "string \<Rightarrow> use_mode" where
  "default_mode kind = (if kind = ''acp'' then UseOnRequest else UseSuggest)"

definition default_rule :: "string \<Rightarrow> string \<Rightarrow> string \<Rightarrow> engine_rule" where
  "default_rule engine_id kind t =
     \<lparr>ru_id = [], ru_engine_id = engine_id, ru_kind = kind, ru_text = t, ru_enabled = True, ru_auto = False,
      ru_position = 0, ru_source = ''default'', ru_hits = 0, ru_overrides = 0\<rparr>"

text \<open>The ids of the new rows come from outside: \<open>ids k\<close> is that of the \<open>k\<close>th default.\<close>

fun insert_rules ::
  "db \<Rightarrow> engine_tables \<Rightarrow> (nat \<Rightarrow> string) \<Rightarrow> nat \<Rightarrow> engine_rule list \<Rightarrow> engine_tables \<times> (db_error + unit)" where
  "insert_rules d t ids k [] = (t, Inr ())"
| "insert_rules d t ids k (r # rs) =
     (case insert_engine_rule d t (ids k) r of
        Inl e \<Rightarrow> (t, Inl e)
      | Inr (t', _) \<Rightarrow> insert_rules d t' ids (k + 1) rs)"

definition write_defaults :: "db \<Rightarrow> engine_tables \<Rightarrow> (nat \<Rightarrow> string) \<Rightarrow> engine_row \<Rightarrow> engine_tables \<times> (db_error + unit)" where
  "write_defaults d t ids row =
     insert_rules d t ids 0 (map (\<lambda>(k, x). default_rule (er_id row) k x) (default_rules (er_kind row)))"

definition seed_mode :: "engine_row \<Rightarrow> use_mode" where
  "seed_mode row =
     (if default_mode (er_kind row) = UseOnRequest \<and> er_use_mode row = ''suggest''
      then UseOnRequest else use_mode_parse (er_use_mode row))"

definition ensure_seeded :: "db \<Rightarrow> engine_tables \<Rightarrow> (nat \<Rightarrow> string) \<Rightarrow> engine_row \<Rightarrow> engine_tables \<times> (db_error + unit)" where
  "ensure_seeded d t ids row =
     (if er_rules_seeded row then (t, Inr ())
      else
        (case write_defaults d t ids row of
           (t', Inl e) \<Rightarrow> (t', Inl e)
         | (t', Inr _) \<Rightarrow>
             (case mark_engine_rules_seeded d t' (er_id row) (use_mode_as_str (seed_mode row)) of
                Inl e \<Rightarrow> (t', Inl e)
              | Inr t'' \<Rightarrow> (t'', Inr ()))))"

definition reset_rules :: "db \<Rightarrow> engine_tables \<Rightarrow> (nat \<Rightarrow> string) \<Rightarrow> engine_row \<Rightarrow> engine_tables \<times> (db_error + unit)" where
  "reset_rules d t ids row =
     (case clear_engine_rules d t (er_id row) of
        Inl e \<Rightarrow> (t, Inl e)
      | Inr t0 \<Rightarrow>
          (case write_defaults d t0 ids row of
             (t', Inl e) \<Rightarrow> (t', Inl e)
           | (t', Inr _) \<Rightarrow>
               (case mark_engine_rules_seeded d t' (er_id row) (use_mode_as_str (use_mode_parse (er_use_mode row))) of
                  Inl e \<Rightarrow> (t', Inl e)
                | Inr t'' \<Rightarrow> (t'', Inr ()))))"

section \<open>Labels and what the lead reads\<close>

fun labels_from :: "nat \<Rightarrow> nat \<Rightarrow> engine_rule list \<Rightarrow> (string \<times> engine_rule) list" where
  "labels_from u a [] = []"
| "labels_from u a (r # rs) =
     (if ru_kind r = ''avoid'' then (''A'' @ show_nat (a + 1), r) # labels_from u (a + 1) rs
      else (''U'' @ show_nat (u + 1), r) # labels_from (u + 1) a rs)"

definition labels :: "engine_rule list \<Rightarrow> (string \<times> engine_rule) list" where
  "labels rs = labels_from 0 0 rs"

definition mode_line :: "use_mode \<Rightarrow> string" where
  "mode_line m =
     (case m of
        UseAuto \<Rightarrow> ''Mode: auto (it starts at once, and the user sees which rule you cited).''
      | UseOnRequest \<Rightarrow> ''Mode: the user asked for this one by name in this message, so the task goes to it.''
      | UseSuggest \<Rightarrow> ''Mode: suggest (the user confirms first).'')"

definition rule_lines :: "(string \<times> engine_rule) list \<Rightarrow> string" where
  "rule_lines ls = concat (map (\<lambda>(l, r). ''    '' @ l @ '' '' @ ru_text r @ newline) ls)"

definition render_block :: "string \<Rightarrow> use_mode \<Rightarrow> engine_rule list \<Rightarrow> string" where
  "render_block name m rs =
     (let uses = filter (\<lambda>(_, r). ru_kind r = ''use'' \<and> ru_enabled r) (labels rs);
          avoids = filter (\<lambda>(_, r). ru_kind r = ''avoid'' \<and> ru_enabled r) (labels rs);
          out = name @ '': a coding agent in its own process, working in the attached folder. '' @ mode_line m @ newline
                @ (if uses \<noteq> [] then ''  Use it for:'' @ newline @ rule_lines uses else [])
                @ (if avoids \<noteq> [] then ''  Do not use it for:'' @ newline @ rule_lines avoids else [])
      in if m = UseOnRequest then trim_end out
         else out @ ''  These are the user's own rules. Follow them, and cite the one that applies in `because`.'')"

definition clean_rule_text :: "string \<Rightarrow> string + string" where
  "clean_rule_text x =
     (let t = join_with '' '' (split_whitespace x)
      in if t = [] then Inl ''A rule needs some words.''
         else if MAX_RULE_CHARS < chars_count t then Inl (''Keep a rule to '' @ show_nat MAX_RULE_CHARS @ '' characters.'')
         else Inr t)"

section \<open>Where a chat stands, and which agents it may be offered\<close>

record place =
  has_folder :: bool
  is_code :: bool
  pl_trust :: trust
  pl_project_id :: "string option"
  chat_off :: bool

definition place_of :: "os \<Rightarrow> code_files \<Rightarrow> db \<Rightarrow> string \<Rightarrow> place" where
  "place_of sys fs d conv_id =
     (let (folder, tr) = conversation_folder d conv_id;
          conv = (if db_readable d then db_conversations d conv_id else None)
      in \<lparr>has_folder = (folder \<noteq> None),
          is_code = (case folder of Some f \<Rightarrow> is_code_project fs (path_of sys f) | None \<Rightarrow> False),
          pl_trust = trust_parse tr,
          pl_project_id = Option.bind conv conv_project_id,
          chat_off = (case conv of Some c \<Rightarrow> engines_off c | None \<Rightarrow> False)\<rparr>)"

definition assumed_place :: place where
  "assumed_place = \<lparr>has_folder = True, is_code = True, pl_trust = TrustConfirm, pl_project_id = None,
     chat_off = False\<rparr>"

record route_ctx =
  rc_conversation_id :: string
  rc_headless :: bool
  rc_delegate_to :: "string option"

datatype block =
    BlockChatOff | BlockOff | BlockNotFound | BlockNotReady | BlockSignedOut | BlockHeadless
  | BlockNoFolder | BlockNotCode | BlockTrust | BlockProject | BlockMode | BlockLimit nat

definition block_short :: "block \<Rightarrow> string" where
  "block_short b =
     (case b of
        BlockChatOff \<Rightarrow> ''Off in this chat''
      | BlockOff \<Rightarrow> ''Off. Turn it on in External agents''
      | BlockNotFound \<Rightarrow> ''Not found on this computer''
      | BlockNotReady \<Rightarrow> ''Not ready for jobs yet''
      | BlockSignedOut \<Rightarrow> ''Not signed in''
      | BlockHeadless \<Rightarrow> ''Not for unattended runs''
      | BlockNoFolder \<Rightarrow> ''Needs a working folder''
      | BlockNotCode \<Rightarrow> ''Only in code projects''
      | BlockTrust \<Rightarrow> ''Needs more access to the folder''
      | BlockProject \<Rightarrow> ''Off in this project''
      | BlockMode \<Rightarrow> ''Only when you ask''
      | BlockLimit _ \<Rightarrow> ''Used up in this chat'')"

definition block_message :: "block \<Rightarrow> string \<Rightarrow> string" where
  "block_message b name =
     (case b of
        BlockChatOff \<Rightarrow> ''You turned external agents off for this chat.''
      | BlockOff \<Rightarrow> name @ '' is switched off. Turn it on in Settings, External agents.''
      | BlockNotFound \<Rightarrow> ''I can't find '' @ name @ '' on this computer.''
      | BlockNotReady \<Rightarrow> ''I can't hand work to '' @ name @ '' yet.''
      | BlockSignedOut \<Rightarrow> name @ '' is not signed in. Sign in under Settings, External agents.''
      | BlockHeadless \<Rightarrow> name @ '' may not run when nobody is there to approve things.''
      | BlockNoFolder \<Rightarrow> name @
          '' works in a folder and this conversation has none. Ask the user to attach one, or do it yourself.''
      | BlockNotCode \<Rightarrow> name @ '' only works in code projects, and this folder isn't one (no .git or project file). ''
          @ ''Do it yourself or ask the user.''
      | BlockTrust \<Rightarrow> name @ '' is not used in a folder with this little access. Do it yourself or ask the user to ''
          @ ''change the folder's access.''
      | BlockProject \<Rightarrow> name @ '' is never used in this project. Do it yourself.''
      | BlockMode \<Rightarrow> name @ '' is only used when the user asks for it by name. Do it yourself.''
      | BlockLimit n \<Rightarrow> name @ '' has already been handed '' @ show_nat n
          @ '' jobs in this chat, which is its limit. Do the rest yourself.'')"

definition trust_rank :: "trust \<Rightarrow> nat" where
  "trust_rank t = (case t of TrustReadOnly \<Rightarrow> 0 | TrustConfirm \<Rightarrow> 1 | TrustAuto \<Rightarrow> 2)"

definition blocked :: "engine_row \<Rightarrow> guards \<Rightarrow> place \<Rightarrow> bool \<Rightarrow> block option" where
  "blocked row g pl headless =
     (if chat_off pl then Some BlockChatOff
      else if \<not> er_enabled row then Some BlockOff
      else if er_found_path row = None then Some BlockNotFound
      else if \<not> engine_ready row then Some BlockNotReady
      else if er_signed_in row = Some False \<and> er_payment row \<noteq> ''api-key'' then Some BlockSignedOut
      else if headless \<and> \<not> er_headless row then Some BlockHeadless
      else if \<not> has_folder pl then Some BlockNoFolder
      else if code_projects_only g \<and> \<not> is_code pl then Some BlockNotCode
      else if er_trust_ceiling row \<noteq> ''read-only''
              \<and> trust_rank (pl_trust pl) < trust_rank (trust_parse (min_trust g)) then Some BlockTrust
      else if (case pl_project_id pl of Some p \<Rightarrow> p \<in> set (not_in_projects g) | None \<Rightarrow> False)
      then Some BlockProject
      else None)"

record offer =
  of_row :: engine_row
  of_rules :: "engine_rule list"
  of_guards :: guards
  of_mode :: use_mode

definition norm_name :: "string \<Rightarrow> string" where
  "norm_name s = map (\<lambda>c. if c = CHR '' '' \<or> c = CHR ''_'' then CHR ''-'' else c) (to_ascii_lowercase (trim s))"

definition matches_name :: "engine_row \<Rightarrow> string \<Rightarrow> bool" where
  "matches_name row want \<longleftrightarrow>
     (let w = norm_name want
      in w = norm_name (er_display_name row) \<or> w = norm_name (er_id row)
         \<or> w = norm_name (strip_all ''acp:'' (er_id row)))"

definition same_name :: "string \<Rightarrow> string \<Rightarrow> bool" where
  "same_name disp want \<longleftrightarrow> norm_name disp = norm_name want"

text \<open>The mode an agent has in a run: nobody there to confirm makes \<open>suggest\<close> \<open>on_request\<close>.\<close>

definition run_mode :: "engine_row \<Rightarrow> bool \<Rightarrow> use_mode" where
  "run_mode row headless =
     (let m = use_mode_parse (er_use_mode row)
      in if headless \<and> m = UseSuggest then UseOnRequest else m)"

definition asked_for :: "route_ctx \<Rightarrow> engine_row \<Rightarrow> bool" where
  "asked_for cx row = (case rc_delegate_to cx of Some w \<Rightarrow> matches_name row w | None \<Rightarrow> False)"

fun offer_rows ::
  "(string \<Rightarrow> json option) \<Rightarrow> db \<Rightarrow> (string \<Rightarrow> nat \<Rightarrow> string) \<Rightarrow> place \<Rightarrow> route_ctx \<Rightarrow> engine_tables
     \<Rightarrow> engine_row list \<Rightarrow> engine_tables \<times> offer list \<times> (string \<times> block) list" where
  "offer_rows pj d ids pl cx t [] = (t, [], [])"
| "offer_rows pj d ids pl cx t (row0 # rows) =
     (let t' = fst (ensure_seeded d t (ids (er_id row0)) row0);
          row = (case get_engine d t' (er_id row0) of Inr (Some r) \<Rightarrow> r | _ \<Rightarrow> row0);
          g = resolve_guards pj (er_guards_json row) (er_kind row);
          (t'', yes, no) = offer_rows pj d ids pl cx t' rows
      in case blocked row g pl (rc_headless cx) of
           Some b \<Rightarrow> (t'', yes, (er_display_name row, b) # no)
         | None \<Rightarrow>
             (if run_mode row (rc_headless cx) = UseOnRequest \<and> \<not> asked_for cx row
              then (t'', yes, (er_display_name row, BlockMode) # no)
              else (t'', \<lparr>of_row = row,
                          of_rules = (case list_engine_rules d t' (er_id row) of Inr rs \<Rightarrow> rs | Inl _ \<Rightarrow> []),
                          of_guards = g, of_mode = run_mode row (rc_headless cx)\<rparr> # yes, no)))"

definition offered ::
  "os \<Rightarrow> code_files \<Rightarrow> (string \<Rightarrow> json option) \<Rightarrow> db \<Rightarrow> (string \<Rightarrow> nat \<Rightarrow> string) \<Rightarrow> engine_tables \<Rightarrow> route_ctx
     \<Rightarrow> engine_tables \<times> offer list \<times> (string \<times> block) list" where
  "offered sys fs pj d ids t cx =
     offer_rows pj d ids (place_of sys fs d (rc_conversation_id cx)) cx t
       (case list_engines d t of Inr rows \<Rightarrow> rows | Inl _ \<Rightarrow> [])"

definition offered_for_persona ::
  "os \<Rightarrow> code_files \<Rightarrow> (string \<Rightarrow> json option) \<Rightarrow> db \<Rightarrow> (string \<Rightarrow> nat \<Rightarrow> string) \<Rightarrow> engine_tables \<Rightarrow> route_ctx
     \<Rightarrow> string \<Rightarrow> engine_tables \<times> (string + offer)" where
  "offered_for_persona sys fs pj d ids t cx engine_id =
     (let (t', yes, no) = offered sys fs pj d ids t (cx\<lparr>rc_delegate_to := Some engine_id\<rparr>)
      in (t', case List.find (\<lambda>o'. er_id (of_row o') = engine_id) yes of
                Some o' \<Rightarrow> Inr o'
              | None \<Rightarrow>
                  (let name = (case get_engine d t' engine_id of Inr (Some r) \<Rightarrow> er_display_name r | _ \<Rightarrow> engine_id)
                   in case List.find (\<lambda>(n, _). same_name n name) no of
                        Some (n, b) \<Rightarrow> Inl (block_message b n)
                      | None \<Rightarrow> Inl (name @ '' isn't set up.''))))"

definition within_limit :: "db \<Rightarrow> engine_tables \<Rightarrow> offer \<Rightarrow> string \<Rightarrow> block + unit" where
  "within_limit d t o' conv =
     (if max_per_conversation (of_guards o') \<le> count_engine_runs d t conv (er_id (of_row o'))
      then Inl (BlockLimit (max_per_conversation (of_guards o'))) else Inr ())"

section \<open>The citation\<close>

record citation =
  ci_label :: string
  ci_rule :: "engine_rule option"
  ci_needs_card :: bool

definition list_or_none :: "string list \<Rightarrow> string" where
  "list_or_none valid = (if valid = [] then ''none'' else join_with '', '' valid)"

definition wanted_label :: "string \<Rightarrow> string" where
  "wanted_label b = to_ascii_uppercase (takeWhile is_ascii_alnum (dropWhile (\<lambda>c. \<not> is_ascii_alnum c) (trim b)))"

definition quote_mark :: string where "quote_mark = [CHR 0x22]"

definition cite :: "offer \<Rightarrow> string option \<Rightarrow> bool \<Rightarrow> string + citation" where
  "cite o' because asked =
     (let name = er_display_name (of_row o') in
      if asked then Inr \<lparr>ci_label = ''asked'', ci_rule = None, ci_needs_card = False\<rparr>
      else
        (let labelled = labels (of_rules o');
             valid = map fst (filter (\<lambda>(_, r). ru_kind r = ''use'' \<and> ru_enabled r) labelled);
             want = (case because of Some b \<Rightarrow> (if wanted_label b \<noteq> [] then Some (wanted_label b) else None) | None \<Rightarrow> None)
         in case want of
              None \<Rightarrow> Inl (name @ '' needs a `because`: the label of the user's rule that fits this task (''
                        @ list_or_none valid @ ''). If none fits, do it yourself.'')
            | Some w \<Rightarrow>
                (case List.find (\<lambda>(l, _). l = w) labelled of
                   None \<Rightarrow> Inl (''There is no rule '' @ w @ '' for '' @ name
                             @ ''. The rules that say when to use it are: '' @ list_or_none valid
                             @ ''. If none fits, do it yourself.'')
                 | Some (_, rule) \<Rightarrow>
                     if ru_kind rule = ''avoid''
                     then Inl (''Rule '' @ w @ '' says not to use '' @ name @ '' for that: '' @ quote_mark @ ru_text rule
                               @ quote_mark @ '' Do it yourself.'')
                     else if \<not> ru_enabled rule
                     then Inl (''Rule '' @ w @ '' is switched off. The rules in use are: '' @ list_or_none valid
                               @ ''. If none fits, do it yourself.'')
                     else Inr \<lparr>ci_label = w, ci_rule = Some rule,
                               ci_needs_card = (of_mode o' = UseSuggest \<and> \<not> ru_auto rule)\<rparr>)))"

section \<open>The preview and the routing question\<close>

record preview =
  pv_agent :: "string option"
  pv_label :: "string option"
  pv_rule_text :: "string option"
  pv_consequence :: "string option"
  pv_blocked :: "string option"
  pv_quick_ms :: "u32 option"

definition no_preview :: preview where
  "no_preview = \<lparr>pv_agent = None, pv_label = None, pv_rule_text = None, pv_consequence = None,
     pv_blocked = None, pv_quick_ms = None\<rparr>"

definition preview_of :: "offer \<Rightarrow> string \<Rightarrow> engine_rule \<Rightarrow> place \<Rightarrow> preview" where
  "preview_of o' lbl rule pl =
     \<lparr>pv_agent = Some (er_display_name (of_row o')), pv_label = Some lbl, pv_rule_text = Some (ru_text rule),
      pv_consequence = Some (case of_mode o' of UseOnRequest \<Rightarrow> ''only_when_asked''
                               | UseSuggest \<Rightarrow> if \<not> ru_auto rule then ''ask'' else ''start''
                               | UseAuto \<Rightarrow> ''start''),
      pv_blocked = map_option (\<lambda>b. block_message b (er_display_name (of_row o')))
                     (blocked (of_row o') (of_guards o') pl False),
      pv_quick_ms = None\<rparr>"

text \<open>\<open>candidates\<close>: the filter runs over the snapshot before any row is seeded.\<close>

fun candidate_rows ::
  "(string \<Rightarrow> json option) \<Rightarrow> db \<Rightarrow> (string \<Rightarrow> nat \<Rightarrow> string) \<Rightarrow> engine_tables \<Rightarrow> engine_row list
     \<Rightarrow> engine_tables \<times> offer list" where
  "candidate_rows pj d ids t [] = (t, [])"
| "candidate_rows pj d ids t (row0 # rows) =
     (let t' = fst (ensure_seeded d t (ids (er_id row0)) row0);
          row = (case get_engine d t' (er_id row0) of Inr (Some r) \<Rightarrow> r | _ \<Rightarrow> row0);
          (t'', os) = candidate_rows pj d ids t' rows
      in (t'', \<lparr>of_row = row,
                of_rules = (case list_engine_rules d t' (er_id row) of Inr rs \<Rightarrow> rs | Inl _ \<Rightarrow> []),
                of_guards = resolve_guards pj (er_guards_json row) (er_kind row),
                of_mode = use_mode_parse (er_use_mode row)\<rparr> # os))"

definition candidates ::
  "(string \<Rightarrow> json option) \<Rightarrow> db \<Rightarrow> (string \<Rightarrow> nat \<Rightarrow> string) \<Rightarrow> engine_tables \<Rightarrow> engine_tables \<times> offer list" where
  "candidates pj d ids t =
     candidate_rows pj d ids t
       (filter (\<lambda>r. er_enabled r \<and> er_found_path r \<noteq> None \<and> engine_ready r)
          (case list_engines d t of Inr rows \<Rightarrow> rows | Inl _ \<Rightarrow> []))"

definition read_preview :: "(string \<Rightarrow> json option) \<Rightarrow> offer list \<Rightarrow> string \<Rightarrow> place \<Rightarrow> preview" where
  "read_preview pj cs answer pl =
     (let v = (case (str_find (CHR ''{'') answer, str_rfind (CHR ''}'') answer) of
                 (Some a, Some b) \<Rightarrow> if a < b then pj (take (b + 1 - a) (drop a answer)) else None
               | _ \<Rightarrow> None)
      in case v of
           None \<Rightarrow> no_preview
         | Some v \<Rightarrow>
             (case Option.bind (json_get v ''agent'') json_str of
                None \<Rightarrow> no_preview
              | Some want \<Rightarrow>
                  if trim want = [] \<or> eq_ignore_ascii_case want ''null'' then no_preview
                  else
                    (case List.find (\<lambda>o'. matches_name (of_row o') want) cs of
                       None \<Rightarrow> no_preview
                     | Some o' \<Rightarrow>
                         (let because = (case Option.bind (json_get v ''because'') json_str of Some b \<Rightarrow> b | None \<Rightarrow> []);
                              lbl = to_ascii_uppercase (trim because)
                          in case List.find (\<lambda>(l, r). l = lbl \<and> ru_kind r = ''use'' \<and> ru_enabled r) (labels (of_rules o')) of
                               None \<Rightarrow> no_preview
                             | Some (l, rule) \<Rightarrow> preview_of o' l rule pl))))"

definition ROUTE_NONE :: string where "ROUTE_NONE = ''none''"
definition ROUTE_UNSURE :: string where "ROUTE_UNSURE = ''unsure''"
definition ROUTE_NONE_TEXT :: string where
  "ROUTE_NONE_TEXT = ''No rule above fits, or a rule that says not to hand it over applies.''"
definition ROUTE_UNSURE_TEXT :: string where
  "ROUTE_UNSURE_TEXT = ''It cannot be told from the request alone.''"

definition route_options :: "offer list \<Rightarrow> (string \<times> string) list" where
  "route_options cs =
     (let options = concat (map (\<lambda>o'.
            map (\<lambda>(l, r). (er_id (of_row o') @ '':'' @ l,
                          ''Hand it to '' @ er_display_name (of_row o') @ '': '' @ ru_text r))
              (filter (\<lambda>(_, r). ru_kind r = ''use'' \<and> ru_enabled r) (labels (of_rules o')))) cs)
      in if options = [] then options
         else options @ [(ROUTE_NONE, ROUTE_NONE_TEXT), (ROUTE_UNSURE, ROUTE_UNSURE_TEXT)])"

definition route_avoid_lines :: "offer list \<Rightarrow> string list" where
  "route_avoid_lines cs =
     concat (map (\<lambda>o'.
       map (\<lambda>(_, r). ''Do not hand it to '' @ er_display_name (of_row o') @ '' for: '' @ ru_text r)
         (filter (\<lambda>(_, r). ru_kind r = ''avoid'' \<and> ru_enabled r) (labels (of_rules o')))) cs)"

definition preview_from_option :: "offer list \<Rightarrow> string \<Rightarrow> place \<Rightarrow> preview option" where
  "preview_from_option cs opt pl =
     (case rsplit_once (CHR '':'') opt of
        None \<Rightarrow> None
      | Some (engine_id, lbl) \<Rightarrow>
          (case List.find (\<lambda>o'. er_id (of_row o') = engine_id) cs of
             None \<Rightarrow> None
           | Some o' \<Rightarrow>
               (case List.find (\<lambda>(l, r). l = lbl \<and> ru_kind r = ''use'' \<and> ru_enabled r) (labels (of_rules o')) of
                  None \<Rightarrow> None
                | Some (l, rule) \<Rightarrow> Some (preview_of o' l rule pl))))"

section \<open>Labels: one rule each\<close>

lemma labels_from_snd: "map snd (labels_from u a rs) = rs"
  by (induction u a rs rule: labels_from.induct) simp_all

lemma labels_from_shape:
  "(l, r) \<in> set (labels_from u a rs) \<Longrightarrow>
     (\<exists>k > a. l = CHR ''A'' # show_nat k \<and> ru_kind r = ''avoid'')
   \<or> (\<exists>k > u. l = CHR ''U'' # show_nat k \<and> ru_kind r \<noteq> ''avoid'')"
proof (induction u a rs rule: labels_from.induct)
  case (2 u a q rs)
  show ?case
  proof (cases "ru_kind q = ''avoid''")
    case True
    with 2(3) consider "l = CHR ''A'' # show_nat (a + 1)" "r = q" | "(l, r) \<in> set (labels_from u (a + 1) rs)" by auto
    then show ?thesis
    proof cases
      case 2
      with "2.IH"(1)[OF True] show ?thesis by (metis Suc_eq_plus1 Suc_lessD)
    qed (use True in auto)
  next
    case False
    with 2(3) consider "l = CHR ''U'' # show_nat (u + 1)" "r = q" | "(l, r) \<in> set (labels_from (u + 1) a rs)" by auto
    then show ?thesis
    proof cases
      case 2
      with "2.IH"(2)[OF False] show ?thesis by (metis Suc_eq_plus1 Suc_lessD)
    qed (use False in auto)
  qed
qed simp

lemma labels_from_distinct: "distinct (map fst (labels_from u a rs))"
proof (induction u a rs rule: labels_from.induct)
  case (2 u a q rs)
  have "CHR ''A'' # show_nat (a + 1) \<notin> fst ` set (labels_from u (a + 1) rs)"
    using labels_from_shape[of _ _ u "a + 1" rs] by fastforce
  moreover have "CHR ''U'' # show_nat (u + 1) \<notin> fst ` set (labels_from (u + 1) a rs)"
    using labels_from_shape[of _ _ "u + 1" a rs] by fastforce
  ultimately show ?case using 2 by simp
qed simp

lemma labels_distinct: "distinct (map fst (labels rs))"
  by (simp add: labels_def labels_from_distinct)

lemma labels_snd: "map snd (labels rs) = rs"
  by (simp add: labels_def labels_from_snd)

lemma labels_from_kinds:
  "map ru_kind rs = map ru_kind qs \<Longrightarrow> map fst (labels_from u a rs) = map fst (labels_from u a qs)"
proof (induction u a rs arbitrary: qs rule: labels_from.induct)
  case (2 u a r rs)
  then obtain q qs' where "qs = q # qs'" "ru_kind q = ru_kind r" "map ru_kind rs = map ru_kind qs'"
    by (cases qs) auto
  with 2(1)[of qs'] 2(2)[of qs'] show ?case by simp
qed simp

lemma labels_find:
  "List.find (\<lambda>(l, r). l = w \<and> P r) (labels rs) = Some (l, r) \<longleftrightarrow> l = w \<and> (w, r) \<in> set (labels rs) \<and> P r"
proof
  assume "List.find (\<lambda>(l, r). l = w \<and> P r) (labels rs) = Some (l, r)"
  then show "l = w \<and> (w, r) \<in> set (labels rs) \<and> P r" by (auto dest!: find_SomeD)
next
  assume a: "l = w \<and> (w, r) \<in> set (labels rs) \<and> P r"
  then have "List.find (\<lambda>(l, r). l = w \<and> P r) (labels rs) \<noteq> None"
    by (auto simp: find_None_iff)
  then obtain l' r' where f: "List.find (\<lambda>(l, r). l = w \<and> P r) (labels rs) = Some (l', r')" by auto
  then have "l' = w" "(w, r') \<in> set (labels rs)" by (auto dest!: find_SomeD)
  with a labels_distinct[of rs] have "r' = r" by (metis eq_key_imp_eq_value)
  with f a \<open>l' = w\<close> show "List.find (\<lambda>(l, r). l = w \<and> P r) (labels rs) = Some (l, r)" by simp
qed

lemma labels_find_any:
  "List.find (\<lambda>(l, r). l = w) (labels rs) = Some (l, r) \<longleftrightarrow> l = w \<and> (w, r) \<in> set (labels rs)"
  using labels_find[of w "\<lambda>_. True" rs l r] by simp

section \<open>Reading a label out of a sentence\<close>

lemma ws_not_alnum:
  "ws1 c \<Longrightarrow> \<not> is_ascii_alnum c"
  "ws2 a b \<Longrightarrow> \<not> is_ascii_alnum a" "ws2 a b \<Longrightarrow> \<not> is_ascii_alnum b"
  "ws3 a b c \<Longrightarrow> \<not> is_ascii_alnum a" "ws3 a b c \<Longrightarrow> \<not> is_ascii_alnum b" "ws3 a b c \<Longrightarrow> \<not> is_ascii_alnum c"
  by (auto simp: ws1_def ws2_def ws3_def is_ascii_alnum_def is_ascii_digit_def is_ascii_alphabetic_def Let_def)

lemma trim_start_drops: "\<exists>w. s = w @ trim_start s \<and> (\<forall>c \<in> set w. \<not> is_ascii_alnum c)"
proof (induction s rule: trim_start.induct)
  case (3 a b)
  show ?case
  proof (cases "ws1 a")
    case True
    with 3 obtain w where "[b] = w @ trim_start [b]" "\<forall>c \<in> set w. \<not> is_ascii_alnum c" by blast
    with True show ?thesis by (intro exI[of _ "a # w"]) (auto simp: ws_not_alnum)
  next
    case False
    then show ?thesis by (auto simp: ws_not_alnum)
  qed
next
  case (4 a b c s)
  consider "ws1 a" | "\<not> ws1 a" "ws2 a b" | "\<not> ws1 a" "\<not> ws2 a b" "ws3 a b c" | "\<not> ws1 a" "\<not> ws2 a b" "\<not> ws3 a b c" by blast
  then show ?case
  proof cases
    case 1
    with 4(1) obtain w where "b # c # s = w @ trim_start (b # c # s)" "\<forall>c \<in> set w. \<not> is_ascii_alnum c" by blast
    with 1 show ?thesis by (intro exI[of _ "a # w"]) (auto simp: ws_not_alnum)
  next
    case 2
    with 4(2) obtain w where "c # s = w @ trim_start (c # s)" "\<forall>c \<in> set w. \<not> is_ascii_alnum c" by blast
    with 2 show ?thesis by (intro exI[of _ "a # b # w"]) (auto simp: ws_not_alnum)
  next
    case 3
    with 4(3) obtain w where "s = w @ trim_start s" "\<forall>c \<in> set w. \<not> is_ascii_alnum c" by blast
    with 3 show ?thesis by (intro exI[of _ "a # b # c # w"]) (auto simp: ws_not_alnum)
  next
    case 4
    then show ?thesis by (intro exI[of _ "[]"]) simp
  qed
qed (auto simp: ws_not_alnum)

lemma trim_rev_drops: "\<exists>w. s = w @ trim_rev s \<and> (\<forall>c \<in> set w. \<not> is_ascii_alnum c)"
proof (induction s rule: trim_rev.induct)
  case (3 b a)
  show ?case
  proof (cases "ws1 b")
    case True
    with 3 obtain w where "[a] = w @ trim_rev [a]" "\<forall>c \<in> set w. \<not> is_ascii_alnum c" by blast
    with True show ?thesis by (intro exI[of _ "b # w"]) (auto simp: ws_not_alnum)
  next
    case False
    then show ?thesis by (auto simp: ws_not_alnum)
  qed
next
  case (4 c b a s)
  consider "ws1 c" | "\<not> ws1 c" "ws2 b c" | "\<not> ws1 c" "\<not> ws2 b c" "ws3 a b c" | "\<not> ws1 c" "\<not> ws2 b c" "\<not> ws3 a b c" by blast
  then show ?case
  proof cases
    case 1
    with 4(1) obtain w where "b # a # s = w @ trim_rev (b # a # s)" "\<forall>c \<in> set w. \<not> is_ascii_alnum c" by blast
    with 1 show ?thesis by (intro exI[of _ "c # w"]) (auto simp: ws_not_alnum)
  next
    case 2
    with 4(2) obtain w where "a # s = w @ trim_rev (a # s)" "\<forall>c \<in> set w. \<not> is_ascii_alnum c" by blast
    with 2 show ?thesis by (intro exI[of _ "c # b # w"]) (auto simp: ws_not_alnum)
  next
    case 3
    with 4(3) obtain w where "s = w @ trim_rev s" "\<forall>c \<in> set w. \<not> is_ascii_alnum c" by blast
    with 3 show ?thesis by (intro exI[of _ "c # b # a # w"]) (auto simp: ws_not_alnum)
  next
    case 4
    then show ?thesis by (intro exI[of _ "[]"]) simp
  qed
qed (auto simp: ws_not_alnum)

lemma trim_end_drops: "\<exists>w. s = trim_end s @ w \<and> (\<forall>c \<in> set w. \<not> is_ascii_alnum c)"
proof -
  obtain w where "rev s = w @ trim_rev (rev s)" "\<forall>c \<in> set w. \<not> is_ascii_alnum c"
    using trim_rev_drops by blast
  then have "s = trim_end s @ rev w" by (metis rev_append rev_rev_ident trim_end_def)
  with \<open>\<forall>c \<in> set w. \<not> is_ascii_alnum c\<close> show ?thesis by (intro exI[of _ "rev w"]) simp
qed

text \<open>The first run of letters and digits; white space at either end makes no difference.\<close>

definition first_word :: "string \<Rightarrow> string" where
  "first_word s = takeWhile is_ascii_alnum (dropWhile (\<lambda>c. \<not> is_ascii_alnum c) s)"

lemma first_word_front: "\<forall>c \<in> set w. \<not> is_ascii_alnum c \<Longrightarrow> first_word (w @ s) = first_word s"
  by (simp add: first_word_def dropWhile_append1 dropWhile_append2)

lemma first_word_end: "\<forall>c \<in> set w. \<not> is_ascii_alnum c \<Longrightarrow> first_word (s @ w) = first_word s"
proof (induction s)
  case Nil
  then have "dropWhile (\<lambda>c. \<not> is_ascii_alnum c) w = []" by (subst dropWhile_eq_Nil_conv) simp
  then show ?case by (simp only: first_word_def append_Nil) simp
next
  case (Cons c s)
  then have "takeWhile is_ascii_alnum w = []" by (cases w) auto
  then have "takeWhile is_ascii_alnum (s @ w) = takeWhile is_ascii_alnum s" by (induction s) auto
  with Cons show ?case by (auto simp: first_word_def)
qed

lemma wanted_label_first_word: "wanted_label b = to_ascii_uppercase (first_word b)"
proof -
  obtain w where w: "b = w @ trim_start b" "\<forall>c \<in> set w. \<not> is_ascii_alnum c" using trim_start_drops by blast
  obtain v where v: "trim_start b = trim_end (trim_start b) @ v" "\<forall>c \<in> set v. \<not> is_ascii_alnum c"
    using trim_end_drops by blast
  have "first_word b = first_word (trim_start b)" using first_word_front[OF w(2)] w(1) by metis
  also have "\<dots> = first_word (trim b)" using first_word_end[OF v(2)] v(1) by (metis trim_def)
  finally show ?thesis by (simp add: wanted_label_def first_word_def)
qed

lemma digit_alnum: "is_ascii_digit c \<Longrightarrow> is_ascii_alnum c \<and> upper_char c = c"
  by (auto simp: is_ascii_alnum_def is_ascii_digit_def upper_char_def Let_def)

lemma letter_A_U: "is_ascii_alnum (CHR ''A'')" "is_ascii_alnum (CHR ''U'')" "upper_char (CHR ''A'') = CHR ''A''"
  "upper_char (CHR ''U'') = CHR ''U''"
  by (simp_all add: is_ascii_alnum_def is_ascii_digit_def is_ascii_alphabetic_def upper_char_def)

lemma label_chars:
  assumes "(l, r) \<in> set (labels rs)"
  shows "l \<noteq> []" "\<forall>c \<in> set l. is_ascii_alnum c" "to_ascii_uppercase l = l" "CHR '':'' \<notin> set l"
proof -
  obtain k where k: "l = CHR ''A'' # show_nat k \<or> l = CHR ''U'' # show_nat k"
    using labels_from_shape[of l r 0 0 rs] assms unfolding labels_def by blast
  show "l \<noteq> []" using k by auto
  show al: "\<forall>c \<in> set l. is_ascii_alnum c" using k letter_A_U show_nat_digits digit_alnum by auto
  have "map upper_char (show_nat k) = show_nat k"
    using show_nat_digits digit_alnum by (intro map_idI) blast
  with k letter_A_U show "to_ascii_uppercase l = l" by (auto simp: to_ascii_uppercase_def)
  have "\<not> is_ascii_alnum (CHR '':'')" by (simp add: is_ascii_alnum_def is_ascii_digit_def is_ascii_alphabetic_def)
  with al show "CHR '':'' \<notin> set l" by auto
qed

lemma wanted_label_quoted:
  assumes "(l, r) \<in> set (labels rs)" and "\<forall>c \<in> set p. \<not> is_ascii_alnum c" and "q = [] \<or> \<not> is_ascii_alnum (hd q)"
  shows "wanted_label (p @ l @ q) = l"
proof -
  have "takeWhile is_ascii_alnum (l @ q) = l"
    using label_chars(2)[OF assms(1)] assms(3) by (subst takeWhile_append2) (cases q; auto)+
  moreover have "dropWhile (\<lambda>c. \<not> is_ascii_alnum c) (l @ q) = l @ q"
    using label_chars(1,2)[OF assms(1)] by (cases l) auto
  ultimately show ?thesis
    using first_word_front[OF assms(2)] label_chars(3)[OF assms(1)]
    by (simp add: wanted_label_first_word first_word_def)
qed

section \<open>What seeding does to the tables\<close>

definition seeded_row :: "engine_row \<Rightarrow> engine_row" where
  "seeded_row row =
     (if er_rules_seeded row then row
      else row\<lparr>er_rules_seeded := True, er_use_mode := use_mode_as_str (seed_mode row)\<rparr>)"

lemma seeded_row_simps [simp]:
  "er_id (seeded_row row) = er_id row" "er_rules_seeded (seeded_row row)"
  "er_kind (seeded_row row) = er_kind row" "er_guards_json (seeded_row row) = er_guards_json row"
  "er_display_name (seeded_row row) = er_display_name row" "er_enabled (seeded_row row) = er_enabled row"
  "er_found_path (seeded_row row) = er_found_path row" "er_headless (seeded_row row) = er_headless row"
  "seeded_row (seeded_row row) = seeded_row row"
  by (simp_all add: seeded_row_def)

lemma insert_rules_tables:
  assumes "db_writable d" and "\<forall>r \<in> set rs. ru_engine_id r = i"
  shows "snd (insert_rules d t ids k rs) = Inr ()
    \<and> et_engines (fst (insert_rules d t ids k rs)) = et_engines t
    \<and> et_runs (fst (insert_rules d t ids k rs)) = et_runs t
    \<and> (\<exists>new. et_rules (fst (insert_rules d t ids k rs)) = et_rules t @ new
          \<and> (\<forall>r \<in> set new. ru_engine_id r = i) \<and> map ru_text new = map ru_text rs)"
  using assms
proof (induction rs arbitrary: t k)
  case (Cons r rs)
  let ?r = "r\<lparr>ru_id := ids k, ru_hits := 0, ru_overrides := 0,
                 ru_position := (if db_readable d then next_position t (ru_engine_id r) else 0)\<rparr>"
  let ?t = "t\<lparr>et_rules := et_rules t @ [?r]\<rparr>"
  have ins: "insert_engine_rule d t (ids k) r = Inr (?t, ?r)"
    using Cons.prems(1) by (simp add: insert_engine_rule_def Let_def)
  from Cons.IH[of ?t "k + 1"] Cons.prems obtain new where
    "et_rules (fst (insert_rules d ?t ids (k + 1) rs)) = et_rules ?t @ new"
    "\<forall>r \<in> set new. ru_engine_id r = i" "map ru_text new = map ru_text rs" by auto
  with Cons.IH[of ?t "k + 1"] Cons.prems ins show ?case
    by (auto intro!: exI[of _ "?r # new"])
qed simp

lemma ensure_seeded_tables:
  assumes "db_writable d"
  shows "snd (ensure_seeded d t ids row) = Inr ()
    \<and> et_engines (fst (ensure_seeded d t ids row)) =
        (if er_rules_seeded row then et_engines t
         else map (\<lambda>r. if er_id r = er_id row
                then r\<lparr>er_rules_seeded := True, er_use_mode := use_mode_as_str (seed_mode row)\<rparr> else r) (et_engines t))
    \<and> (\<exists>new. et_rules (fst (ensure_seeded d t ids row)) = et_rules t @ new
          \<and> (\<forall>r \<in> set new. ru_engine_id r = er_id row)
          \<and> map ru_text new = (if er_rules_seeded row then [] else map snd (default_rules (er_kind row))))"
proof (cases "er_rules_seeded row")
  case True
  then show ?thesis by (simp add: ensure_seeded_def)
next
  case False
  let ?rs = "map (\<lambda>(k, x). default_rule (er_id row) k x) (default_rules (er_kind row))"
  obtain t1 r1 where t1: "insert_rules d t ids 0 ?rs = (t1, r1)" by fastforce
  have "\<forall>r \<in> set ?rs. ru_engine_id r = er_id row" by (auto simp: default_rule_def)
  from insert_rules_tables[OF assms this, of t ids 0] obtain new where
    new: "r1 = Inr ()" "et_engines t1 = et_engines t" "et_rules t1 = et_rules t @ new"
      "\<forall>r \<in> set new. ru_engine_id r = er_id row" "map ru_text new = map ru_text ?rs"
    unfolding t1 by auto
  have "map ru_text ?rs = map snd (default_rules (er_kind row))"
    by (simp add: default_rule_def split_beta)
  with new t1 False assms show ?thesis
    by (simp add: ensure_seeded_def write_defaults_def mark_engine_rules_seeded_def)
qed

lemma ensure_seeded_other_rules:
  assumes "db_writable d" and "i \<noteq> er_id row"
  shows "list_engine_rules d (fst (ensure_seeded d t ids row)) i = list_engine_rules d t i"
proof -
  from ensure_seeded_tables[OF assms(1), of t ids row] obtain new where
    new: "et_rules (fst (ensure_seeded d t ids row)) = et_rules t @ new" "\<forall>r \<in> set new. ru_engine_id r = er_id row"
    by blast
  have "filter (\<lambda>r. ru_engine_id r = i) new = []" using new(2) assms(2) by (auto simp: filter_empty_conv)
  with new(1) show ?thesis by (simp add: list_engine_rules_def)
qed

lemma find_by_id:
  "distinct (map er_id rows) \<Longrightarrow> row \<in> set rows \<Longrightarrow> List.find (\<lambda>r. er_id r = er_id row) rows = Some row"
  by (induction rows) auto

lemma ensure_seeded_engines:
  assumes "db_writable d" and "distinct (map er_id (et_engines t))" and "row \<in> set (et_engines t)"
  shows "et_engines (fst (ensure_seeded d t ids row)) =
     map (\<lambda>r. if er_id r = er_id row then seeded_row r else r) (et_engines t)"
proof -
  have same: "r = row" if "r \<in> set (et_engines t)" "er_id r = er_id row" for r
    using assms(2,3) that by (auto simp: distinct_map inj_on_def)
  have "et_engines (fst (ensure_seeded d t ids row)) =
     (if er_rules_seeded row then et_engines t
         else map (\<lambda>r. if er_id r = er_id row
                then r\<lparr>er_rules_seeded := True, er_use_mode := use_mode_as_str (seed_mode row)\<rparr> else r) (et_engines t))"
    using ensure_seeded_tables[OF assms(1)] by blast
  also have "\<dots> = map (\<lambda>r. if er_id r = er_id row then seeded_row r else r) (et_engines t)"
  proof (cases "er_rules_seeded row")
    case True
    have "map (\<lambda>r. if er_id r = er_id row then seeded_row r else r) (et_engines t) = et_engines t"
      by (rule map_idI) (use same True in \<open>auto simp: seeded_row_def\<close>)
    with True show ?thesis by simp
  next
    case False
    then show ?thesis using same by (auto simp: seeded_row_def intro!: map_cong)
  qed
  finally show ?thesis .
qed

section \<open>What a run is offered\<close>

definition offer_of :: "(string \<Rightarrow> json option) \<Rightarrow> db \<Rightarrow> engine_tables \<Rightarrow> bool \<Rightarrow> engine_row \<Rightarrow> offer" where
  "offer_of pj d t headless row =
     \<lparr>of_row = row, of_rules = (case list_engine_rules d t (er_id row) of Inr rs \<Rightarrow> rs | Inl _ \<Rightarrow> []),
      of_guards = resolve_guards pj (er_guards_json row) (er_kind row), of_mode = run_mode row headless\<rparr>"

text \<open>Why an agent is not offered: the first guard that stops it, or its mode.\<close>

definition refusal :: "(string \<Rightarrow> json option) \<Rightarrow> place \<Rightarrow> route_ctx \<Rightarrow> engine_row \<Rightarrow> block option" where
  "refusal pj pl cx row =
     (case blocked row (resolve_guards pj (er_guards_json row) (er_kind row)) pl (rc_headless cx) of
        Some b \<Rightarrow> Some b
      | None \<Rightarrow> if run_mode row (rc_headless cx) = UseOnRequest \<and> \<not> asked_for cx row then Some BlockMode else None)"

lemma offer_rows_exact:
  assumes "db_up d"
  shows "distinct (map er_id rows) \<Longrightarrow> set rows \<subseteq> set (et_engines t) \<Longrightarrow> distinct (map er_id (et_engines t)) \<Longrightarrow>
    offer_rows pj d ids pl cx t rows = (t'', yes, no) \<Longrightarrow>
      et_engines t'' = map (\<lambda>r. if er_id r \<in> er_id ` set rows then seeded_row r else r) (et_engines t)
    \<and> (\<forall>i. i \<notin> er_id ` set rows \<longrightarrow> list_engine_rules d t'' i = list_engine_rules d t i)
    \<and> yes = map (offer_of pj d t'' (rc_headless cx)) (filter (\<lambda>r. refusal pj pl cx r = None) (map seeded_row rows))
    \<and> no = map (\<lambda>r. (er_display_name r, the (refusal pj pl cx r))) (filter (\<lambda>r. refusal pj pl cx r \<noteq> None) (map seeded_row rows))"
proof (induction rows arbitrary: t t'' yes no)
  case (Cons row0 rows)
  have up: "db_readable d" "db_writable d" using assms by (simp_all add: db_up_def)
  define t' where "t' = fst (ensure_seeded d t (ids (er_id row0)) row0)"
  have row0: "row0 \<in> set (et_engines t)" using Cons.prems(2) by simp
  have eng: "et_engines t' = map (\<lambda>r. if er_id r = er_id row0 then seeded_row r else r) (et_engines t)"
    unfolding t'_def by (rule ensure_seeded_engines[OF up(2) Cons.prems(3) row0])
  have ids: "map er_id (et_engines t') = map er_id (et_engines t)"
    unfolding eng by (simp add: comp_def)
  have in': "seeded_row row0 \<in> set (et_engines t')" using row0 unfolding eng by force
  have "distinct (map er_id (et_engines t'))" using Cons.prems(3) ids by simp
  from find_by_id[OF this in'] have got: "get_engine d t' (er_id row0) = Inr (Some (seeded_row row0))"
    using up by (simp add: get_engine_def)
  have sub: "set rows \<subseteq> set (et_engines t')"
  proof
    fix r assume r: "r \<in> set rows"
    then have "er_id r \<noteq> er_id row0" using Cons.prems(1) by (auto simp: image_iff)
    with r Cons.prems(2) show "r \<in> set (et_engines t')" unfolding eng by force
  qed
  obtain t2 yes2 no2 where rec: "offer_rows pj d ids pl cx t' rows = (t2, yes2, no2)" by (metis prod_cases3)
  have IH: "et_engines t2 = map (\<lambda>r. if er_id r \<in> er_id ` set rows then seeded_row r else r) (et_engines t')"
    "\<forall>i. i \<notin> er_id ` set rows \<longrightarrow> list_engine_rules d t2 i = list_engine_rules d t' i"
    "yes2 = map (offer_of pj d t2 (rc_headless cx)) (filter (\<lambda>r. refusal pj pl cx r = None) (map seeded_row rows))"
    "no2 = map (\<lambda>r. (er_display_name r, the (refusal pj pl cx r))) (filter (\<lambda>r. refusal pj pl cx r \<noteq> None) (map seeded_row rows))"
    using Cons.IH[OF _ sub _ rec] Cons.prems(1) ids Cons.prems(3) by auto
  have fresh: "er_id row0 \<notin> er_id ` set rows" using Cons.prems(1) by auto
  have t2: "t'' = t2" and yn: "(yes, no) =
      (case refusal pj pl cx (seeded_row row0) of
         None \<Rightarrow> (offer_of pj d t' (rc_headless cx) (seeded_row row0) # yes2, no2)
       | Some b \<Rightarrow> (yes2, (er_display_name (seeded_row row0), b) # no2))"
    using Cons.prems(4) by (auto simp: Let_def t'_def[symmetric] got rec refusal_def offer_of_def split: option.splits if_splits)
  have same_offer: "offer_of pj d t' (rc_headless cx) (seeded_row row0) = offer_of pj d t2 (rc_headless cx) (seeded_row row0)"
    using IH(2) fresh by (simp add: offer_of_def)
  have "et_engines t'' = map (\<lambda>r. if er_id r \<in> er_id ` set (row0 # rows) then seeded_row r else r) (et_engines t)"
    unfolding t2 IH(1) eng by (auto simp: comp_def intro!: map_cong)
  moreover have "\<forall>i. i \<notin> er_id ` set (row0 # rows) \<longrightarrow> list_engine_rules d t'' i = list_engine_rules d t i"
    using IH(2) ensure_seeded_other_rules[OF up(2)] unfolding t2 t'_def by auto
  ultimately show ?case using yn t2 same_offer IH(3,4)
    by (auto split: option.splits)
qed simp

section \<open>Properties\<close>

text \<open>The offer is exact: every agent of the registry, after its first look, stands in exactly
  one of the two lists, in order; it is offered when no guard stops it and its mode lets the run
  use it (or the user named it), with its own rules and guards, and otherwise it is listed with
  the first reason; looking changes no rule of another agent.\<close>

theorem offered_exact:
  assumes "db_up d" and "distinct (map er_id (et_engines t))"
  shows "case offered sys fs pj d ids t cx of (t', yes, no) \<Rightarrow>
     let why = refusal pj (place_of sys fs d (rc_conversation_id cx)) cx
     in et_engines t' = map seeded_row (et_engines t)
      \<and> yes = map (offer_of pj d t' (rc_headless cx)) (filter (\<lambda>r. why r = None) (et_engines t'))
      \<and> no = map (\<lambda>r. (er_display_name r, the (why r))) (filter (\<lambda>r. why r \<noteq> None) (et_engines t'))"
proof -
  obtain t' yes no where o: "offered sys fs pj d ids t cx = (t', yes, no)" by (metis prod_cases3)
  then have rows: "offer_rows pj d ids (place_of sys fs d (rc_conversation_id cx)) cx t (et_engines t) = (t', yes, no)"
    using assms(1) by (simp add: offered_def list_engines_def db_up_def)
  note exact = offer_rows_exact[OF assms(1,2) subset_refl assms(2) rows]
  have "et_engines t' = map (\<lambda>r. if er_id r \<in> er_id ` set (et_engines t) then seeded_row r else r) (et_engines t)"
    using exact by blast
  also have "\<dots> = map seeded_row (et_engines t)" by (auto intro!: map_cong)
  finally have E: "et_engines t' = map seeded_row (et_engines t)" .
  from exact have "yes = map (offer_of pj d t' (rc_headless cx))
        (filter (\<lambda>r. refusal pj (place_of sys fs d (rc_conversation_id cx)) cx r = None) (map seeded_row (et_engines t)))"
    "no = map (\<lambda>r. (er_display_name r, the (refusal pj (place_of sys fs d (rc_conversation_id cx)) cx r)))
        (filter (\<lambda>r. refusal pj (place_of sys fs d (rc_conversation_id cx)) cx r \<noteq> None) (map seeded_row (et_engines t)))"
    by blast+
  then show ?thesis by (simp add: o E Let_def)
qed

definition sample_row :: engine_row where
  "sample_row = (new_engine_row ''codex'' ''codex'' ''Codex'' 0)\<lparr>er_enabled := True, er_found_path := Some ''/bin/codex''\<rparr>"

definition sample_tables :: engine_tables where
  "sample_tables = \<lparr>et_engines = [sample_row], et_rules = [], et_runs = []\<rparr>"

definition sample_files :: code_files where
  "sample_files = \<lparr>cf_is_file = (\<lambda>_. True), cf_exists = (\<lambda>_. True), cf_entries = (\<lambda>_. None)\<rparr>"

theorem offered_exact_witness:
  "db_up empty_db \<and> distinct (map er_id (et_engines sample_tables))
   \<and> (case offered plain_os sample_files (\<lambda>_. None) empty_db (\<lambda>_ k. show_nat k) sample_tables
        \<lparr>rc_conversation_id = ''c'', rc_headless = False, rc_delegate_to = None\<rparr> of
      (t', yes, no) \<Rightarrow> yes = [] \<and> no = [(''Codex'', BlockNoFolder)] \<and> et_engines t' = [seeded_row sample_row])"
proof -
  let ?cx = "\<lparr>rc_conversation_id = ''c'', rc_headless = False, rc_delegate_to = None\<rparr>"
  have up: "db_up empty_db" "distinct (map er_id (et_engines sample_tables))"
    by (simp_all add: db_up_def empty_db_def sample_tables_def)
  have pl: "\<not> has_folder (place_of plain_os sample_files empty_db ''c'')" "\<not> chat_off (place_of plain_os sample_files empty_db ''c'')"
    by (simp_all add: place_of_def conversation_folder_def empty_db_def Let_def)
  have why: "refusal (\<lambda>_. None) (place_of plain_os sample_files empty_db ''c'') ?cx (seeded_row sample_row) = Some BlockNoFolder"
    using pl by (simp add: refusal_def blocked_def seeded_row_def sample_row_def new_engine_row_def engine_ready_def
        engine_kind_parse_def delegate_ready_def)
  have name: "er_display_name sample_row = ''Codex''" by (simp add: sample_row_def new_engine_row_def)
  have "et_engines sample_tables = [sample_row]" by (simp add: sample_tables_def)
  with offered_exact[OF up, where sys = plain_os and fs = sample_files and pj = "\<lambda>_. None" and ids = "\<lambda>_ k. show_nat k" and cx = ?cx] why name up show ?thesis
    by (auto simp: Let_def split: prod.splits)
qed

text \<open>Nothing unusable is ever offered (the reasons written out): an offered agent is switched
  on, found, one Poiesis can drive, and signed in or paid by key; the chat has a folder and has
  not switched agents off; in an unattended run the user allowed the agent there and either
  named it or set it to start by itself; and the folder passes its guards.\<close>

theorem only_usable_agents_are_offered:
  assumes "db_up d" and "distinct (map er_id (et_engines t))"
    and "offered sys fs pj d ids t cx = (t', yes, no)" and "o' \<in> set yes"
  shows "let r = of_row o'; g = of_guards o'; pl = place_of sys fs d (rc_conversation_id cx)
     in er_enabled r \<and> er_found_path r \<noteq> None \<and> engine_ready r
      \<and> (er_signed_in r = Some False \<longrightarrow> er_payment r = ''api-key'')
      \<and> has_folder pl \<and> \<not> chat_off pl
      \<and> (code_projects_only g \<longrightarrow> is_code pl)
      \<and> (er_trust_ceiling r \<noteq> ''read-only'' \<longrightarrow> trust_rank (trust_parse (min_trust g)) \<le> trust_rank (pl_trust pl))
      \<and> (\<forall>p \<in> set (not_in_projects g). pl_project_id pl \<noteq> Some p)
      \<and> (rc_headless cx \<longrightarrow> er_headless r \<and> (asked_for cx r \<or> er_use_mode r = ''auto''))
      \<and> (er_use_mode r = ''on_request'' \<longrightarrow> asked_for cx r)"
proof -
  let ?pl = "place_of sys fs d (rc_conversation_id cx)"
  have rows: "offer_rows pj d ids ?pl cx t (et_engines t) = (t', yes, no)"
    using assms(1,3) by (simp add: offered_def list_engines_def db_up_def)
  from offer_rows_exact[OF assms(1,2) subset_refl assms(2) rows] assms(4) obtain r where
    r: "o' = offer_of pj d t' (rc_headless cx) r" "refusal pj ?pl cx r = None" by auto
  have b: "blocked r (of_guards o') ?pl (rc_headless cx) = None"
    and m: "run_mode r (rc_headless cx) = UseOnRequest \<Longrightarrow> asked_for cx r"
    using r by (auto simp: refusal_def offer_of_def split: option.splits if_splits)
  have row: "of_row o' = r" using r(1) by (simp add: offer_of_def)
  have auto_mode: "rc_headless cx \<Longrightarrow> asked_for cx r \<or> er_use_mode r = ''auto''"
    using m by (auto simp: run_mode_def use_mode_parse_def Let_def split: if_splits)
  have on_req: "er_use_mode r = ''on_request'' \<Longrightarrow> asked_for cx r"
    using m by (simp add: run_mode_def use_mode_parse_def)
  show ?thesis
    using b auto_mode on_req unfolding row by (auto simp: blocked_def Let_def split: if_splits option.splits)
qed

definition named_ctx :: route_ctx where
  "named_ctx = \<lparr>rc_conversation_id = ''c'', rc_headless = False, rc_delegate_to = Some ''codex''\<rparr>"

definition sample_db :: db where
  "sample_db = empty_db\<lparr>db_conversations := [''c'' \<mapsto> \<lparr>conv_project_id = None, folder_path = Some ''/w'',
     folder_trust = Some ''auto'', engines_off = False, workspace = False\<rparr>]\<rparr>"

theorem only_usable_agents_are_offered_witness:
  "\<exists>t' yes no. offered plain_os sample_files (\<lambda>_. None) sample_db (\<lambda>_ k. show_nat k) sample_tables named_ctx = (t', yes, no)
     \<and> yes \<noteq> [] \<and> er_enabled (of_row (hd yes)) \<and> has_folder (place_of plain_os sample_files sample_db ''c'')"
proof -
  have up: "db_up sample_db" "distinct (map er_id (et_engines sample_tables))"
    by (simp_all add: db_up_def empty_db_def sample_tables_def sample_db_def)
  obtain t' yes no where o: "offered plain_os sample_files (\<lambda>_. None) sample_db (\<lambda>_ k. show_nat k) sample_tables named_ctx = (t', yes, no)"
    by (metis prod_cases3)
  have rows: "offer_rows (\<lambda>_. None) sample_db (\<lambda>_ k. show_nat k) (place_of plain_os sample_files sample_db ''c'') named_ctx
      sample_tables (et_engines sample_tables) = (t', yes, no)"
    using o up(1) by (simp add: offered_def list_engines_def db_up_def named_ctx_def)
  have pl: "place_of plain_os sample_files sample_db ''c'' =
      \<lparr>has_folder = True, is_code = True, pl_trust = TrustAuto, pl_project_id = None, chat_off = False\<rparr>"
    by (simp add: place_of_def conversation_folder_def sample_db_def empty_db_def joined_project_def
        is_code_project_def PROJECT_FILES_def sample_files_def trust_parse_def)
  have "refusal (\<lambda>_. None) (place_of plain_os sample_files sample_db ''c'') named_ctx (seeded_row sample_row) = None"
    unfolding pl by (simp add: refusal_def blocked_def seeded_row_def sample_row_def new_engine_row_def engine_ready_def
        engine_kind_parse_def delegate_ready_def resolve_guards_def no_stored_guards_def named_ctx_def
        seed_mode_def default_mode_def use_mode_parse_def use_mode_as_str_def run_mode_def valid_trust_def trust_parse_def trust_rank_def)
  moreover have "et_engines sample_tables = [sample_row]" by (simp add: sample_tables_def)
  moreover have "yes = map (offer_of (\<lambda>_. None) sample_db t' (rc_headless named_ctx))
      (filter (\<lambda>r. refusal (\<lambda>_. None) (place_of plain_os sample_files sample_db ''c'') named_ctx r = None)
         (map seeded_row (et_engines sample_tables)))"
    using offer_rows_exact[OF up subset_refl up(2) rows] by blast
  ultimately have ne: "yes \<noteq> []" by simp
  with only_usable_agents_are_offered[OF up o, of "hd yes"] pl show ?thesis
    using o by (auto simp: Let_def)
qed

text \<open>A handover cites exactly one of the user's rules: without being asked by name the lead gets
  through exactly when the first word of its reason is the label of a rule that is switched on and
  does not say to keep the work, and then the citation is that rule, with a confirmation exactly
  in suggest mode without a standing yes; every rule has one label, in the order of the rules, no
  two share one, and switching rules on or off renames none.\<close>

theorem citation_names_one_rule:
  "(cite o' because False = Inr c \<longleftrightarrow>
      (\<exists>b r. because = Some b \<and> (wanted_label b, r) \<in> set (labels (of_rules o'))
        \<and> ru_kind r \<noteq> ''avoid'' \<and> ru_enabled r
        \<and> c = \<lparr>ci_label = wanted_label b, ci_rule = Some r,
               ci_needs_card = (of_mode o' = UseSuggest \<and> \<not> ru_auto r)\<rparr>))
   \<and> distinct (map fst (labels rs)) \<and> map snd (labels rs) = rs
   \<and> map fst (labels (map (\<lambda>r. r\<lparr>ru_enabled := f r, ru_auto := g r\<rparr>) rs)) = map fst (labels rs)"
proof -
  have "map fst (labels (map (\<lambda>r. r\<lparr>ru_enabled := f r, ru_auto := g r\<rparr>) rs)) = map fst (labels rs)"
    unfolding labels_def by (rule labels_from_kinds) simp
  moreover have "cite o' because False = Inr c \<longleftrightarrow>
      (\<exists>b r. because = Some b \<and> (wanted_label b, r) \<in> set (labels (of_rules o'))
        \<and> ru_kind r \<noteq> ''avoid'' \<and> ru_enabled r
        \<and> c = \<lparr>ci_label = wanted_label b, ci_rule = Some r,
               ci_needs_card = (of_mode o' = UseSuggest \<and> \<not> ru_auto r)\<rparr>)"
  proof (cases because)
    case None
    then show ?thesis by (simp add: cite_def Let_def)
  next
    case (Some b)
    show ?thesis
    proof (cases "List.find (\<lambda>(l, _). l = wanted_label b) (labels (of_rules o'))")
      case None
      then have "\<And>r. (wanted_label b, r) \<notin> set (labels (of_rules o'))" by (auto simp: find_None_iff)
      with Some None show ?thesis by (auto simp: cite_def Let_def)
    next
      case found: (Some lr)
      obtain l r where lr: "lr = (l, r)" by fastforce
      with found have r: "(wanted_label b, r) \<in> set (labels (of_rules o'))"
        using labels_find_any[of "wanted_label b" "of_rules o'" l r] by simp
      have uniq: "(wanted_label b, q) \<in> set (labels (of_rules o')) \<Longrightarrow> q = r" for q
        using r labels_distinct[of "of_rules o'"] by (metis eq_key_imp_eq_value)
      have "wanted_label b \<noteq> []" using label_chars(1)[OF r] .
      with Some found lr have c: "cite o' because False = Inr c \<longleftrightarrow>
          ru_kind r \<noteq> ''avoid'' \<and> ru_enabled r
          \<and> c = \<lparr>ci_label = wanted_label b, ci_rule = Some r, ci_needs_card = (of_mode o' = UseSuggest \<and> \<not> ru_auto r)\<rparr>"
        by (simp add: cite_def Let_def eq_commute[of c])
      show ?thesis unfolding c using Some r uniq by blast
    qed
  qed
  ultimately show ?thesis by (simp add: labels_distinct labels_snd)
qed

text \<open>The lead need not quote a label bare: whatever punctuation stands before it and whatever
  follows it that is not a letter or digit, the rule meant is the one with that label.\<close>

theorem quoted_label_is_read:
  assumes "(l, r) \<in> set (labels (of_rules o'))" and "ru_kind r \<noteq> ''avoid''" and "ru_enabled r"
    and "\<forall>c \<in> set p. \<not> is_ascii_alnum c" and "q = [] \<or> \<not> is_ascii_alnum (hd q)"
  shows "map_sum id ci_rule (cite o' (Some (p @ l @ q)) False) = Inr (Some r)"
proof -
  note w = wanted_label_quoted[OF assms(1,4,5)]
  have f: "List.find (\<lambda>(l', _). l' = l) (labels (of_rules o')) = Some (l, r)"
    using labels_find_any assms(1) by blast
  have "l \<noteq> []" using label_chars(1)[OF assms(1)] .
  with w f assms(2,3) show ?thesis by (simp add: cite_def Let_def)
qed

theorem quoted_label_is_read_witness:
  "map_sum id ci_rule (cite \<lparr>of_row = sample_row, of_rules = [default_rule ''codex'' ''use'' ''Bugs''],
      of_guards = resolve_guards (\<lambda>_. None) [] ''codex'', of_mode = UseSuggest\<rparr> (Some ''(U1: a bug)'') False)
     = Inr (Some (default_rule ''codex'' ''use'' ''Bugs''))"
proof -
  let ?o = "\<lparr>of_row = sample_row, of_rules = [default_rule ''codex'' ''use'' ''Bugs''],
      of_guards = resolve_guards (\<lambda>_. None) [] ''codex'', of_mode = UseSuggest\<rparr>"
  have one: "show_nat 1 = ''1''" by code_simp
  then have l: "(''U1'', default_rule ''codex'' ''use'' ''Bugs'') \<in> set (labels (of_rules ?o))"
    using one by (simp add: labels_def default_rule_def)
  show ?thesis
    using quoted_label_is_read[OF l, of "''(''" "'': a bug)''"]
    by (simp add: default_rule_def is_ascii_alnum_def is_ascii_digit_def is_ascii_alphabetic_def)
qed

lemma reset_rules_tables:
  assumes "db_writable d"
  shows "snd (reset_rules d t ids row) = Inr ()
    \<and> map ru_text (filter (\<lambda>r. ru_engine_id r = er_id row) (et_rules (fst (reset_rules d t ids row)))) =
        map snd (default_rules (er_kind row))"
proof -
  let ?rs = "map (\<lambda>(k, x). default_rule (er_id row) k x) (default_rules (er_kind row))"
  let ?t0 = "t\<lparr>et_rules := filter (\<lambda>q. ru_engine_id q \<noteq> er_id row) (et_rules t)\<rparr>"
  obtain t1 r1 where t1: "insert_rules d ?t0 ids 0 ?rs = (t1, r1)" by fastforce
  have "\<forall>r \<in> set ?rs. ru_engine_id r = er_id row" by (auto simp: default_rule_def)
  from insert_rules_tables[OF assms this, of ?t0 ids 0] obtain new where
    new: "r1 = Inr ()" "et_rules t1 = et_rules ?t0 @ new"
      "\<forall>r \<in> set new. ru_engine_id r = er_id row" "map ru_text new = map ru_text ?rs"
    unfolding t1 by auto
  have "map ru_text ?rs = map snd (default_rules (er_kind row))"
    by (simp add: default_rule_def split_beta)
  moreover have "filter (\<lambda>r. ru_engine_id r = er_id row) new = new" using new(3) by (simp add: filter_id_conv)
  ultimately show ?thesis using new t1 assms
    by (simp add: reset_rules_def clear_engine_rules_def write_defaults_def mark_engine_rules_seeded_def)
qed

text \<open>The default rules are written once: looking at an agent for the first time stores it as
  seeded with its rules, every later look leaves the tables as they are, whatever the user did to
  the rules since (an emptied list stays empty), and a reset brings back exactly the defaults.\<close>

theorem defaults_written_once:
  assumes "db_up d" and "distinct (map er_id (et_engines t))" and "row \<in> set (et_engines t)"
    and "\<not> er_rules_seeded row"
  shows "let t1 = fst (ensure_seeded d t ids row); row1 = seeded_row row
     in get_engine d t1 (er_id row) = Inr (Some row1)
      \<and> (\<exists>new. et_rules t1 = et_rules t @ new \<and> map ru_text new = map snd (default_rules (er_kind row))
             \<and> (\<forall>r \<in> set new. ru_engine_id r = er_id row))
      \<and> ensure_seeded d t2 ids2 row1 = (t2, Inr ())
      \<and> map ru_text (filter (\<lambda>r. ru_engine_id r = er_id row) (et_rules (fst (reset_rules d t2 ids2 row1)))) =
          map snd (default_rules (er_kind row))"
proof -
  have up: "db_readable d" "db_writable d" using assms(1) by (simp_all add: db_up_def)
  have eng: "et_engines (fst (ensure_seeded d t ids row)) =
     map (\<lambda>r. if er_id r = er_id row then seeded_row r else r) (et_engines t)"
    by (rule ensure_seeded_engines[OF up(2) assms(2,3)])
  have "seeded_row row \<in> set (et_engines (fst (ensure_seeded d t ids row)))"
    unfolding eng using assms(3) by force
  moreover have "distinct (map er_id (et_engines (fst (ensure_seeded d t ids row))))"
    unfolding eng using assms(2) by (simp add: comp_def if_distrib cong: if_cong)
  ultimately have "get_engine d (fst (ensure_seeded d t ids row)) (er_id row) = Inr (Some (seeded_row row))"
    using find_by_id[of _ "seeded_row row"] up by (simp add: get_engine_def)
  moreover have "ensure_seeded d t2 ids2 (seeded_row row) = (t2, Inr ())"
    by (simp add: ensure_seeded_def)
  ultimately show ?thesis
    using ensure_seeded_tables[OF up(2), of t ids row] reset_rules_tables[OF up(2), of t2 ids2 "seeded_row row"] assms(4)
    unfolding Let_def by auto
qed

theorem defaults_written_once_witness:
  "db_up empty_db \<and> sample_row \<in> set (et_engines sample_tables) \<and> \<not> er_rules_seeded sample_row
   \<and> get_engine empty_db (fst (ensure_seeded empty_db sample_tables show_nat sample_row)) ''codex'' = Inr (Some (seeded_row sample_row))
   \<and> length (et_rules (fst (ensure_seeded empty_db sample_tables show_nat sample_row))) = 7"
proof -
  have h: "db_up empty_db" "distinct (map er_id (et_engines sample_tables))" "sample_row \<in> set (et_engines sample_tables)"
    "\<not> er_rules_seeded sample_row"
    by (simp_all add: db_up_def empty_db_def sample_tables_def sample_row_def new_engine_row_def)
  have k: "er_kind sample_row = ''codex''" "er_id sample_row = ''codex''" "et_rules sample_tables = []"
    by (simp_all add: sample_row_def new_engine_row_def sample_tables_def)
  from defaults_written_once[OF h, where ids = show_nat and ?t2.0 = sample_tables and ?ids2.0 = show_nat] obtain new where
    new: "et_rules (fst (ensure_seeded empty_db sample_tables show_nat sample_row)) = new"
      "map ru_text new = map snd (default_rules ''codex'')"
      "get_engine empty_db (fst (ensure_seeded empty_db sample_tables show_nat sample_row)) ''codex'' = Inr (Some (seeded_row sample_row))"
    unfolding Let_def k by auto
  have "length new = 7" using arg_cong[OF new(2), of length] by (simp add: default_rules_def)
  with new h show ?thesis by simp
qed

text \<open>The routing question loses nothing: every rule that is on and says to use an agent is an
  option, and choosing that option names that agent and that very rule; the two options that name
  no agent name none.\<close>

theorem route_option_roundtrip:
  assumes "distinct (map (er_id \<circ> of_row) cs)" and "o' \<in> set cs"
    and "(l, r) \<in> set (labels (of_rules o'))" and "ru_kind r = ''use''" and "ru_enabled r"
  shows "(\<exists>t. (er_id (of_row o') @ '':'' @ l, t) \<in> set (route_options cs))
    \<and> preview_from_option cs (er_id (of_row o') @ '':'' @ l) pl = Some (preview_of o' l r pl)
    \<and> preview_from_option cs ROUTE_NONE pl = None \<and> preview_from_option cs ROUTE_UNSURE pl = None"
proof -
  have opt: "(er_id (of_row o') @ '':'' @ l, ''Hand it to '' @ er_display_name (of_row o') @ '': '' @ ru_text r)
      \<in> set (concat (map (\<lambda>o'.
            map (\<lambda>(l, r). (er_id (of_row o') @ '':'' @ l,
                          ''Hand it to '' @ er_display_name (of_row o') @ '': '' @ ru_text r))
              (filter (\<lambda>(_, r). ru_kind r = ''use'' \<and> ru_enabled r) (labels (of_rules o')))) cs))"
    using assms(2-5) by force
  have gen: "x \<in> set xs \<Longrightarrow> x \<in> set (if xs = [] then xs else xs @ ys)" for x :: "string \<times> string" and xs ys by auto
  have mem: "\<exists>t. (er_id (of_row o') @ '':'' @ l, t) \<in> set (route_options cs)"
    using gen[OF opt] unfolding route_options_def Let_def by blast
  have cut: "rsplit_once (CHR '':'') (er_id (of_row o') @ '':'' @ l) = Some (er_id (of_row o'), l)"
    using rsplit_once_append[of "CHR '':''" l "er_id (of_row o')"] label_chars(4)[OF assms(3)] by simp
  have uniq: "q = o'" if "q \<in> set cs" "er_id (of_row q) = er_id (of_row o')" for q
    using assms(1,2) that by (auto simp: distinct_map inj_on_def)
  have "List.find (\<lambda>q. er_id (of_row q) = er_id (of_row o')) cs \<noteq> None"
    using assms(2) by (auto simp: find_None_iff)
  then have "List.find (\<lambda>q. er_id (of_row q) = er_id (of_row o')) cs = Some o'"
    using uniq by (metis (mono_tags, lifting) find_SomeD option.exhaust)
  moreover have "List.find (\<lambda>(l', r). l' = l \<and> ru_kind r = ''use'' \<and> ru_enabled r) (labels (of_rules o')) = Some (l, r)"
    using labels_find[of l "\<lambda>r. ru_kind r = ''use'' \<and> ru_enabled r" "of_rules o'" l r] assms(3-5) by simp
  ultimately have "preview_from_option cs (er_id (of_row o') @ '':'' @ l) pl = Some (preview_of o' l r pl)"
    by (simp add: preview_from_option_def cut del: append.simps)
  moreover have "preview_from_option cs ROUTE_NONE pl = None" "preview_from_option cs ROUTE_UNSURE pl = None"
    by (simp_all add: preview_from_option_def ROUTE_NONE_def ROUTE_UNSURE_def rsplit_once_None)
  ultimately show ?thesis using mem by blast
qed

definition sample_offer :: offer where
  "sample_offer = \<lparr>of_row = sample_row, of_rules = [default_rule ''codex'' ''use'' ''Bugs''],
     of_guards = resolve_guards (\<lambda>_. None) [] ''codex'', of_mode = UseSuggest\<rparr>"

theorem route_option_roundtrip_witness:
  "map_option pv_rule_text (preview_from_option [sample_offer] ''codex:U1'' assumed_place) = Some (Some ''Bugs'')"
proof -
  have one: "show_nat 1 = ''1''" by code_simp
  then have l: "(''U1'', default_rule ''codex'' ''use'' ''Bugs'') \<in> set (labels (of_rules sample_offer))"
    by (simp add: labels_def default_rule_def sample_offer_def)
  have i: "er_id (of_row sample_offer) = ''codex''" by (simp add: sample_offer_def sample_row_def new_engine_row_def)
  show ?thesis
    using route_option_roundtrip[of "[sample_offer]" sample_offer, OF _ _ l, of assumed_place] i
    by (simp add: default_rule_def preview_of_def)
qed

text \<open>Guards are always in bounds, whatever the row's text holds, and what was saved is what is
  read: guards that pass the check of the screen come back unchanged from the text they were
  written as, given that the JSON library reads what it printed.\<close>

theorem guards_roundtrip:
  assumes "validate_guards g = Inr ()" and "of_json j = Some (guards_json g)"
  shows "resolve_guards of_json j kind = g \<and> validate_guards (resolve_guards any_json k kind') = Inr ()"
proof -
  have ok: "valid_trust (min_trust g)" "1 \<le> max_per_conversation g" "max_per_conversation g \<le> 20"
    using assms(1) by (auto simp: validate_guards_def split: if_splits)
  have strs: "read_strings (JArray (map JString xs)) = Some xs" for xs
    by (induction xs) (auto simp: read_strings_def json_str_def comp_def split: if_splits)
  have "read_guards (guards_json g) = Some \<lparr>sg_code_projects_only = Some (code_projects_only g),
      sg_min_trust = Some (min_trust g), sg_max_per_conversation = Some (max_per_conversation g),
      sg_not_in_projects = Some (not_in_projects g)\<rparr>"
    using ok strs[of "not_in_projects g"]
    by (simp add: read_guards_def guards_json_def read_field_def read_opt_def read_bool_def read_u32_def json_str_def build_guards_def)
  then have "resolve_guards of_json j kind = g"
    using ok assms(2) by (simp add: resolve_guards_def)
  moreover have "1 \<le> clamp 1 20 n" "clamp 1 20 n \<le> 20" for n :: nat
    by (simp_all add: clamp_bounds)
  then have "validate_guards (resolve_guards any_json k kind') = Inr ()"
    by (auto simp: validate_guards_def resolve_guards_def Let_def valid_trust_def split: option.splits)
  ultimately show ?thesis by blast
qed

theorem guards_roundtrip_witness:
  "resolve_guards (\<lambda>_. Some (guards_json (resolve_guards (\<lambda>_. None) [] ''acp''))) ''x'' ''codex'' =
     resolve_guards (\<lambda>_. None) [] ''acp''"
proof -
  have "validate_guards (resolve_guards (\<lambda>_. None) [] ''acp'') = Inr ()"
    by (simp add: validate_guards_def resolve_guards_def no_stored_guards_def valid_trust_def)
  from guards_roundtrip[OF this, of "\<lambda>_. Some (guards_json (resolve_guards (\<lambda>_. None) [] ''acp''))" "''x''" "''codex''"]
  show ?thesis by simp
qed

end
