(* ===== verification/Engine_Approve.thy ===== *)
theory Engine_Approve imports Db_Store Permissions File_Access begin

text \<open>
  The permission panel of the agent apps (\<open>src-tauri/src/engines/approve.rs\<close>): what a tool does,
  whether its path leaves the folder, the question and what a standing yes remembers, and the
  whole of \<open>decide\<close>, with the answer (or its absence) as an argument.

  The printer of \<open>serde_json\<close>, the disk's \<open>exists\<close>, the id of a request and the quick decision of
  \<open>toolgate::scope_of\<close> come from outside.
\<close>

section \<open>Tools and paths\<close>

definition SHOW_MAX :: nat where "SHOW_MAX = 6000"

datatype tool_kind = ToolRead | ToolEdit | ToolCommand | ToolFetch | ToolOther

definition kind_of :: "string \<Rightarrow> tool_kind" where
  "kind_of tool =
     (if tool \<in> set [''Read'', ''Glob'', ''Grep'', ''LS'', ''NotebookRead'', ''TodoWrite'', ''BashOutput'']
      then ToolRead
      else if tool \<in> set [''Edit'', ''MultiEdit'', ''Write'', ''NotebookEdit'', ''Patch'', ''Delete''] then ToolEdit
      else if tool \<in> set [''Bash'', ''PowerShell''] then ToolCommand
      else if tool \<in> set [''WebFetch'', ''WebSearch''] then ToolFetch
      else ToolOther)"

definition arg_str :: "json \<Rightarrow> string \<Rightarrow> string option" where
  "arg_str input k = Option.bind (json_get input k) json_str"

definition str_or_empty :: "string option \<Rightarrow> string" where
  "str_or_empty s = (case s of Some t \<Rightarrow> t | None \<Rightarrow> [])"

definition clip :: "string \<Rightarrow> nat \<Rightarrow> string" where
  "clip s n = (let t = trim s in if chars_count t \<le> n then t else chars_take n t @ ellipsis)"

definition file_of :: "json \<Rightarrow> string option" where
  "file_of input =
     coalesce (arg_str input ''file_path'') (coalesce (arg_str input ''path'') (arg_str input ''notebook_path''))"

text \<open>\<open>Path::join\<close>: an absolute path replaces.\<close>

definition join_path :: "path \<Rightarrow> path \<Rightarrow> path" where
  "join_path root p = (if is_relative p then root @ p else p)"

definition outside :: "os \<Rightarrow> json \<Rightarrow> path \<Rightarrow> bool" where
  "outside sys input cwd =
     (case file_of input of
        None \<Rightarrow> False
      | Some p \<Rightarrow> \<not> path_within_root sys (join_path cwd (path_of sys p)) cwd)"

definition shown_path :: "os \<Rightarrow> string \<Rightarrow> path \<Rightarrow> string" where
  "shown_path sys p cwd =
     (case strip_prefix cwd (path_of sys p) of Some r \<Rightarrow> path_text sys r | None \<Rightarrow> p)"

section \<open>The question\<close>

definition shown_file :: "os \<Rightarrow> json \<Rightarrow> path \<Rightarrow> string" where
  "shown_file sys input cwd =
     (case file_of input of Some p \<Rightarrow> shown_path sys p cwd | None \<Rightarrow> ''a file'')"

definition ask_sentence :: "os \<Rightarrow> (path \<Rightarrow> bool) \<Rightarrow> string \<Rightarrow> string \<Rightarrow> json \<Rightarrow> path \<Rightarrow> string" where
  "ask_sentence sys exists engine tool input cwd =
     (let away = (if outside sys input cwd then '' (outside the folder it was given)'' else [])
      in case kind_of tool of
           ToolCommand \<Rightarrow> engine @ '' wants to run a command.''
         | ToolEdit \<Rightarrow>
             (let verb = (if tool = ''Write''
                             \<and> \<not> (case file_of input of Some p \<Rightarrow> exists (join_path cwd (path_of sys p)) | None \<Rightarrow> False)
                          then ''create'' else if tool = ''Delete'' then ''delete'' else ''edit'')
              in engine @ '' wants to '' @ verb @ '' '' @ shown_file sys input cwd @ away @ ''.'')
         | ToolFetch \<Rightarrow> engine @ '' wants to reach the internet.''
         | ToolRead \<Rightarrow> engine @ '' wants to read '' @ shown_file sys input cwd @ away @ ''.''
         | ToolOther \<Rightarrow> engine @ '' wants to use '' @ tool @ ''.'')"

definition prefixed_lines :: "string \<Rightarrow> string \<Rightarrow> string" where
  "prefixed_lines p t = join_with newline (map (\<lambda>l. p @ l) (str_lines t))"

definition one_edit :: "string \<Rightarrow> string \<Rightarrow> string" where
  "one_edit old new =
     (if old \<noteq> [] then prefixed_lines ''- '' old @ newline else []) @ prefixed_lines ''+ '' new"

definition midline_dots :: string where "midline_dots = [CHR 0xE2, CHR 0x8B, CHR 0xAF]"

definition multi_edits :: "json list \<Rightarrow> string list" where
  "multi_edits es =
     List.map_filter (\<lambda>e. map_option (one_edit (str_or_empty (arg_str e ''old_string''))) (arg_str e ''new_string'')) es"

definition edit_diff :: "string \<Rightarrow> json \<Rightarrow> string option" where
  "edit_diff tool input =
     map_option (\<lambda>t. clip t SHOW_MAX)
       (if tool = ''Write'' then map_option (prefixed_lines ''+ '') (arg_str input ''content'')
        else if tool = ''Edit'' then
          map_option (one_edit (str_or_empty (arg_str input ''old_string''))) (arg_str input ''new_string'')
        else if tool = ''MultiEdit'' then
          map_option (\<lambda>es. join_with (newline @ midline_dots @ newline) (multi_edits es))
            (Option.bind (json_get input ''edits'') json_array)
        else if tool = ''NotebookEdit'' then map_option (prefixed_lines ''+ '') (arg_str input ''new_source'')
        else if tool = ''Patch'' then arg_str input ''diff''
        else None)"

definition remember_key :: "(json \<Rightarrow> string) \<Rightarrow> string \<Rightarrow> json \<Rightarrow> string" where
  "remember_key to_text tool input =
     (case kind_of tool of
        ToolCommand \<Rightarrow> tool @ '':'' @ str_or_empty (arg_str input ''command'')
      | ToolEdit \<Rightarrow> tool @ '':'' @ str_or_empty (file_of input)
      | _ \<Rightarrow> tool @ '':'' @ to_text input)"

section \<open>The decision\<close>

datatype verdict = VerdictAllow | VerdictDeny string

definition to_claude_json :: "verdict \<Rightarrow> json \<Rightarrow> json" where
  "to_claude_json v input =
     (case v of
        VerdictAllow \<Rightarrow> JObject [(''behavior'', JString ''allow''), (''updatedInput'', input)]
      | VerdictDeny why \<Rightarrow> JObject [(''behavior'', JString ''deny''), (''message'', JString why)])"

text \<open>What a quick decision says about a request that seems off the task: its two texts and its id.\<close>

record scoped =
  sc_line :: string
  sc_hover :: string
  sc_decision :: string

record port =
  po_engine :: string
  po_cwd :: path
  po_trust :: trust
  po_headless :: bool
  po_task :: "string option"

record port_state =
  pt_db :: db
  pt_perms :: perm_manager
  pt_sent :: "permission_request list"
  pt_gone :: "string list"
  pt_remembered :: "string set"
  pt_asked :: u32
  pt_allowed :: u32
  pt_denied :: u32

definition new_port_state :: "db \<Rightarrow> perm_manager \<Rightarrow> port_state" where
  "new_port_state d m =
     \<lparr>pt_db = d, pt_perms = m, pt_sent = [], pt_gone = [], pt_remembered = {}, pt_asked = 0,
      pt_allowed = 0, pt_denied = 0\<rparr>"

text \<open>
  How the wait for the panel ends: an answer, the sender dropped, one of the two flags set, or
  ten minutes gone by.  Only the first is an answer.
\<close>

datatype panel_end = PanelAnswer decision | PanelDropped | PanelWithdrawn | PanelTimeout

definition panel_answer :: "panel_end \<Rightarrow> decision option" where
  "panel_answer w = (case w of PanelAnswer d \<Rightarrow> Some d | _ \<Rightarrow> None)"

definition ARGS_CHARS :: nat where "ARGS_CHARS = 1200"

definition engine_what :: "string \<Rightarrow> string \<Rightarrow> string \<Rightarrow> string" where
  "engine_what engine tool detail =
     ''let the agent app '' @ engine @ '' do this on its own: '' @ tool @ ''.'' @ newline @ clip detail ARGS_CHARS"

definition panel_argv :: "string \<Rightarrow> json \<Rightarrow> string list option" where
  "panel_argv tool input =
     (if kind_of tool = ToolCommand then Some [clip (str_or_empty (arg_str input ''command'')) SHOW_MAX] else None)"

definition panel_diff :: "(json \<Rightarrow> string) \<Rightarrow> string \<Rightarrow> json \<Rightarrow> string option" where
  "panel_diff to_text tool input =
     (case kind_of tool of
        ToolEdit \<Rightarrow> edit_diff tool input
      | ToolOther \<Rightarrow> Some (clip (to_text input) SHOW_MAX)
      | ToolFetch \<Rightarrow> Some (clip (to_text input) SHOW_MAX)
      | _ \<Rightarrow> None)"

definition panel_scope :: "(string \<Rightarrow> string \<Rightarrow> scoped option) \<Rightarrow> (json \<Rightarrow> string) \<Rightarrow> port \<Rightarrow> string \<Rightarrow> json \<Rightarrow> scoped option" where
  "panel_scope scope_of to_text po tool input =
     (case po_task po of
        None \<Rightarrow> None
      | Some task \<Rightarrow>
          (let detail = (case panel_argv tool input of
                           Some a \<Rightarrow> join_with '' '' a
                         | None \<Rightarrow> str_or_empty (panel_diff to_text tool input))
           in scope_of task (engine_what (po_engine po) tool detail)))"

definition panel_request ::
  "os \<Rightarrow> (path \<Rightarrow> bool) \<Rightarrow> (json \<Rightarrow> string) \<Rightarrow> port \<Rightarrow> string \<Rightarrow> string \<Rightarrow> json \<Rightarrow> scoped option \<Rightarrow> permission_request" where
  "panel_request sys exists to_text po i tool input sc =
     with_reason_hover (map_option sc_hover sc)
       (with_reason (map_option sc_line sc)
          (request_engine_ask i (po_engine po) tool
             (ask_sentence sys exists (po_engine po) tool input (po_cwd po))
             (path_text sys (po_cwd po)) (panel_argv tool input) (panel_diff to_text tool input)))"

definition deny_read_only :: string where
  "deny_read_only = ''Not allowed: this folder is read only for you, so you can look but not change anything.''"
definition deny_headless :: string where
  "deny_headless = ''Not allowed: nobody is here to approve it.''"
definition deny_declined :: string where
  "deny_declined = ''Not allowed: the user declined.''"
definition deny_unanswered :: string where
  "deny_unanswered = ''Not allowed: the question was withdrawn or nobody answered in time.''"

text \<open>The manager after the wait: an answer resolved the request, a dropped sender took it away.\<close>

definition after_wait :: "perm_manager \<Rightarrow> string \<Rightarrow> panel_end \<Rightarrow> perm_manager" where
  "after_wait m i w =
     (case w of PanelAnswer d \<Rightarrow> resolve_request m i d | PanelDropped \<Rightarrow> drop_request m i | _ \<Rightarrow> m)"

definition decide_inner ::
  "os \<Rightarrow> (path \<Rightarrow> bool) \<Rightarrow> (json \<Rightarrow> string) \<Rightarrow> (string \<Rightarrow> string \<Rightarrow> scoped option) \<Rightarrow> port \<Rightarrow> string \<Rightarrow> panel_end
     \<Rightarrow> string \<Rightarrow> json \<Rightarrow> port_state \<Rightarrow> port_state \<times> verdict" where
  "decide_inner sys exists to_text scope_of po i w tool input st =
     (if kind_of tool = ToolRead \<and> \<not> outside sys input (po_cwd po) then (st, VerdictAllow)
      else if po_trust po = TrustReadOnly then (st, VerdictDeny deny_read_only)
      else if po_headless po then (st, VerdictDeny deny_headless)
      else
        (let key = remember_key to_text tool input in
         if key \<in> pt_remembered st then (st, VerdictAllow)
         else
           (let m = fst (open_request (pt_perms st) i);
                c = snd (open_request (pt_perms st) i);
                sc = panel_scope scope_of to_text po tool input;
                m' = after_wait m i w;
                got = (case w of PanelAnswer _ \<Rightarrow> (case receive m' c of Answered d \<Rightarrow> Some d | _ \<Rightarrow> None) | _ \<Rightarrow> None);
                st' = st\<lparr>pt_perms := m', pt_sent := pt_sent st @ [panel_request sys exists to_text po i tool input sc]\<rparr>
            in case got of
                 Some DecisionOnce \<Rightarrow> (st', VerdictAllow)
               | Some DecisionChat \<Rightarrow> (st'\<lparr>pt_remembered := insert key (pt_remembered st')\<rparr>, VerdictAllow)
               | Some DecisionForever \<Rightarrow> (st'\<lparr>pt_remembered := insert key (pt_remembered st')\<rparr>, VerdictAllow)
               | Some DecisionDeny \<Rightarrow>
                   ((case (po_task po, sc) of
                       (Some _, Some s) \<Rightarrow> st'\<lparr>pt_db := note_outcome (pt_db st') (sc_decision s) ''right'' ''engine-card''\<rparr>
                     | _ \<Rightarrow> st'),
                    VerdictDeny deny_declined)
               | None \<Rightarrow>
                   (st'\<lparr>pt_perms := resolve_request m' i DecisionDeny, pt_gone := pt_gone st' @ [i]\<rparr>,
                    VerdictDeny deny_unanswered))))"

definition decide_request ::
  "os \<Rightarrow> (path \<Rightarrow> bool) \<Rightarrow> (json \<Rightarrow> string) \<Rightarrow> (string \<Rightarrow> string \<Rightarrow> scoped option) \<Rightarrow> port \<Rightarrow> string \<Rightarrow> panel_end
     \<Rightarrow> string \<Rightarrow> json \<Rightarrow> port_state \<Rightarrow> port_state \<times> verdict" where
  "decide_request sys exists to_text scope_of po i w tool input st =
     (let (st', v) = decide_inner sys exists to_text scope_of po i w tool input (st\<lparr>pt_asked := pt_asked st + 1\<rparr>)
      in (case v of
            VerdictAllow \<Rightarrow> st'\<lparr>pt_allowed := pt_allowed st' + 1\<rparr>
          | VerdictDeny _ \<Rightarrow> st'\<lparr>pt_denied := pt_denied st' + 1\<rparr>, v))"

section \<open>Lemmas\<close>

text \<open>A request that stops at no early return.\<close>

definition asks_panel :: "os \<Rightarrow> (json \<Rightarrow> string) \<Rightarrow> port \<Rightarrow> string \<Rightarrow> json \<Rightarrow> port_state \<Rightarrow> bool" where
  "asks_panel sys to_text po tool input st \<longleftrightarrow>
     \<not> (kind_of tool = ToolRead \<and> \<not> outside sys input (po_cwd po))
   \<and> po_trust po \<noteq> TrustReadOnly \<and> \<not> po_headless po \<and> remember_key to_text tool input \<notin> pt_remembered st"

lemma asks_panel_count [simp]:
  "asks_panel sys to_text po tool input (st\<lparr>pt_asked := n\<rparr>) = asks_panel sys to_text po tool input st"
  by (simp add: asks_panel_def)

lemma answered_is_received:
  "receive (resolve_request (fst (open_request m i)) i d) (snd (open_request m i)) = Answered d"
  by (rule open_then_resolve)

text \<open>What \<open>decide_inner\<close> does, once with and once without a question.\<close>

lemma inner_quiet:
  assumes "\<not> asks_panel sys to_text po tool input st"
  shows "fst (decide_inner sys exists to_text scope_of po i w tool input st) = st"
  using assms by (auto simp: decide_inner_def asks_panel_def Let_def)

definition asked_state ::
  "os \<Rightarrow> (path \<Rightarrow> bool) \<Rightarrow> (json \<Rightarrow> string) \<Rightarrow> (string \<Rightarrow> string \<Rightarrow> scoped option) \<Rightarrow> port \<Rightarrow> string \<Rightarrow> panel_end
     \<Rightarrow> string \<Rightarrow> json \<Rightarrow> port_state \<Rightarrow> port_state" where
  "asked_state sys exists to_text scope_of po i w tool input st =
     st\<lparr>pt_perms := after_wait (fst (open_request (pt_perms st) i)) i w,
        pt_sent := pt_sent st @ [panel_request sys exists to_text po i tool input (panel_scope scope_of to_text po tool input)]\<rparr>"

lemma inner_asked:
  assumes "asks_panel sys to_text po tool input st"
    and "st' = asked_state sys exists to_text scope_of po i w tool input st"
  shows "decide_inner sys exists to_text scope_of po i w tool input st =
     (case panel_answer w of
           Some DecisionOnce \<Rightarrow> (st', VerdictAllow)
         | Some DecisionChat \<Rightarrow> (st'\<lparr>pt_remembered := insert (remember_key to_text tool input) (pt_remembered st')\<rparr>, VerdictAllow)
         | Some DecisionForever \<Rightarrow> (st'\<lparr>pt_remembered := insert (remember_key to_text tool input) (pt_remembered st')\<rparr>, VerdictAllow)
         | Some DecisionDeny \<Rightarrow>
             ((case (po_task po, panel_scope scope_of to_text po tool input) of
                 (Some _, Some s) \<Rightarrow> st'\<lparr>pt_db := note_outcome (pt_db st') (sc_decision s) ''right'' ''engine-card''\<rparr>
               | _ \<Rightarrow> st'), VerdictDeny deny_declined)
         | None \<Rightarrow> (st'\<lparr>pt_perms := resolve_request (pt_perms st') i DecisionDeny, pt_gone := pt_gone st' @ [i]\<rparr>,
                   VerdictDeny deny_unanswered))"
proof -
  have g: "\<not> (kind_of tool = ToolRead \<and> \<not> outside sys input (po_cwd po))" "po_trust po \<noteq> TrustReadOnly"
    "\<not> po_headless po" "remember_key to_text tool input \<notin> pt_remembered st"
    using assms(1) by (simp_all add: asks_panel_def)
  have got: "(case w of PanelAnswer _ \<Rightarrow>
        (case receive (after_wait (fst (open_request (pt_perms st) i)) i w) (snd (open_request (pt_perms st) i)) of
           Answered d \<Rightarrow> Some d | _ \<Rightarrow> None) | _ \<Rightarrow> None) = panel_answer w"
    by (cases w) (simp_all add: after_wait_def answered_is_received panel_answer_def)
  show ?thesis
    unfolding decide_inner_def Let_def got if_not_P[OF g(1)] if_not_P[OF g(2)] if_not_P[OF g(3)] if_not_P[OF g(4)] assms(2) asked_state_def
    by (simp split: option.split decision.split)
qed

lemma asked_state_simps [simp]:
  "pt_db (asked_state sys exists to_text scope_of po i w tool input st) = pt_db st"
  "pt_perms (asked_state sys exists to_text scope_of po i w tool input st) = after_wait (fst (open_request (pt_perms st) i)) i w"
  "length (pt_sent (asked_state sys exists to_text scope_of po i w tool input st)) = length (pt_sent st) + 1"
  "pt_gone (asked_state sys exists to_text scope_of po i w tool input st) = pt_gone st"
  "pt_remembered (asked_state sys exists to_text scope_of po i w tool input st) = pt_remembered st"
  "pt_asked (asked_state sys exists to_text scope_of po i w tool input st) = pt_asked st"
  "pt_allowed (asked_state sys exists to_text scope_of po i w tool input st) = pt_allowed st"
  "pt_denied (asked_state sys exists to_text scope_of po i w tool input st) = pt_denied st"
  by (simp_all add: asked_state_def)

text \<open>The verdict alone.\<close>

lemma inner_verdict:
  "snd (decide_inner sys exists to_text scope_of po i w tool input st) =
     (if kind_of tool = ToolRead \<and> \<not> outside sys input (po_cwd po) then VerdictAllow
      else if po_trust po = TrustReadOnly then VerdictDeny deny_read_only
      else if po_headless po then VerdictDeny deny_headless
      else if remember_key to_text tool input \<in> pt_remembered st then VerdictAllow
      else (case panel_answer w of None \<Rightarrow> VerdictDeny deny_unanswered
              | Some d \<Rightarrow> if d = DecisionDeny then VerdictDeny deny_declined else VerdictAllow))"
proof (cases "asks_panel sys to_text po tool input st")
  case True
  then have "kind_of tool = ToolRead \<longrightarrow> outside sys input (po_cwd po)" "po_trust po \<noteq> TrustReadOnly"
    "\<not> po_headless po" "remember_key to_text tool input \<notin> pt_remembered st"
    by (simp_all add: asks_panel_def)
  with inner_asked[OF True refl, of exists scope_of i w] show ?thesis
    by (auto split: option.split decision.split)
next
  case False
  then show ?thesis by (auto simp: decide_inner_def asks_panel_def Let_def)
qed

lemma inner_frame:
  "pt_asked (fst (decide_inner sys exists to_text scope_of po i w tool input st)) = pt_asked st"
  "pt_allowed (fst (decide_inner sys exists to_text scope_of po i w tool input st)) = pt_allowed st"
  "pt_denied (fst (decide_inner sys exists to_text scope_of po i w tool input st)) = pt_denied st"
  by (cases "asks_panel sys to_text po tool input st";
      simp add: inner_quiet inner_asked[OF _ refl] split: option.split decision.split)+

lemma decide_request_alt:
  "decide_request sys exists to_text scope_of po i w tool input st =
     (let st0 = st\<lparr>pt_asked := pt_asked st + 1\<rparr>;
          st' = fst (decide_inner sys exists to_text scope_of po i w tool input st0);
          v = snd (decide_inner sys exists to_text scope_of po i w tool input st0)
      in (case v of VerdictAllow \<Rightarrow> st'\<lparr>pt_allowed := pt_allowed st' + 1\<rparr>
            | VerdictDeny _ \<Rightarrow> st'\<lparr>pt_denied := pt_denied st' + 1\<rparr>, v))"
  by (simp add: decide_request_def split_beta Let_def)

lemma inner_remembered:
  "pt_remembered (fst (decide_inner sys exists to_text scope_of po i w tool input st)) =
     (if asks_panel sys to_text po tool input st \<and> panel_answer w \<in> {Some DecisionChat, Some DecisionForever}
      then insert (remember_key to_text tool input) (pt_remembered st) else pt_remembered st)"
  by (cases "asks_panel sys to_text po tool input st")
     (auto simp: inner_quiet inner_asked[OF _ refl] split: option.split decision.split)

lemma remembered_after:
  "pt_remembered (fst (decide_request sys exists to_text scope_of po i w tool input st)) =
     (if asks_panel sys to_text po tool input st \<and> panel_answer w \<in> {Some DecisionChat, Some DecisionForever}
      then insert (remember_key to_text tool input) (pt_remembered st) else pt_remembered st)"
  by (auto simp: decide_request_alt Let_def inner_remembered split: verdict.split)

lemma counts_after:
  defines "after \<equiv> \<lambda>sys exists to_text scope_of po i w tool input st.
     fst (decide_request sys exists to_text scope_of po i w tool input st)"
  shows "pt_asked (after sys exists to_text scope_of po i w tool input st) = pt_asked st + 1"
    and "pt_allowed (after sys exists to_text scope_of po i w tool input st)
       + pt_denied (after sys exists to_text scope_of po i w tool input st) = pt_allowed st + pt_denied st + 1"
  by (simp_all add: after_def decide_request_alt Let_def inner_frame split: verdict.split)

section \<open>Histories\<close>

text \<open>A history of one run: requests with their ids and the way each wait ended.\<close>

record engine_ask =
  ea_id :: string
  ea_end :: panel_end
  ea_tool :: string
  ea_input :: json

definition run_asks ::
  "os \<Rightarrow> (path \<Rightarrow> bool) \<Rightarrow> (json \<Rightarrow> string) \<Rightarrow> (string \<Rightarrow> string \<Rightarrow> scoped option) \<Rightarrow> port \<Rightarrow> port_state
     \<Rightarrow> engine_ask list \<Rightarrow> port_state" where
  "run_asks sys exists to_text scope_of po st as =
     foldl (\<lambda>st a. fst (decide_request sys exists to_text scope_of po (ea_id a) (ea_end a) (ea_tool a) (ea_input a) st)) st as"

text \<open>
  Where a request looks, said without the resolution of the source where that can be: a path that
  exists lies where the disk says it does, and nothing lies in a folder that is gone.  Only for a
  path that does not exist (yet) it is what \<open>path_within_root\<close> makes of it, which
  \<open>Paths.parent_steps_below_missing_folder\<close> shows to be too generous with \<open>..\<close> below a missing folder.
\<close>

definition looks_inside :: "os \<Rightarrow> json \<Rightarrow> path \<Rightarrow> bool" where
  "looks_inside sys input cwd =
     (case file_of input of
        None \<Rightarrow> True
      | Some p \<Rightarrow>
          (let q = join_path cwd (path_of sys p)
           in case (canon sys cwd, canon sys q) of
                (Some root, Some place) \<Rightarrow> starts_with (strip_verbatim place) (strip_verbatim root)
              | (Some _, None) \<Rightarrow> path_within_root sys q cwd
              | (None, _) \<Rightarrow> False))"

lemma outside_iff: "outside sys input cwd \<longleftrightarrow> \<not> looks_inside sys input cwd"
  by (auto simp: outside_def looks_inside_def Let_def path_within_root_def canonicalize_lenient_def split: option.split)

text \<open>Among these requests, one that needed asking was answered for the run, with this key.\<close>

definition standing_yes :: "os \<Rightarrow> (json \<Rightarrow> string) \<Rightarrow> port \<Rightarrow> engine_ask list \<Rightarrow> string \<Rightarrow> bool" where
  "standing_yes sys to_text po as key \<longleftrightarrow>
     list_ex (\<lambda>a. remember_key to_text (ea_tool a) (ea_input a) = key
        \<and> panel_answer (ea_end a) \<in> {Some DecisionChat, Some DecisionForever}
        \<and> \<not> (kind_of (ea_tool a) = ToolRead \<and> looks_inside sys (ea_input a) (po_cwd po))) as"

lemma remembered_iff:
  assumes "po_trust po \<noteq> TrustReadOnly" and "\<not> po_headless po"
  shows "key \<in> pt_remembered (run_asks sys exists to_text scope_of po (new_port_state d m) as)
     \<longleftrightarrow> standing_yes sys to_text po as key"
proof (induction as rule: rev_induct)
  case Nil
  show ?case by (simp add: run_asks_def standing_yes_def new_port_state_def)
next
  case (snoc a as)
  then show ?case using assms
    by (auto simp: run_asks_def standing_yes_def remembered_after asks_panel_def outside_iff)
qed

section \<open>Properties\<close>

text \<open>C18: After any history of requests of a run, an agent app's request is allowed exactly when it
  only looks at what lies inside its folder (or names no file), or the folder is not read only,
  somebody is there, and the user said yes: to this request, or for the run to an earlier one
  that was asked with the same key.  A refusal, a question withdrawn, one nobody answered and a
  yes to that one request alone leave nothing standing.  A path that does not exist counts as inside when
  \<open>path_within_root\<close> says so.\<close>

theorem engine_request_allowed_iff:
  "snd (decide_request sys exists to_text scope_of po i w tool input
      (run_asks sys exists to_text scope_of po (new_port_state d m) as)) = VerdictAllow \<longleftrightarrow>
     (if kind_of tool = ToolRead \<and> looks_inside sys input (po_cwd po) then True
      else if po_trust po = TrustReadOnly then False
      else if po_headless po then False
      else standing_yes sys to_text po as (remember_key to_text tool input)
         \<or> panel_answer w \<in> {Some DecisionOnce, Some DecisionChat, Some DecisionForever})"
proof (cases "po_trust po = TrustReadOnly \<or> po_headless po")
  case True
  then show ?thesis
    by (auto simp: decide_request_alt Let_def inner_verdict outside_iff split: verdict.split)
next
  case False
  then have "remember_key to_text tool input \<in> pt_remembered (run_asks sys exists to_text scope_of po (new_port_state d m) as)
      \<longleftrightarrow> standing_yes sys to_text po as (remember_key to_text tool input)"
    by (intro remembered_iff) auto
  with False show ?thesis
    by (auto simp: decide_request_alt Let_def inner_verdict outside_iff split: option.split verdict.split)
      (metis decision.exhaust)+
qed

text \<open>Every question is cleaned up: after a decision no request of its id is left on the panel,
  the manager still pairs requests and channels, a question that got no answer is withdrawn from
  the screen and one that got an answer is not, and a decision without a question shows nothing.\<close>

theorem questions_are_cleaned_up:
  assumes "manager_inv (pt_perms st)" and "pending (pt_perms st) i = None" and "w \<noteq> PanelDropped"
  shows "let st' = fst (decide_request sys exists to_text scope_of po i w tool input st);
             asked = asks_panel sys to_text po tool input st
     in pending (pt_perms st') i = None \<and> manager_inv (pt_perms st')
      \<and> pt_gone st' = pt_gone st @ (if asked \<and> panel_answer w = None then [i] else [])
      \<and> length (pt_sent st') = length (pt_sent st) + (if asked then 1 else 0)"
proof (cases "asks_panel sys to_text po tool input st")
  case False
  then show ?thesis using assms
    by (simp add: decide_request_alt Let_def inner_quiet split: verdict.split)
next
  case True
  let ?m = "fst (open_request (pt_perms st) i)"
  have m: "manager_inv ?m" using assms(1) by (rule manager_inv_open)
  have res: "manager_inv (resolve_request ?m i d)" for d by (rule manager_inv_resolve[OF m])
  have gone: "pending (resolve_request ?m i d) i = None" for d
    by (simp add: resolve_request_def open_request_pending)
  from True show ?thesis using assms(3) res gone
    by (cases w) (auto simp: decide_request_alt Let_def inner_asked[OF _ refl] panel_answer_def after_wait_def
        split: option.split decision.split verdict.split)
qed

definition work_port :: port where
  "work_port = \<lparr>po_engine = ''Codex'', po_cwd = [RootDir], po_trust = TrustConfirm, po_headless = False, po_task = None\<rparr>"

theorem questions_are_cleaned_up_witness:
  "pt_gone (fst (decide_request plain_os (\<lambda>_. True) (\<lambda>_. []) (\<lambda>_ _. None) work_port ''p1'' PanelTimeout ''Bash''
       (JObject [(''command'', JString ''ls'')]) (new_port_state empty_db new_manager))) = [''p1'']"
proof -
  have h: "manager_inv (pt_perms (new_port_state empty_db new_manager))"
    "pending (pt_perms (new_port_state empty_db new_manager)) ''p1'' = None" "PanelTimeout \<noteq> PanelDropped"
    by (simp_all add: new_port_state_def manager_inv_new) (simp add: new_manager_def)
  show ?thesis
    using questions_are_cleaned_up[OF h, of plain_os "\<lambda>_. True" "\<lambda>_. []" "\<lambda>_ _. None" work_port "''Bash''" "JObject [(''command'', JString ''ls'')]"]
    by (simp add: Let_def asks_panel_def kind_of_def work_port_def new_port_state_def panel_answer_def)
qed

lemma run_asks_remembered:
  "key \<in> pt_remembered (run_asks sys exists to_text scope_of po st as) \<Longrightarrow> key \<notin> pt_remembered st \<Longrightarrow>
     \<exists>a \<in> set as. remember_key to_text (ea_tool a) (ea_input a) = key
        \<and> panel_answer (ea_end a) \<in> {Some DecisionChat, Some DecisionForever}"
proof (induction as arbitrary: st)
  case (Cons a as)
  let ?st = "fst (decide_request sys exists to_text scope_of po (ea_id a) (ea_end a) (ea_tool a) (ea_input a) st)"
  show ?case
  proof (cases "key \<in> pt_remembered ?st")
    case True
    with Cons.prems(2) show ?thesis by (auto simp: remembered_after split: if_splits)
  next
    case False
    with Cons.IH[of ?st] Cons.prems(1) show ?thesis by (auto simp: run_asks_def)
  qed
qed (simp add: run_asks_def)

lemma key_of_command:
  assumes "remember_key to_text t a = remember_key to_text tool input" and "CHR '':'' \<notin> set t" and "kind_of tool = ToolCommand"
  shows "t = tool \<and> str_or_empty (arg_str a ''command'') = str_or_empty (arg_str input ''command'')"
proof -
  have "tool = ''Bash'' \<or> tool = ''PowerShell''" using assms(3) by (simp add: kind_of_def split: if_splits)
  then have "CHR '':'' \<notin> set tool" by auto
  have "\<exists>r. remember_key to_text t a = t @ CHR '':'' # r"
    by (cases "kind_of t") (auto simp: remember_key_def)
  then obtain r where r: "remember_key to_text t a = t @ CHR '':'' # r" by blast
  with assms(1,3) have e: "t @ CHR '':'' # r = tool @ CHR '':'' # str_or_empty (arg_str input ''command'')"
    by (simp add: remember_key_def)
  have "t = tool"
    using append_sep_inject[OF assms(2) \<open>CHR '':'' \<notin> set tool\<close>] e by simp
  with e r assms(3) show ?thesis by (auto simp: remember_key_def)
qed

text \<open>A standing yes is for the exact command: in every history of a run (of tools whose names
  hold no colon), a command that is let through with no answer of its own was allowed for the run
  before, by Chat or Forever, as the same tool with the same command text.\<close>

theorem standing_yes_is_for_the_exact_command:
  assumes "kind_of tool = ToolCommand" and "panel_answer w = None"
    and "\<forall>a \<in> set as. CHR '':'' \<notin> set (ea_tool a)"
    and "snd (decide_request sys exists to_text scope_of po i w tool input
           (run_asks sys exists to_text scope_of po (new_port_state d m) as)) = VerdictAllow"
  shows "\<exists>a \<in> set as. ea_tool a = tool
      \<and> str_or_empty (arg_str (ea_input a) ''command'') = str_or_empty (arg_str input ''command'')
      \<and> panel_answer (ea_end a) \<in> {Some DecisionChat, Some DecisionForever}"
proof -
  let ?st = "run_asks sys exists to_text scope_of po (new_port_state d m) as"
  have "remember_key to_text tool input \<in> pt_remembered ?st"
    using assms(1,2,4) by (auto simp: decide_request_alt Let_def inner_verdict split: if_splits)
  moreover have "remember_key to_text tool input \<notin> pt_remembered (new_port_state d m)"
    by (simp add: new_port_state_def)
  ultimately obtain a where "a \<in> set as" "remember_key to_text (ea_tool a) (ea_input a) = remember_key to_text tool input"
    "panel_answer (ea_end a) \<in> {Some DecisionChat, Some DecisionForever}"
    using run_asks_remembered[of "remember_key to_text tool input" sys exists to_text scope_of po "new_port_state d m" as] by blast
  with key_of_command[OF _ _ assms(1)] assms(3) show ?thesis by blast
qed

theorem standing_yes_is_for_the_exact_command_witness:
  "\<exists>a \<in> set [\<lparr>ea_id = ''p1'', ea_end = PanelAnswer DecisionChat, ea_tool = ''Bash'',
                  ea_input = JObject [(''command'', JString ''ls'')]\<rparr>]. ea_tool a = ''Bash''"
proof -
  let ?in = "JObject [(''command'', JString ''ls'')]"
  let ?as = "[\<lparr>ea_id = ''p1'', ea_end = PanelAnswer DecisionChat, ea_tool = ''Bash'', ea_input = ?in\<rparr>]"
  have h: "kind_of ''Bash'' = ToolCommand" "panel_answer PanelTimeout = None" "\<forall>a \<in> set ?as. CHR '':'' \<notin> set (ea_tool a)"
    by (simp_all add: kind_of_def panel_answer_def)
  have "snd (decide_request plain_os (\<lambda>_. True) (\<lambda>_. []) (\<lambda>_ _. None) work_port ''p2'' PanelTimeout ''Bash'' ?in
      (run_asks plain_os (\<lambda>_. True) (\<lambda>_. []) (\<lambda>_ _. None) work_port (new_port_state empty_db new_manager) ?as)) = VerdictAllow"
    by (simp add: decide_request_alt Let_def inner_verdict run_asks_def inner_remembered asks_panel_def kind_of_def
        work_port_def panel_answer_def new_port_state_def)
  from standing_yes_is_for_the_exact_command[OF h this] show ?thesis by blast
qed

text \<open>The three counters of a run agree in every history: each request is counted once, as
  allowed or as denied, in the counters' 32 bits.\<close>

theorem every_request_is_counted:
  "let st = run_asks sys exists to_text scope_of po (new_port_state d m) as
   in pt_asked st = of_nat (length as) \<and> pt_asked st = pt_allowed st + pt_denied st"
proof (induction as rule: rev_induct)
  case Nil
  then show ?case by (simp add: run_asks_def new_port_state_def)
next
  case (snoc a as)
  define s where "s = run_asks sys exists to_text scope_of po (new_port_state d m) as"
  define t where "t = fst (decide_request sys exists to_text scope_of po (ea_id a) (ea_end a) (ea_tool a) (ea_input a) s)"
  have t: "run_asks sys exists to_text scope_of po (new_port_state d m) (as @ [a]) = t"
    by (simp add: run_asks_def s_def t_def)
  have "pt_asked t = pt_asked s + 1" "pt_allowed t + pt_denied t = pt_allowed s + pt_denied s + 1"
    unfolding t_def by (rule counts_after)+
  moreover have "pt_asked s = of_nat (length as)" "pt_asked s = pt_allowed s + pt_denied s"
    using snoc unfolding s_def Let_def by blast+
  ultimately show ?case unfolding t by (simp add: Let_def add.commute)
qed

end
