(* ===== verification/Runtime_Heal.thy ===== *)
theory Runtime_Heal imports Sliding_Window begin

text \<open>
  The local engine and its watchdog (\<open>runtime/manager.rs\<close>, \<open>runtime/watchdog.rs\<close>, and the
  load command of \<open>commands/runtime.rs\<close> that starts the watchdog).  The manager's fields are a
  record; every stretch of code between two awaits, or under one lock, is one step of a thread,
  so that a stop, a load and a repair interleave here as they do in the program.  What a step
  finds outside (whether the process is alive, whether it answers, whether a child could be
  started and became ready) is its input, and the clock only moves forward.  The generation
  counter is a natural number: the code's 64-bit counter is bumped once per request of the user
  and does not come round.

  Two fields have no counterpart in the code: an engine carries who installed it, and the
  manager a log of the repairs granted since the last load; no step reads either.
\<close>

subsection \<open>The limits\<close>

definition POLL :: int where "POLL = 30000"

definition FAILURES_BEFORE_RESTART :: nat where "FAILURES_BEFORE_RESTART = 3"

definition MAX_RESTARTS :: nat where "MAX_RESTARTS = 3"

definition LIMIT_WINDOW :: int where "LIMIT_WINDOW = 3600000"

text \<open>Durations and moments are in milliseconds.\<close>

fun backoff :: "nat \<Rightarrow> int" where
  "backoff 0 = 2000"
| "backoff (Suc 0) = 10000"
| "backoff _ = 30000"

definition restart_aged :: "int \<Rightarrow> int \<Rightarrow> bool" where
  "restart_aged now t \<longleftrightarrow> now - t > LIMIT_WINDOW"

definition may_restart :: "int list \<Rightarrow> int \<Rightarrow> int list \<times> bool" where
  "may_restart history now =
     (let kept = dropWhile (restart_aged now) history in (kept, length kept < MAX_RESTARTS))"

interpretation heals: sliding_window restart_aged
  by unfold_locales (auto simp: restart_aged_def LIMIT_WINDOW_def)

subsection \<open>The manager\<close>

datatype origin = FromLoad nat | FromHeal nat

record 'c running_engine =
  re_config :: 'c
  re_origin :: origin

record 'c manager =
  mgr_engine :: "'c running_engine option"
  mgr_lock :: "nat option"
  mgr_last_config :: "'c option"
  mgr_generation :: nat
  mgr_restarts :: "int list"
  mgr_session :: "32 word"
  mgr_gave_up :: bool
  mgr_log :: "int list"

definition new_runtime_manager :: "'c manager" where
  "new_runtime_manager = \<lparr>mgr_engine = None, mgr_lock = None, mgr_last_config = None, mgr_generation = 0,
     mgr_restarts = [], mgr_session = 0, mgr_gave_up = False, mgr_log = []\<rparr>"

text \<open>
  \<open>stop\<close> bumps the generation before it asks for the engine's lock; the two halves are two
  steps.
\<close>

definition stop_bump :: "'c manager \<Rightarrow> 'c manager" where
  "stop_bump m = m\<lparr>mgr_generation := Suc (mgr_generation m)\<rparr>"

definition stop_clear :: "'c manager \<Rightarrow> 'c manager" where
  "stop_clear m = m\<lparr>mgr_engine := None\<rparr>"

text \<open>
  The part of a health check done under the lock: without an engine there is nothing to heal,
  a dead process is a failed poll, and otherwise the engine is asked over the network.
\<close>

definition poll_under_lock :: "'c manager \<Rightarrow> bool \<Rightarrow> bool option" where
  "poll_under_lock m alive =
     (case mgr_engine m of
        None \<Rightarrow> Some True
      | Some _ \<Rightarrow> if \<not> alive then Some False else None)"

text \<open>The limit of a repair: \<open>Inl\<close> when it is spent, \<open>Inr\<close> the number of this attempt.\<close>

definition heal_limit :: "int \<Rightarrow> 'c manager \<Rightarrow> 'c manager \<times> (unit + nat)" where
  "heal_limit now m =
     (case may_restart (mgr_restarts m) now of (kept, ok) \<Rightarrow>
        if \<not> ok then (m\<lparr>mgr_restarts := kept, mgr_gave_up := True\<rparr>, Inl ())
        else (m\<lparr>mgr_restarts := kept @ [now], mgr_log := mgr_log m @ [now]\<rparr>, Inr (length kept + 1)))"

text \<open>A finished load remembers its launch and forgives the repairs of the engine before it.\<close>

definition load_forgive :: "'c manager \<Rightarrow> 'c manager" where
  "load_forgive m = m\<lparr>mgr_restarts := [], mgr_log := []\<rparr>"

subsection \<open>Threads\<close>

text \<open>
  Where a thread stands.  The \<open>Watch\<close> states carry the generation the watchdog was started
  for and its count of consecutive failures; the \<open>Heal\<close> states also the generation \<open>heal\<close>
  read when it began.
\<close>

datatype 'c user_pc =
    Stopping
  | LoadStopping 'c
  | LoadSpawn 'c nat
  | LoadWait "'c running_engine"
  | LoadInstall "'c running_engine"
  | LoadRemember 'c
  | LoadForgive
  | LoadPardon
  | LoadWatch

datatype watch_pc =
    WatchSleep nat int
  | WatchPoll nat
  | WatchAsk nat

datatype 'c heal_pc =
    HealBegin
  | HealLimit nat
  | HealConfig nat nat
  | HealSleep nat 'c int
  | HealReap nat 'c
  | HealCount nat 'c
  | HealSpawn nat 'c
  | HealWait nat "'c running_engine"
  | HealLock nat "'c running_engine"
  | HealCheck nat "'c running_engine"
  | HealAssign nat "'c running_engine"

datatype 'c pc = Idle | User "'c user_pc" | Watch nat watch_pc | Heal nat "'c heal_pc"

text \<open>
  What comes from outside: a request of the user, the answer a step waits for (the process is
  alive, the engine is healthy, the child could be started), or just the scheduler.
\<close>

datatype 'c input = AskStop | AskLoad 'c | Answer bool | Proceed

type_synonym 'c outcome = "('c manager \<times> 'c pc) option"

fun user_proceed :: "int \<Rightarrow> 'c manager \<Rightarrow> 'c user_pc \<Rightarrow> 'c outcome" where
  "user_proceed now m Stopping =
     (if mgr_lock m \<noteq> None then None else Some (stop_clear m, Idle))"
| "user_proceed now m (LoadStopping c) =
     (if mgr_lock m \<noteq> None then None
      else Some (stop_clear m, User (LoadSpawn c (mgr_generation m))))"
| "user_proceed now m (LoadInstall e) =
     (if mgr_lock m \<noteq> None then None
      else Some (m\<lparr>mgr_engine := Some e\<rparr>, User (LoadRemember (re_config e))))"
| "user_proceed now m (LoadRemember c) = Some (m\<lparr>mgr_last_config := Some c\<rparr>, User LoadForgive)"
| "user_proceed now m LoadForgive = Some (load_forgive m, User LoadPardon)"
| "user_proceed now m LoadPardon = Some (m\<lparr>mgr_gave_up := False\<rparr>, User LoadWatch)"
| "user_proceed now m LoadWatch = Some (m, Watch (mgr_generation m) (WatchSleep 0 (now + POLL)))"
| "user_proceed now m _ = None"

fun user_answer :: "bool \<Rightarrow> 'c manager \<Rightarrow> 'c user_pc \<Rightarrow> 'c outcome" where
  "user_answer ok m (LoadSpawn c g) =
     Some (m, if ok then User (LoadWait \<lparr>re_config = c, re_origin = FromLoad g\<rparr>) else Idle)"
| "user_answer ok m (LoadWait e) = Some (m, if ok then User (LoadInstall e) else Idle)"
| "user_answer ok m _ = None"

text \<open>
  A failed poll, counted from \<open>n\<close>: the third in a row starts a repair.  \<open>heal\<close> is not told
  which engine the watchdog was started for.
\<close>

definition after_failure :: "nat \<Rightarrow> nat \<Rightarrow> int \<Rightarrow> 'c pc" where
  "after_failure g n now =
     (let n = n + 1 in
      if n < FAILURES_BEFORE_RESTART then Watch g (WatchSleep n (now + POLL)) else Heal g HealBegin)"

fun watchdog_proceed :: "int \<Rightarrow> 'c manager \<Rightarrow> nat \<Rightarrow> watch_pc \<Rightarrow> 'c outcome" where
  "watchdog_proceed now m g (WatchSleep n due) =
     (if now < due then None
      else Some (m, if mgr_generation m \<noteq> g then Idle else Watch g (WatchPoll n)))"
| "watchdog_proceed now m g _ = None"

fun watchdog_answer :: "bool \<Rightarrow> int \<Rightarrow> 'c manager \<Rightarrow> nat \<Rightarrow> watch_pc \<Rightarrow> 'c outcome" where
  "watchdog_answer alive now m g (WatchPoll n) =
     (if mgr_lock m \<noteq> None then None
      else Some (m, case poll_under_lock m alive of
                      None \<Rightarrow> Watch g (WatchAsk n)
                    | Some healthy \<Rightarrow>
                        if healthy then Watch g (WatchSleep 0 (now + POLL)) else after_failure g n now))"
| "watchdog_answer ok now m g (WatchAsk n) =
     Some (m, if ok then Watch g (WatchSleep 0 (now + POLL)) else after_failure g n now)"
| "watchdog_answer ok now m g _ = None"

text \<open>After a repair that did something, the watchdog goes on with a fresh count.\<close>

abbreviation watch_again :: "nat \<Rightarrow> int \<Rightarrow> 'c pc" where
  "watch_again g now \<equiv> Watch g (WatchSleep 0 (now + POLL))"

fun heal_proceed :: "nat \<Rightarrow> int \<Rightarrow> 'c manager \<Rightarrow> nat \<Rightarrow> 'c heal_pc \<Rightarrow> 'c outcome" where
  "heal_proceed i now m g HealBegin = Some (m, Heal g (HealLimit (mgr_generation m)))"
| "heal_proceed i now m g (HealLimit h) =
     (case heal_limit now m of
        (m', Inl _) \<Rightarrow> Some (m', Idle)
      | (m', Inr attempt) \<Rightarrow> Some (m', Heal g (HealConfig h attempt)))"
| "heal_proceed i now m g (HealConfig h attempt) =
     Some (m, case mgr_last_config m of
                None \<Rightarrow> Idle
              | Some c \<Rightarrow> Heal g (HealSleep h c (now + backoff (attempt - 1))))"
| "heal_proceed i now m g (HealSleep h c due) =
     (if now < due then None
      else Some (m, if mgr_generation m \<noteq> h then Idle else Heal g (HealReap h c)))"
| "heal_proceed i now m g (HealReap h c) =
     (if mgr_lock m \<noteq> None then None
      else Some (m\<lparr>mgr_engine := None\<rparr>, Heal g (HealCount h c)))"
| "heal_proceed i now m g (HealCount h c) =
     Some (m\<lparr>mgr_session := mgr_session m + 1\<rparr>, Heal g (HealSpawn h c))"
| "heal_proceed i now m g (HealLock h e) =
     (if mgr_lock m \<noteq> None then None
      else Some (m\<lparr>mgr_lock := Some i\<rparr>, Heal g (HealCheck h e)))"
| "heal_proceed i now m g (HealCheck h e) =
     Some (if mgr_generation m \<noteq> h then (m\<lparr>mgr_lock := None\<rparr>, Idle)
           else (m, Heal g (HealAssign h e)))"
| "heal_proceed i now m g (HealAssign h e) =
     Some (m\<lparr>mgr_engine := Some e, mgr_lock := None\<rparr>, watch_again g now)"
| "heal_proceed i now m g _ = None"

fun heal_answer :: "bool \<Rightarrow> int \<Rightarrow> 'c manager \<Rightarrow> nat \<Rightarrow> 'c heal_pc \<Rightarrow> 'c outcome" where
  "heal_answer ok now m g (HealSpawn h c) =
     Some (m, if ok then Heal g (HealWait h \<lparr>re_config = c, re_origin = FromHeal h\<rparr>)
              else watch_again g now)"
| "heal_answer ok now m g (HealWait h e) =
     Some (m, if ok then Heal g (HealLock h e) else watch_again g now)"
| "heal_answer ok now m g _ = None"

fun thread_proceed :: "nat \<Rightarrow> int \<Rightarrow> 'c manager \<Rightarrow> 'c pc \<Rightarrow> 'c outcome" where
  "thread_proceed i now m Idle = None"
| "thread_proceed i now m (User p) = user_proceed now m p"
| "thread_proceed i now m (Watch g p) = watchdog_proceed now m g p"
| "thread_proceed i now m (Heal g p) = heal_proceed i now m g p"

fun thread_answer :: "bool \<Rightarrow> int \<Rightarrow> 'c manager \<Rightarrow> 'c pc \<Rightarrow> 'c outcome" where
  "thread_answer ok now m Idle = None"
| "thread_answer ok now m (User p) = user_answer ok m p"
| "thread_answer ok now m (Watch g p) = watchdog_answer ok now m g p"
| "thread_answer ok now m (Heal g p) = heal_answer ok now m g p"

fun thread_step :: "nat \<Rightarrow> 'c input \<Rightarrow> int \<Rightarrow> 'c manager \<Rightarrow> 'c pc \<Rightarrow> 'c outcome" where
  "thread_step i Proceed now m p = thread_proceed i now m p"
| "thread_step i (Answer ok) now m p = thread_answer ok now m p"
| "thread_step i AskStop now m p = (if p = Idle then Some (stop_bump m, User Stopping) else None)"
| "thread_step i (AskLoad c) now m p =
     (if p = Idle then Some (stop_bump m, User (LoadStopping c)) else None)"

subsection \<open>The program as a whole\<close>

record 'c world =
  w_mgr :: "'c manager"
  w_pc :: "nat \<Rightarrow> 'c pc"
  w_now :: int

definition start_world :: "'c world" where
  "start_world = \<lparr>w_mgr = new_runtime_manager, w_pc = (\<lambda>_. Idle), w_now = 0\<rparr>"

datatype 'c move = Tick nat | Act nat "'c input"

fun move_world :: "'c move \<Rightarrow> 'c world \<Rightarrow> 'c world option" where
  "move_world (Tick d) w = Some (w\<lparr>w_now := w_now w + int d\<rparr>)"
| "move_world (Act i x) w =
     (case thread_step i x (w_now w) (w_mgr w) (w_pc w i) of
        None \<Rightarrow> None
      | Some (m, p) \<Rightarrow> Some (w\<lparr>w_mgr := m, w_pc := (w_pc w)(i := p)\<rparr>))"

text \<open>A schedule is a list of moves; \<open>run\<close> is \<open>None\<close> when a move is not possible.\<close>

fun run :: "'c move list \<Rightarrow> 'c world \<Rightarrow> 'c world option" where
  "run [] w = Some w"
| "run (x # xs) w = (case move_world x w of None \<Rightarrow> None | Some w' \<Rightarrow> run xs w')"

inductive reachable :: "'c world \<Rightarrow> bool" where
  reachable_start: "reachable start_world"
| reachable_move: "reachable w \<Longrightarrow> move_world x w = Some w' \<Longrightarrow> reachable w'"

lemma reachable_run: "run xs w = Some w' \<Longrightarrow> reachable w \<Longrightarrow> reachable w'"
  by (induction xs arbitrary: w) (auto split: option.splits intro: reachable_move)

subsection \<open>What a step can change\<close>

definition stopping :: "'c pc \<Rightarrow> bool" where
  "stopping p \<longleftrightarrow> (case p of User (LoadStopping _) \<Rightarrow> True | _ \<Rightarrow> p = User Stopping)"

definition in_section :: "'c pc \<Rightarrow> bool" where
  "in_section p \<longleftrightarrow>
     (case p of Heal _ (HealCheck _ _) \<Rightarrow> True | Heal _ (HealAssign _ _) \<Rightarrow> True | _ \<Rightarrow> False)"

definition pending :: "(nat \<Rightarrow> 'c pc) \<Rightarrow> bool" where
  "pending ps \<longleftrightarrow> (\<exists>i. stopping (ps i))"

lemma pending_upd: "stopping p \<Longrightarrow> pending (ps(i := p))"
  by (auto simp: pending_def)

lemma pending_keep: "pending ps \<Longrightarrow> \<not> stopping (ps i) \<Longrightarrow> pending (ps(i := p))"
  unfolding pending_def by (metis fun_upd_other)

text \<open>Everything a step may be, one case per branch of the code.\<close>

fun_cases user_proceedE: "user_proceed now m p = Some r"
fun_cases user_answerE: "user_answer ok m p = Some r"
fun_cases watchdog_proceedE: "watchdog_proceed now m g p = Some r"
fun_cases watchdog_answerE: "watchdog_answer ok now m g p = Some r"
fun_cases heal_proceedE: "heal_proceed i now m g p = Some r"
fun_cases heal_answerE: "heal_answer ok now m g p = Some r"
fun_cases thread_proceedE: "thread_proceed i now m p = Some r"
fun_cases thread_answerE: "thread_answer ok now m p = Some r"
fun_cases thread_stepE: "thread_step i x now m p = Some r"

lemmas step_elims = thread_stepE thread_proceedE thread_answerE user_proceedE user_answerE watchdog_proceedE watchdog_answerE heal_proceedE heal_answerE
  thread_proceedE[OF sym]
  thread_answerE[OF sym]
  user_proceedE[OF sym]
  user_answerE[OF sym]
  watchdog_proceedE[OF sym]
  watchdog_answerE[OF sym]
  heal_proceedE[OF sym]
  heal_answerE[OF sym]

lemmas step_defs = stop_bump_def stop_clear_def load_forgive_def after_failure_def
  FAILURES_BEFORE_RESTART_def Let_def heal_limit_def may_restart_def stopping_def in_section_def

lemmas step_splits = if_splits option.splits sum.splits prod.splits

lemma step_generation:
  "thread_step i x now m p = Some (m', p') \<Longrightarrow> mgr_generation m' = mgr_generation m \<or> stopping p'"
  by (auto simp: step_defs split: step_splits elim!: step_elims)

lemma step_stopping_done:
  assumes "thread_step i x now m p = Some (m', p')" and "stopping p"
  shows "mgr_lock m = None \<and> mgr_lock m' = None \<and> mgr_engine m' = None
     \<and> mgr_generation m' = mgr_generation m"
  using assms by (auto simp: step_defs split: step_splits elim!: step_elims)

lemma step_lock:
  "thread_step i x now m p = Some (m', p') \<Longrightarrow> in_section p \<Longrightarrow> mgr_lock m' = None \<or> mgr_lock m' = mgr_lock m"
  "thread_step i x now m p = Some (m', p') \<Longrightarrow> \<not> in_section p \<Longrightarrow>
     mgr_lock m' = mgr_lock m \<or> mgr_lock m = None \<and> mgr_lock m' = Some i"
  by (auto simp: step_defs split: step_splits elim!: step_elims)

lemma step_enters:
  "thread_step i x now m p = Some (m', p') \<Longrightarrow> in_section p' \<Longrightarrow>
     mgr_lock m' = Some i \<or> in_section p \<and> mgr_lock m' = mgr_lock m"
  by (auto simp: step_defs split: step_splits elim!: step_elims)

lemma step_engine:
  "thread_step i x now m p = Some (m', p') \<Longrightarrow> mgr_engine m' \<noteq> mgr_engine m \<Longrightarrow>
     mgr_engine m' = Some e \<Longrightarrow> p = User (LoadInstall e) \<or> (\<exists>g h. p = Heal g (HealAssign h e))"
  by (auto simp: step_defs split: step_splits elim!: step_elims)

lemma step_assign:
  "thread_step i x now m p = Some (m', Heal g (HealAssign h e)) \<Longrightarrow> mgr_generation m' = h"
  by (auto simp: step_defs split: step_splits elim!: step_elims)

text \<open>An engine a thread is about to install carries its own origin.\<close>

definition origin_ok :: "'c pc \<Rightarrow> bool" where
  "origin_ok p \<longleftrightarrow>
     (case p of
        User (LoadWait e) \<Rightarrow> (\<exists>g. re_origin e = FromLoad g)
      | User (LoadInstall e) \<Rightarrow> (\<exists>g. re_origin e = FromLoad g)
      | Heal _ (HealWait h e) \<Rightarrow> re_origin e = FromHeal h
      | Heal _ (HealLock h e) \<Rightarrow> re_origin e = FromHeal h
      | Heal _ (HealCheck h e) \<Rightarrow> re_origin e = FromHeal h
      | Heal _ (HealAssign h e) \<Rightarrow> re_origin e = FromHeal h
      | _ \<Rightarrow> True)"

lemma step_origin: "thread_step i x now m p = Some (m', p') \<Longrightarrow> origin_ok p \<Longrightarrow> origin_ok p'"
  by (auto simp: step_defs origin_ok_def split: step_splits elim!: step_elims)

subsection \<open>A stop is not undone by the repair it interrupts\<close>

text \<open>
  The state the engine's lock keeps: only its holder is in the section, what is installed there
  was checked, and a repaired engine in the slot belongs to the present generation unless a
  stop is about to clear it.
\<close>

definition current :: "'c world \<Rightarrow> nat \<Rightarrow> bool" where
  "current w h \<longleftrightarrow> h = mgr_generation (w_mgr w) \<or> pending (w_pc w)"

definition slot_ok :: "'c world \<Rightarrow> bool" where
  "slot_ok w \<longleftrightarrow>
     (\<forall>i. origin_ok (w_pc w i)) \<and>
     (\<forall>i. in_section (w_pc w i) \<longrightarrow> mgr_lock (w_mgr w) = Some i) \<and>
     (\<forall>i g h e. w_pc w i = Heal g (HealAssign h e) \<longrightarrow> current w h) \<and>
     (\<forall>e h. mgr_engine (w_mgr w) = Some e \<and> re_origin e = FromHeal h \<longrightarrow> current w h)"

lemma slot_ok_assign:
  assumes "slot_ok w" and a: "w_pc w i = Heal g (HealAssign h e)"
  shows "current w h" and "re_origin e = FromHeal h" and "mgr_lock (w_mgr w) = Some i"
proof -
  have "origin_ok (Heal g (HealAssign h e))" using assms unfolding slot_ok_def by metis
  then show "re_origin e = FromHeal h" by (simp add: origin_ok_def)
  have "in_section (w_pc w i)" using a by (simp add: in_section_def)
  then show "mgr_lock (w_mgr w) = Some i" using assms(1) unfolding slot_ok_def by blast
  show "current w h" using assms unfolding slot_ok_def by blast
qed

lemma slot_ok_start: "slot_ok start_world"
  by (simp add: slot_ok_def start_world_def new_runtime_manager_def origin_ok_def in_section_def)

lemma current_step:
  assumes step: "thread_step i x now (w_mgr w) (w_pc w i) = Some (m', p')"
    and "current w h" and "\<not> stopping (w_pc w i)"
  shows "current (w\<lparr>w_mgr := m', w_pc := (w_pc w)(i := p')\<rparr>) h"
  using step_generation[OF step] assms(2,3) pending_keep[of "w_pc w" i p'] pending_upd[of p' "w_pc w" i]
  by (auto simp: current_def)

lemma slot_ok_step:
  assumes ok: "slot_ok w" and step: "thread_step i x now (w_mgr w) (w_pc w i) = Some (m', p')"
  shows "slot_ok (w\<lparr>w_mgr := m', w_pc := (w_pc w)(i := p')\<rparr>)" (is "slot_ok ?w")
proof -
  have org: "\<forall>j. origin_ok (w_pc ?w j)"
    using ok step_origin[OF step] by (auto simp: slot_ok_def)
  have lock: "mgr_lock m' = Some j" if "in_section (w_pc ?w j)" for j
  proof (cases "j = i")
    case True
    then show ?thesis using that ok step_enters[OF step] by (auto simp: slot_ok_def)
  next
    case False
    then have l: "mgr_lock (w_mgr w) = Some j" using that ok by (auto simp: slot_ok_def)
    then have "\<not> in_section (w_pc w i)" using False ok unfolding slot_ok_def by (metis option.inject)
    then show ?thesis using l step_lock(2)[OF step] by auto
  qed
  have cur: "current ?w h" if "current w h" "mgr_lock (w_mgr w) \<noteq> None \<or> mgr_engine m' \<noteq> None" for h
  proof -
    have "\<not> stopping (w_pc w i)" using that(2) step_stopping_done[OF step] by auto
    then show ?thesis by (rule current_step[OF step that(1)])
  qed
  have asg: "current ?w h" if "w_pc ?w j = Heal g (HealAssign h e)" for j g h e
  proof (cases "j = i")
    case True
    then have "p' = Heal g (HealAssign h e)" using that by simp
    then have "mgr_generation m' = h" using step by (auto dest: step_assign)
    then show ?thesis by (simp add: current_def)
  next
    case False
    then have a: "w_pc w j = Heal g (HealAssign h e)" using that by simp
    then show ?thesis using slot_ok_assign[OF ok a] cur by simp
  qed
  have eng: "current ?w h" if e: "mgr_engine m' = Some e" "re_origin e = FromHeal h" for e h
  proof -
    have "current w h"
    proof (cases "mgr_engine m' = mgr_engine (w_mgr w)")
      case True
      then have "mgr_engine (w_mgr w) = Some e" using e(1) by simp
      then show ?thesis using e(2) ok unfolding slot_ok_def by blast
    next
      case False
      from step_engine[OF step False e(1)] show ?thesis
      proof
        assume "w_pc w i = User (LoadInstall e)"
        then have "origin_ok (User (LoadInstall e))" using ok by (metis slot_ok_def)
        then show ?thesis using e(2) by (auto simp: origin_ok_def)
      next
        assume "\<exists>g h. w_pc w i = Heal g (HealAssign h e)"
        then obtain g k where a: "w_pc w i = Heal g (HealAssign k e)" by auto
        then show ?thesis using e(2) slot_ok_assign[OF ok a] by simp
      qed
    qed
    then show ?thesis using cur e(1) by simp
  qed
  show ?thesis using org lock asg eng unfolding slot_ok_def by simp
qed

lemma slot_ok_tick: "slot_ok (w\<lparr>w_now := t\<rparr>) = slot_ok w"
  by (simp add: slot_ok_def current_def)

lemma slot_ok_move: "slot_ok w \<Longrightarrow> move_world x w = Some w' \<Longrightarrow> slot_ok w'"
  by (cases x) (auto simp: slot_ok_tick split: option.splits dest: slot_ok_step)

lemma slot_ok_reachable: "reachable w \<Longrightarrow> slot_ok w"
  by (induction rule: reachable.induct) (auto intro: slot_ok_start slot_ok_move)

text \<open>C19: An engine put back by self-repair is the engine of the present generation: whenever a
  repaired engine is in place and no stop or load is between its bump of the generation and its
  clearing of the slot, the generation has not moved since that repair read it at its start,
  whatever loads, stops and other repairs ran meanwhile.\<close>
theorem repair_installs_current:
  assumes "reachable w" and "mgr_engine (w_mgr w) = Some e" and "re_origin e = FromHeal h"
    and "\<not> pending (w_pc w)"
  shows "h = mgr_generation (w_mgr w)"
  using slot_ok_reachable[OF assms(1)] assms(2-4) by (auto simp: slot_ok_def current_def)


text \<open>The schedules of the witnesses: a load of a model, and three failed polls after it.\<close>

definition load_moves :: "nat \<Rightarrow> 'c \<Rightarrow> 'c move list" where
  "load_moves i c = [Act i (AskLoad c), Act i Proceed, Act i (Answer True), Act i (Answer True),
     Act i Proceed, Act i Proceed, Act i Proceed, Act i Proceed, Act i Proceed]"

definition poll_moves :: "nat \<Rightarrow> bool \<Rightarrow> 'c move list" where
  "poll_moves i ok = [Tick 30000, Act i Proceed, Act i (Answer True), Act i (Answer ok)]"

definition heal_moves :: "nat \<Rightarrow> nat \<Rightarrow> 'c move list" where
  "heal_moves i wait = [Act i Proceed, Act i Proceed, Act i Proceed, Tick wait, Act i Proceed,
     Act i Proceed, Act i Proceed, Act i (Answer True), Act i (Answer True), Act i Proceed,
     Act i Proceed, Act i Proceed]"

definition repaired_once :: "nat move list" where
  "repaired_once = load_moves 0 7 @ poll_moves 0 False @ poll_moves 0 False @ poll_moves 0 False
     @ heal_moves 0 2000"

lemmas schedule_defs = load_moves_def poll_moves_def heal_moves_def repaired_once_def
  start_world_def new_runtime_manager_def POLL_def LIMIT_WINDOW_def MAX_RESTARTS_def
  poll_under_lock_def restart_aged_def

lemma repaired_once_runs:
  "\<exists>w. run repaired_once start_world = Some w
     \<and> mgr_engine (w_mgr w) = Some \<lparr>re_config = 7, re_origin = FromHeal 1\<rparr>
     \<and> \<not> pending (w_pc w) \<and> w_pc w 0 = Watch 1 (WatchSleep 0 122000) \<and> mgr_generation (w_mgr w) = 1"
  by (simp add: schedule_defs step_defs pending_def)

lemma repair_installs_current_witness:
  "\<exists>w. run repaired_once start_world = Some w \<and> mgr_generation (w_mgr w) = 1"
proof -
  obtain w where w: "run repaired_once start_world = Some w" "\<not> pending (w_pc w)"
    "mgr_engine (w_mgr w) = Some \<lparr>re_config = 7, re_origin = FromHeal 1\<rparr>"
    using repaired_once_runs by auto
  have "1 = mgr_generation (w_mgr w)"
    by (rule repair_installs_current[OF reachable_run[OF w(1) reachable_start] w(3) _ w(2)]) simp
  then show ?thesis using w(1) by auto
qed


subsection \<open>The rolling hour\<close>

definition hour_ok :: "'c world \<Rightarrow> bool" where
  "hour_ok w \<longleftrightarrow>
     (\<exists>t \<le> w_now w. heals.window_queue (mgr_log (w_mgr w)) (mgr_restarts (w_mgr w)) t)
     \<and> (\<forall>T. heals.window_count T (mgr_log (w_mgr w)) \<le> MAX_RESTARTS)"

lemma step_restarts:
  assumes "thread_step i x now m p = Some (m', p')"
  shows "mgr_restarts m' = mgr_restarts m \<and> mgr_log m' = mgr_log m
     \<or> mgr_restarts m' = [] \<and> mgr_log m' = []
     \<or> m' = fst (heal_limit now m)"
  using assms
  by (auto simp: stop_bump_def stop_clear_def load_forgive_def split: step_splits elim!: step_elims)

lemma heal_limit_hour:
  assumes q: "heals.window_queue (mgr_log m) (mgr_restarts m) t" and "t \<le> now"
    and c: "\<And>T. heals.window_count T (mgr_log m) \<le> MAX_RESTARTS"
    and m': "m' = fst (heal_limit now m)"
  shows "heals.window_queue (mgr_log m') (mgr_restarts m') now"
    and "heals.window_count T (mgr_log m') \<le> MAX_RESTARTS"
proof -
  define kept where "kept = dropWhile (restart_aged now) (mgr_restarts m)"
  have k: "heals.window_queue (mgr_log m) kept now"
    unfolding kept_def using heals.window_queue_expire[OF q \<open>t \<le> now\<close>] .
  have "m' = (if length kept < MAX_RESTARTS
      then m\<lparr>mgr_restarts := kept @ [now], mgr_log := mgr_log m @ [now]\<rparr>
      else m\<lparr>mgr_restarts := kept, mgr_gave_up := True\<rparr>)"
    by (simp add: m' heal_limit_def may_restart_def Let_def kept_def)
  then show "heals.window_queue (mgr_log m') (mgr_restarts m') now"
    and "heals.window_count T (mgr_log m') \<le> MAX_RESTARTS"
    using k heals.window_queue_push[OF k] heals.window_count_push[OF k _ c] c by (auto split: if_splits)
qed

lemma hour_ok_move:
  assumes "hour_ok w" and "move_world x w = Some w'"
  shows "hour_ok w'"
proof (cases x)
  case (Tick d)
  obtain t where "t \<le> w_now w" "heals.window_queue (mgr_log (w_mgr w)) (mgr_restarts (w_mgr w)) t"
    using assms(1) by (auto simp: hour_ok_def)
  then have "t \<le> w_now w + int d \<and> heals.window_queue (mgr_log (w_mgr w)) (mgr_restarts (w_mgr w)) t"
    by simp
  then show ?thesis using Tick assms unfolding hour_ok_def by auto
next
  case (Act i y)
  then obtain m' p' where st: "thread_step i y (w_now w) (w_mgr w) (w_pc w i) = Some (m', p')"
    and w': "w' = w\<lparr>w_mgr := m', w_pc := (w_pc w)(i := p')\<rparr>"
    using assms(2) by (auto split: option.splits)
  obtain t where t: "t \<le> w_now w"
    "heals.window_queue (mgr_log (w_mgr w)) (mgr_restarts (w_mgr w)) t"
    "\<And>T. heals.window_count T (mgr_log (w_mgr w)) \<le> MAX_RESTARTS"
    using assms(1) by (auto simp: hour_ok_def)
  show ?thesis
    using step_restarts[OF st] t heal_limit_hour[OF t(2,1,3)]
    by (auto simp: hour_ok_def w' heals.window_queue_Nil heals.window_count_Nil)
qed

lemma hour_ok_reachable: "reachable w \<Longrightarrow> hour_ok w"
proof (induction rule: reachable.induct)
  case reachable_start
  then show ?case
    by (auto simp: hour_ok_def start_world_def new_runtime_manager_def heals.window_queue_Nil heals.window_count_Nil)
qed (rule hour_ok_move)

text \<open>Self-repair is limited: since the last finished load, no rolling hour holds more than
  three granted repairs, however watchdogs, loads and stops interleave.\<close>
theorem repairs_limited:
  assumes "reachable w"
  shows "length (filter (\<lambda>t. T - LIMIT_WINDOW \<le> t \<and> t \<le> T) (mgr_log (w_mgr w))) \<le> MAX_RESTARTS"
proof -
  have "heals.window_count T (mgr_log (w_mgr w)) \<le> MAX_RESTARTS"
    using hour_ok_reachable[OF assms] by (auto simp: hour_ok_def)
  moreover have "(\<lambda>t. \<not> restart_aged T t \<and> t \<le> T) = (\<lambda>t. T - LIMIT_WINDOW \<le> t \<and> t \<le> T)"
    by (auto simp: restart_aged_def)
  ultimately show ?thesis by (simp add: heals.window_count_def)
qed

lemma repairs_limited_witness:
  "\<exists>w. run repaired_once start_world = Some w \<and> mgr_log (w_mgr w) = [90000]
     \<and> length (filter (\<lambda>t. 100000 - LIMIT_WINDOW \<le> t \<and> t \<le> 100000) (mgr_log (w_mgr w))) \<le> MAX_RESTARTS"
proof -
  obtain w where w: "run repaired_once start_world = Some w" "mgr_log (w_mgr w) = [90000]"
    by (simp add: schedule_defs step_defs)
  show ?thesis using w repairs_limited[OF reachable_run[OF w(1) reachable_start]] by blast
qed


subsection \<open>When a stop is final\<close>

text \<open>Generations a thread carries lie in the past, strictly once a stop has come after it.\<close>

fun bounded_by :: "nat \<Rightarrow> 'c pc \<Rightarrow> bool" where
  "bounded_by n Idle \<longleftrightarrow> True"
| "bounded_by n (User p) \<longleftrightarrow> True"
| "bounded_by n (Watch g p) \<longleftrightarrow> g \<le> n"
| "bounded_by n (Heal g p) \<longleftrightarrow> g \<le> n \<and>
     (case p of HealBegin \<Rightarrow> True | HealLimit h \<Rightarrow> h \<le> n | HealConfig h _ \<Rightarrow> h \<le> n
      | HealSleep h _ _ \<Rightarrow> h \<le> n | HealReap h _ \<Rightarrow> h \<le> n | HealCount h _ \<Rightarrow> h \<le> n
      | HealSpawn h _ \<Rightarrow> h \<le> n | HealWait h _ \<Rightarrow> h \<le> n | HealLock h _ \<Rightarrow> h \<le> n
      | HealCheck h _ \<Rightarrow> h \<le> n | HealAssign h _ \<Rightarrow> h \<le> n)"

lemma bounded_by_mono: "bounded_by n p \<Longrightarrow> n \<le> k \<Longrightarrow> bounded_by k p"
  by (cases p) (auto split: heal_pc.splits)

lemma step_bounded:
  "thread_step i x now m p = Some (m', p') \<Longrightarrow> bounded_by (mgr_generation m) p \<Longrightarrow>
     bounded_by (mgr_generation m') p' \<and> mgr_generation m \<le> mgr_generation m'"
  by (auto simp: step_defs split: step_splits elim!: step_elims)

definition generations_ok :: "'c world \<Rightarrow> bool" where
  "generations_ok w \<longleftrightarrow> (\<forall>i. bounded_by (mgr_generation (w_mgr w)) (w_pc w i))"

lemma generations_ok_step:
  assumes "generations_ok w" and step: "thread_step i x now (w_mgr w) (w_pc w i) = Some (m', p')"
  shows "generations_ok (w\<lparr>w_mgr := m', w_pc := (w_pc w)(i := p')\<rparr>)"
  using assms(1) step_bounded[OF step] by (auto simp: generations_ok_def intro: bounded_by_mono)

lemma generations_ok_move: "generations_ok w \<Longrightarrow> move_world x w = Some w' \<Longrightarrow> generations_ok w'"
  by (cases x) (auto split: option.splits dest: generations_ok_step, simp add: generations_ok_def)

lemma generations_ok_reachable: "reachable w \<Longrightarrow> generations_ok w"
proof (induction rule: reachable.induct)
  case reachable_start
  then show ?case by (simp add: generations_ok_def start_world_def)
qed (rule generations_ok_move)

text \<open>
  A thread that cannot bring an engine back of its own accord: it is not loading, and if it is a
  watchdog or a repair it has still to compare its generation with the present one.
\<close>

definition settled :: "'c pc \<Rightarrow> bool" where
  "settled p \<longleftrightarrow>
     (case p of Idle \<Rightarrow> True | User q \<Rightarrow> q = Stopping | Watch _ (WatchSleep _ _) \<Rightarrow> True
      | Watch _ _ \<Rightarrow> False | Heal _ q \<Rightarrow> q \<noteq> HealBegin)"

text \<open>After a stop at generation \<open>k\<close> such threads stay as they are until a load.\<close>

definition stopped_at :: "nat \<Rightarrow> 'c world \<Rightarrow> bool" where
  "stopped_at k w \<longleftrightarrow> k < mgr_generation (w_mgr w)
     \<and> (\<forall>i. settled (w_pc w i) \<and> bounded_by k (w_pc w i))
     \<and> (mgr_engine (w_mgr w) \<noteq> None \<longrightarrow> pending (w_pc w))"

lemma step_settled:
  "thread_step i x now m p = Some (m', p') \<Longrightarrow> settled p \<Longrightarrow> bounded_by k p \<Longrightarrow>
     k < mgr_generation m \<Longrightarrow> (\<And>c. x \<noteq> AskLoad c) \<Longrightarrow>
     settled p' \<and> bounded_by k p' \<and> k < mgr_generation m'"
  by (auto simp: step_defs settled_def split: step_splits elim!: step_elims)

fun asks_load :: "'c move \<Rightarrow> bool" where
  "asks_load (Act i (AskLoad c)) \<longleftrightarrow> True"
| "asks_load _ \<longleftrightarrow> False"

lemma stopped_at_step:
  assumes ok: "slot_ok w" and st: "stopped_at k w" and x: "\<And>c. x \<noteq> AskLoad c"
    and step: "thread_step i x now (w_mgr w) (w_pc w i) = Some (m', p')"
  shows "stopped_at k (w\<lparr>w_mgr := m', w_pc := (w_pc w)(i := p')\<rparr>)"
proof -
  have s: "settled p' \<and> bounded_by k p' \<and> k < mgr_generation m'"
    using st step_settled[OF step _ _ _ x] by (auto simp: stopped_at_def)
  have "pending ((w_pc w)(i := p'))" if e: "mgr_engine m' = Some e" for e
  proof -
    have ns: "\<not> stopping (w_pc w i)" using step_stopping_done[OF step] e by auto
    have "pending (w_pc w)"
    proof (cases "mgr_engine m' = mgr_engine (w_mgr w)")
      case True
      then have "mgr_engine (w_mgr w) = Some e" using e by simp
      then show ?thesis using st by (auto simp: stopped_at_def)
    next
      case False
      have "settled (w_pc w i)" "bounded_by k (w_pc w i)" "k < mgr_generation (w_mgr w)"
        using st by (simp_all add: stopped_at_def)
      then obtain g h where a: "w_pc w i = Heal g (HealAssign h e)" "h \<le> k"
        using step_engine[OF step False e] by (auto simp: settled_def)
      then have "current w h" using slot_ok_assign[OF ok] by blast
      then show ?thesis using a(2) \<open>k < mgr_generation (w_mgr w)\<close> by (simp add: current_def)
    qed
    then show ?thesis using ns by (rule pending_keep)
  qed
  then show ?thesis using s st by (auto simp: stopped_at_def)
qed

lemma stopped_at_move:
  assumes "slot_ok w" and "stopped_at k w" and "\<not> asks_load x" and "move_world x w = Some w'"
  shows "stopped_at k w'"
proof (cases x)
  case (Tick d)
  then show ?thesis using assms by (auto simp: stopped_at_def)
next
  case (Act i y)
  then have y: "\<And>c. y \<noteq> AskLoad c" using assms(3) by auto
  obtain m' p' where st: "thread_step i y (w_now w) (w_mgr w) (w_pc w i) = Some (m', p')"
    and w': "w' = w\<lparr>w_mgr := m', w_pc := (w_pc w)(i := p')\<rparr>"
    using Act assms(4) by (auto split: option.splits)
  show ?thesis unfolding w' using assms(1,2) y st by (rule stopped_at_step)
qed

lemma stopped_at_run:
  "run xs w = Some w' \<Longrightarrow> slot_ok w \<Longrightarrow> stopped_at k w \<Longrightarrow> \<not> list_ex asks_load xs \<Longrightarrow> stopped_at k w'"
  by (induction xs arbitrary: w) (auto split: option.splits dest: slot_ok_move stopped_at_move)

lemma stopped_at_ask:
  assumes "reachable w" and "\<And>j. settled (w_pc w j)" and "move_world (Act i AskStop) w = Some w1"
  shows "stopped_at (mgr_generation (w_mgr w)) w1"
proof -
  have b: "bounded_by (mgr_generation (w_mgr w)) (w_pc w j)" for j
    using generations_ok_reachable[OF assms(1)] by (simp add: generations_ok_def)
  have "w1 = w\<lparr>w_mgr := stop_bump (w_mgr w), w_pc := (w_pc w)(i := User Stopping)\<rparr>"
    using assms(3) by (auto split: option.splits if_splits)
  then show ?thesis using b assms(2)
    by (auto simp: stopped_at_def stop_bump_def settled_def stopping_def intro: pending_upd)
qed

text \<open>C20: A stop is final: if the user stops the engine while no load is under way and no watchdog
  is between its own look at the generation and the start of a repair, then whatever watchdogs,
  repairs in flight and further stops do, as soon as no stop is still clearing the slot there is
  no engine, and there is none until the next load is asked for.\<close>
theorem stop_is_final:
  assumes "reachable w" and "\<And>j. settled (w_pc w j)"
    and "run (Act i AskStop # xs) w = Some w'" and "\<not> list_ex asks_load xs"
    and "\<not> pending (w_pc w')"
  shows "mgr_engine (w_mgr w') = None"
proof -
  obtain w1 where w1: "move_world (Act i AskStop) w = Some w1" "run xs w1 = Some w'"
    using assms(3) by (auto split: option.splits)
  have "reachable w1" using assms(1) w1(1) by (rule reachable_move)
  then have "stopped_at (mgr_generation (w_mgr w)) w'"
    using stopped_at_run[OF w1(2) slot_ok_reachable] stopped_at_ask[OF assms(1,2) w1(1)] assms(4) by blast
  then show ?thesis using assms(5) by (auto simp: stopped_at_def)
qed

text \<open>A stop in the middle of a repair: the repair is granted, sleeps, and finds itself superseded.\<close>

definition stop_moves :: "nat \<Rightarrow> 'c move list" where
  "stop_moves i = [Act i AskStop, Act i Proceed]"

definition repair_begun :: "nat move list" where
  "repair_begun = load_moves 0 7 @ poll_moves 0 False @ poll_moves 0 False @ poll_moves 0 False
     @ [Act 0 Proceed, Act 0 Proceed, Act 0 Proceed]"

lemma stop_is_final_witness:
  "\<exists>w w'. run repair_begun start_world = Some w
     \<and> run (stop_moves 1 @ [Tick 2000, Act 0 Proceed]) w = Some w' \<and> mgr_engine (w_mgr w') = None"
proof -
  obtain w w' where w: "run repair_begun start_world = Some w" "\<forall>j. settled (w_pc w j)"
    "run (Act 1 AskStop # [Act 1 Proceed, Tick 2000, Act 0 Proceed]) w = Some w'"
    "\<not> pending (w_pc w')"
    by (simp add: repair_begun_def schedule_defs step_defs pending_def settled_def)
  have "mgr_engine (w_mgr w') = None"
    using stop_is_final[OF reachable_run[OF w(1) reachable_start] _ w(3) _ w(4)] w(2) by simp
  then show ?thesis using w by (auto simp: stop_moves_def)
qed

subsection \<open>Where the code falls short of that\<close>

text \<open>
  A stop that arrives while the watchdog waits for the answer to its third poll is undone: the
  failed answer starts a repair, \<open>heal\<close> reads the generation after the stop, and the last launch
  is still remembered.
\<close>

definition stop_while_polling :: "nat move list" where
  "stop_while_polling = load_moves 0 7 @ poll_moves 0 False @ poll_moves 0 False
     @ [Tick 30000, Act 0 Proceed, Act 0 (Answer True)] @ stop_moves 1
     @ Act 0 (Answer False) # heal_moves 0 2000"

theorem stop_while_polling_is_undone:
  "map_option (\<lambda>w. (mgr_engine (w_mgr w), mgr_generation (w_mgr w))) (run stop_while_polling start_world)
     = Some (Some \<lparr>re_config = 7, re_origin = FromHeal 2\<rparr>, 2)"
  by (simp add: stop_while_polling_def stop_moves_def schedule_defs step_defs)

text \<open>A stop while a load waits for readiness is undone: a load never looks at the generation.\<close>

definition stop_while_loading :: "nat move list" where
  "stop_while_loading = [Act 0 (AskLoad 7), Act 0 Proceed, Act 0 (Answer True)] @ stop_moves 1
     @ [Act 0 (Answer True), Act 0 Proceed]"

theorem stop_while_loading_is_undone:
  "map_option (\<lambda>w. mgr_engine (w_mgr w)) (run stop_while_loading start_world)
     = Some (Some \<lparr>re_config = 7, re_origin = FromLoad 1\<rparr>)"
  by (simp add: stop_while_loading_def stop_moves_def schedule_defs step_defs)

text \<open>Two loads at once end with two watchdogs of the same, present generation.\<close>

definition two_loads :: "nat move list" where
  "two_loads = [Act 0 (AskLoad 7), Act 1 (AskLoad 8), Act 0 Proceed, Act 1 Proceed,
     Act 0 (Answer True), Act 1 (Answer True), Act 0 (Answer True), Act 1 (Answer True)]
     @ [Act 0 Proceed, Act 0 Proceed, Act 0 Proceed, Act 0 Proceed, Act 0 Proceed]
     @ [Act 1 Proceed, Act 1 Proceed, Act 1 Proceed, Act 1 Proceed, Act 1 Proceed]"

theorem two_watchdogs:
  "map_option (\<lambda>w. (w_pc w 0, w_pc w 1, mgr_generation (w_mgr w))) (run two_loads start_world)
     = Some (Watch 2 (WatchSleep 0 30000), Watch 2 (WatchSleep 0 30000), 2)"
  by (simp add: two_loads_def schedule_defs step_defs)

end
