(* ===== verification/Trash.thy ===== *)
theory Trash imports Disk Db_Store begin

text \<open>
  The undo trash (\<open>agent/trash.rs\<close>, the table \<open>file_trash\<close> of \<open>db/mod.rs\<close>) and the file tools that
  fill it (\<open>agent/filesystem.rs\<close>): before an operation destroys bytes they are copied aside and a
  row is recorded; \<open>undo\<close> reverses one row.  New ids, the names of blobs and the clock are
  arguments.
\<close>

section \<open>The table\<close>

record trash_entry =
  te_id :: string
  te_conversation :: string
  te_op :: string
  te_path :: path
  te_prev :: "path option"
  te_blob :: "path option"
  te_created_at :: int
  te_undone :: bool

record files =
  fl_disk :: disk
  fl_db :: db
  fl_trash :: "trash_entry list"

definition trash_since :: "files \<Rightarrow> string \<Rightarrow> int \<Rightarrow> db_error + trash_entry list" where
  "trash_since w conv since =
     (if db_readable (fl_db w)
      then Inr (sort_key te_created_at
                  (filter (\<lambda>e. te_conversation e = conv \<and> since \<le> te_created_at e) (fl_trash w)))
      else Inl DbError)"

definition get_trash_entry :: "files \<Rightarrow> string \<Rightarrow> db_error + trash_entry option" where
  "get_trash_entry w i =
     (if db_readable (fl_db w) then Inr (List.find (\<lambda>e. te_id e = i) (fl_trash w)) else Inl DbError)"

definition mark_trash_undone :: "files \<Rightarrow> string \<Rightarrow> db_error + files" where
  "mark_trash_undone w i =
     (if db_writable (fl_db w)
      then Inr (w\<lparr>fl_trash := map (\<lambda>e. if te_id e = i then e\<lparr>te_undone := True\<rparr> else e) (fl_trash w)\<rparr>)
      else Inl DbError)"

definition expired_trash :: "files \<Rightarrow> int \<Rightarrow> db_error + trash_entry list" where
  "expired_trash w cutoff =
     (if db_readable (fl_db w) then Inr (filter (\<lambda>e. te_created_at e < cutoff) (fl_trash w)) else Inl DbError)"

definition delete_trash_entry :: "files \<Rightarrow> string \<Rightarrow> db_error + files" where
  "delete_trash_entry w i =
     (if db_writable (fl_db w) then Inr (w\<lparr>fl_trash := filter (\<lambda>e. te_id e \<noteq> i) (fl_trash w)\<rparr>)
      else Inl DbError)"

section \<open>Recording\<close>

definition RETENTION_MS :: int where "RETENTION_MS = 604800000"

definition trash_dir :: "path \<Rightarrow> path" where "trash_dir data = data @ [Normal ''trash'']"

text \<open>What a recording takes from outside: the name of a blob, the id of the row and the time.\<close>

record stamp =
  st_blob :: string
  st_id :: string
  st_now :: int

definition add_trash_entry ::
  "files \<Rightarrow> stamp \<Rightarrow> string \<Rightarrow> string \<Rightarrow> path \<Rightarrow> path option \<Rightarrow> path option \<Rightarrow> files \<times> trash_entry option" where
  "add_trash_entry w s conv op p prev blob =
     (let e = \<lparr>te_id = st_id s, te_conversation = conv, te_op = op, te_path = p, te_prev = prev,
               te_blob = blob, te_created_at = st_now s, te_undone = False\<rparr>
      in if db_writable (fl_db w) then (w\<lparr>fl_trash := fl_trash w @ [e]\<rparr>, Some e) else (w, None))"

definition record_trash ::
  "files \<Rightarrow> stamp \<Rightarrow> path \<Rightarrow> string \<Rightarrow> string \<Rightarrow> path \<Rightarrow> path option \<Rightarrow> files \<times> trash_entry option" where
  "record_trash w s data conv op p prev =
     (if is_file (fl_disk w) p then
        (case fs_create_dir_all (fl_disk w) (trash_dir data) of
           None \<Rightarrow> (w, None)
         | Some d \<Rightarrow>
             (let blob = trash_dir data @ [Normal (st_blob s)]
              in case fs_copy d p blob of
                   None \<Rightarrow> (w\<lparr>fl_disk := d\<rparr>, None)
                 | Some d' \<Rightarrow> add_trash_entry (w\<lparr>fl_disk := d'\<rparr>) s conv op p prev (Some blob)))
      else add_trash_entry w s conv op p prev None)"

section \<open>Undoing\<close>

datatype undo_error = AlreadyUndone | MoveBackFailed path | RestoreFailed path | RemoveFailed path | UndoStore

definition make_parent :: "disk \<Rightarrow> path \<Rightarrow> disk" where
  "make_parent d p = (case path_parent p of None \<Rightarrow> d | Some q \<Rightarrow> or_same d (fs_create_dir_all d q))"

text \<open>The part of \<open>undo\<close> that works on the disk.\<close>

definition undo_disk :: "disk \<Rightarrow> trash_entry \<Rightarrow> disk \<times> undo_error option" where
  "undo_disk d e =
     (let p = te_path e in
      case (te_op e = ''move'', te_prev e, te_blob e) of
        (True, Some prev, _) \<Rightarrow>
          (let d = make_parent d prev
           in case fs_rename d p prev of None \<Rightarrow> (d, Some (MoveBackFailed p)) | Some d' \<Rightarrow> (d', None))
      | (_, _, Some blob) \<Rightarrow>
          (let d = make_parent d p
           in case fs_copy d blob p of None \<Rightarrow> (d, Some (RestoreFailed p)) | Some d' \<Rightarrow> (d', None))
      | (_, _, None) \<Rightarrow>
          (if is_folder d p then
             (case fs_remove_dir_all d p of None \<Rightarrow> (d, Some (RemoveFailed p)) | Some d' \<Rightarrow> (d', None))
           else if path_exists d p then
             (case fs_remove_file d p of None \<Rightarrow> (d, Some (RemoveFailed p)) | Some d' \<Rightarrow> (d', None))
           else (d, None)))"

definition undo :: "files \<Rightarrow> trash_entry \<Rightarrow> files \<times> (undo_error + unit)" where
  "undo w e =
     (if te_undone e then (w, Inl AlreadyUndone)
      else case undo_disk (fl_disk w) e of
        (d, Some err) \<Rightarrow> (w\<lparr>fl_disk := d\<rparr>, Inl err)
      | (d, None) \<Rightarrow>
          (case mark_trash_undone (w\<lparr>fl_disk := d\<rparr>) (te_id e) of
             Inl _ \<Rightarrow> (w\<lparr>fl_disk := d\<rparr>, Inl UndoStore)
           | Inr w' \<Rightarrow> (w', Inr ())))"

section \<open>Pruning\<close>

fun prune_rows :: "files \<Rightarrow> trash_entry list \<Rightarrow> files" where
  "prune_rows w [] = w"
| "prune_rows w (e # es) =
     (let w1 = (case te_blob e of None \<Rightarrow> w
                | Some b \<Rightarrow> w\<lparr>fl_disk := or_same (fl_disk w) (fs_remove_file (fl_disk w) b)\<rparr>)
      in prune_rows (case delete_trash_entry w1 (te_id e) of Inl _ \<Rightarrow> w1 | Inr w2 \<Rightarrow> w2) es)"

text \<open>The sweep of the folder: \<open>stale\<close> are the listed entries whose time of change is past the window.\<close>

definition sweep :: "files \<Rightarrow> path \<Rightarrow> string list \<Rightarrow> files" where
  "sweep w data stale =
     foldl (\<lambda>w n. w\<lparr>fl_disk := or_same (fl_disk w) (fs_remove_file (fl_disk w) (trash_dir data @ [Normal n]))\<rparr>)
       w stale"

definition prune :: "files \<Rightarrow> path \<Rightarrow> int \<Rightarrow> string list \<Rightarrow> files" where
  "prune w data now stale =
     (case expired_trash w (now - RETENTION_MS) of
        Inl _ \<Rightarrow> w
      | Inr expired \<Rightarrow> sweep (prune_rows w expired) data stale)"

section \<open>The file tools that change the disk\<close>

text \<open>
  The branches of the file tool after the operation was cleared.  \<open>OpEdit\<close> carries the text the
  edit was prepared to.
\<close>

datatype file_op =
    OpWrite path string
  | OpEdit path string
  | OpCreateDir path
  | OpMove path path bool
  | OpDelete path bool

datatype file_error = ParentFailed | WriteFailed | CreateFailed | AlreadyExists | MoveFailed
  | NeedsRecursive | DeleteFailed

type_synonym tool_result = "files \<times> (file_error + trash_entry option)"

definition put_disk :: "files \<Rightarrow> trash_entry option \<Rightarrow> file_error \<Rightarrow> disk option \<Rightarrow> tool_result" where
  "put_disk w e err r =
     (case r of None \<Rightarrow> (w, Inl err) | Some d \<Rightarrow> (w\<lparr>fl_disk := d\<rparr>, Inr e))"

fun apply_op :: "files \<Rightarrow> stamp \<Rightarrow> path \<Rightarrow> string \<Rightarrow> file_op \<Rightarrow> tool_result" where
  "apply_op w s data conv (OpWrite p content) =
     (case (case path_parent p of None \<Rightarrow> Some (fl_disk w) | Some q \<Rightarrow> fs_create_dir_all (fl_disk w) q) of
        None \<Rightarrow> (w, Inl ParentFailed)
      | Some d \<Rightarrow>
          (case record_trash (w\<lparr>fl_disk := d\<rparr>) s data conv ''write'' p None of
             (w', e) \<Rightarrow> put_disk w' e WriteFailed (fs_write (fl_disk w') p content)))"
| "apply_op w s data conv (OpEdit p updated) =
     (case record_trash w s data conv ''edit'' p None of
        (w', e) \<Rightarrow> put_disk w' e WriteFailed (fs_write (fl_disk w') p updated))"
| "apply_op w s data conv (OpCreateDir p) =
     (case fs_create_dir_all (fl_disk w) p of
        None \<Rightarrow> (w, Inl CreateFailed)
      | Some d \<Rightarrow>
          (case record_trash (w\<lparr>fl_disk := d\<rparr>) s data conv ''write'' p None of (w', e) \<Rightarrow> (w', Inr e)))"
| "apply_op w s data conv (OpMove p to overwrite) =
     (if path_exists (fl_disk w) to \<and> \<not> overwrite then (w, Inl AlreadyExists)
      else
        (let w1 = w\<lparr>fl_disk := make_parent (fl_disk w) to\<rparr>
         in case record_trash w1 s data conv ''move'' to (Some p) of
              (w', e) \<Rightarrow> put_disk w' e MoveFailed (fs_rename (fl_disk w') p to)))"
| "apply_op w s data conv (OpDelete p recursive) =
     (case record_trash w s data conv ''delete'' p None of
        (w', e) \<Rightarrow>
          (if is_folder (fl_disk w') p then
             (if \<not> recursive then (w', Inl NeedsRecursive)
              else put_disk w' e DeleteFailed (fs_remove_dir_all (fl_disk w') p))
           else put_disk w' e DeleteFailed (fs_remove_file (fl_disk w') p)))"

end
