(* ===== verification/Changes.thy ===== *)
theory Changes imports Trash Diff begin

text \<open>
  What the agent changed on disk (\<open>agent/changes.rs\<close>), built from the recorded operations: one
  entry per file with its patch, undoing one file or all of them, and the text the model reads.
  Whether bytes are valid UTF-8 and the text of a path come from outside.
\<close>

definition DIFF_BYTES_CAP :: nat where "DIFF_BYTES_CAP = 1048576"

definition TOOL_OUTPUT_CAP :: nat where "TOOL_OUTPUT_CAP = 49152"

definition SNIFF_BYTES :: nat where "SNIFF_BYTES = 8192"

record file_change =
  fc_path :: path
  fc_display :: string
  fc_status :: string
  fc_from :: "string option"
  fc_added :: nat
  fc_removed :: nat
  fc_hunks :: "hunk list"
  fc_binary :: bool
  fc_too_large :: bool
  fc_entry_ids :: "string list"
  fc_last_at :: int

record changes_view =
  cs_files :: "file_change list"
  cs_added :: nat
  cs_removed :: nat
  cs_since :: int
  cs_this_run :: bool

definition display_in :: "os \<Rightarrow> path \<Rightarrow> string option \<Rightarrow> string" where
  "display_in sys p folder =
     (case folder of
        None \<Rightarrow> path_text sys p
      | Some root \<Rightarrow>
          (case strip_prefix (path_of sys root) p of
             None \<Rightarrow> path_text sys p
           | Some rel \<Rightarrow>
               (let s = replace_char (CHR 0x5C) ''/'' (path_text sys rel)
                in if s \<noteq> [] then s else path_text sys p)))"

definition looks_binary :: "disk \<Rightarrow> path \<Rightarrow> bool" where
  "looks_binary d p =
     (\<not> dk_denied d p \<and> (case file_bytes d p of None \<Rightarrow> False | Some b \<Rightarrow> CHR 0x00 \<in> set (take SNIFF_BYTES b)))"

text \<open>One side of a patch: nothing there, the text, or the flags (binary, too large).\<close>

definition read_side :: "(string \<Rightarrow> bool) \<Rightarrow> disk \<Rightarrow> path \<Rightarrow> bool \<times> bool + string option" where
  "read_side utf8 d p =
     (case file_bytes d p of
        None \<Rightarrow> Inr None
      | Some b \<Rightarrow>
          if length b > DIFF_BYTES_CAP then Inl (False, True)
          else if looks_binary d p then Inl (True, False)
          else if \<not> dk_denied d p \<and> utf8 b then Inr (Some b) else Inl (True, False))"

section \<open>The set of changes\<close>

definition paths_in_order :: "trash_entry list \<Rightarrow> path list" where
  "paths_in_order es = rev (remdups (rev (map te_path es)))"

definition group_of :: "path \<Rightarrow> trash_entry list \<Rightarrow> trash_entry list" where
  "group_of p es = filter (\<lambda>e. te_path e = p) es"

definition moved_from :: "trash_entry list \<Rightarrow> path option" where
  "moved_from grp = (case List.find (\<lambda>e. te_op e = ''move'') grp of None \<Rightarrow> None | Some e \<Rightarrow> te_prev e)"

definition status_of :: "path option \<Rightarrow> bool \<Rightarrow> bool \<Rightarrow> string" where
  "status_of moved existed_before exists_now =
     (if moved \<noteq> None \<and> exists_now then ''moved''
      else if \<not> existed_before \<and> exists_now then ''added''
      else if \<not> exists_now then ''deleted'' else ''modified'')"

definition before_side ::
  "(string \<Rightarrow> bool) \<Rightarrow> disk \<Rightarrow> path \<Rightarrow> trash_entry \<Rightarrow> path option \<Rightarrow> bool \<times> bool + string option" where
  "before_side utf8 d p first moved =
     (case (te_blob first, moved) of
        (Some blob, _) \<Rightarrow> read_side utf8 d blob
      | (None, Some _) \<Rightarrow> if te_op first = ''move'' then read_side utf8 d p else Inr None
      | (None, None) \<Rightarrow> Inr None)"

text \<open>The entry of one file, or \<open>None\<close> where the loop goes on without one.\<close>

definition change_of ::
  "os \<Rightarrow> (string \<Rightarrow> bool) \<Rightarrow> disk \<Rightarrow> string option \<Rightarrow> trash_entry list \<Rightarrow> path \<Rightarrow> file_change option" where
  "change_of sys utf8 d folder entries p =
     (let grp = group_of p entries;
          first = hd grp;
          moved = moved_from grp;
          existed_before = (te_blob first \<noteq> None \<or> te_op first = ''move'');
          exists_now = is_file d p;
          status = status_of moved existed_before exists_now;
          change = \<lparr>fc_path = p, fc_display = display_in sys p folder, fc_status = status,
                    fc_from = map_option (\<lambda>f. display_in sys f folder) moved,
                    fc_added = 0, fc_removed = 0, fc_hunks = [], fc_binary = False, fc_too_large = False,
                    fc_entry_ids = rev (map te_id grp), fc_last_at = te_created_at (last grp)\<rparr>
      in if is_folder d p then None
         else if \<not> existed_before \<and> \<not> exists_now then None
         else case (before_side utf8 d p first moved, read_side utf8 d p) of
                (Inr b, Inr a) \<Rightarrow>
                  (let b = (case b of None \<Rightarrow> '''' | Some t \<Rightarrow> t); a = (case a of None \<Rightarrow> '''' | Some t \<Rightarrow> t)
                   in if b = a \<and> status = ''modified'' then None
                      else (let hs = hunks b a; (added, removed) = counts hs
                            in Some (change\<lparr>fc_hunks := hs, fc_added := added, fc_removed := removed\<rparr>)))
              | (Inl (binary, large), _) \<Rightarrow> Some (change\<lparr>fc_binary := binary, fc_too_large := large\<rparr>)
              | (_, Inl (binary, large)) \<Rightarrow> Some (change\<lparr>fc_binary := binary, fc_too_large := large\<rparr>))"

definition live_entries :: "files \<Rightarrow> string \<Rightarrow> int \<Rightarrow> trash_entry list" where
  "live_entries w conv since =
     (case trash_since w conv since of Inl _ \<Rightarrow> [] | Inr es \<Rightarrow> filter (\<lambda>e. \<not> te_undone e) es)"

text \<open>\<open>latest_run\<close> is when the last logged run of the conversation began, if the log says.\<close>

definition change_set ::
  "os \<Rightarrow> (string \<Rightarrow> bool) \<Rightarrow> files \<Rightarrow> int option \<Rightarrow> string \<Rightarrow> int \<Rightarrow> changes_view" where
  "change_set sys utf8 w latest_run conv since =
     (let folder = fst (conversation_folder (fl_db w) conv);
          entries = live_entries w conv since;
          fs = List.map_filter (change_of sys utf8 (fl_disk w) folder entries) (paths_in_order entries)
      in \<lparr>cs_files = fs,
          cs_added = sum_list (map fc_added fs),
          cs_removed = sum_list (map fc_removed fs),
          cs_since = since,
          cs_this_run = (case latest_run of
                           None \<Rightarrow> False
                         | Some start \<Rightarrow>
                             list_all (\<lambda>f. list_all (\<lambda>e. start \<le> te_created_at e) (group_of (fc_path f) entries)) fs)\<rparr>)"

section \<open>Keeping and undoing\<close>

definition kept_key :: "string \<Rightarrow> string" where
  "kept_key conv = ''changes.kept_at.'' @ conv"

text \<open>\<open>parse_i64\<close> is Rust's \<open>str::parse::<i64>\<close>.\<close>

definition view_since :: "(string \<Rightarrow> int option) \<Rightarrow> db \<Rightarrow> string \<Rightarrow> int" where
  "view_since parse_i64 d conv =
     (case get_setting d (kept_key conv) of
        None \<Rightarrow> 0
      | Some v \<Rightarrow> (case parse_i64 v of None \<Rightarrow> 0 | Some n \<Rightarrow> n))"

definition keep_all :: "db \<Rightarrow> string \<Rightarrow> int \<Rightarrow> db" where
  "keep_all d conv now = or_unchanged d (set_setting d (kept_key conv) (show_int now))"

fun undo_ids :: "files \<Rightarrow> string list \<Rightarrow> files \<times> (undo_error + unit)" where
  "undo_ids w [] = (w, Inr ())"
| "undo_ids w (i # is) =
     (case get_trash_entry w i of
        Inl _ \<Rightarrow> (w, Inl UndoStore)
      | Inr None \<Rightarrow> undo_ids w is
      | Inr (Some e) \<Rightarrow>
          (if te_undone e then undo_ids w is
           else case undo w e of (w', Inl err) \<Rightarrow> (w', Inl err) | (w', Inr _) \<Rightarrow> undo_ids w' is))"

definition undo_file :: "files \<Rightarrow> file_change \<Rightarrow> files \<times> (undo_error + unit)" where
  "undo_file w c = undo_ids w (fc_entry_ids c)"

definition newest_first :: "file_change list \<Rightarrow> file_change list" where
  "newest_first fs = sort_key (\<lambda>f. - fc_last_at f) fs"

text \<open>The command of the Changes view stops at the first file it cannot put back.\<close>

fun undo_all :: "files \<Rightarrow> string \<Rightarrow> (path \<Rightarrow> string) \<Rightarrow> file_change list \<Rightarrow> files \<times> (undo_error + unit)" where
  "undo_all w conv txt [] = (w, Inr ())"
| "undo_all w conv txt (f # fs) =
     (case undo_file w f of
        (w', Inl err) \<Rightarrow> (w', Inl err)
      | (w', Inr _) \<Rightarrow>
          undo_all (w'\<lparr>fl_db := or_unchanged (fl_db w')
             (log_activity (fl_db w') (Some conv) ''file'' (''undid my changes to '' @ txt (fc_path f)))\<rparr>)
             conv txt fs)"

definition undo_changes_cmd ::
  "os \<Rightarrow> (string \<Rightarrow> bool) \<Rightarrow> (string \<Rightarrow> int option) \<Rightarrow> files \<Rightarrow> string \<Rightarrow> path option \<Rightarrow> files \<times> (undo_error + unit)" where
  "undo_changes_cmd sys utf8 parse_i64 w conv p =
     (let chs = change_set sys utf8 w None conv (view_since parse_i64 (fl_db w) conv)
      in undo_all w conv (path_text sys)
           (newest_first (filter (\<lambda>f. case p of None \<Rightarrow> True | Some q \<Rightarrow> q = fc_path f) (cs_files chs))))"

section \<open>The text for the model\<close>

definition file_line :: "file_change \<Rightarrow> string" where
  "file_line f =
     ''- '' @ fc_status f @ '' '' @ fc_display f
     @ (case fc_from f of None \<Rightarrow> '''' | Some x \<Rightarrow> '' (from '' @ x @ '')'')
     @ '', +'' @ show_nat (fc_added f) @ '' -'' @ show_nat (fc_removed f) @ newline"


definition file_patch :: "file_change \<Rightarrow> string" where
  "file_patch f = unified (fc_display f) (fc_status f \<noteq> ''added'') (fc_status f \<noteq> ''deleted'') (fc_hunks f)"

text \<open>
  \<open>String::truncate\<close> panics where the cut is not at the start of a character; \<open>None\<close> is that
  panic.
\<close>

definition str_truncate :: "string \<Rightarrow> nat \<Rightarrow> string option" where
  "str_truncate s n =
     (if length s \<le> n then Some s else if is_char_boundary s n then Some (take n s) else None)"

fun append_patches :: "string \<Rightarrow> file_change list \<Rightarrow> string option" where
  "append_patches out [] = Some out"
| "append_patches out (f # fs) =
     (let out = out @ newline
      in if fc_binary f \<or> fc_too_large f then
           append_patches (out @ fc_display f @ '': '' @ (if fc_binary f then ''binary'' else ''too large to diff'')
                              @ '' '' @ em_dash @ '' no patch shown.'' @ newline) fs
         else
           (let out = out @ file_patch f
            in if length out > TOOL_OUTPUT_CAP then
                 map_option (\<lambda>t. t @ newline @ ellipsis @ ''(more patches not shown; read the files you need)'')
                   (str_truncate out TOOL_OUTPUT_CAP)
               else append_patches out fs))"

definition render_for_model :: "changes_view \<Rightarrow> string option" where
  "render_for_model chs =
     (if cs_files chs = [] then Some ''You have not changed any files in this run.''
      else append_patches
             (show_nat (length (cs_files chs)) @ '' file'' @ (if length (cs_files chs) = 1 then '''' else ''s'')
              @ '' changed, +'' @ show_nat (cs_added chs) @ '' -'' @ show_nat (cs_removed chs) @ newline
              @ concat (map file_line (cs_files chs)))
             (cs_files chs))"

section \<open>Undoing a file puts back what was there\<close>

text \<open>What a row says was at its path before the operation.\<close>

definition kept_node :: "disk \<Rightarrow> trash_entry \<Rightarrow> node option" where
  "kept_node d e = (case te_blob e of None \<Rightarrow> None | Some b \<Rightarrow> dk_at d b)"

text \<open>
  Rows of operations on one file \<open>p\<close>, newest first, whose blobs are still there and apart from \<open>p\<close>.
\<close>

definition undoable :: "disk \<Rightarrow> path \<Rightarrow> trash_entry list \<Rightarrow> bool" where
  "undoable d p es \<longleftrightarrow> \<not> is_folder d p \<and> parent_there d p \<and> (\<forall>q. \<not> dk_denied d q)
     \<and> (\<forall>e \<in> set es. te_path e = p \<and> \<not> te_undone e \<and> te_op e \<noteq> ''move''
          \<and> (\<forall>b. te_blob e = Some b \<longrightarrow> b \<noteq> p \<and> is_file d b))"

definition restored :: "disk \<Rightarrow> path \<Rightarrow> trash_entry list \<Rightarrow> node option" where
  "restored d p es = (if es = [] then dk_at d p else kept_node d (last es))"

text \<open>Two disks that hold the same files at every path but \<open>p\<close>.\<close>

definition same_files_but :: "path \<Rightarrow> disk \<Rightarrow> disk \<Rightarrow> bool" where
  "same_files_but p d d' \<longleftrightarrow> (\<forall>q. q \<noteq> p \<longrightarrow> file_bytes d' q = file_bytes d q)"

lemma same_files_refl: "same_files_but p d d"
  by (simp add: same_files_but_def)

lemma same_files_trans: "same_files_but p a b \<Longrightarrow> same_files_but p b c \<Longrightarrow> same_files_but p a c"
  by (simp add: same_files_but_def)

lemma same_files_kept:
  "same_files_but p d d' \<Longrightarrow> q \<noteq> p \<Longrightarrow> is_file d q \<Longrightarrow> dk_at d' q = dk_at d q"
  unfolding same_files_but_def is_file_iff by (metis file_bytes_iff)

lemma make_parent_keeps:
  "file_bytes (make_parent d p) q = file_bytes d q"
  "dk_denied (make_parent d p) = dk_denied d"
  "parent_there d q \<Longrightarrow> parent_there (make_parent d p) q"
  by (auto simp: make_parent_def create_dir_keeps_files create_dir_denied split: option.splits
      intro: create_dir_keeps_parent)

lemma make_parent_not_folder:
  assumes "\<not> is_folder d p" shows "\<not> is_folder (make_parent d p) p"
proof (cases "path_parent p")
  case None
  then show ?thesis using assms by (simp add: make_parent_def)
next
  case (Some q)
  have "q \<noteq> p" "length q < length p" using path_parent_shorter[OF Some] by auto
  then have "\<not> below p q" by (auto simp: below_def)
  then have "dk_at a p = dk_at d p" if "fs_create_dir_all d q = Some a" for a
    using fs_create_dir_all_at(3)[OF that] by blast
  then show ?thesis using assms Some
    by (auto simp: make_parent_def or_same_def is_folder_def split: option.splits)
qed

lemma restore_blob:
  assumes "\<not> is_folder d p" "parent_there d p" "\<And>q. \<not> dk_denied d q" "dk_at d b = Some (FileNode t)"
  shows "\<exists>d'. fs_copy (make_parent d p) b p = Some d' \<and> dk_at d' p = Some (FileNode t)
     \<and> same_files_but p d d' \<and> parent_there d' p \<and> dk_denied d' = dk_denied d"
proof -
  let ?d = "make_parent d p"
  have b: "file_bytes ?d b = Some t" using assms(4) by (simp add: make_parent_keeps file_bytes_iff)
  have ok: "\<not> is_folder ?d p" "parent_there ?d p" "\<And>q. \<not> dk_denied ?d q"
    using assms(1-3) by (simp_all add: make_parent_not_folder make_parent_keeps)
  define d' where "d' = ?d\<lparr>dk_at := (dk_at ?d)(p \<mapsto> FileNode t)\<rparr>"
  have "fs_copy ?d b p = Some d'" using b ok by (simp add: fs_copy_def fs_write_def d'_def)
  moreover have "same_files_but p d d'"
    using make_parent_keeps(1)[of d p] by (simp add: same_files_but_def d'_def file_bytes_def)
  moreover have "parent_there d' p"
    using ok(2) path_parent_shorter[of p] by (auto simp: parent_there_def d'_def is_folder_def split: option.splits)
  moreover have "dk_denied d' = dk_denied d" by (simp add: d'_def make_parent_keeps)
  ultimately show ?thesis by (auto simp: d'_def)
qed

lemma remove_new:
  assumes "\<not> is_folder d p" "parent_there d p" "\<And>q. \<not> dk_denied d q" "path_exists d p"
  shows "\<exists>d'. fs_remove_file d p = Some d' \<and> dk_at d' p = None
     \<and> same_files_but p d d' \<and> parent_there d' p \<and> dk_denied d' = dk_denied d"
proof -
  obtain t where "dk_at d p = Some (FileNode t)"
    using assms(1,4) by (auto simp: path_exists_def is_folder_def) (metis node.exhaust)
  then have f: "is_file d p" by (auto simp: is_file_iff)
  define d' where "d' = d\<lparr>dk_at := (dk_at d)(p := None)\<rparr>"
  have "fs_remove_file d p = Some d'" using f assms(3) by (simp add: fs_remove_file_def d'_def)
  moreover have "parent_there d' p"
    using assms(2) path_parent_shorter[of p] by (auto simp: parent_there_def d'_def is_folder_def split: option.splits)
  ultimately show ?thesis by (auto simp: d'_def same_files_but_def file_bytes_def)
qed

lemma undo_disk_step:
  assumes "undoable d p (e # es)"
  shows "\<exists>d'. undo_disk d e = (d', None) \<and> dk_at d' p = kept_node d e \<and> same_files_but p d d'
     \<and> parent_there d' p \<and> dk_denied d' = dk_denied d"
proof -
  have a: "\<not> is_folder d p" "parent_there d p" "\<And>q. \<not> dk_denied d q" "te_path e = p" "te_op e \<noteq> ''move''"
    and bl: "\<And>b. te_blob e = Some b \<Longrightarrow> is_file d b"
    using assms by (auto simp: undoable_def)
  show ?thesis
  proof (cases "te_blob e")
    case (Some b)
    then obtain t where t: "dk_at d b = Some (FileNode t)" using bl by (auto simp: is_file_iff)
    show ?thesis using restore_blob[OF a(1-3) t] a(4,5) Some t
      by (auto simp: undo_disk_def Let_def kept_node_def)
  next
    case None
    show ?thesis
    proof (cases "path_exists d p")
      case True
      then show ?thesis using remove_new[OF a(1-3) True] a(1,4,5) None
        by (auto simp: undo_disk_def Let_def kept_node_def)
    next
      case False
      then show ?thesis using a None
        by (auto simp: undo_disk_def Let_def kept_node_def same_files_refl path_exists_def)
    qed
  qed
qed


lemma undoable_after:
  assumes "undoable d p (e # es)" and "dk_at d' p = kept_node d e" and s: "same_files_but p d d'"
    and "parent_there d' p" and "dk_denied d' = dk_denied d"
  shows "undoable d' p es" and "restored d' p es = restored d p (e # es)"
proof -
  have bl: "b \<noteq> p \<and> is_file d b \<and> dk_at d' b = dk_at d b" if "x \<in> set (e # es)" "te_blob x = Some b" for x b
    using assms(1) that same_files_kept[OF s] unfolding undoable_def by blast
  have "\<not> is_folder d' p"
    using assms(2) bl[of e] by (auto simp: is_folder_def kept_node_def is_file_iff split: option.splits)
  moreover have "b \<noteq> p \<and> is_file d' b" if "x \<in> set es" "te_blob x = Some b" for x b
    using bl[of x b] that by (auto simp: is_file_def file_bytes_def)
  ultimately show "undoable d' p es"
    using assms(1,4,5) unfolding undoable_def by simp
  show "restored d' p es = restored d p (e # es)"
    using assms(2) bl[of "last es"] by (auto simp: restored_def kept_node_def split: option.splits)
qed

text \<open>The rows are in the table, each once.\<close>

definition in_table :: "trash_entry list \<Rightarrow> trash_entry list \<Rightarrow> bool" where
  "in_table tbl es \<longleftrightarrow> distinct (map te_id es) \<and> (\<forall>e \<in> set es. List.find (\<lambda>x. te_id x = te_id e) tbl = Some e)"

lemma find_marked:
  "List.find (\<lambda>x. te_id x = i) tbl = Some e \<Longrightarrow> i \<noteq> j \<Longrightarrow>
   List.find (\<lambda>x. te_id x = i) (map (\<lambda>x. if te_id x = j then x\<lparr>te_undone := True\<rparr> else x) tbl) = Some e"
  by (induction tbl) (auto split: if_splits)

lemma in_table_marked:
  assumes "in_table tbl (e # es)"
  shows "in_table (map (\<lambda>x. if te_id x = te_id e then x\<lparr>te_undone := True\<rparr> else x) tbl) es"
  unfolding in_table_def
proof (intro conjI ballI)
  show "distinct (map te_id es)" using conjunct1[OF assms[unfolded in_table_def]] by simp
  fix x assume x: "x \<in> set es"
  have "\<forall>e \<in> set (e # es). List.find (\<lambda>x. te_id x = te_id e) tbl = Some e"
    using assms unfolding in_table_def by (rule conjunct2)
  then have "List.find (\<lambda>y. te_id y = te_id x) tbl = Some x" using x by (meson bspec list.set_intros(2))
  moreover have "te_id x \<noteq> te_id e" using conjunct1[OF assms[unfolded in_table_def]] x by (metis distinct.simps(2) image_eqI list.set_map list.simps(9))
  ultimately
  show "List.find (\<lambda>y. te_id y = te_id x)
      (map (\<lambda>x. if te_id x = te_id e then x\<lparr>te_undone := True\<rparr> else x) tbl) = Some x"
    by (rule find_marked)
qed

lemma undo_ids_restores:
  assumes "undoable (fl_disk w) p es" and "in_table (fl_trash w) es"
    and "db_readable (fl_db w)" and "db_writable (fl_db w)"
  shows "\<exists>w'. undo_ids w (map te_id es) = (w', Inr ())
     \<and> dk_at (fl_disk w') p = restored (fl_disk w) p es \<and> same_files_but p (fl_disk w) (fl_disk w')"
  using assms
proof (induction es arbitrary: w)
  case Nil
  then show ?case by (simp add: restored_def same_files_refl)
next
  case (Cons e es)
  let ?d = "fl_disk w"
  obtain d' where d': "undo_disk ?d e = (d', None)" "dk_at d' p = kept_node ?d e"
    "same_files_but p ?d d'" "parent_there d' p" "dk_denied d' = dk_denied ?d"
    using undo_disk_step[OF Cons.prems(1)] by auto
  define w1 where "w1 = w\<lparr>fl_disk := d', fl_trash :=
    map (\<lambda>x. if te_id x = te_id e then x\<lparr>te_undone := True\<rparr> else x) (fl_trash w)\<rparr>"
  have u: "undo w e = (w1, Inr ())"
    using Cons.prems(1,4) d'(1) by (simp add: undo_def undoable_def mark_trash_undone_def w1_def)
  have g: "get_trash_entry w (te_id e) = Inr (Some e)"
    using Cons.prems(2,3) by (simp add: get_trash_entry_def in_table_def)
  have "undoable (fl_disk w1) p es" "restored (fl_disk w1) p es = restored ?d p (e # es)"
    using undoable_after[OF Cons.prems(1) d'(2-5)] by (simp_all add: w1_def)
  moreover have "in_table (fl_trash w1) es"
    using in_table_marked[OF Cons.prems(2)] by (simp add: w1_def)
  moreover have "db_readable (fl_db w1)" "db_writable (fl_db w1)" using Cons.prems(3,4) by (simp_all add: w1_def)
  ultimately obtain w' where w': "undo_ids w1 (map te_id es) = (w', Inr ())"
    "dk_at (fl_disk w') p = restored ?d p (e # es)" "same_files_but p (fl_disk w1) (fl_disk w')"
    using Cons.IH[of w1] by auto
  have "same_files_but p ?d (fl_disk w')"
    using d'(3) w'(3) same_files_trans by (simp add: w1_def)
  moreover have "\<not> te_undone e" using Cons.prems(1) by (simp add: undoable_def)
  ultimately show ?case using u g w'(1,2) by simp
qed

subsection \<open>The operations of a run on one file\<close>

fun op_path :: "file_op \<Rightarrow> path" where
  "op_path (OpWrite p _) = p" | "op_path (OpEdit p _) = p" | "op_path (OpCreateDir p) = p"
| "op_path (OpMove p _ _) = p" | "op_path (OpDelete p _) = p"

definition writes_file :: "path \<Rightarrow> file_op \<Rightarrow> bool" where
  "writes_file p op \<longleftrightarrow> (\<exists>c. op = OpWrite p c \<or> op = OpEdit p c) \<or> op = OpDelete p False"

text \<open>
  Operations in order, each with its stamp; the rows come newest first.  A stamp is fresh, as new
  uuids are.
\<close>

definition fresh_stamp :: "files \<Rightarrow> path \<Rightarrow> stamp \<Rightarrow> bool" where
  "fresh_stamp w data s \<longleftrightarrow> \<not> path_exists (fl_disk w) (trash_dir data @ [Normal (st_blob s)])
     \<and> st_id s \<notin> te_id ` set (fl_trash w)"

fun run_ops :: "files \<Rightarrow> path \<Rightarrow> string \<Rightarrow> (stamp \<times> file_op) list \<Rightarrow> trash_entry list \<Rightarrow> (files \<times> trash_entry list) option" where
  "run_ops w data conv [] es = Some (w, es)"
| "run_ops w data conv ((s, op) # ops) es =
     (if \<not> fresh_stamp w data s then None
      else case apply_op w s data conv op of
             (w', Inr (Some e)) \<Rightarrow> run_ops w' data conv ops (e # es)
           | _ \<Rightarrow> None)"

definition blob_path :: "path \<Rightarrow> stamp \<Rightarrow> path" where
  "blob_path data s = trash_dir data @ [Normal (st_blob s)]"

lemma record_trash_some:
  assumes "record_trash w s data conv op p None = (w', Some e)" and "\<not> is_folder (fl_disk w) p"
    and f: "\<not> path_exists (fl_disk w) (blob_path data s)" and pb: "blob_path data s \<noteq> p"
  shows "fl_trash w' = fl_trash w @ [e] \<and> fl_db w' = fl_db w
     \<and> te_path e = p \<and> \<not> te_undone e \<and> te_op e = op \<and> te_id e = st_id s" (is ?row)
    and "\<forall>b. te_blob e = Some b \<longrightarrow> b = blob_path data s \<and> is_file (fl_disk w') b" (is ?blob)
    and "kept_node (fl_disk w') e = dk_at (fl_disk w) p" (is ?kept)
    and "\<forall>q. q \<noteq> blob_path data s \<longrightarrow> file_bytes (fl_disk w') q = file_bytes (fl_disk w) q" (is ?files)
    and "dk_denied (fl_disk w') = dk_denied (fl_disk w)" (is ?denied)
    and "\<And>q. parent_there (fl_disk w) q \<Longrightarrow> parent_there (fl_disk w') q"
proof -
  have "?row \<and> ?blob \<and> ?kept \<and> ?files \<and> ?denied
    \<and> (\<forall>q. parent_there (fl_disk w) q \<longrightarrow> parent_there (fl_disk w') q)"
  proof (cases "is_file (fl_disk w) p")
    case False
    then have "dk_at (fl_disk w) p = None"
      using assms(2) by (metis is_file_iff is_folder_def node.exhaust option.exhaust)
    then show ?thesis using assms(1) False
      by (auto simp: record_trash_def add_trash_entry_def Let_def kept_node_def split: if_splits)
  next
    case True
    then obtain t where t: "dk_at (fl_disk w) p = Some (FileNode t)" by (auto simp: is_file_iff)
    obtain d where d: "fs_create_dir_all (fl_disk w) (trash_dir data) = Some d"
      using assms(1) True by (auto simp: record_trash_def split: option.splits)
    have or: "or_same (fl_disk w) (fs_create_dir_all (fl_disk w) (trash_dir data)) = d"
      by (simp add: d or_same_def)
    have keep: "file_bytes d q = file_bytes (fl_disk w) q" "dk_denied d = dk_denied (fl_disk w)"
      "parent_there (fl_disk w) q \<Longrightarrow> parent_there d q" for q
      using create_dir_keeps_files[of "fl_disk w" "trash_dir data" q]
        create_dir_denied[of "fl_disk w" "trash_dir data"]
        create_dir_keeps_parent[of "fl_disk w" q "trash_dir data"] by (simp_all add: or)
    obtain d' where d': "fs_copy d p (blob_path data s) = Some d'"
      using assms(1) True d by (auto simp: record_trash_def blob_path_def Let_def split: option.splits)
    have "file_bytes d p = Some t" using keep(1) t by (simp add: file_bytes_iff)
    then have at: "dk_at d' = (dk_at d)(blob_path data s \<mapsto> FileNode t)" "dk_denied d' = dk_denied d"
      using fs_copy_at[OF d'] by (auto simp: file_bytes_iff)
    have nf: "\<not> is_folder d (blob_path data s)" using d' by (auto simp: fs_copy_def fs_write_def split: if_splits option.splits)
    have par: "parent_there d' q" if "parent_there (fl_disk w) q" for q
      using keep(3)[OF that] nf by (auto simp: parent_there_def is_folder_def at split: option.splits)
    have "w' = w\<lparr>fl_disk := d', fl_trash := fl_trash w @ [e]\<rparr> \<and> te_path e = p \<and> \<not> te_undone e
      \<and> te_op e = op \<and> te_id e = st_id s \<and> te_blob e = Some (blob_path data s)"
      using assms(1) True d d'
      by (auto simp: record_trash_def add_trash_entry_def blob_path_def Let_def split: if_splits)
    then show ?thesis using at keep par t
      by (auto simp: kept_node_def file_bytes_def is_file_def)
  qed
  then show ?row ?blob ?kept ?files ?denied "\<And>q. parent_there (fl_disk w) q \<Longrightarrow> parent_there (fl_disk w') q"
    by blast+
qed


lemma not_below_blob: "\<not> below (trash_dir data) p \<Longrightarrow> blob_path data s \<noteq> p"
  by (auto simp: blob_path_def below_def)

lemma find_append_some: "List.find P xs = Some x \<Longrightarrow> List.find P (xs @ ys) = Some x"
  by (induction xs) auto

lemma find_append_new: "\<forall>x \<in> set xs. \<not> P x \<Longrightarrow> P y \<Longrightarrow> List.find P (xs @ [y]) = Some y"
  by (induction xs) auto

lemma in_table_new:
  assumes "in_table tbl es" and "te_id e \<notin> te_id ` set tbl"
  shows "in_table (tbl @ [e]) (e # es)"
proof -
  have f: "List.find (\<lambda>x. te_id x = te_id y) tbl = Some y" if "y \<in> set es" for y
    using conjunct2[OF assms(1)[unfolded in_table_def]] that by blast
  have n: "te_id y \<noteq> te_id e" if "y \<in> set es" for y
    using f[OF that] assms(2) unfolding find_Some_iff by (metis image_eqI nth_mem)
  have "List.find (\<lambda>x. te_id x = te_id e) (tbl @ [e]) = Some e"
    using assms(2) by (intro find_append_new) (metis imageI, simp)
  moreover have "distinct (map te_id (e # es))"
    using n conjunct1[OF assms(1)[unfolded in_table_def]] by (simp add: image_iff) metis
  moreover have "List.find (\<lambda>x. te_id x = te_id y) (tbl @ [e]) = Some y" if "y \<in> set es" for y
    using f[OF that] by (rule find_append_some)
  ultimately show ?thesis unfolding in_table_def by (metis set_ConsD)
qed

text \<open>All a recorded operation on \<open>p\<close> does, whichever tool it was.\<close>

definition op_goes_on :: "files \<Rightarrow> files \<Rightarrow> path \<Rightarrow> trash_entry list \<Rightarrow> trash_entry \<Rightarrow> bool" where
  "op_goes_on w w' p es e \<longleftrightarrow> undoable (fl_disk w') p (e # es)
     \<and> restored (fl_disk w') p (e # es) = restored (fl_disk w) p es
     \<and> in_table (fl_trash w') (e # es) \<and> fl_db w' = fl_db w
     \<and> (\<forall>q. q \<noteq> p \<longrightarrow> is_file (fl_disk w) q \<longrightarrow> file_bytes (fl_disk w') q = file_bytes (fl_disk w) q)"

lemma recorded_op_goes_on:
  assumes u: "undoable (fl_disk w) p es" and t: "in_table (fl_trash w) es"
    and fr: "fresh_stamp w data s" and nb: "\<not> below (trash_dir data) p" and op: "op \<noteq> ''move''"
    and rc: "record_trash w s data conv op p None = (w1, Some e)"
    and d': "\<And>q. q \<noteq> p \<Longrightarrow> dk_at d' q = dk_at (fl_disk w1) q" "\<not> is_folder d' p"
      "dk_denied d' = dk_denied (fl_disk w1)"
  shows "op_goes_on w (w1\<lparr>fl_disk := d'\<rparr>) p es e"
proof -
  let ?b = "blob_path data s" let ?d = "fl_disk w"
  have nf: "\<not> is_folder ?d p" using u by (simp add: undoable_def)
  have fb: "\<not> path_exists ?d ?b" using fr by (simp add: fresh_stamp_def blob_path_def)
  note r = record_trash_some[OF rc nf fb not_below_blob[OF nb]]
  have files: "dk_at d' q = dk_at ?d q" if "q \<noteq> p" "is_file ?d q" for q
  proof -
    have "q \<noteq> ?b" using that(2) fb by (auto simp: is_file_iff path_exists_def)
    then have "file_bytes (fl_disk w1) q = file_bytes ?d q" using r(4) by blast
    then show ?thesis using that d'(1) by (metis file_bytes_iff is_file_iff)
  qed
  have oldb: "b \<noteq> p \<and> is_file d' b \<and> dk_at d' b = dk_at ?d b" if "x \<in> set es" "te_blob x = Some b" for x b
  proof -
    have "b \<noteq> p" "is_file ?d b" using u that unfolding undoable_def by blast+
    then show ?thesis using files by (auto simp: is_file_def file_bytes_def)
  qed
  have newb: "b \<noteq> p \<and> is_file d' b \<and> dk_at d' b = dk_at (fl_disk w1) b" if "te_blob e = Some b" for b
    using r(2) that not_below_blob[OF nb] d'(1) by (auto simp: is_file_def file_bytes_def)
  have "parent_there (fl_disk w1) p" using r(6) u by (simp add: undoable_def)
  moreover have "dk_at d' q = dk_at (fl_disk w1) q" if "length q < length p" for q
    using d'(1) that by (metis less_irrefl)
  ultimately have par: "parent_there d' p" using parent_there_cong[of p d' "fl_disk w1"] by blast
  have "te_path x = p \<and> \<not> te_undone x \<and> te_op x \<noteq> ''move'' \<and> (\<forall>b. te_blob x = Some b \<longrightarrow> b \<noteq> p \<and> is_file d' b)"
    if "x \<in> set (e # es)" for x
  proof (cases "x = e")
    case True
    then show ?thesis using r(1) op newb by blast
  next
    case False
    then have x: "x \<in> set es" using that by simp
    have "te_path x = p \<and> \<not> te_undone x \<and> te_op x \<noteq> ''move''" using u x unfolding undoable_def by blast
    moreover have "b \<noteq> p \<and> is_file d' b" if "te_blob x = Some b" for b using oldb[OF x that] by simp
    ultimately show ?thesis by simp
  qed
  moreover have "\<forall>q. \<not> dk_denied d' q" using u r(5) d'(3) by (simp add: undoable_def)
  ultimately have "undoable d' p (e # es)" unfolding undoable_def using d'(2) par by blast
  moreover have "restored d' p (e # es) = restored ?d p es"
  proof (cases "es = []")
    case True
    have "kept_node d' e = kept_node (fl_disk w1) e"
      using newb by (auto simp: kept_node_def split: option.splits)
    then show ?thesis using True r(3) by (simp add: restored_def)
  next
    case False
    have "kept_node d' (last es) = kept_node ?d (last es)"
      using oldb[OF last_in_set[OF False]] by (auto simp: kept_node_def split: option.splits)
    then show ?thesis using False by (simp add: restored_def)
  qed
  moreover have "in_table (fl_trash w1) (e # es)"
    using r(1) in_table_new[OF t] fr by (simp add: fresh_stamp_def)
  moreover have "fl_db w1 = fl_db w" using r(1) by simp
  ultimately show ?thesis using files by (simp add: op_goes_on_def file_bytes_def)
qed


lemma apply_op_goes_on:
  assumes u: "undoable (fl_disk w) p es" and t: "in_table (fl_trash w) es"
    and fr: "fresh_stamp w data s" and nb: "\<not> below (trash_dir data) p"
    and op: "writes_file p op" and ap: "apply_op w s data conv op = (w', Inr (Some e))"
  shows "op_goes_on w w' p es e"
proof -
  have nf: "\<not> is_folder (fl_disk w) p" using u by (simp add: undoable_def)
  note goes = recorded_op_goes_on[OF u t fr nb]
  from op consider (wr) c where "op = OpWrite p c" | (ed) c where "op = OpEdit p c" | (del) "op = OpDelete p False"
    by (auto simp: writes_file_def)
  then show ?thesis
  proof cases
    case ed
    then obtain w1 d' where "record_trash w s data conv ''edit'' p None = (w1, Some e)"
      "fs_write (fl_disk w1) p c = Some d'" "w' = w1\<lparr>fl_disk := d'\<rparr>"
      using ap by (auto simp: put_disk_def split: prod.splits option.splits)
    then show ?thesis using goes[of "''edit''" conv w1 e d'] fs_write_at[of "fl_disk w1" p c d']
      by (simp add: is_folder_def)
  next
    case del
    obtain w1 x where rc: "record_trash w s data conv ''delete'' p None = (w1, x)" by fastforce
    have "is_folder (fl_disk w1) p = False"
      using ap del rc by (auto split: if_splits)
    then obtain d' where "x = Some e" "fs_remove_file (fl_disk w1) p = Some d'" "w' = w1\<lparr>fl_disk := d'\<rparr>"
      using ap del rc by (auto simp: put_disk_def split: option.splits)
    then show ?thesis using goes[of "''delete''" conv w1 e d'] rc fs_remove_file_at[of "fl_disk w1" p d']
      by (simp add: is_folder_def)
  next
    case wr
    define d where "d = (case path_parent p of None \<Rightarrow> fl_disk w | Some q \<Rightarrow> or_same (fl_disk w) (fs_create_dir_all (fl_disk w) q))"
    have d: "d = make_parent (fl_disk w) p" by (simp add: d_def make_parent_def)
    let ?w = "w\<lparr>fl_disk := d\<rparr>"
    obtain w1 d' where rc: "record_trash ?w s data conv ''write'' p None = (w1, Some e)"
      "fs_write (fl_disk w1) p c = Some d'" "w' = w1\<lparr>fl_disk := d'\<rparr>"
      using ap wr
      by (auto simp: put_disk_def d_def or_same_def split: prod.splits option.splits)
    have k: "file_bytes d q = file_bytes (fl_disk w) q" for q by (simp add: d make_parent_keeps)
    have f: "is_file d q = is_file (fl_disk w) q" for q by (simp add: is_file_def k)
    have at: "dk_at d p = dk_at (fl_disk w) p"
      using k[of p] nf make_parent_not_folder[OF nf, folded d]
      by (auto simp: file_bytes_def is_folder_def split: option.splits node.splits)
    have kn: "kept_node d x = kept_node (fl_disk w) x" if "x \<in> set es" for x
    proof (cases "te_blob x")
      case (Some b)
      then have "is_file (fl_disk w) b" using u that unfolding undoable_def by blast
      then show ?thesis using k[of b] Some by (auto simp: kept_node_def is_file_iff file_bytes_iff file_bytes_def split: option.splits node.splits)
    qed (simp add: kept_node_def)
    have u': "undoable (fl_disk ?w) p es"
      using u make_parent_keeps(2,3) make_parent_not_folder[OF nf]
      by (auto simp: undoable_def f simp flip: d) (auto simp: d)
    have "\<not> path_exists d (blob_path data s)"
    proof
      assume e: "path_exists d (blob_path data s)"
      have "\<not> path_exists (fl_disk w) (blob_path data s)" using fr by (simp add: fresh_stamp_def blob_path_def)
      then have "dk_at d (blob_path data s) \<noteq> dk_at (fl_disk w) (blob_path data s)"
        using e by (auto simp: path_exists_def)
      then obtain q a where q: "path_parent p = Some q" "fs_create_dir_all (fl_disk w) q = Some a"
        "dk_at a (blob_path data s) \<noteq> dk_at (fl_disk w) (blob_path data s)"
        by (auto simp: d_def or_same_def split: option.splits)
      have "below (blob_path data s) q" using fs_create_dir_all_at(3)[OF q(2,3)] by simp
      then have "below (trash_dir data) p"
        using path_parent_butlast[OF q(1)]
        by (auto simp: below_prefix blob_path_def prefix_def) (metis append_Cons append_assoc append_butlast_last_id append_self_conv2)
      then show False using nb by simp
    qed
    then have fr': "fresh_stamp ?w data s" using fr by (simp add: fresh_stamp_def blob_path_def)
    have "op_goes_on ?w (w1\<lparr>fl_disk := d'\<rparr>) p es e"
      using recorded_op_goes_on[OF u' _ fr' nb _ rc(1), of d'] t fs_write_at[OF rc(2)] by (simp add: is_folder_def)
    moreover have "restored d p es = restored (fl_disk w) p es"
      using at kn[of "last es"] by (simp add: restored_def)
    ultimately show ?thesis using rc(3) by (simp add: op_goes_on_def f k)
  qed
qed


lemma run_ops_goes_on:
  "run_ops w data conv ops es = Some (w', es') \<Longrightarrow> undoable (fl_disk w) p es \<Longrightarrow> in_table (fl_trash w) es \<Longrightarrow>
   \<not> below (trash_dir data) p \<Longrightarrow> \<forall>x \<in> set ops. writes_file p (snd x) \<Longrightarrow>
     undoable (fl_disk w') p es' \<and> in_table (fl_trash w') es' \<and> fl_db w' = fl_db w
     \<and> restored (fl_disk w') p es' = restored (fl_disk w) p es
     \<and> (\<forall>q. q \<noteq> p \<longrightarrow> is_file (fl_disk w) q \<longrightarrow> file_bytes (fl_disk w') q = file_bytes (fl_disk w) q)"
proof (induction ops arbitrary: w es)
  case (Cons x ops)
  obtain s op where x: "x = (s, op)" by fastforce
  obtain w1 e where st: "fresh_stamp w data s" "apply_op w s data conv op = (w1, Inr (Some e))"
    "run_ops w1 data conv ops (e # es) = Some (w', es')"
    using Cons.prems(1) by (auto simp: x split: if_splits prod.splits sum.splits option.splits)
  have "op_goes_on w w1 p es e"
    using Cons.prems(2-5) st x by (intro apply_op_goes_on) auto
  then have g: "undoable (fl_disk w1) p (e # es)" "in_table (fl_trash w1) (e # es)" "fl_db w1 = fl_db w"
    "restored (fl_disk w1) p (e # es) = restored (fl_disk w) p es"
    "\<And>q. q \<noteq> p \<Longrightarrow> is_file (fl_disk w) q \<Longrightarrow> file_bytes (fl_disk w1) q = file_bytes (fl_disk w) q"
    by (auto simp: op_goes_on_def)
  have "is_file (fl_disk w1) q" if "q \<noteq> p" "is_file (fl_disk w) q" for q
    using g(5)[OF that] that(2) by (simp add: is_file_def)
  then show ?case using Cons.IH[OF st(3) g(1,2)] Cons.prems(4,5) g(3-5) by simp
qed simp

text \<open>C21: Undo puts a file back: after any writes, edits and deletions the agent made to one file,
  undoing the recorded operations newest first succeeds and leaves at that path exactly what was
  there before the first of them (the same bytes, or nothing), and every other file that was on the
  disk then has the bytes it had.\<close>
theorem undo_puts_the_file_back:
  assumes "run_ops w data conv ops [] = Some (w', es)" and "\<forall>x \<in> set ops. writes_file p (snd x)"
    and "\<not> is_folder (fl_disk w) p" and "parent_there (fl_disk w) p" and "\<not> below (trash_dir data) p"
    and "\<forall>q. \<not> dk_denied (fl_disk w) q" and "db_readable (fl_db w)" and "db_writable (fl_db w)"
  shows "\<exists>w''. undo_ids w' (map te_id es) = (w'', Inr ())
     \<and> dk_at (fl_disk w'') p = dk_at (fl_disk w) p
     \<and> (\<forall>q. q \<noteq> p \<longrightarrow> is_file (fl_disk w) q \<longrightarrow> file_bytes (fl_disk w'') q = file_bytes (fl_disk w) q)"
proof -
  have "undoable (fl_disk w) p []" "in_table (fl_trash w) []"
    using assms(3,4,6) by (simp_all add: undoable_def in_table_def)
  note g = run_ops_goes_on[OF assms(1) this assms(5,2)]
  obtain w'' where w'': "undo_ids w' (map te_id es) = (w'', Inr ())"
    "dk_at (fl_disk w'') p = restored (fl_disk w') p es" "same_files_but p (fl_disk w') (fl_disk w'')"
    using undo_ids_restores[of w' p es] g assms(7,8) by auto
  have "restored (fl_disk w') p es = dk_at (fl_disk w) p" using g by (simp add: restored_def)
  then show ?thesis using w'' g by (auto simp: same_files_but_def)
qed

subsection \<open>A move is undone by moving back\<close>

lemma file_not_folder: "is_file d p \<Longrightarrow> \<not> is_folder d p"
  by (auto simp: is_file_iff is_folder_def)

lemma file_bytes_absent: "\<not> path_exists d p \<Longrightarrow> file_bytes d p = None"
  by (simp add: path_exists_def file_bytes_def)

text \<open>Moving a file to a free place.\<close>

lemma fs_rename_file:
  assumes "is_file d p" "\<not> is_folder d q" "parent_there d q" "\<And>x. \<not> dk_denied d x" "p \<noteq> q"
  shows "fs_rename d p q = Some (d\<lparr>dk_at := (\<lambda>x. if x = q then dk_at d p else if x = p then None else dk_at d x)\<rparr>)"
proof -
  have "path_exists d p" "\<not> is_folder d p" using assms(1) by (auto simp: path_exists_def is_file_iff is_folder_def)
  then have "(if is_folder d p \<and> below q x then dk_at d (p @ drop (length q) x)
      else if x = q then dk_at d p else if x = p \<or> is_folder d p \<and> below p x then None else dk_at d x)
      = (if x = q then dk_at d p else if x = p then None else dk_at d x)" for x
    by simp
  then show ?thesis using assms(2-5) \<open>path_exists d p\<close> \<open>\<not> is_folder d p\<close> by (simp add: fs_rename_def)
qed

text \<open>A file the agent moved to a free place goes back when the move is undone: the file is where
  it was, the new place is free again, and every file of the disk has the bytes it had.\<close>
theorem undo_moves_back:
  assumes "apply_op w s data conv (OpMove p q overwrite) = (w', Inr (Some e))"
    and "is_file (fl_disk w) p" and "\<not> path_exists (fl_disk w) q" and "parent_there (fl_disk w) p"
    and "\<forall>x. \<not> dk_denied (fl_disk w) x" and "db_writable (fl_db w)"
  shows "\<exists>w''. undo w' e = (w'', Inr ()) \<and> is_file (fl_disk w'') p \<and> \<not> is_file (fl_disk w'') q
     \<and> (\<forall>x. file_bytes (fl_disk w'') x = file_bytes (fl_disk w) x)"
proof -
  define d where "d = make_parent (fl_disk w) q"
  have kf: "file_bytes d x = file_bytes (fl_disk w) x" for x by (simp add: d_def make_parent_keeps)
  have pq: "p \<noteq> q" using assms(2,3) by (auto simp: path_exists_def is_file_iff)
  have nq: "\<not> is_file d q" "\<not> is_folder d q"
    using assms(3) kf[of q] make_parent_not_folder[of "fl_disk w" q]
    by (auto simp: d_def is_file_def file_bytes_absent is_folder_def path_exists_def)
  have fp: "is_file d p" using assms(2) kf by (simp add: is_file_def)
  have nd: "\<not> dk_denied d x" for x using assms(5) by (simp add: d_def make_parent_keeps)
  define e0 where "e0 = \<lparr>te_id = st_id s, te_conversation = conv, te_op = ''move'', te_path = q, te_prev = Some p,
    te_blob = None, te_created_at = st_now s, te_undone = False\<rparr>"
  have rc: "record_trash (w\<lparr>fl_disk := d\<rparr>) s data conv ''move'' q (Some p)
      = (w\<lparr>fl_disk := d, fl_trash := fl_trash w @ [e0]\<rparr>, Some e0)"
    using nq(1) assms(6) by (simp add: record_trash_def add_trash_entry_def e0_def Let_def)
  have ap: "apply_op w s data conv (OpMove p q overwrite)
      = put_disk (w\<lparr>fl_disk := d, fl_trash := fl_trash w @ [e0]\<rparr>) (Some e0) MoveFailed (fs_rename d p q)"
    using assms(3) rc by (simp add: d_def)
  have res: "put_disk (w\<lparr>fl_disk := d, fl_trash := fl_trash w @ [e0]\<rparr>) (Some e0) MoveFailed (fs_rename d p q)
      = (w', Inr (Some e))"
    using assms(1) unfolding ap .
  then have "fs_rename d p q \<noteq> None" by (auto simp: put_disk_def split: option.splits)
  then obtain d2 where d2: "fs_rename d p q = Some d2" by blast
  have w': "w' = w\<lparr>fl_disk := d2, fl_trash := fl_trash w @ [e0]\<rparr>" and e: "e = e0"
    using res unfolding d2 by (auto simp: put_disk_def)
  have "parent_there d q" using d2 by (auto simp: fs_rename_def split: if_splits)
  note d2_is = fs_rename_file[OF fp nq(2) this nd pq]
  have at2: "dk_at d2 = (\<lambda>x. if x = q then dk_at d p else if x = p then None else dk_at d x)"
    "dk_denied d2 = dk_denied d" using d2 d2_is by auto
  have par: "parent_there d p" using assms(4) by (simp add: d_def make_parent_keeps)
  have nop: "dk_at d r \<noteq> Some DirNode \<or> r \<noteq> p \<and> r \<noteq> q" for r
    using nq fp by (auto simp: is_file_iff is_folder_def)
  have par2: "parent_there d2 p"
    using par nop by (auto simp: parent_there_def is_folder_def at2 split: option.splits)
  define d3 where "d3 = make_parent d2 p"
  have k3: "file_bytes d3 x = file_bytes d2 x" for x by (simp add: d3_def make_parent_keeps)
  have "\<not> is_folder d2 p" using pq by (simp add: is_folder_def at2)
  then have n3: "\<not> is_folder d3 p" by (simp add: d3_def make_parent_not_folder)
  have q3: "is_file d3 q" using fp pq by (simp add: is_file_def k3) (simp add: file_bytes_def at2)
  have "\<not> dk_denied d3 x" for x using nd by (simp add: d3_def make_parent_keeps at2)
  note again = fs_rename_file[OF q3 n3 _ this, simplified]
  define d4 where "d4 = d3\<lparr>dk_at := (\<lambda>x. if x = p then dk_at d3 q else if x = q then None else dk_at d3 x)\<rparr>"
  have "fs_rename d3 q p = Some d4"
    using again par2 pq make_parent_keeps(3)[of d2 p p] by (simp add: d4_def d3_def)
  then have u: "undo w' e = (w'\<lparr>fl_disk := d4, fl_trash :=
      map (\<lambda>x. if te_id x = te_id e then x\<lparr>te_undone := True\<rparr> else x) (fl_trash w')\<rparr>, Inr ())"
    using assms(6) by (simp add: undo_def undo_disk_def w' e e0_def Let_def d3_def mark_trash_undone_def)
  have "file_bytes d4 x = file_bytes (fl_disk w) x" for x
  proof -
    have "file_bytes d3 q = file_bytes d p" using k3[of q] by (simp add: file_bytes_def at2)
    moreover have "file_bytes d3 x = file_bytes d x" if "x \<noteq> p" "x \<noteq> q" for x
      using k3[of x] that by (simp add: file_bytes_def at2)
    moreover have "file_bytes d q = None" using nq(1) by (simp add: is_file_def)
    ultimately have "file_bytes d4 x = file_bytes d x"
      by (cases "x = p"; cases "x = q") (simp_all add: d4_def file_bytes_def)
    then show ?thesis using kf by simp
  qed
  then show ?thesis using u assms(2,3) by (auto simp: is_file_def file_bytes_absent)
qed

end
