(* ===== verification/Undo_Limits.thy ===== *)
theory Undo_Limits imports Changes begin

text \<open>
  Concrete histories of the undo trash: the witnesses of its properties, and the histories in which
  undoing does not put back what was there.
\<close>

section \<open>A concrete disk\<close>

definition work :: path where "work = [RootDir, Normal ''w'']"
definition app_data :: path where "app_data = [RootDir, Normal ''data'']"
definition in_work :: "string \<Rightarrow> path" where "in_work n = work @ [Normal n]"

definition work_disk :: "(string \<times> string) list \<Rightarrow> disk" where
  "work_disk fs = \<lparr>dk_at = (\<lambda>q. if q = [RootDir] \<or> q = work \<or> q = app_data then Some DirNode
       else map_of (map (\<lambda>(n, b). (in_work n, FileNode b)) fs) q), dk_denied = (\<lambda>_. False)\<rparr>"

definition work_files :: "(string \<times> string) list \<Rightarrow> files" where
  "work_files fs = \<lparr>fl_disk = work_disk fs, fl_db = empty_db, fl_trash = []\<rparr>"

definition stamp_no :: "string \<Rightarrow> int \<Rightarrow> stamp" where
  "stamp_no i t = \<lparr>st_blob = ''b'' @ i, st_id = i, st_now = t\<rparr>"

lemmas disk_simps = work_def app_data_def in_work_def work_disk_def work_files_def stamp_no_def
  trash_dir_def path_parent_def parent_there_def make_parent_def below_def is_file_def is_folder_def
  file_bytes_def path_exists_def or_same_def fs_write_def fs_copy_def fs_remove_file_def
  fs_remove_dir_all_def fs_create_dir_all_def fs_rename_def record_trash_def add_trash_entry_def
  put_disk_def fresh_stamp_def undo_def undo_disk_def mark_trash_undone_def get_trash_entry_def
  empty_db_def Let_def

definition sample_ops :: "(stamp \<times> file_op) list" where
  "sample_ops = [(stamp_no ''1'' 10, OpEdit (in_work ''a'') ''two''), (stamp_no ''2'' 20, OpDelete (in_work ''a'') False),
     (stamp_no ''3'' 30, OpWrite (in_work ''a'') ''three'')]"

lemma sample_ops_run:
  "\<exists>w es. run_ops (work_files [(''a'', ''one''), (''b'', ''other'')]) app_data ''c'' sample_ops [] = Some (w, es)
     \<and> map te_id es = [''3'', ''2'', ''1''] \<and> dk_at (fl_disk w) (in_work ''a'') = Some (FileNode ''three'')"
  by (simp add: sample_ops_def disk_simps)


lemma undo_puts_the_file_back_witness:
  "\<exists>w' w'' es. run_ops (work_files [(''a'', ''one''), (''b'', ''other'')]) app_data ''c'' sample_ops [] = Some (w', es)
     \<and> undo_ids w' (map te_id es) = (w'', Inr ())
     \<and> dk_at (fl_disk w'') (in_work ''a'') = Some (FileNode ''one'')"
proof -
  let ?w = "work_files [(''a'', ''one''), (''b'', ''other'')]"
  obtain w' es where r: "run_ops ?w app_data ''c'' sample_ops [] = Some (w', es)"
    using sample_ops_run by blast
  have "\<forall>x \<in> set sample_ops. writes_file (in_work ''a'') (snd x)"
    by (simp add: sample_ops_def writes_file_def)
  moreover have "\<not> is_folder (fl_disk ?w) (in_work ''a'')" "parent_there (fl_disk ?w) (in_work ''a'')"
    "\<not> below (trash_dir app_data) (in_work ''a'')" "\<forall>q. \<not> dk_denied (fl_disk ?w) q"
    "db_readable (fl_db ?w)" "db_writable (fl_db ?w)"
    "dk_at (fl_disk ?w) (in_work ''a'') = Some (FileNode ''one'')"
    by (simp_all add: disk_simps)
  ultimately show ?thesis using undo_puts_the_file_back[OF r, of "in_work ''a''"] r by metis
qed

section \<open>Where undo does not put back what was there\<close>

text \<open>
  The agent moves \<open>a\<close> to \<open>b\<close>, writes a new \<open>a\<close> and edits \<open>b\<close>.  The files are undone one after the
  other, \<open>b\<close> first because it changed last: its move is undone onto the new \<open>a\<close>, and undoing the
  creation of \<open>a\<close> then removes the file that was there in the beginning.
\<close>

definition split_ops :: "(stamp \<times> file_op) list" where
  "split_ops = [(stamp_no ''1'' 10, OpMove (in_work ''a'') (in_work ''b'') False),
     (stamp_no ''2'' 20, OpWrite (in_work ''a'') ''new''), (stamp_no ''3'' 30, OpEdit (in_work ''b'') ''rest'')]"

definition no_os :: os where
  "no_os = \<lparr>canon = (\<lambda>_. None), is_dir = (\<lambda>_. False), env_var = (\<lambda>_. None), path_text = (\<lambda>_. ''p''),
     path_of = (\<lambda>_. []), to_lowercase = id, main_separator = ''/''\<rparr>"

lemma change_of_some:
  assumes "\<not> is_folder d p"
    and "status_of (moved_from (group_of p es)) (te_blob (hd (group_of p es)) \<noteq> None \<or> te_op (hd (group_of p es)) = ''move'')
           (is_file d p) \<in> {''moved'', ''added''}" and "is_file d p"
  obtains c where "change_of sys utf8 d folder es p = Some c" "fc_path c = p"
    "fc_entry_ids c = rev (map te_id (group_of p es))" "fc_last_at c = te_created_at (last (group_of p es))"
proof -
  have "\<exists>c. change_of sys utf8 d folder es p = Some c \<and> fc_path c = p
     \<and> fc_entry_ids c = rev (map te_id (group_of p es)) \<and> fc_last_at c = te_created_at (last (group_of p es))"
    using assms unfolding change_of_def Let_def by (auto split: sum.splits prod.splits option.splits)
  then show thesis using that by blast
qed

definition split_world :: files where
  "split_world = fst (the (run_ops (work_files [(''a'', ''one'')]) app_data ''c'' split_ops []))"

lemma split_world_parts:
  "run_ops (work_files [(''a'', ''one'')]) app_data ''c'' split_ops [] = Some (split_world, rev (fl_trash split_world))"
  "fl_db split_world = empty_db" "dk_denied (fl_disk split_world) = (\<lambda>_. False)"
  "fl_trash split_world =
     [\<lparr>te_id = ''1'', te_conversation = ''c'', te_op = ''move'', te_path = in_work ''b'', te_prev = Some (in_work ''a''),
       te_blob = None, te_created_at = 10, te_undone = False\<rparr>,
      \<lparr>te_id = ''2'', te_conversation = ''c'', te_op = ''write'', te_path = in_work ''a'', te_prev = None,
       te_blob = None, te_created_at = 20, te_undone = False\<rparr>,
      \<lparr>te_id = ''3'', te_conversation = ''c'', te_op = ''edit'', te_path = in_work ''b'', te_prev = None,
       te_blob = Some (trash_dir app_data @ [Normal ''b3'']), te_created_at = 30, te_undone = False\<rparr>]"
  "dk_at (fl_disk split_world) [RootDir] = Some DirNode" "dk_at (fl_disk split_world) work = Some DirNode"
  "dk_at (fl_disk split_world) (in_work ''a'') = Some (FileNode ''new'')"
  "dk_at (fl_disk split_world) (in_work ''b'') = Some (FileNode ''rest'')"
  "dk_at (fl_disk split_world) (trash_dir app_data @ [Normal ''b3'']) = Some (FileNode ''one'')"
  by (simp_all add: split_world_def split_ops_def disk_simps)

theorem undo_loses_a_split_file:
  "\<exists>w es w'. run_ops (work_files [(''a'', ''one'')]) app_data ''c'' split_ops [] = Some (w, es)
     \<and> undo_changes_cmd no_os (\<lambda>_. True) (\<lambda>_. None) w ''c'' None = (w', Inr ())
     \<and> dk_at (fl_disk w') (in_work ''a'') = None \<and> dk_at (fl_disk w') (in_work ''b'') = None
     \<and> list_all te_undone (fl_trash w')"
proof -
  let ?w = split_world and ?d = "fl_disk split_world" and ?es = "fl_trash split_world"
  let ?c = "change_of no_os (\<lambda>_. True) ?d None ?es"
  have ab: "in_work ''a'' \<noteq> in_work ''b''" by (simp add: in_work_def)
  have b: "group_of (in_work ''b'') ?es = [?es ! 0, ?es ! 2]" and a: "group_of (in_work ''a'') ?es = [?es ! 1]"
    by (simp_all add: group_of_def split_world_parts(4) in_work_def)
  have here: "\<not> is_folder ?d (in_work n) \<and> is_file ?d (in_work n)" if "n \<in> {''a'', ''b''}" for n
    using that split_world_parts(7,8) by (auto simp: is_folder_def is_file_iff)
  obtain cb where cb: "?c (in_work ''b'') = Some cb" "fc_path cb = in_work ''b''"
      "fc_entry_ids cb = [''3'', ''1'']" "fc_last_at cb = 30"
    using change_of_some[of ?d "in_work ''b''" ?es no_os "\<lambda>_. True" None] here[of "''b''"] b
    by (simp add: split_world_parts(4) status_of_def moved_from_def) blast
  obtain ca where ca: "?c (in_work ''a'') = Some ca" "fc_path ca = in_work ''a''"
      "fc_entry_ids ca = [''2'']" "fc_last_at ca = 20"
    using change_of_some[of ?d "in_work ''a''" ?es no_os "\<lambda>_. True" None] here[of "''a''"] a
    by (simp add: split_world_parts(4) status_of_def moved_from_def) blast
  have live: "live_entries ?w ''c'' 0 = ?es" "view_since (\<lambda>_. None) (fl_db ?w) ''c'' = 0"
    "fst (conversation_folder (fl_db ?w) ''c'') = None" "paths_in_order ?es = [in_work ''b'', in_work ''a'']"
    using ab by (simp_all add: live_entries_def trash_since_def split_world_parts(2,4) empty_db_def view_since_def
        get_setting_def conversation_folder_def paths_in_order_def)
  have set: "newest_first (filter (\<lambda>_. True) (cs_files (change_set no_os (\<lambda>_. True) ?w None ''c'' 0))) = [cb, ca]"
    by (simp add: change_set_def live Let_def List.map_filter_def ca(1) cb(1) newest_first_def ca(4) cb(4))
  have "\<exists>w'. undo_changes_cmd no_os (\<lambda>_. True) (\<lambda>_. None) ?w ''c'' None = (w', Inr ())
      \<and> dk_at (fl_disk w') (in_work ''a'') = None \<and> dk_at (fl_disk w') (in_work ''b'') = None
      \<and> list_all te_undone (fl_trash w')"
    unfolding undo_changes_cmd_def live(2) Let_def option.case set
    by (simp add: undo_file_def ca cb get_trash_entry_def Let_def
        split_world_parts(2-)[unfolded in_work_def work_def trash_dir_def app_data_def append.simps] undo_def undo_disk_def mark_trash_undone_def
        make_parent_def path_parent_def fs_create_dir_all_def is_file_def file_bytes_def is_folder_def
        fs_copy_def fs_write_def fs_rename_def fs_remove_file_def path_exists_def parent_there_def below_def
        or_same_def or_unchanged_def log_activity_def empty_db_def in_work_def work_def trash_dir_def app_data_def)
  then show ?thesis using split_world_parts(1) by blast
qed

text \<open>A folder that was there before \<open>create_dir\<close> is removed with all it holds.\<close>

theorem undo_removes_an_existing_folder:
  "\<exists>w e w'. apply_op (work_files [(''a'', ''one'')]) (stamp_no ''1'' 10) app_data ''c'' (OpCreateDir work) = (w, Inr (Some e))
     \<and> undo w e = (w', Inr ()) \<and> dk_at (fl_disk w') (in_work ''a'') = None"
  by (simp add: disk_simps)

text \<open>The file a move replaced does not come back, and neither does a deleted folder.\<close>

theorem undo_forgets_the_replaced_file:
  "\<exists>w e w'. apply_op (work_files [(''a'', ''one''), (''b'', ''two'')]) (stamp_no ''1'' 10) app_data ''c''
       (OpMove (in_work ''a'') (in_work ''b'') True) = (w, Inr (Some e))
     \<and> undo w e = (w', Inr ()) \<and> dk_at (fl_disk w') (in_work ''b'') = None"
  by (simp add: disk_simps)

theorem undo_of_a_deleted_folder_says_done:
  "\<exists>w e w'. apply_op (work_files [(''a'', ''one'')]) (stamp_no ''1'' 10) app_data ''c'' (OpDelete work True) = (w, Inr (Some e))
     \<and> undo w e = (w', Inr ()) \<and> dk_at (fl_disk w') work = None"
  by (simp add: disk_simps)

lemma undo_moves_back_witness:
  "\<exists>w' w'' e. apply_op (work_files [(''a'', ''one'')]) (stamp_no ''1'' 10) app_data ''c''
       (OpMove (in_work ''a'') (in_work ''b'') False) = (w', Inr (Some e))
     \<and> undo w' e = (w'', Inr ()) \<and> is_file (fl_disk w'') (in_work ''a'')"
proof -
  obtain w' e where a: "apply_op (work_files [(''a'', ''one'')]) (stamp_no ''1'' 10) app_data ''c''
       (OpMove (in_work ''a'') (in_work ''b'') False) = (w', Inr (Some e))"
    by (simp add: disk_simps)
  have "is_file (fl_disk (work_files [(''a'', ''one'')])) (in_work ''a'')"
    "\<not> path_exists (fl_disk (work_files [(''a'', ''one'')])) (in_work ''b'')"
    "parent_there (fl_disk (work_files [(''a'', ''one'')])) (in_work ''a'')"
    "\<forall>x. \<not> dk_denied (fl_disk (work_files [(''a'', ''one'')])) x"
    "db_writable (fl_db (work_files [(''a'', ''one'')]))"
    by (simp_all add: disk_simps)
  from undo_moves_back[OF a this] show ?thesis using a by blast
qed

section \<open>The text for the model can panic\<close>

text \<open>
  The cut at 48 KiB is by bytes: where it falls inside a character, \<open>truncate\<close> panics.  Below,
  one changed line of an ordinary file is a long run of umlauts.
\<close>

definition umlauts :: "nat \<Rightarrow> string" where
  "umlauts n = concat (replicate n [CHR 0xC3, CHR 0xA4])"

definition umlaut_change :: changes_view where
  "umlaut_change = \<lparr>cs_files = [\<lparr>fc_path = in_work ''a'', fc_display = ''ab.txt'', fc_status = ''modified'', fc_from = None,
       fc_added = 1, fc_removed = 0,
       fc_hunks = [\<lparr>hk_old_start = 0, hk_old_lines = 0, hk_new_start = 1, hk_new_lines = 1,
          hk_lines = [added_line (umlauts 30000) 1]\<rparr>],
       fc_binary = False, fc_too_large = False, fc_entry_ids = [''1''], fc_last_at = 10\<rparr>],
     cs_added = 1, cs_removed = 0, cs_since = 0, cs_this_run = True\<rparr>"

lemma umlauts_length: "length (umlauts n) = 2 * n"
  by (induction n) (simp_all add: umlauts_def)

lemma umlauts_odd: "k < n \<Longrightarrow> umlauts n ! (2 * k + 1) = CHR 0xA4"
proof (induction n arbitrary: k)
  case (Suc n)
  then show ?case by (cases k) (simp_all add: umlauts_def)
qed simp


definition umlaut_head :: string where
  "umlaut_head = ''1 file changed, +1 -0'' @ newline @ ''- modified ab.txt, +1 -0'' @ newline @ newline
     @ ''--- a/ab.txt'' @ newline @ ''+++ b/ab.txt'' @ newline @ ''@@ -0,0 +1,1 @@'' @ newline @ ''+''"

lemma show_01: "show_nat 0 = ''0''" "show_nat (Suc 0) = ''1''"
  by code_simp+

lemma umlaut_out:
  "(show_nat (length (cs_files umlaut_change)) @ '' file'' @ (if length (cs_files umlaut_change) = 1 then '''' else ''s'')
     @ '' changed, +'' @ show_nat (cs_added umlaut_change) @ '' -'' @ show_nat (cs_removed umlaut_change) @ newline
     @ concat (map file_line (cs_files umlaut_change))) @ newline @ file_patch (hd (cs_files umlaut_change))
   = umlaut_head @ umlauts 30000 @ newline"
  by (simp add: umlaut_change_def file_line_def file_patch_def unified_def unified_line_def
      added_line_def umlaut_head_def show_01)

lemma append_one_patch:
  assumes "\<not> (fc_binary f \<or> fc_too_large f)" and "out @ newline @ file_patch f = t" and "TOOL_OUTPUT_CAP < length t"
    and "\<not> is_char_boundary t TOOL_OUTPUT_CAP"
  shows "append_patches out (f # fs) = None"
proof -
  have "append_patches out (f # fs)
      = (if TOOL_OUTPUT_CAP < length (out @ newline @ file_patch f)
         then map_option (\<lambda>t. t @ newline @ ellipsis @ ''(more patches not shown; read the files you need)'')
                (str_truncate (out @ newline @ file_patch f) TOOL_OUTPUT_CAP)
         else append_patches (out @ newline @ file_patch f) fs)"
    using assms(1) by (simp add: Let_def)
  then show ?thesis using assms(3,4) unfolding assms(2) by (simp add: str_truncate_def)
qed

theorem render_for_model_can_panic: "render_for_model umlaut_change = None"
proof -
  have len: "length umlaut_head = 91" by (simp add: umlaut_head_def)
  then have "(umlaut_head @ umlauts 30000 @ newline) ! 49152 = umlauts 30000 ! (2 * 24530 + 1)"
    by (simp add: nth_append umlauts_length)
  also have "\<dots> = CHR 0xA4" by (rule umlauts_odd) simp
  finally have nb: "\<not> is_char_boundary (umlaut_head @ umlauts 30000 @ newline) TOOL_OUTPUT_CAP"
    using len by (simp add: is_char_boundary_def TOOL_OUTPUT_CAP_def umlauts_length is_char_start_def)
  have "TOOL_OUTPUT_CAP < length (umlaut_head @ umlauts 30000 @ newline)"
    using len by (simp add: TOOL_OUTPUT_CAP_def umlauts_length)
  note append_one_patch[OF _ umlaut_out this nb, of "[]"]
  moreover have "cs_files umlaut_change = [hd (cs_files umlaut_change)]"
    "\<not> (fc_binary (hd (cs_files umlaut_change)) \<or> fc_too_large (hd (cs_files umlaut_change)))"
    by (simp_all add: umlaut_change_def)
  ultimately show ?thesis unfolding render_for_model_def by (metis list.distinct(1))
qed

end
