(* ===== verification/Rewind.thy ===== *)
theory Rewind imports Undo_Limits begin

text \<open>
  Going back to before a turn (\<open>agent/rewind.rs\<close>) and the branch it takes
  (\<open>fork_conversation_at\<close> and the session log of \<open>db/mod.rs\<close>): the conversations, their messages
  with attachments, and the log.  New ids and the clock are arguments; a statement fails as a
  whole when the database cannot be read or written.
\<close>

section \<open>Conversations, messages, log\<close>

record chat =
  ch_id :: string
  ch_title :: string
  ch_model_id :: "string option"
  ch_persona_id :: "string option"
  ch_overrides :: "string option"
  ch_workspace :: bool
  ch_summary :: "string option"
  ch_summary_upto :: "string option"
  ch_folder_path :: "string option"
  ch_folder_trust :: "string option"
  ch_project_id :: "string option"
  ch_engines_off :: bool
  ch_created_at :: int
  ch_updated_at :: int

record message =
  msg_id :: string
  msg_conversation :: string
  msg_role :: string
  msg_content :: string
  msg_model_name :: "string option"
  msg_provenance :: "string option"
  msg_steps :: "string option"
  msg_stop_reason :: "string option"
  msg_plan :: "string option"
  msg_spoken :: bool
  msg_created_at :: int

record attachment =
  at_message :: string
  at_kind :: string
  at_name :: string
  at_path :: "string option"
  at_artifact :: "string option"

record session_event =
  se_conversation :: string
  se_run :: "string option"
  se_seq :: int
  se_kind :: string
  se_payload :: json
  se_created_at :: int

record history =
  hy_files :: files
  hy_chats :: "chat list"
  hy_messages :: "message list"
  hy_attachments :: "attachment list"
  hy_events :: "session_event list"

definition hy_readable :: "history \<Rightarrow> bool" where "hy_readable h \<longleftrightarrow> db_readable (fl_db (hy_files h))"
definition hy_writable :: "history \<Rightarrow> bool" where "hy_writable h \<longleftrightarrow> db_writable (fl_db (hy_files h))"

definition get_conversation :: "history \<Rightarrow> string \<Rightarrow> db_error + chat option" where
  "get_conversation h i =
     Inr (if hy_readable h then List.find (\<lambda>c. ch_id c = i) (hy_chats h) else None)"

definition list_messages :: "history \<Rightarrow> string \<Rightarrow> db_error + message list" where
  "list_messages h conv =
     (if hy_readable h
      then Inr (sort_key msg_created_at (filter (\<lambda>m. msg_conversation m = conv) (hy_messages h)))
      else Inl DbError)"

definition rename_conversation :: "history \<Rightarrow> string \<Rightarrow> string \<Rightarrow> int \<Rightarrow> db_error + history" where
  "rename_conversation h i title now =
     (if hy_writable h
      then Inr (h\<lparr>hy_chats := map (\<lambda>c. if ch_id c = i then c\<lparr>ch_title := title, ch_updated_at := now\<rparr> else c) (hy_chats h)\<rparr>)
      else Inl DbError)"

section \<open>The session log\<close>

definition events_of :: "history \<Rightarrow> string \<Rightarrow> session_event list" where
  "events_of h conv = filter (\<lambda>e. se_conversation e = conv) (hy_events h)"

text \<open>\<open>COALESCE(MAX(seq), 0)\<close> over the chosen rows.\<close>

definition max_seq :: "session_event list \<Rightarrow> int" where
  "max_seq es = (case es of [] \<Rightarrow> 0 | _ \<Rightarrow> Max (set (map se_seq es)))"

definition seq_at_time :: "history \<Rightarrow> string \<Rightarrow> int \<Rightarrow> int" where
  "seq_at_time h conv at_ms =
     (if hy_readable h then max_seq (filter (\<lambda>e. se_created_at e \<le> at_ms) (events_of h conv)) else 0)"

definition append_session_event ::
  "history \<Rightarrow> string \<Rightarrow> string option \<Rightarrow> string \<Rightarrow> json \<Rightarrow> int \<Rightarrow> db_error + (history \<times> int)" where
  "append_session_event h conv r kind payload now =
     (let n = (if hy_readable h then max_seq (events_of h conv) + 1 else 1)
      in if hy_writable h
         then Inr (h\<lparr>hy_events := hy_events h @ [\<lparr>se_conversation = conv, se_run = r, se_seq = n,
                       se_kind = kind, se_payload = payload, se_created_at = now\<rparr>]\<rparr>, n)
         else Inl DbError)"

definition fork_session_events :: "history \<Rightarrow> string \<Rightarrow> string \<Rightarrow> int \<Rightarrow> db_error + history" where
  "fork_session_events h src dst upto_seq =
     (if hy_readable h \<and> hy_writable h
      then (let rows = sort_key se_seq (filter (\<lambda>e. se_seq e \<le> upto_seq) (events_of h src))
            in Inr (h\<lparr>hy_events := hy_events h @
                 map (\<lambda>(n, e). e\<lparr>se_conversation := dst, se_seq := int n + 1\<rparr>) (enumerated rows)\<rparr>))
      else Inl DbError)"

section \<open>Forking\<close>

definition I64_MAX :: int where "I64_MAX = 9223372036854775807"

text \<open>Where the log is cut.\<close>

definition fork_upto :: "history \<Rightarrow> string \<Rightarrow> int \<Rightarrow> bool \<Rightarrow> int" where
  "fork_upto h conv cutoff inclusive =
     (if inclusive then
        (case filter (\<lambda>t. cutoff < t) (map msg_created_at (filter (\<lambda>m. msg_conversation m = conv) (hy_messages h))) of
           [] \<Rightarrow> I64_MAX
         | t # ts \<Rightarrow> seq_at_time h conv (Min (set (t # ts)) - 1))
      else seq_at_time h conv cutoff)"

text \<open>The turns copied, and the user's own words at the end that are handed back instead.\<close>

definition fork_rows :: "history \<Rightarrow> string \<Rightarrow> int \<Rightarrow> bool \<Rightarrow> message list" where
  "fork_rows h conv cutoff inclusive =
     sort_key msg_created_at
       (filter (\<lambda>m. msg_conversation m = conv
                    \<and> (msg_created_at m < cutoff \<or> inclusive \<and> msg_created_at m = cutoff)) (hy_messages h))"

definition split_resend :: "message list \<Rightarrow> bool \<Rightarrow> message list \<times> string option" where
  "split_resend rows inclusive =
     (if rows \<noteq> [] \<and> msg_role (last rows) = ''user'' \<and> \<not> inclusive
      then (butlast rows, Some (msg_content (last rows))) else (rows, None))"

definition copy_message :: "string \<Rightarrow> string \<Rightarrow> message \<Rightarrow> message" where
  "copy_message conv i m = m\<lparr>msg_id := i, msg_conversation := conv\<rparr>"

text \<open>\<open>new_id k\<close> is the id made for the copy of the \<open>k\<close>-th row.\<close>

definition copy_rows :: "history \<Rightarrow> string \<Rightarrow> (nat \<Rightarrow> string) \<Rightarrow> message list \<Rightarrow> history" where
  "copy_rows h conv new_id rows =
     h\<lparr>hy_messages := hy_messages h @ map (\<lambda>(k, m). copy_message conv (new_id k) m) (enumerated rows),
       hy_attachments := hy_attachments h @ concat (map (\<lambda>(k, m).
         map (\<lambda>a. a\<lparr>at_message := new_id k\<rparr>) (filter (\<lambda>a. at_message a = msg_id m) (hy_attachments h)))
         (enumerated rows))\<rparr>"

definition new_boundary :: "string option \<Rightarrow> (nat \<Rightarrow> string) \<Rightarrow> message list \<Rightarrow> string option" where
  "new_boundary upto_seq new_id rows =
     (case filter (\<lambda>(k, m). upto_seq = Some (msg_id m)) (enumerated rows) of
        [] \<Rightarrow> None | ks \<Rightarrow> Some (new_id (fst (last ks))))"

text \<open>The new conversation as it is returned, and as it is stored.\<close>

definition branch_chat ::
  "chat \<Rightarrow> bool \<Rightarrow> string \<Rightarrow> (nat \<Rightarrow> string) \<Rightarrow> message list \<Rightarrow> int \<Rightarrow> chat \<times> chat" where
  "branch_chat source inclusive new_conv new_id rows now =
     (let boundary = new_boundary (ch_summary_upto source) new_id rows;
          summary = (case boundary of None \<Rightarrow> None | Some _ \<Rightarrow> ch_summary source);
          chat = source\<lparr>ch_id := new_conv,
            ch_title := ch_title source @ (if inclusive then '' (branch)'' else '' (again)''),
            ch_summary := summary, ch_summary_upto := boundary, ch_created_at := now, ch_updated_at := now\<rparr>
      in (chat, if summary = None then chat\<lparr>ch_summary_upto := None\<rparr> else chat))"

definition fork_conversation_at ::
  "history \<Rightarrow> string \<Rightarrow> string \<Rightarrow> bool \<Rightarrow> string \<Rightarrow> (nat \<Rightarrow> string) \<Rightarrow> int \<Rightarrow> db_error + (history \<times> chat \<times> string option)" where
  "fork_conversation_at h conv mid inclusive new_conv new_id now =
     (if \<not> hy_readable h then Inl DbError
      else case List.find (\<lambda>m. msg_id m = mid \<and> msg_conversation m = conv) (hy_messages h) of
        None \<Rightarrow> Inl DbError
      | Some turn \<Rightarrow>
         (case List.find (\<lambda>c. ch_id c = conv) (hy_chats h) of
            None \<Rightarrow> Inl DbError
          | Some source \<Rightarrow>
             (let cutoff = msg_created_at turn;
                  upto_seq = fork_upto h conv cutoff inclusive;
                  (rows, resend) = split_resend (fork_rows h conv cutoff inclusive) inclusive;
                  (chat, stored) = branch_chat source inclusive new_conv new_id rows now;
                  h1 = copy_rows (h\<lparr>hy_chats := hy_chats h @ [stored]\<rparr>) new_conv new_id rows
              in if \<not> hy_writable h then Inl DbError
                 else Inr (case fork_session_events h1 conv new_conv upto_seq of Inl _ \<Rightarrow> h1 | Inr h' \<Rightarrow> h',
                           chat, resend))))"

section \<open>Rewinding\<close>

definition REWOUND_KIND :: string where "REWOUND_KIND = ''rewound''"

record rewound =
  rw_conversation :: chat
  rw_prompt :: string
  rw_files_undone :: nat
  rw_files_failed :: "string list"

datatype rewind_error = TurnGone | NotYours | RewindStore

definition user_turn :: "history \<Rightarrow> string \<Rightarrow> string \<Rightarrow> rewind_error + message" where
  "user_turn h conv mid =
     (case list_messages h conv of
        Inl _ \<Rightarrow> Inl RewindStore
      | Inr ms \<Rightarrow>
          (case List.find (\<lambda>m. msg_id m = mid) ms of
             None \<Rightarrow> Inl TurnGone
           | Some m \<Rightarrow> if msg_role m \<noteq> ''user'' then Inl NotYours else Inr m))"

text \<open>The system's part: \<open>re_utf8\<close> says which bytes are text, \<open>re_run\<close> when the last run began.\<close>

record rewind_env =
  re_os :: os
  re_utf8 :: "string \<Rightarrow> bool"
  re_run :: "int option"
  re_new_conv :: string
  re_new_id :: "nat \<Rightarrow> string"
  re_now :: int

definition files_since :: "rewind_env \<Rightarrow> history \<Rightarrow> string \<Rightarrow> string \<Rightarrow> rewind_error + nat" where
  "files_since v h conv mid =
     (case user_turn h conv mid of
        Inl e \<Rightarrow> Inl e
      | Inr turn \<Rightarrow>
          Inr (length (cs_files (change_set (re_os v) (re_utf8 v) (hy_files h) (re_run v) conv (msg_created_at turn)))))"

definition preview_line :: "string \<Rightarrow> string" where
  "preview_line t = ellipsize (trim (case str_lines t of [] \<Rightarrow> '''' | l # _ \<Rightarrow> l)) 48"

text \<open>Every file is tried; the names of those that failed are kept.\<close>

fun undo_each :: "files \<Rightarrow> file_change list \<Rightarrow> files \<times> nat \<times> string list" where
  "undo_each w [] = (w, 0, [])"
| "undo_each w (f # fs) =
     (case undo_file w f of
        (w', r) \<Rightarrow>
          (case undo_each w' fs of
             (w'', n, failed) \<Rightarrow>
               (case r of Inr _ \<Rightarrow> (w'', n + 1, failed) | Inl _ \<Rightarrow> (w'', n, fc_display f # failed))))"

definition quoted :: "string \<Rightarrow> string" where
  "quoted t = [CHR 0xE2, CHR 0x80, CHR 0x9C] @ t @ [CHR 0xE2, CHR 0x80, CHR 0x9D]"

definition rewind_files :: "rewind_env \<Rightarrow> history \<Rightarrow> string \<Rightarrow> message \<Rightarrow> bool \<Rightarrow> files \<times> nat \<times> string list" where
  "rewind_files v h conv turn undo_them =
     (if \<not> undo_them then (hy_files h, 0, [])
      else (let chs = change_set (re_os v) (re_utf8 v) (hy_files h) (re_run v) conv (msg_created_at turn)
            in case undo_each (hy_files h) (newest_first (cs_files chs)) of
                 (w, n, failed) \<Rightarrow>
                   (if n > 0 then
                      w\<lparr>fl_db := or_unchanged (fl_db w) (log_activity (fl_db w) (Some conv) ''file''
                          (''undid my changes since '' @ quoted (preview_line (msg_content turn))))\<rparr>
                    else w, n, failed)))"

definition rewound_row :: "string \<Rightarrow> string \<Rightarrow> string \<Rightarrow> nat \<Rightarrow> string list \<Rightarrow> json" where
  "rewound_row mid shown branch n failed =
     JObject [(''messageId'', JString mid), (''preview'', JString shown), (''branchId'', JString branch),
       (''filesUndone'', JInt (int n)), (''filesFailed'', JArray (map JString failed))]"

definition with_title :: "rewind_env \<Rightarrow> history \<Rightarrow> string \<Rightarrow> string \<Rightarrow> history" where
  "with_title v h i title = (case rename_conversation h i title (re_now v) of Inl _ \<Rightarrow> h | Inr h' \<Rightarrow> h')"

definition with_event :: "rewind_env \<Rightarrow> history \<Rightarrow> string \<Rightarrow> string \<Rightarrow> json \<Rightarrow> history" where
  "with_event v h conv kind payload =
     (case append_session_event h conv None kind payload (re_now v) of Inl _ \<Rightarrow> h | Inr (h', _) \<Rightarrow> h')"

definition before_title :: "chat option \<Rightarrow> string \<Rightarrow> string" where
  "before_title original shown =
     (case original of None \<Rightarrow> '''' | Some c \<Rightarrow> ch_title c) @ '' (before '' @ quoted shown @ '')''"

definition rewind :: "rewind_env \<Rightarrow> history \<Rightarrow> string \<Rightarrow> string \<Rightarrow> bool \<Rightarrow> history \<times> (rewind_error + rewound)" where
  "rewind v h conv mid undo_them =
     (case user_turn h conv mid of
        Inl e \<Rightarrow> (h, Inl e)
      | Inr turn \<Rightarrow>
         (case rewind_files v h conv turn undo_them of
            (w, n, failed) \<Rightarrow>
             (case fork_conversation_at (h\<lparr>hy_files := w\<rparr>) conv mid False (re_new_conv v) (re_new_id v) (re_now v) of
                Inl _ \<Rightarrow> (h\<lparr>hy_files := w\<rparr>, Inl RewindStore)
              | Inr (h2, chat, _) \<Rightarrow>
                 (case get_conversation h2 conv of
                    Inl _ \<Rightarrow> (h2, Inl RewindStore)
                  | Inr original \<Rightarrow>
                     (let shown = preview_line (msg_content turn);
                          title = before_title original shown;
                          h3 = with_title v h2 (ch_id chat) title
                      in (with_event v h3 conv REWOUND_KIND (rewound_row mid shown (ch_id chat) n failed),
                          Inr \<lparr>rw_conversation = chat\<lparr>ch_title := title\<rparr>, rw_prompt = msg_content turn,
                                rw_files_undone = n, rw_files_failed = failed\<rparr>))))))"

section \<open>What a rewind leaves and what it takes along\<close>

lemma find_mem: "List.find P xs = Some x \<Longrightarrow> x \<in> set xs \<and> P x"
  by (induction xs) (auto split: if_splits)

lemma user_turn_is:
  assumes "user_turn h conv mid = Inr turn"
  shows "turn \<in> set (hy_messages h) \<and> msg_id turn = mid \<and> msg_conversation turn = conv
     \<and> msg_role turn = ''user'' \<and> hy_readable h"
  using assms
  by (auto simp: user_turn_def list_messages_def split: sum.splits option.splits if_splits dest!: find_mem)

lemma undo_ids_db: "undo_ids w is = (w', r) \<Longrightarrow> fl_db w' = fl_db w"
proof (induction "is" arbitrary: w)
  case (Cons i "is")
  then show ?case
    by (auto simp: undo_def mark_trash_undone_def split: sum.splits option.splits if_splits prod.splits)
qed simp

lemma undo_each_db: "undo_each w fs = (w', n, failed) \<Longrightarrow> fl_db w' = fl_db w"
  by (induction fs arbitrary: w n failed)
    (auto simp: undo_file_def split: prod.splits sum.splits dest: undo_ids_db)

lemma rewind_files_db:
  assumes "rewind_files v h conv turn undo_them = (w, n, failed)"
  shows "db_readable (fl_db w) = hy_readable h \<and> db_writable (fl_db w) = hy_writable h"
  using assms
  by (auto simp: rewind_files_def Let_def hy_readable_def hy_writable_def or_unchanged_def log_activity_def
      split: if_splits prod.splits sum.splits dest!: undo_each_db)

definition messages_in :: "history \<Rightarrow> string \<Rightarrow> message list" where
  "messages_in h conv = filter (\<lambda>m. msg_conversation m = conv) (hy_messages h)"

text \<open>What a branch adds to the store.\<close>

definition copied_attachments :: "history \<Rightarrow> (nat \<Rightarrow> string) \<Rightarrow> message list \<Rightarrow> attachment list" where
  "copied_attachments h new_id rows = concat (map (\<lambda>(k, m).
     map (\<lambda>a. a\<lparr>at_message := new_id k\<rparr>) (filter (\<lambda>a. at_message a = msg_id m) (hy_attachments h)))
     (enumerated rows))"

definition branched :: "history \<Rightarrow> string \<Rightarrow> (nat \<Rightarrow> string) \<Rightarrow> message list \<Rightarrow> history \<Rightarrow> bool" where
  "branched h nc new_id rows h' \<longleftrightarrow>
     hy_messages h' = hy_messages h @ map (\<lambda>(k, m). copy_message nc (new_id k) m) (enumerated rows)
     \<and> hy_attachments h' = hy_attachments h @ copied_attachments h new_id rows
     \<and> (\<exists>es. hy_events h' = hy_events h @ es \<and> (\<forall>e \<in> set es. se_conversation e = nc))
     \<and> (\<exists>c. hy_chats h' = hy_chats h @ [c] \<and> ch_id c = nc) \<and> hy_files h' = hy_files h"

lemma branched_events:
  assumes "branched h nc new_id rows h1"
  shows "branched h nc new_id rows (case fork_session_events h1 conv nc n of Inl _ \<Rightarrow> h1 | Inr h' \<Rightarrow> h')"
proof (cases "fork_session_events h1 conv nc n")
  case (Inr h')
  define es where "es = map (\<lambda>(n, e). e\<lparr>se_conversation := nc, se_seq := int n + 1\<rparr>)
    (enumerated (sort_key se_seq (filter (\<lambda>e. se_seq e \<le> n) (events_of h1 conv))))"
  have "h' = h1\<lparr>hy_events := hy_events h1 @ es\<rparr>" using Inr
    by (auto simp: fork_session_events_def Let_def es_def split: if_splits)
  moreover have "\<forall>e \<in> set es. se_conversation e = nc" by (auto simp: es_def)
  ultimately show ?thesis using assms Inr by (auto simp: branched_def)
qed (use assms in simp)

lemma branch_chat_id: "branch_chat source inclusive nc new_id rows now = (chat, stored) \<Longrightarrow> ch_id chat = nc \<and> ch_id stored = nc"
  by (auto simp: branch_chat_def Let_def split: if_splits)

lemma fork_is:
  assumes "fork_conversation_at h conv mid inclusive nc new_id now = Inr (h', chat, resend)"
  obtains turn where "List.find (\<lambda>m. msg_id m = mid \<and> msg_conversation m = conv) (hy_messages h) = Some turn"
    and "branched h nc new_id (fst (split_resend (fork_rows h conv (msg_created_at turn) inclusive) inclusive)) h'"
    and "ch_id chat = nc" and "hy_writable h"
proof -
  obtain turn source where ts: "List.find (\<lambda>m. msg_id m = mid \<and> msg_conversation m = conv) (hy_messages h) = Some turn"
    "List.find (\<lambda>c. ch_id c = conv) (hy_chats h) = Some source" "hy_readable h"
    using assms by (auto simp: fork_conversation_at_def split: if_splits option.splits)
  obtain rows rs where rows: "split_resend (fork_rows h conv (msg_created_at turn) inclusive) inclusive = (rows, rs)"
    by fastforce
  obtain ch st where st: "branch_chat source inclusive nc new_id rows now = (ch, st)" by fastforce
  define h1 where "h1 = copy_rows (h\<lparr>hy_chats := hy_chats h @ [st]\<rparr>) nc new_id rows"
  have w: "hy_writable h"
    using assms by (simp add: fork_conversation_at_def ts rows st Let_def split: if_splits)
  have "fork_conversation_at h conv mid inclusive nc new_id now
      = Inr (case fork_session_events h1 conv nc (fork_upto h conv (msg_created_at turn) inclusive) of
               Inl _ \<Rightarrow> h1 | Inr h' \<Rightarrow> h', ch, rs)"
    unfolding h1_def by (simp add: fork_conversation_at_def ts rows st Let_def w)
  then have "chat = ch"
    and h': "h' = (case fork_session_events h1 conv nc (fork_upto h conv (msg_created_at turn) inclusive) of
                Inl _ \<Rightarrow> h1 | Inr h' \<Rightarrow> h')"
    using assms by simp_all
  have "branched h nc new_id rows h1"
    using branch_chat_id[OF st] by (simp add: branched_def copy_rows_def h1_def copied_attachments_def)
  then have "branched h nc new_id rows h'" unfolding h' by (rule branched_events)
  then show thesis using that ts(1) branch_chat_id[OF st] \<open>chat = ch\<close> w by (simp add: rows)
qed

text \<open>A rewind that returns went through these stages.\<close>

lemma rewind_is:
  assumes "rewind v h conv mid undo_them = (h', Inr r)"
  obtains turn w n failed h2 chat resend original title where "user_turn h conv mid = Inr turn"
    and "rewind_files v h conv turn undo_them = (w, n, failed)"
    and "fork_conversation_at (h\<lparr>hy_files := w\<rparr>) conv mid False (re_new_conv v) (re_new_id v) (re_now v) = Inr (h2, chat, resend)"
    and "get_conversation h2 conv = Inr original" and "title = before_title original (preview_line (msg_content turn))"
    and "h' = with_event v (with_title v h2 (ch_id chat) title) conv REWOUND_KIND
                (rewound_row mid (preview_line (msg_content turn)) (ch_id chat) n failed)"
    and "r = \<lparr>rw_conversation = chat\<lparr>ch_title := title\<rparr>, rw_prompt = msg_content turn,
                rw_files_undone = n, rw_files_failed = failed\<rparr>"
proof -
  obtain turn where t: "user_turn h conv mid = Inr turn"
    using assms by (auto simp: rewind_def split: sum.splits)
  obtain w n failed where f: "rewind_files v h conv turn undo_them = (w, n, failed)" using prod_cases3 by blast
  obtain h2 chat resend where k: "fork_conversation_at (h\<lparr>hy_files := w\<rparr>) conv mid False (re_new_conv v) (re_new_id v) (re_now v)
      = Inr (h2, chat, resend)"
    using assms by (auto simp: rewind_def t f split: sum.splits prod.splits)
  obtain original where o: "get_conversation h2 conv = Inr original" by (simp add: get_conversation_def)
  show thesis using that[OF t f k o refl] assms
    by (simp add: rewind_def t f k o Let_def)
qed

lemma with_title_keeps:
  "hy_messages (with_title v h i t) = hy_messages h" "hy_events (with_title v h i t) = hy_events h"
  "hy_attachments (with_title v h i t) = hy_attachments h"
  "hy_files (with_title v h i t) = hy_files h" "hy_readable (with_title v h i t) = hy_readable h"
  "hy_writable (with_title v h i t) = hy_writable h"
  by (auto simp: with_title_def rename_conversation_def hy_readable_def hy_writable_def split: sum.splits)

text \<open>Only the chats with the given id are renamed, all of them.\<close>

lemma with_title_chats:
  assumes "hy_chats h = cs @ [c]" and "ch_id c = i" and "i \<notin> ch_id ` set cs" and "hy_writable h"
  shows "hy_chats (with_title v h i t) = cs @ [c\<lparr>ch_title := t, ch_updated_at := re_now v\<rparr>]"
proof -
  have "map (\<lambda>c. if ch_id c = i then c\<lparr>ch_title := t, ch_updated_at := re_now v\<rparr> else c) cs = cs"
    using assms(3) by (induction cs) auto
  then show ?thesis using assms by (simp add: with_title_def rename_conversation_def)
qed

lemma with_event_keeps:
  "hy_messages (with_event v h conv k p) = hy_messages h" "hy_files (with_event v h conv k p) = hy_files h"
  "hy_attachments (with_event v h conv k p) = hy_attachments h" "hy_chats (with_event v h conv k p) = hy_chats h"
  "hy_writable h \<Longrightarrow> \<exists>n. hy_events (with_event v h conv k p)
     = hy_events h @ [\<lparr>se_conversation = conv, se_run = None, se_seq = n, se_kind = k,
                       se_payload = p, se_created_at = re_now v\<rparr>]"
  by (auto simp: with_event_def append_session_event_def events_of_def Let_def split: sum.splits if_splits)

text \<open>The turns strictly before a message, oldest first.\<close>

definition turns_before :: "history \<Rightarrow> string \<Rightarrow> int \<Rightarrow> message list" where
  "turns_before h conv cutoff =
     sort_key msg_created_at (filter (\<lambda>m. msg_created_at m < cutoff) (messages_in h conv))"

lemma fork_rows_before: "fork_rows h conv cutoff False = turns_before h conv cutoff"
  by (simp add: fork_rows_def turns_before_def messages_in_def filter_filter conj_commute)

text \<open>What the branch holds of the turns before: all, unless they end with words of the user that
  nobody answered.\<close>

definition turns_taken :: "history \<Rightarrow> string \<Rightarrow> int \<Rightarrow> message list" where
  "turns_taken h conv cutoff =
     (let rows = turns_before h conv cutoff
      in if rows \<noteq> [] \<and> msg_role (last rows) = ''user'' then butlast rows else rows)"

lemma split_resend_taken:
  "hy_messages h' = hy_messages h
   \<Longrightarrow> fst (split_resend (fork_rows h' conv cutoff False) False) = turns_taken h conv cutoff"
  by (simp add: split_resend_def turns_taken_def fork_rows_before Let_def turns_before_def messages_in_def)

lemma rewind_branches:
  assumes "rewind v h conv mid undo_them = (h', Inr r)" and "re_new_conv v \<noteq> conv" and "distinct (map msg_id (hy_messages h))"
  obtains turn w n failed h2 where "turn \<in> set (messages_in h conv)" and "msg_id turn = mid" and "msg_role turn = ''user''"
    and "branched (h\<lparr>hy_files := w\<rparr>) (re_new_conv v) (re_new_id v) (turns_taken h conv (msg_created_at turn)) h2"
    and "h' = with_event v (with_title v h2 (re_new_conv v) (ch_title (rw_conversation r))) conv REWOUND_KIND
                (rewound_row mid (preview_line (msg_content turn)) (re_new_conv v) n failed)"
    and "ch_title (rw_conversation r) = before_title (List.find (\<lambda>c. ch_id c = conv) (hy_chats h)) (preview_line (msg_content turn))"
    and "rw_prompt r = msg_content turn" and "rw_files_undone r = n" and "rw_files_failed r = failed"
    and "hy_writable h2"
proof -
  let ?nc = "re_new_conv v"
  obtain turn w n failed h2 chat resend original title where t: "user_turn h conv mid = Inr turn"
    and k: "fork_conversation_at (h\<lparr>hy_files := w\<rparr>) conv mid False ?nc (re_new_id v) (re_now v) = Inr (h2, chat, resend)"
    and o: "get_conversation h2 conv = Inr original" "title = before_title original (preview_line (msg_content turn))"
    and f: "rewind_files v h conv turn undo_them = (w, n, failed)"
    and h': "h' = with_event v (with_title v h2 (ch_id chat) title) conv REWOUND_KIND
                (rewound_row mid (preview_line (msg_content turn)) (ch_id chat) n failed)"
    and r: "r = \<lparr>rw_conversation = chat\<lparr>ch_title := title\<rparr>, rw_prompt = msg_content turn,
                rw_files_undone = n, rw_files_failed = failed\<rparr>"
    using rewind_is[OF assms(1)] by metis
  let ?h = "h\<lparr>hy_files := w\<rparr>" and ?rows = "turns_taken h conv (msg_created_at turn)"
  obtain turn' where t': "List.find (\<lambda>m. msg_id m = mid \<and> msg_conversation m = conv) (hy_messages ?h) = Some turn'"
    and b': "branched ?h ?nc (re_new_id v) (fst (split_resend (fork_rows ?h conv (msg_created_at turn') False) False)) h2"
    and c: "ch_id chat = ?nc" "hy_writable ?h"
    using fork_is[OF k] by blast
  have tm: "turn \<in> set (hy_messages h)" "msg_id turn = mid" "msg_conversation turn = conv" "msg_role turn = ''user''" "hy_readable h"
    using user_turn_is[OF t] by auto
  have "turn' = turn"
    using find_mem[OF t'] tm assms(3) by (auto simp: distinct_map dest: inj_onD)
  then have b: "branched ?h ?nc (re_new_id v) ?rows h2" using b' split_resend_taken[of ?h h] by simp
  then obtain ch where ch: "hy_chats h2 = hy_chats h @ [ch]" "ch_id ch = ?nc" by (auto simp: branched_def)
  have wr: "hy_writable h2" using b c(2) by (simp add: branched_def hy_writable_def)
  have "hy_readable h2" using b tm(5) rewind_files_db[OF f] by (simp add: branched_def hy_readable_def)
  moreover have "List.find P (xs @ [x]) = List.find P xs" if "\<not> P x" for P and xs and x :: chat
    using that by (induction xs) auto
  ultimately have "original = List.find (\<lambda>c. ch_id c = conv) (hy_chats h)"
    using o(1) ch assms(2) by (simp add: get_conversation_def)
  moreover have "turn \<in> set (messages_in h conv)" using tm by (simp add: messages_in_def)
  ultimately show thesis using that[OF _ tm(2,4) b] h' c(1) o(2) r wr by simp
qed

text \<open>C22: A rewind only adds.  Every conversation that was there keeps its row, its title, its messages
  and their attachments as they were, and every log its rows.  What is new: one conversation,
  titled after the original; in it copies of the turns strictly before, in order, with their
  attachments; the rows of its log; and, in the original's log, one last row of kind \<open>rewound\<close> with
  the turn, the branch, how many files were put back and which were not.  The turn's own words
  are handed back.  The branch does not hold everything that came before: words of the user that
  nobody answered, right before the turn, are left out of it (\<open>rewind_drops_an_unanswered_message\<close>).\<close>
theorem rewind_keeps_the_original:
  assumes "rewind v h conv mid undo_them = (h', Inr r)"
    and "re_new_conv v \<noteq> conv" and "re_new_conv v \<notin> ch_id ` set (hy_chats h)"
    and "distinct (map msg_id (hy_messages h))"
  shows "\<exists>turn n c es. turn \<in> set (messages_in h conv) \<and> msg_id turn = mid \<and> msg_role turn = ''user''
     \<and> rw_prompt r = msg_content turn
     \<and> hy_chats h' = hy_chats h @ [c] \<and> ch_id c = re_new_conv v
     \<and> ch_title c = before_title (List.find (\<lambda>c. ch_id c = conv) (hy_chats h)) (preview_line (msg_content turn))
     \<and> hy_messages h' = hy_messages h @ map (\<lambda>(k, m). copy_message (re_new_conv v) (re_new_id v k) m)
          (enumerated (turns_taken h conv (msg_created_at turn)))
     \<and> hy_attachments h' = hy_attachments h
          @ copied_attachments h (re_new_id v) (turns_taken h conv (msg_created_at turn))
     \<and> hy_events h' = hy_events h @ es @
          [\<lparr>se_conversation = conv, se_run = None, se_seq = n, se_kind = REWOUND_KIND,
            se_payload = rewound_row mid (preview_line (msg_content turn)) (re_new_conv v)
              (rw_files_undone r) (rw_files_failed r), se_created_at = re_now v\<rparr>]
     \<and> (\<forall>e \<in> set es. se_conversation e = re_new_conv v)"
proof -
  obtain turn w n failed h2 chat where t: "turn \<in> set (messages_in h conv)" "msg_id turn = mid" "msg_role turn = ''user''"
    and b: "branched (h\<lparr>hy_files := w\<rparr>) (re_new_conv v) (re_new_id v) (turns_taken h conv (msg_created_at turn)) h2"
    and h': "h' = with_event v (with_title v h2 (re_new_conv v) (ch_title (rw_conversation r))) conv REWOUND_KIND
                (rewound_row mid (preview_line (msg_content turn)) (re_new_conv v) n failed)"
    and r: "ch_title (rw_conversation r) = before_title (List.find (\<lambda>c. ch_id c = conv) (hy_chats h)) (preview_line (msg_content turn))"
      "rw_prompt r = msg_content turn" "rw_files_undone r = n" "rw_files_failed r = failed"
    and wr: "hy_writable h2"
    using rewind_branches[OF assms(1,2,4)] by metis
  let ?title = "ch_title (rw_conversation r)" and ?rows = "turns_taken h conv (msg_created_at turn)"
  obtain ch es where ch: "hy_chats h2 = hy_chats h @ [ch]" "ch_id ch = re_new_conv v"
    and es: "hy_events h2 = hy_events h @ es" "\<forall>e \<in> set es. se_conversation e = re_new_conv v"
    and ms: "hy_messages h2 = hy_messages h @ map (\<lambda>(k, m). copy_message (re_new_conv v) (re_new_id v k) m) (enumerated ?rows)"
    and as: "hy_attachments h2 = hy_attachments h @ copied_attachments h (re_new_id v) ?rows"
    using b by (auto simp: branched_def copied_attachments_def)
  obtain s where "hy_events h' = hy_events h2 @
      [\<lparr>se_conversation = conv, se_run = None, se_seq = s, se_kind = REWOUND_KIND,
        se_payload = rewound_row mid (preview_line (msg_content turn)) (re_new_conv v) n failed, se_created_at = re_now v\<rparr>]"
    using with_event_keeps(5)[of "with_title v h2 (re_new_conv v) ?title"] wr unfolding h' by (metis with_title_keeps(2,6))
  moreover have "hy_chats h' = hy_chats h @ [ch\<lparr>ch_title := ?title, ch_updated_at := re_now v\<rparr>]"
    using with_title_chats[OF ch assms(3) wr] by (simp add: h' with_event_keeps)
  moreover have "hy_messages h' = hy_messages h2" "hy_attachments h' = hy_attachments h2"
    by (simp_all add: h' with_event_keeps with_title_keeps)
  ultimately show ?thesis using t ch es ms as r
    by (intro exI[of _ turn] exI[of _ s] exI[of _ "ch\<lparr>ch_title := ?title, ch_updated_at := re_now v\<rparr>"] exI[of _ es]) simp
qed

section \<open>A concrete history\<close>

definition plain_message :: "string \<Rightarrow> string \<Rightarrow> string \<Rightarrow> int \<Rightarrow> message" where
  "plain_message i role text_of t = \<lparr>msg_id = i, msg_conversation = ''c'', msg_role = role, msg_content = text_of,
     msg_model_name = None, msg_provenance = None, msg_steps = None, msg_stop_reason = None, msg_plan = None,
     msg_spoken = False, msg_created_at = t\<rparr>"

definition sample_history :: "message list \<Rightarrow> history" where
  "sample_history ms = \<lparr>hy_files = work_files [], hy_chats = [\<lparr>ch_id = ''c'', ch_title = ''Chat'',
       ch_model_id = None, ch_persona_id = None, ch_overrides = None, ch_workspace = False, ch_summary = None,
       ch_summary_upto = None, ch_folder_path = None, ch_folder_trust = None, ch_project_id = None,
       ch_engines_off = False, ch_created_at = 0, ch_updated_at = 0\<rparr>],
     hy_messages = ms, hy_attachments = [], hy_events = []\<rparr>"

definition rewind_sample :: rewind_env where
  "rewind_sample = \<lparr>re_os = no_os, re_utf8 = (\<lambda>_. True), re_run = None, re_new_conv = ''d'',
     re_new_id = (\<lambda>k. ''n'' @ show_nat k), re_now = 100\<rparr>"

definition answered :: "message list" where
  "answered = [plain_message ''1'' ''user'' ''hello'' 10, plain_message ''2'' ''assistant'' ''hi'' 20,
     plain_message ''3'' ''user'' ''go on'' 30]"

text \<open>The second message was never answered, say because that run was stopped.\<close>

definition unanswered :: "message list" where
  "unanswered = [plain_message ''1'' ''user'' ''hello'' 10, plain_message ''2'' ''user'' ''are you there'' 20,
     plain_message ''3'' ''user'' ''go on'' 30]"

lemmas history_simps = rewind_def user_turn_def list_messages_def rewind_files_def get_conversation_def
  fork_conversation_at_def fork_rows_def split_resend_def branch_chat_def new_boundary_def copy_rows_def
  fork_session_events_def fork_upto_def seq_at_time_def events_of_def max_seq_def messages_in_def
  with_title_def rename_conversation_def with_event_def append_session_event_def copy_message_def
  sample_history_def rewind_sample_def plain_message_def answered_def unanswered_def work_files_def empty_db_def
  hy_readable_def hy_writable_def Let_def

lemma rewind_keeps_the_original_witness:
  "\<exists>h' r. rewind rewind_sample (sample_history answered) ''c'' ''3'' False = (h', Inr r)
     \<and> map msg_content (messages_in h' ''c'') = [''hello'', ''hi'', ''go on''] \<and> map msg_content (messages_in h' ''d'') = [''hello'', ''hi'']
     \<and> map ch_title (hy_chats h') = [''Chat'', ''Chat (before '' @ quoted ''go on'' @ '')'']"
proof -
  obtain h' r where r: "rewind rewind_sample (sample_history answered) ''c'' ''3'' False = (h', Inr r)"
    by (simp add: history_simps)
  have "re_new_conv rewind_sample \<noteq> ''c''" "re_new_conv rewind_sample \<notin> ch_id ` set (hy_chats (sample_history answered))"
    "distinct (map msg_id (hy_messages (sample_history answered)))"
    by (simp_all add: history_simps)
  from rewind_keeps_the_original[OF r this] obtain turn c where
    t: "turn \<in> set (messages_in (sample_history answered) ''c'')" "msg_id turn = ''3''"
    and h: "hy_chats h' = hy_chats (sample_history answered) @ [c]"
      "ch_title c = before_title (List.find (\<lambda>c. ch_id c = ''c'') (hy_chats (sample_history answered))) (preview_line (msg_content turn))"
      "hy_messages h' = hy_messages (sample_history answered) @ map (\<lambda>(k, m). copy_message (re_new_conv rewind_sample) (re_new_id rewind_sample k) m)
          (enumerated (turns_taken (sample_history answered) ''c'' (msg_created_at turn)))"
    by blast
  have turn: "turn = plain_message ''3'' ''user'' ''go on'' 30" using t by (auto simp: history_simps)
  have "preview_line ''go on'' = ''go on''" by code_simp
  then show ?thesis using r h unfolding turn
    by (auto simp: history_simps before_title_def turns_taken_def turns_before_def)
qed

theorem rewind_drops_an_unanswered_message:
  "\<exists>h' r. rewind rewind_sample (sample_history unanswered) ''c'' ''3'' False = (h', Inr r)
     \<and> map msg_content (messages_in h' ''d'') = [''hello''] \<and> rw_prompt r = ''go on''"
  by (simp add: history_simps)

end
