(* ===== verification/Utf8.thy ===== *)
theory Utf8 imports Rust_Prelude begin

text \<open>
  Which bytes are UTF-8 (\<open>String::from_utf8\<close>) and what \<open>from_utf8_lossy\<close> makes of any bytes: the
  table of the Unicode standard that the standard library follows.  A maximal start of a character
  that does not go on becomes one replacement character.
\<close>

definition utf8_cont :: "char \<Rightarrow> bool" where
  "utf8_cont c = (let n = (of_char c :: nat) in 128 \<le> n \<and> n < 192)"

text \<open>The second byte a character of three or four bytes may have after its first.\<close>

definition utf8_second :: "nat \<Rightarrow> char \<Rightarrow> bool" where
  "utf8_second lead c =
     (let n = (of_char c :: nat)
      in (if lead = 224 then 160 \<le> n \<and> n < 192
          else if lead = 237 then 128 \<le> n \<and> n < 160
          else if lead = 240 then 144 \<le> n \<and> n < 192
          else if lead = 244 then 128 \<le> n \<and> n < 144
          else 128 \<le> n \<and> n < 192))"

definition head_is :: "(char \<Rightarrow> bool) \<Rightarrow> string \<Rightarrow> bool" where
  "head_is P s = (case s of [] \<Rightarrow> False | c # _ \<Rightarrow> P c)"

text \<open>The first character: whether it is a whole one, and its bytes (or those of the broken start).\<close>

definition utf8_head :: "char \<Rightarrow> string \<Rightarrow> bool \<times> nat" where
  "utf8_head c s =
     (let n = (of_char c :: nat)
      in if n < 128 then (True, 1)
         else if 194 \<le> n \<and> n \<le> 223 then (if head_is utf8_cont s then (True, 2) else (False, 1))
         else if 224 \<le> n \<and> n \<le> 239 then
           (if \<not> head_is (utf8_second n) s then (False, 1)
            else if head_is utf8_cont (drop 1 s) then (True, 3) else (False, 2))
         else if 240 \<le> n \<and> n \<le> 244 then
           (if \<not> head_is (utf8_second n) s then (False, 1)
            else if \<not> head_is utf8_cont (drop 1 s) then (False, 2)
            else if head_is utf8_cont (drop 2 s) then (True, 4) else (False, 3))
         else (False, 1))"

lemma utf8_head_pos: "0 < snd (utf8_head c s)"
  by (simp add: utf8_head_def Let_def)

function valid_utf8 :: "string \<Rightarrow> bool" where
  "valid_utf8 [] = True"
| "valid_utf8 (c # s) = (fst (utf8_head c s) \<and> valid_utf8 (drop (snd (utf8_head c s)) (c # s)))"
  by pat_completeness auto
termination by (relation "measure length") (use utf8_head_pos in \<open>auto simp: Suc_le_eq\<close>)

definition replacement :: string where "replacement = [CHR 0xEF, CHR 0xBF, CHR 0xBD]"

function from_utf8_lossy :: "string \<Rightarrow> string" where
  "from_utf8_lossy [] = []"
| "from_utf8_lossy (c # s) =
     (case utf8_head c s of (whole, k) \<Rightarrow>
       (if whole then take k (c # s) else replacement) @ from_utf8_lossy (drop k (c # s)))"
  by pat_completeness auto
termination
proof (relation "measure length")
  fix c s w k
  assume "(w, k) = utf8_head c s"
  then have "0 < k" using utf8_head_pos[of c s] by (metis snd_conv)
  then show "(drop k (c # s), c # s) \<in> measure length" by auto
qed simp

declare valid_utf8.simps(2) [simp del] from_utf8_lossy.simps(2) [simp del]

lemma lossy_of_valid: "valid_utf8 s \<Longrightarrow> from_utf8_lossy s = s"
proof (induction s rule: valid_utf8.induct)
  case (2 c s)
  obtain w k where h: "utf8_head c s = (w, k)" by fastforce
  from 2(2) h have "w" "valid_utf8 (drop k (c # s))" by (simp_all add: valid_utf8.simps(2))
  then have "from_utf8_lossy (drop k (c # s)) = drop k (c # s)" using 2(1) h by simp
  then have "from_utf8_lossy (c # s) = take k (c # s) @ drop k (c # s)"
    using \<open>w\<close> h by (simp add: from_utf8_lossy.simps(2))
  then show ?case by (simp only: append_take_drop_id)
qed simp

lemma ascii_valid: "is_ascii_str s \<Longrightarrow> valid_utf8 s"
  by (induction s) (auto simp: is_ascii_str_def valid_utf8.simps(2) utf8_head_def Let_def)

end
