(* ===== verification/Gguf.thy ===== *)
theory Gguf imports Utf8 "HOL-Library.Monad_Syntax" begin

text \<open>
  The reader of model files (\<open>runtime/gguf.rs\<close>): the header of a \<open>.gguf\<close> file is a list of pairs of
  a key and a typed value, and the reader steps over all of them and keeps the few it wants.  Every
  failure is \<open>None\<close>, so no position survives one.  Sums that Rust checks (\<open>checked_add\<close>,
  \<open>checked_mul\<close>) are checked here; the subtractions \<open>len - pos\<close> never go below zero
  (\<open>reader_stays_inside\<close>).
\<close>

definition GGUF_MAGIC :: string where "GGUF_MAGIC = ''GGUF''"

definition T_STRING :: nat where "T_STRING = 8"
definition T_ARRAY :: nat where "T_ARRAY = 9"
definition MAX_TEXT :: nat where "MAX_TEXT = 1024"
definition MAX_DEPTH :: nat where "MAX_DEPTH = 4"
definition MAX_LAYERS :: nat where "MAX_LAYERS = 4096"
definition MAX_TEMPLATE :: nat where "MAX_TEMPLATE = 1048576"
definition CHAT_TEMPLATE :: string where "CHAT_TEMPLATE = ''tokenizer.chat_template''"

record gguf_meta =
  gm_arch :: string
  gm_trained_ctx :: nat
  gm_n_layer :: nat
  gm_n_embd :: nat
  gm_head_count :: "nat list"
  gm_head_count_kv :: "nat list"
  gm_key_length :: nat
  gm_value_length :: nat
  gm_template_tools :: "bool option"

datatype found = FoundInt nat | FoundInts "nat list"

definition SUFFIXES :: "string list" where
  "SUFFIXES = [''.context_length'', ''.embedding_length'', ''.block_count'', ''.attention.head_count'',
     ''.attention.head_count_kv'', ''.attention.key_length'', ''.attention.value_length'']"

definition takes_tools :: "gguf_meta option \<Rightarrow> bool" where
  "takes_tools m =
     (case Option.bind m gm_template_tools of None \<Rightarrow> True | Some yes \<Rightarrow> yes)"

section \<open>The reader\<close>

text \<open>What is left to read, how far the reader is, and the size of the whole file.\<close>

record reader =
  rd_rest :: string
  rd_pos :: nat
  rd_len :: nat

definition checked_add :: "nat \<Rightarrow> nat \<Rightarrow> nat option" where
  "checked_add a b = (if a + b < 2 ^ 64 then Some (a + b) else None)"

definition checked_mul :: "nat \<Rightarrow> nat \<Rightarrow> nat option" where
  "checked_mul a b = (if a * b < 2 ^ 64 then Some (a * b) else None)"

definition advance :: "nat \<Rightarrow> reader \<Rightarrow> reader" where
  "advance n c = c\<lparr>rd_rest := drop n (rd_rest c), rd_pos := rd_pos c + n\<rparr>"

definition rd_bytes :: "nat \<Rightarrow> reader \<Rightarrow> (string \<times> reader) option" where
  "rd_bytes n c =
     do { e \<leftarrow> checked_add (rd_pos c) n;
          if rd_len c < e then None
          else if length (rd_rest c) < n then None
          else Some (take n (rd_rest c), advance n c) }"

definition le_value :: "string \<Rightarrow> nat" where
  "le_value bs = foldr (\<lambda>c v. of_char c + 256 * v) bs 0"

definition rd_u32 :: "reader \<Rightarrow> (nat \<times> reader) option" where
  "rd_u32 c = map_option (map_prod le_value id) (rd_bytes 4 c)"

definition rd_u64 :: "reader \<Rightarrow> (nat \<times> reader) option" where
  "rd_u64 c = map_option (map_prod le_value id) (rd_bytes 8 c)"

text \<open>A seek may go past the end of what is there, so \<open>skip\<close> only looks at the size of the file.\<close>

definition rd_skip :: "nat \<Rightarrow> reader \<Rightarrow> reader option" where
  "rd_skip n c =
     do { e \<leftarrow> checked_add (rd_pos c) n;
          if rd_len c < e then None
          else if 2 ^ 63 \<le> n then None
          else Some (advance n c) }"

definition rd_text :: "reader \<Rightarrow> (string \<times> reader) option" where
  "rd_text c =
     do { (n, c) \<leftarrow> rd_u64 c;
          if MAX_TEXT < n then None
          else do { (b, c) \<leftarrow> rd_bytes n c; if valid_utf8 b then Some (b, c) else None } }"

text \<open>An integer of \<open>w\<close> bytes; a signed one below zero has no \<open>u64\<close>.\<close>

definition rd_unsigned :: "nat \<Rightarrow> reader \<Rightarrow> (nat \<times> reader) option" where
  "rd_unsigned w c = map_option (map_prod le_value id) (rd_bytes w c)"

definition rd_signed :: "nat \<Rightarrow> reader \<Rightarrow> (nat \<times> reader) option" where
  "rd_signed w c =
     do { (b, c) \<leftarrow> rd_bytes w c;
          if le_value b < 2 ^ (8 * w - 1) then Some (le_value b, c) else None }"

definition rd_int :: "nat \<Rightarrow> reader \<Rightarrow> (nat \<times> reader) option" where
  "rd_int ty c =
     (if ty = 0 then rd_unsigned 1 c else if ty = 1 then rd_signed 1 c
      else if ty = 2 then rd_unsigned 2 c else if ty = 3 then rd_signed 2 c
      else if ty = 4 then rd_u32 c else if ty = 5 then rd_signed 4 c
      else if ty = 10 then rd_u64 c else if ty = 11 then rd_signed 8 c
      else None)"

definition is_int :: "nat \<Rightarrow> bool" where
  "is_int ty \<longleftrightarrow> ty \<le> 5 \<or> ty = 10 \<or> ty = 11"

definition fixed_size :: "nat \<Rightarrow> nat option" where
  "fixed_size ty =
     (if ty = 0 \<or> ty = 1 \<or> ty = 7 then Some 1
      else if ty = 2 \<or> ty = 3 then Some 2
      else if 4 \<le> ty \<and> ty \<le> 6 then Some 4
      else if 10 \<le> ty \<and> ty \<le> 12 then Some 8
      else None)"

function skip_value :: "nat \<Rightarrow> nat \<Rightarrow> reader \<Rightarrow> reader option"
  and skip_elements :: "nat \<Rightarrow> nat \<Rightarrow> nat \<Rightarrow> reader \<Rightarrow> reader option"
  and skip_times :: "nat \<Rightarrow> nat \<Rightarrow> nat \<Rightarrow> reader \<Rightarrow> reader option" where
  "skip_value ty depth c =
     (case fixed_size ty of
        Some sz \<Rightarrow> rd_skip sz c
      | None \<Rightarrow>
          if ty = T_STRING then do { (n, c) \<leftarrow> rd_u64 c; rd_skip n c }
          else if ty = T_ARRAY then
            do { (elem, c) \<leftarrow> rd_u32 c; (count, c) \<leftarrow> rd_u64 c; skip_elements elem count depth c }
          else None)"
| "skip_elements elem count depth c =
     (if MAX_DEPTH \<le> depth then None
      else case fixed_size elem of
        Some sz \<Rightarrow> do { n \<leftarrow> checked_mul count sz; rd_skip n c }
      | None \<Rightarrow>
          do { need \<leftarrow> checked_mul count 8;
               if rd_len c - rd_pos c < need then None
               else skip_times elem count (depth + 1) c })"
| "skip_times elem count depth c =
     (if count = 0 then Some c
      else do { c \<leftarrow> skip_value elem depth c; skip_times elem (count - 1) depth c })"
  by pat_completeness auto
termination
  by (relation "measures
        [\<lambda>x. case x of Inl (_, d, _) \<Rightarrow> MAX_DEPTH - d | Inr (Inl (_, _, d, _)) \<Rightarrow> MAX_DEPTH - d
               | Inr (Inr (_, _, d, _)) \<Rightarrow> MAX_DEPTH - d,
         \<lambda>x. case x of Inl _ \<Rightarrow> 1 | Inr (Inl _) \<Rightarrow> 0 | Inr (Inr _) \<Rightarrow> 2,
         \<lambda>x. case x of Inr (Inr (_, n, _, _)) \<Rightarrow> n | _ \<Rightarrow> 0]") auto

declare skip_value.simps [simp del] skip_elements.simps [simp del] skip_times.simps [simp del]

section \<open>The pairs\<close>

record header =
  hd_arch :: "string option"
  hd_found :: "string \<rightharpoonup> found"
  hd_template :: "string option"

definition empty_header :: header where
  "empty_header = \<lparr>hd_arch = None, hd_found = (\<lambda>_. None), hd_template = None\<rparr>"

primrec rd_ints :: "nat \<Rightarrow> nat \<Rightarrow> reader \<Rightarrow> (nat list \<times> reader) option" where
  "rd_ints 0 elem c = Some ([], c)"
| "rd_ints (Suc n) elem c =
     do { (v, c) \<leftarrow> rd_int elem c; (vs, c) \<leftarrow> rd_ints n elem c; Some (v # vs, c) }"

definition rd_wanted_array :: "string \<Rightarrow> header \<Rightarrow> reader \<Rightarrow> (header \<times> reader) option" where
  "rd_wanted_array key st c =
     do { (elem, c) \<leftarrow> rd_u32 c;
          (count, c) \<leftarrow> rd_u64 c;
          let step_over = map_option (Pair st) (skip_elements elem count 0 c);
          case (if is_int elem then fixed_size elem else None) of
            Some sz \<Rightarrow>
              if MAX_LAYERS < count then step_over
              else do { need \<leftarrow> checked_mul count sz;
                        if need \<le> rd_len c - rd_pos c
                        then do { (vs, c) \<leftarrow> rd_ints count elem c;
                                  Some (st\<lparr>hd_found := (hd_found st)(key \<mapsto> FoundInts vs)\<rparr>, c) }
                        else step_over }
          | None \<Rightarrow> step_over }"

definition rd_pair :: "header \<Rightarrow> reader \<Rightarrow> (header \<times> reader) option" where
  "rd_pair st c =
     do { (key, c) \<leftarrow> rd_text c;
          (ty, c) \<leftarrow> rd_u32 c;
          let step_over = map_option (Pair st) (skip_value ty 0 c);
          if key = ''general.architecture'' then
            (if ty \<noteq> T_STRING then None
             else do { (a, c) \<leftarrow> rd_text c; Some (st\<lparr>hd_arch := Some a\<rparr>, c) })
          else if key = CHAT_TEMPLATE \<and> ty = T_STRING then
            do { (n, c) \<leftarrow> rd_u64 c;
                 if n \<le> MAX_TEMPLATE
                 then do { (b, c) \<leftarrow> rd_bytes n c; Some (st\<lparr>hd_template := Some (from_utf8_lossy b)\<rparr>, c) }
                 else map_option (Pair st) (rd_skip n c) }
          else if list_ex (ends_with key) SUFFIXES then
            (if ty = T_ARRAY then rd_wanted_array key st c
             else if is_int ty then
               do { (v, c) \<leftarrow> rd_int ty c; Some (st\<lparr>hd_found := (hd_found st)(key \<mapsto> FoundInt v)\<rparr>, c) }
             else step_over)
          else step_over }"

primrec rd_pairs :: "nat \<Rightarrow> header \<Rightarrow> reader \<Rightarrow> (header \<times> reader) option" where
  "rd_pairs 0 st c = Some (st, c)"
| "rd_pairs (Suc n) st c = do { (st, c) \<leftarrow> rd_pair st c; rd_pairs n st c }"

definition rd_header :: "string \<Rightarrow> nat \<Rightarrow> (header \<times> reader) option" where
  "rd_header bytes len =
     do { (m, c) \<leftarrow> rd_bytes 4 \<lparr>rd_rest = bytes, rd_pos = 0, rd_len = len\<rparr>;
          if m \<noteq> GGUF_MAGIC then None
          else do { (version, c) \<leftarrow> rd_u32 c;
                    if version \<noteq> 2 \<and> version \<noteq> 3 then None
                    else do { (_, c) \<leftarrow> rd_u64 c;
                              (pairs, c) \<leftarrow> rd_u64 c;
                              need \<leftarrow> checked_mul pairs 12;
                              if len < need then None else rd_pairs pairs empty_header c } } }"

section \<open>What was found\<close>

definition try_u32 :: "nat \<Rightarrow> nat option" where
  "try_u32 n = (if n < 2 ^ 32 then Some n else None)"

definition found_u32 :: "(string \<rightharpoonup> found) \<Rightarrow> string \<Rightarrow> string \<Rightarrow> nat option" where
  "found_u32 f arch suffix = (case f (arch @ suffix) of Some (FoundInt v) \<Rightarrow> try_u32 v | _ \<Rightarrow> None)"

text \<open>\<open>None\<close>: the file is wrong; \<open>Some None\<close>: it says nothing.\<close>

definition per_layer :: "(string \<rightharpoonup> found) \<Rightarrow> string \<Rightarrow> nat \<Rightarrow> string \<Rightarrow> nat list option option" where
  "per_layer f arch n_layer suffix =
     (case f (arch @ suffix) of
        None \<Rightarrow> Some None
      | Some (FoundInt v) \<Rightarrow> map_option (\<lambda>n. Some (replicate n_layer n)) (try_u32 v)
      | Some (FoundInts v) \<Rightarrow>
          if length v = n_layer then map_option Some (those (map try_u32 v)) else None)"

definition positive :: "nat option \<Rightarrow> nat option" where
  "positive r = Option.bind r (\<lambda>n. if 0 < n then Some n else None)"

definition unwrap_or :: "'a option \<Rightarrow> 'a \<Rightarrow> 'a" where
  "unwrap_or r d = (case r of None \<Rightarrow> d | Some x \<Rightarrow> x)"

definition gguf_resolve :: "header \<Rightarrow> gguf_meta option" where
  "gguf_resolve st =
     do { arch \<leftarrow> hd_arch st;
          let num = found_u32 (hd_found st) arch;
          trained_ctx \<leftarrow> positive (num ''.context_length'');
          n_embd \<leftarrow> positive (num ''.embedding_length'');
          n_layer \<leftarrow> Option.bind (num ''.block_count'') (\<lambda>n. if 1 \<le> n \<and> n \<le> MAX_LAYERS then Some n else None);
          given \<leftarrow> per_layer (hd_found st) arch n_layer ''.attention.head_count'';
          head_count \<leftarrow> given;
          kv \<leftarrow> per_layer (hd_found st) arch n_layer ''.attention.head_count_kv'';
          heads \<leftarrow> List.find (\<lambda>n. 0 < n) head_count;
          Some \<lparr>gm_arch = arch, gm_trained_ctx = trained_ctx, gm_n_layer = n_layer, gm_n_embd = n_embd,
                gm_head_count = head_count, gm_head_count_kv = unwrap_or kv head_count,
                gm_key_length = unwrap_or (num ''.attention.key_length'') (n_embd div heads),
                gm_value_length = unwrap_or (num ''.attention.value_length'') (n_embd div heads),
                gm_template_tools = map_option (\<lambda>t. str_contains t ''tool'') (hd_template st)\<rparr> }"

definition gguf_parse :: "string \<Rightarrow> nat \<Rightarrow> gguf_meta option" where
  "gguf_parse bytes len = Option.bind (rd_header bytes len) (\<lambda>(st, _). gguf_resolve st)"

section \<open>The cache\<close>

text \<open>
  The answers so far by path, each with the time the file had; the files are arguments: when one
  was changed, and its bytes and size when it opens.
\<close>

type_synonym gguf_cache = "string \<rightharpoonup> nat \<times> gguf_meta option"

definition read_gguf_header ::
  "(string \<Rightarrow> nat option) \<Rightarrow> (string \<Rightarrow> (string \<times> nat) option) \<Rightarrow> gguf_cache \<Rightarrow> string
     \<Rightarrow> gguf_cache \<times> gguf_meta option" where
  "read_gguf_header changed opened cache p =
     (case changed p of
        None \<Rightarrow> (cache, None)
      | Some t \<Rightarrow>
          (let fresh = Option.bind (opened p) (\<lambda>(bytes, len). gguf_parse bytes len)
           in case cache p of
                Some (s, meta) \<Rightarrow> if s = t then (cache, meta) else (cache(p \<mapsto> (t, fresh)), fresh)
              | None \<Rightarrow> (cache(p \<mapsto> (t, fresh)), fresh)))"

end
