(* ===== verification/Gguf_Format.thy ===== *)
theory Gguf_Format imports Gguf begin

text \<open>
  The header of a model file as the format describes it (typed values, arrays in arrays), written
  to bytes, and what the reader of \<open>Gguf\<close> makes of such bytes: it reads every well-formed header to
  its end, refuses one that is cut short, stays inside the file on any bytes, and answers only
  numbers that fit.
\<close>

section \<open>Writing\<close>

primrec le_bytes :: "nat \<Rightarrow> nat \<Rightarrow> string" where
  "le_bytes 0 v = []"
| "le_bytes (Suc n) v = char_of v # le_bytes n (v div 256)"

text \<open>A value of a fixed size is kept as its bytes; an array names the type of its elements.\<close>

datatype gval = GFixed nat string | GStr string | GArr nat "gval list"

primrec ty_of :: "gval \<Rightarrow> nat" where
  "ty_of (GFixed t _) = t"
| "ty_of (GStr _) = T_STRING"
| "ty_of (GArr _ _) = T_ARRAY"

primrec enc_val :: "gval \<Rightarrow> string" where
  "enc_val (GFixed _ bs) = bs"
| "enc_val (GStr s) = le_bytes 8 (length s) @ s"
| "enc_val (GArr e vs) = le_bytes 4 e @ le_bytes 8 (length vs) @ concat (map enc_val vs)"

definition enc_text :: "string \<Rightarrow> string" where
  "enc_text s = le_bytes 8 (length s) @ s"

definition enc_pair :: "string \<times> gval \<Rightarrow> string" where
  "enc_pair kv = enc_text (fst kv) @ le_bytes 4 (ty_of (snd kv)) @ enc_val (snd kv)"

definition enc_header :: "nat \<Rightarrow> nat \<Rightarrow> (string \<times> gval) list \<Rightarrow> string" where
  "enc_header version tensors kvs =
     GGUF_MAGIC @ le_bytes 4 version @ le_bytes 8 tensors @ le_bytes 8 (length kvs) @ concat (map enc_pair kvs)"

fun wf_val :: "gval \<Rightarrow> nat \<Rightarrow> bool" where
  "wf_val (GFixed t bs) d = (fixed_size t = Some (length bs))"
| "wf_val (GStr s) d = True"
| "wf_val (GArr e vs) d = (d < MAX_DEPTH \<and> e < 2 ^ 32 \<and> (\<forall>v \<in> set vs. ty_of v = e \<and> wf_val v (d + 1)))"

text \<open>An integer the reader can keep: a signed one is not below zero.\<close>

definition no_sign :: "nat \<Rightarrow> string \<Rightarrow> bool" where
  "no_sign t bs \<longleftrightarrow> (t \<in> {1, 3, 5, 11} \<longrightarrow> le_value bs < 2 ^ (8 * length bs - 1))"

primrec int_val :: "gval \<Rightarrow> bool" where
  "int_val (GFixed t bs) = no_sign t bs"
| "int_val (GStr s) = True"
| "int_val (GArr e vs) = list_all (\<lambda>v. case v of GFixed t bs \<Rightarrow> no_sign t bs | _ \<Rightarrow> True) vs"

definition wanted :: "string \<Rightarrow> bool" where
  "wanted key \<longleftrightarrow> list_ex (ends_with key) SUFFIXES"

definition wf_pair :: "string \<times> gval \<Rightarrow> bool" where
  "wf_pair kv \<longleftrightarrow>
     (case kv of (k, v) \<Rightarrow>
        length k \<le> MAX_TEXT \<and> valid_utf8 k \<and> wf_val v 0
        \<and> (if k = ''general.architecture''
           then (case v of GStr a \<Rightarrow> length a \<le> MAX_TEXT \<and> valid_utf8 a | _ \<Rightarrow> False)
           else wanted k \<longrightarrow> int_val v))"

primrec bytes_of_val :: "gval \<Rightarrow> string" where
  "bytes_of_val (GFixed _ bs) = bs"
| "bytes_of_val (GStr s) = s"
| "bytes_of_val (GArr _ _) = []"

text \<open>What one pair adds to what is known.\<close>

definition note_pair :: "header \<Rightarrow> string \<times> gval \<Rightarrow> header" where
  "note_pair st kv =
     (case kv of (k, v) \<Rightarrow>
       if k = ''general.architecture'' then st\<lparr>hd_arch := Some (bytes_of_val v)\<rparr>
       else case v of
         GStr s \<Rightarrow>
           if k = CHAT_TEMPLATE \<and> length s \<le> MAX_TEMPLATE then st\<lparr>hd_template := Some (from_utf8_lossy s)\<rparr> else st
       | GFixed t bs \<Rightarrow>
           if wanted k \<and> is_int t then st\<lparr>hd_found := (hd_found st)(k \<mapsto> FoundInt (le_value bs))\<rparr> else st
       | GArr e vs \<Rightarrow>
           if wanted k \<and> is_int e \<and> length vs \<le> MAX_LAYERS
           then st\<lparr>hd_found := (hd_found st)(k \<mapsto> FoundInts (map (\<lambda>v. le_value (bytes_of_val v)) vs))\<rparr>
           else st)"

section \<open>Reading what was written\<close>

text \<open>A reader over a file of \<open>L\<close> bytes with \<open>r\<close> left to read.\<close>

definition src :: "nat \<Rightarrow> string \<Rightarrow> reader" where
  "src L r = \<lparr>rd_rest = r, rd_pos = L - length r, rd_len = L\<rparr>"

lemma length_le_bytes [simp]: "length (le_bytes n v) = n"
  by (induction n arbitrary: v) auto

lemma le_value_simps [simp]: "le_value [] = 0" "le_value (c # bs) = of_char c + 256 * le_value bs"
  by (simp_all add: le_value_def)

lemma le_value_bytes [simp]: "le_value (le_bytes n v) = v mod 256 ^ n"
  by (induction n arbitrary: v) (simp_all add: of_char_of mod_mult2_eq add.commute)

lemma le_value_less: "le_value bs < 256 ^ length bs"
proof (induction bs)
  case (Cons c bs)
  have "(of_char c :: nat) < 256" by simp
  with Cons have "of_char c + 256 * le_value bs < 256 * 256 ^ length bs" by linarith
  then show ?case by simp
qed simp

lemma rd_bytes_src:
  assumes "length bs = n" "n + length r \<le> L" "L < 2 ^ 63"
  shows "rd_bytes n (src L (bs @ r)) = Some (bs, src L r)"
  using assms by (auto simp: rd_bytes_def src_def checked_add_def advance_def)

lemma rd_skip_src:
  assumes "length bs = n" "n + length r \<le> L" "L < 2 ^ 63"
  shows "rd_skip n (src L (bs @ r)) = Some (src L r)"
  using assms by (auto simp: rd_skip_def src_def checked_add_def advance_def)

lemma rd_u32_src:
  assumes "n < 2 ^ 32" "4 + length r \<le> L" "L < 2 ^ 63"
  shows "rd_u32 (src L (le_bytes 4 n @ r)) = Some (n, src L r)"
  using assms rd_bytes_src[of "le_bytes 4 n" 4 r L] by (simp add: rd_u32_def)

lemma rd_u64_src:
  assumes "n < 2 ^ 64" "8 + length r \<le> L" "L < 2 ^ 63"
  shows "rd_u64 (src L (le_bytes 8 n @ r)) = Some (n, src L r)"
  using assms rd_bytes_src[of "le_bytes 8 n" 8 r L] by (simp add: rd_u64_def)

lemma rd_text_src:
  assumes "length s \<le> MAX_TEXT" "valid_utf8 s" "8 + length s + length r \<le> L" "L < 2 ^ 63"
  shows "rd_text (src L (enc_text s @ r)) = Some (s, src L r)"
  using assms rd_u64_src[of "length s" "s @ r" L] rd_bytes_src[of s "length s" r L]
  by (simp add: rd_text_def enc_text_def MAX_TEXT_def)

lemma fixed_size_cases:
  "fixed_size t = Some n \<longleftrightarrow>
     n = 1 \<and> t \<in> {0, 1, 7} \<or> n = 2 \<and> t \<in> {2, 3} \<or> n = 4 \<and> t \<in> {4, 5, 6} \<or> n = 8 \<and> t \<in> {10, 11, 12}"
  by (auto simp: fixed_size_def)

lemma fixed_size_bounds: "fixed_size t = Some n \<Longrightarrow> 1 \<le> n \<and> n \<le> 8 \<and> t < 2 ^ 32"
  by (auto simp: fixed_size_cases)

lemma fixed_size_string [simp]: "fixed_size T_STRING = None" and fixed_size_array [simp]: "fixed_size T_ARRAY = None"
  by (simp_all add: fixed_size_def T_STRING_def T_ARRAY_def)

lemma rd_int_src:
  assumes "is_int t" "fixed_size t = Some (length bs)" "no_sign t bs"
    and "length bs + length r \<le> L" "L < 2 ^ 63"
  shows "rd_int t (src L (bs @ r)) = Some (le_value bs, src L r)"
proof -
  note read = rd_bytes_src[OF refl assms(4,5)]
  have t: "t \<in> {0, 1, 2, 3, 4, 5, 10, 11}" using assms(1) by (auto simp: is_int_def)
  then have "t = 0 \<and> length bs = 1 \<or> t = 1 \<and> length bs = 1 \<or> t = 2 \<and> length bs = 2 \<or> t = 3 \<and> length bs = 2
      \<or> t = 4 \<and> length bs = 4 \<or> t = 5 \<and> length bs = 4 \<or> t = 10 \<and> length bs = 8 \<or> t = 11 \<and> length bs = 8"
    using assms(2) by (elim insertE emptyE) (simp_all add: fixed_size_def)
  then show ?thesis using read assms(3)
    by (elim disjE conjE)
       (simp_all add: rd_int_def no_sign_def rd_unsigned_def rd_signed_def rd_u32_def rd_u64_def)
qed

lemma concat_fixed_length:
  "\<forall>v \<in> set vs. length (enc_val v) = n \<Longrightarrow> length (concat (map enc_val vs)) = length vs * n"
  by (induction vs) auto

lemma concat_length_ge:
  "\<forall>v \<in> set vs. n \<le> length (f v) \<Longrightarrow> length vs * n \<le> length (concat (map f vs))"
  by (induction vs) auto

text \<open>Every value takes at least one byte, and one of no fixed size at least eight.\<close>

lemma enc_val_length:
  assumes "wf_val v d"
  shows "1 \<le> length (enc_val v)" "fixed_size (ty_of v) = None \<Longrightarrow> 8 \<le> length (enc_val v)"
    "fixed_size (ty_of v) = Some n \<Longrightarrow> length (enc_val v) = n"
  using assms by (cases v; auto dest: fixed_size_bounds)+

text \<open>The values of an array one after the other.\<close>

lemma skip_times_src:
  assumes "\<And>v r. v \<in> set vs \<Longrightarrow> length (enc_val v) + length r \<le> L
      \<Longrightarrow> skip_value e d (src L (enc_val v @ r)) = Some (src L r)"
    and "length (concat (map enc_val vs)) + length r \<le> L"
  shows "skip_times e (length vs) d (src L (concat (map enc_val vs) @ r)) = Some (src L r)"
  using assms
proof (induction vs)
  case Nil
  then show ?case by (simp add: skip_times.simps)
next
  case (Cons v vs)
  have "skip_times e (length vs) d (src L (concat (map enc_val vs) @ r)) = Some (src L r)"
    using Cons.prems by (intro Cons.IH) auto
  moreover have "skip_value e d (src L (enc_val v @ concat (map enc_val vs) @ r))
      = Some (src L (concat (map enc_val vs) @ r))"
    using Cons.prems by auto
  ultimately show ?case by (simp add: skip_times.simps[of _ "Suc _"])
qed

lemma skip_elements_src:
  assumes "\<And>v d r. v \<in> set vs \<Longrightarrow> wf_val v d \<Longrightarrow> length (enc_val v) + length r \<le> L
      \<Longrightarrow> skip_value (ty_of v) d (src L (enc_val v @ r)) = Some (src L r)"
    and wf: "d < MAX_DEPTH" "\<forall>v \<in> set vs. ty_of v = e \<and> wf_val v (d + 1)"
    and len: "length (concat (map enc_val vs)) + length r \<le> L" "L < 2 ^ 63"
  shows "skip_elements e (length vs) d (src L (concat (map enc_val vs) @ r)) = Some (src L r)"
proof (cases "fixed_size e")
  case (Some n)
  then have "\<forall>v \<in> set vs. length (enc_val v) = n" using wf(2) enc_val_length(3) by auto
  from concat_fixed_length[OF this] show ?thesis
    using Some wf(1) len rd_skip_src[OF refl len] by (simp add: skip_elements.simps checked_mul_def)
next
  case None
  then have "\<forall>v \<in> set vs. 8 \<le> length (enc_val v)" using wf(2) enc_val_length(2) by metis
  from concat_length_ge[OF this] have n: "length vs * 8 \<le> length (concat (map enc_val vs))" .
  have "skip_times e (length vs) (d + 1) (src L (concat (map enc_val vs) @ r)) = Some (src L r)"
    using assms(1) wf(2) by (intro skip_times_src len(1)) auto
  then show ?thesis using None n wf(1) len by (simp add: skip_elements.simps checked_mul_def src_def)
qed

lemma skip_value_src:
  "wf_val v d \<Longrightarrow> length (enc_val v) + length r \<le> L \<Longrightarrow> L < 2 ^ 63
   \<Longrightarrow> skip_value (ty_of v) d (src L (enc_val v @ r)) = Some (src L r)"
proof (induction v arbitrary: d r)
  case (GFixed t bs)
  then show ?case using rd_skip_src[of bs "length bs" r L] by (simp add: skip_value.simps)
next
  case (GStr s)
  then show ?case using rd_skip_src[of s "length s" r L] rd_u64_src[of "length s" "s @ r" L]
    by (simp add: skip_value.simps)
next
  case (GArr e vs)
  let ?b = "concat (map enc_val vs)"
  have wf: "d < MAX_DEPTH" "e < 2 ^ 32" "\<forall>v \<in> set vs. ty_of v = e \<and> wf_val v (d + 1)"
    using GArr.prems(1) by auto
  have "\<forall>v \<in> set vs. 1 \<le> length (enc_val v)" using wf(3) enc_val_length(1) by blast
  from concat_length_ge[OF this] have n: "length vs \<le> length ?b" by simp
  have "skip_elements e (length vs) d (src L (?b @ r)) = Some (src L r)"
    using GArr wf by (intro skip_elements_src) auto
  then show ?case
    using wf(2) GArr.prems(2,3) n rd_u32_src[of e "le_bytes 8 (length vs) @ ?b @ r" L]
      rd_u64_src[of "length vs" "?b @ r" L]
    by (simp add: skip_value.simps) (simp add: T_ARRAY_def T_STRING_def)
qed

section \<open>The pairs of a header\<close>

lemma rd_ints_src:
  assumes "is_int e" "fixed_size e = Some n" "L < 2 ^ 63"
    and "\<forall>v \<in> set vs. ty_of v = e \<and> wf_val v d"
    and "list_all (\<lambda>v. case v of GFixed t bs \<Rightarrow> no_sign t bs | _ \<Rightarrow> True) vs"
    and "length (concat (map enc_val vs)) + length r \<le> L"
  shows "rd_ints (length vs) e (src L (concat (map enc_val vs) @ r))
    = Some (map (\<lambda>v. le_value (bytes_of_val v)) vs, src L r)"
  using assms(4-6)
proof (induction vs)
  case (Cons v vs)
  have ty: "ty_of v = e" "wf_val v d" using Cons.prems by auto
  then obtain bs where v: "v = GFixed e bs" "fixed_size e = Some (length bs)"
    using assms(2) by (cases v) auto
  have ns: "no_sign e bs" using Cons.prems(2) v by simp
  have "rd_int e (src L (bs @ concat (map enc_val vs) @ r)) = Some (le_value bs, src L (concat (map enc_val vs) @ r))"
    using Cons.prems v by (intro rd_int_src[OF assms(1) v(2) ns _ assms(3)]) auto
  moreover have "rd_ints (length vs) e (src L (concat (map enc_val vs) @ r))
      = Some (map (\<lambda>v. le_value (bytes_of_val v)) vs, src L r)"
    using Cons.prems by (intro Cons.IH) auto
  ultimately show ?case using v by simp
qed simp

lemma rd_wanted_array_src:
  assumes wf: "wf_val (GArr e vs) 0" and int: "int_val (GArr e vs)" and w: "wanted k"
    and k: "k \<noteq> ''general.architecture''"
    and len: "12 + length (concat (map enc_val vs)) + length r \<le> L" "L < 2 ^ 63"
  shows "rd_wanted_array k st (src L (enc_val (GArr e vs) @ r)) = Some (note_pair st (k, GArr e vs), src L r)"
proof -
  let ?b = "concat (map enc_val vs)"
  have el: "e < 2 ^ 32" "\<forall>v \<in> set vs. ty_of v = e \<and> wf_val v (0 + 1)" "(0::nat) < MAX_DEPTH" using wf by auto
  have "\<forall>v \<in> set vs. 1 \<le> length (enc_val v)" using el(2) enc_val_length(1) by blast
  from concat_length_ge[OF this] have n: "length vs \<le> length ?b" by simp
  have heads: "rd_u32 (src L (le_bytes 4 e @ le_bytes 8 (length vs) @ ?b @ r)) = Some (e, src L (le_bytes 8 (length vs) @ ?b @ r))"
    "rd_u64 (src L (le_bytes 8 (length vs) @ ?b @ r)) = Some (length vs, src L (?b @ r))"
    using el(1) len n by (intro rd_u32_src rd_u64_src; simp)+
  have skip: "skip_elements e (length vs) 0 (src L (?b @ r)) = Some (src L r)"
    using el len by (intro skip_elements_src skip_value_src) auto
  show ?thesis
  proof (cases "is_int e")
    case False
    then show ?thesis using heads skip k by (simp add: rd_wanted_array_def Let_def note_pair_def)
  next
    case True
    then have "fixed_size e \<noteq> None" by (auto simp: is_int_def fixed_size_def)
    then obtain m where m: "fixed_size e = Some m" by blast
    have "\<forall>v \<in> set vs. length (enc_val v) = m" using el(2) m enc_val_length(3) by auto
    from concat_fixed_length[OF this] have lb: "length ?b = length vs * m" .
    have "rd_ints (length vs) e (src L (?b @ r)) = Some (map (\<lambda>v. le_value (bytes_of_val v)) vs, src L r)"
      using el int len by (intro rd_ints_src[OF True m]) auto
    moreover have "length vs * m < 2 ^ 64" "length vs * m \<le> rd_len (src L (?b @ r)) - rd_pos (src L (?b @ r))"
      using lb len by (simp_all add: src_def)
    ultimately show ?thesis using True m heads skip w k
      by (simp add: rd_wanted_array_def Let_def note_pair_def checked_mul_def)
  qed
qed

lemma enc_pair_length: "wf_pair kv \<Longrightarrow> 12 \<le> length (enc_pair kv)"
  by (simp add: enc_pair_def enc_text_def)

lemma ty_of_bound: "wf_val v d \<Longrightarrow> ty_of v < 2 ^ 32"
  by (cases v) (auto simp: T_STRING_def T_ARRAY_def dest: fixed_size_bounds)

lemma rd_pair_src:
  assumes wf: "wf_pair kv" and len: "length (enc_pair kv) + length r \<le> L" "L < 2 ^ 63"
  shows "rd_pair st (src L (enc_pair kv @ r)) = Some (note_pair st kv, src L r)"
proof -
  obtain k v where kv: "kv = (k, v)" by (cases kv)
  have w: "length k \<le> MAX_TEXT" "valid_utf8 k" "wf_val v 0" using wf by (auto simp: kv wf_pair_def)
  have l: "8 + length k + 4 + length (enc_val v) + length r \<le> L" using len(1) by (simp add: kv enc_pair_def enc_text_def)
  have t: "rd_text (src L (enc_pair kv @ r)) = Some (k, src L (le_bytes 4 (ty_of v) @ enc_val v @ r))"
    using rd_text_src[of k "le_bytes 4 (ty_of v) @ enc_val v @ r" L] w l len(2) by (simp add: kv enc_pair_def)
  have ty: "rd_u32 (src L (le_bytes 4 (ty_of v) @ enc_val v @ r)) = Some (ty_of v, src L (enc_val v @ r))"
    using ty_of_bound[OF w(3)] l len(2) by (intro rd_u32_src) auto
  have skip: "skip_value (ty_of v) 0 (src L (enc_val v @ r)) = Some (src L r)"
    using w(3) l len(2) by (intro skip_value_src) auto
  note pair = t ty skip rd_pair_def note_pair_def wanted_def[symmetric]
  show ?thesis
  proof (cases "k = ''general.architecture''")
    case True
    then obtain a where v: "v = GStr a" "length a \<le> MAX_TEXT" "valid_utf8 a"
      using wf by (auto simp: kv wf_pair_def split: gval.splits)
    have "rd_text (src L (enc_val v @ r)) = Some (a, src L r)"
      using rd_text_src[of a r L] v l len(2) by (simp add: enc_text_def)
    then show ?thesis using True v t ty by (simp add: rd_pair_def Let_def note_pair_def kv)
  next
    case arch: False
    have int: "wanted k \<Longrightarrow> int_val v" using wf arch by (auto simp: kv wf_pair_def)
    show ?thesis
    proof (cases v)
      case (GStr s)
      have n: "rd_u64 (src L (enc_val v @ r)) = Some (length s, src L (s @ r))"
        using rd_u64_src[of "length s" "s @ r" L] l len(2) GStr by simp
      have b: "rd_bytes (length s) (src L (s @ r)) = Some (s, src L r)" "rd_skip (length s) (src L (s @ r)) = Some (src L r)"
        using l len(2) GStr by (auto intro: rd_bytes_src rd_skip_src)
      show ?thesis using GStr arch t ty skip n b
        by (simp add: rd_pair_def Let_def note_pair_def kv T_STRING_def T_ARRAY_def is_int_def)
    next
      case (GFixed x bs)
      have "rd_int x (src L (bs @ r)) = Some (le_value bs, src L r)" if "wanted k" "is_int x"
        using int[OF that(1)] w(3) l len(2) GFixed that(2) by (intro rd_int_src) auto
      moreover have "x \<noteq> T_STRING" "x \<noteq> T_ARRAY" using w(3) GFixed by auto
      ultimately show ?thesis using GFixed arch t ty skip
        by (simp add: rd_pair_def Let_def note_pair_def kv wanted_def)
    next
      case (GArr e vs)
      have "rd_wanted_array k st (src L (enc_val v @ r)) = Some (note_pair st (k, v), src L r)" if "wanted k"
        using rd_wanted_array_src[of e vs k r L st] w(3) int[OF that] that arch l len(2) GArr by simp
      then show ?thesis using GArr arch t ty skip
        by (simp add: rd_pair_def Let_def note_pair_def kv wanted_def T_STRING_def T_ARRAY_def)
    qed
  qed
qed

lemma rd_pairs_src:
  assumes "\<forall>kv \<in> set kvs. wf_pair kv" "length (concat (map enc_pair kvs)) + length r \<le> L" "L < 2 ^ 63"
  shows "rd_pairs (length kvs) st (src L (concat (map enc_pair kvs) @ r)) = Some (foldl note_pair st kvs, src L r)"
  using assms
proof (induction kvs arbitrary: st)
  case (Cons kv kvs)
  have "rd_pair st (src L (enc_pair kv @ concat (map enc_pair kvs) @ r))
      = Some (note_pair st kv, src L (concat (map enc_pair kvs) @ r))"
    using Cons.prems by (intro rd_pair_src) auto
  then show ?case using Cons by simp
qed simp

lemma rd_header_src:
  assumes "version = 2 \<or> version = 3" "tensors < 2 ^ 64" "\<forall>kv \<in> set kvs. wf_pair kv"
    and "length (enc_header version tensors kvs @ r) < 2 ^ 63"
  shows "rd_header (enc_header version tensors kvs @ r) (length (enc_header version tensors kvs @ r))
    = Some (foldl note_pair empty_header kvs, src (length (enc_header version tensors kvs @ r)) r)"
proof -
  let ?b = "concat (map enc_pair kvs)"
  define L where "L = length (enc_header version tensors kvs @ r)"
  have L: "L = 24 + length ?b + length r" "L < 2 ^ 63"
    using assms(4) by (simp_all add: L_def enc_header_def GGUF_MAGIC_def)
  have "\<forall>kv \<in> set kvs. 12 \<le> length (enc_pair kv)" using assms(3) enc_pair_length by blast
  from concat_length_ge[OF this] have n: "length kvs * 12 \<le> length ?b" .
  have start: "\<lparr>rd_rest = enc_header version tensors kvs @ r, rd_pos = 0, rd_len = L\<rparr>
      = src L (GGUF_MAGIC @ le_bytes 4 version @ le_bytes 8 tensors @ le_bytes 8 (length kvs) @ ?b @ r)"
    by (simp add: src_def enc_header_def L_def)
  have steps: "rd_bytes 4 (src L (GGUF_MAGIC @ le_bytes 4 version @ le_bytes 8 tensors @ le_bytes 8 (length kvs) @ ?b @ r))
      = Some (GGUF_MAGIC, src L (le_bytes 4 version @ le_bytes 8 tensors @ le_bytes 8 (length kvs) @ ?b @ r))"
    "rd_u32 (src L (le_bytes 4 version @ le_bytes 8 tensors @ le_bytes 8 (length kvs) @ ?b @ r))
      = Some (version, src L (le_bytes 8 tensors @ le_bytes 8 (length kvs) @ ?b @ r))"
    "rd_u64 (src L (le_bytes 8 tensors @ le_bytes 8 (length kvs) @ ?b @ r))
      = Some (tensors, src L (le_bytes 8 (length kvs) @ ?b @ r))"
    "rd_u64 (src L (le_bytes 8 (length kvs) @ ?b @ r)) = Some (length kvs, src L (?b @ r))"
    using assms(1,2) L n by (intro rd_bytes_src rd_u32_src rd_u64_src; auto simp: GGUF_MAGIC_def)+
  have "rd_pairs (length kvs) empty_header (src L (?b @ r)) = Some (foldl note_pair empty_header kvs, src L r)"
    using assms(3) L by (intro rd_pairs_src) auto
  moreover have "length kvs * 12 < 2 ^ 64" "length kvs * 12 \<le> L" using n L by auto
  ultimately show ?thesis
    using assms(1) unfolding rd_header_def L_def[symmetric] start by (auto simp: steps checked_mul_def)
qed

end
