(* ===== verification/Gguf_Safety.thy ===== *)
theory Gguf_Safety imports Gguf_Format begin

text \<open>
  The reader of model files on bytes nobody vouches for: a header cut short is refused wherever the
  cut is, every loop is paid for by bytes of the file, no position leaves the file, and an answer
  has only numbers that fit.
\<close>

section \<open>More bytes change nothing that was read\<close>

text \<open>
  A reading step is steady when it takes bytes from the front and would take the same from a longer
  file.
\<close>

definition steady :: "(reader \<Rightarrow> ('x \<times> reader) option) \<Rightarrow> bool" where
  "steady g \<longleftrightarrow>
     (\<forall>L r x c'. length r \<le> L \<longrightarrow> L < 2 ^ 63 \<longrightarrow> g (src L r) = Some (x, c') \<longrightarrow>
        (\<exists>u r'. r = u @ r' \<and> c' = src L r' \<and>
           (\<forall>M t. length (r @ t) \<le> M \<longrightarrow> M < 2 ^ 63 \<longrightarrow> g (src M (r @ t)) = Some (x, src M (r' @ t)))))"

abbreviation steps :: "(reader \<Rightarrow> reader option) \<Rightarrow> reader \<Rightarrow> (unit \<times> reader) option" where
  "steps f \<equiv> (\<lambda>c. map_option (Pair ()) (f c))"

named_theorems steady_intro "how steps are put together"

lemma steadyI:
  assumes "\<And>L r x c'. length r \<le> L \<Longrightarrow> L < 2 ^ 63 \<Longrightarrow> g (src L r) = Some (x, c')
      \<Longrightarrow> \<exists>u r'. r = u @ r' \<and> c' = src L r' \<and>
           (\<forall>M t. length (r @ t) \<le> M \<longrightarrow> M < 2 ^ 63 \<longrightarrow> g (src M (r @ t)) = Some (x, src M (r' @ t)))"
  shows "steady g"
  using assms unfolding steady_def by blast

lemma steadyD:
  assumes "steady g" "length r \<le> L" "L < 2 ^ 63" "g (src L r) = Some (x, c')"
  obtains u r' where "r = u @ r'" "c' = src L r'"
    "\<And>M t. length (r @ t) \<le> M \<Longrightarrow> M < 2 ^ 63 \<Longrightarrow> g (src M (r @ t)) = Some (x, src M (r' @ t))"
  using assms unfolding steady_def by blast

lemma steady_none [steady_intro]: "steady (\<lambda>c. None)"
  by (rule steadyI) simp

lemma steady_return [steady_intro]: "steady (\<lambda>c. Some (x, c))"
  by (rule steadyI) auto

lemma steady_bind [steady_intro]:
  assumes "steady f" "\<And>x. steady (g x)"
  shows "steady (\<lambda>c. Option.bind (f c) (\<lambda>(x, c). g x c))"
proof (rule steadyI)
  fix L r y c'
  assume L: "length r \<le> L" "L < 2 ^ 63" and s: "Option.bind (f (src L r)) (\<lambda>(x, c). g x c) = Some (y, c')"
  then obtain x c1 where f: "f (src L r) = Some (x, c1)" and g: "g x c1 = Some (y, c')"
    by (auto simp: bind_eq_Some_conv)
  from steadyD[OF assms(1) L f] obtain u r1 where r1: "r = u @ r1" "c1 = src L r1"
    "\<And>M t. length (r @ t) \<le> M \<Longrightarrow> M < 2 ^ 63 \<Longrightarrow> f (src M (r @ t)) = Some (x, src M (r1 @ t))" by blast
  have "length r1 \<le> L" using r1(1) L(1) by simp
  from steadyD[OF assms(2) this L(2) g[unfolded r1(2)]] obtain v r' where r': "r1 = v @ r'" "c' = src L r'"
    "\<And>M t. length (r1 @ t) \<le> M \<Longrightarrow> M < 2 ^ 63 \<Longrightarrow> g x (src M (r1 @ t)) = Some (y, src M (r' @ t))" by blast
  have "Option.bind (f (src M (r @ t))) (\<lambda>(x, c). g x c) = Some (y, src M (r' @ t))"
    if "length (r @ t) \<le> M" "M < 2 ^ 63" for M t
    using r1(3)[OF that] r'(3)[of t M] that r1(1) by simp
  then show "\<exists>u r'. r = u @ r' \<and> c' = src L r' \<and> (\<forall>M t. length (r @ t) \<le> M \<longrightarrow> M < 2 ^ 63 \<longrightarrow>
      Option.bind (f (src M (r @ t))) (\<lambda>(x, c). g x c) = Some (y, src M (r' @ t)))"
    using r1(1) r'(1,2) by (intro exI[of _ "u @ v"] exI[of _ r']) auto
qed

lemma steady_map_option:
  assumes "steady f"
  shows "steady (\<lambda>c. map_option (map_prod h id) (f c))"
proof -
  have "map_option (map_prod h id) (f c) = Option.bind (f c) (\<lambda>(x, c). Some (h x, c))" for c
    by (cases "f c") auto
  moreover have "steady (\<lambda>c. Option.bind (f c) (\<lambda>(x, c). Some (h x, c)))"
    by (intro steady_bind assms steady_return)
  ultimately show ?thesis by simp
qed

lemma steady_step: "steady (steps f) \<Longrightarrow> steady (\<lambda>c. map_option (Pair a) (f c))"
  using steady_map_option[of "steps f" "\<lambda>_. a"] by (simp add: option.map_comp comp_def)

lemma steady_then:
  assumes "steady (steps f)" "steady g"
  shows "steady (\<lambda>c. Option.bind (f c) g)"
proof -
  have "Option.bind (steps f c) (\<lambda>(_, c). g c) = Option.bind (f c) g" for c by (cases "f c") auto
  with steady_bind[OF assms(1), of "\<lambda>_. g"] assms(2) show ?thesis by simp
qed

lemma steady_bytes [steady_intro]: "steady (rd_bytes n)"
proof (rule steadyI)
  fix L r x c'
  assume a: "length r \<le> L" "L < 2 ^ 63" "rd_bytes n (src L r) = Some (x, c')"
  then have n: "n \<le> length r" "x = take n r" "c' = src L (drop n r)"
    by (auto simp: rd_bytes_def src_def advance_def bind_eq_Some_conv split: if_splits)
  have "rd_bytes n (src M (r @ t)) = Some (x, src M (drop n r @ t))"
    if "length (r @ t) \<le> M" "M < 2 ^ 63" for M t
    using rd_bytes_src[of x n "drop n r @ t" M] n that by (simp add: append_assoc[symmetric] del: append_assoc)
  then show "\<exists>u r'. r = u @ r' \<and> c' = src L r' \<and> (\<forall>M t. length (r @ t) \<le> M \<longrightarrow> M < 2 ^ 63 \<longrightarrow>
      rd_bytes n (src M (r @ t)) = Some (x, src M (r' @ t)))"
    using n by (intro exI[of _ x] exI[of _ "drop n r"]) auto
qed

lemma steady_skip [steady_intro]: "steady (steps (rd_skip n))"
proof (rule steadyI)
  fix L r x c'
  assume a: "length r \<le> L" "L < 2 ^ 63" "steps (rd_skip n) (src L r) = Some (x, c')"
  then have n: "n \<le> length r" "c' = src L (drop n r)"
    by (auto simp: rd_skip_def src_def advance_def bind_eq_Some_conv checked_add_def split: if_splits)
  have "rd_skip n (src M (r @ t)) = Some (src M (drop n r @ t))"
    if "length (r @ t) \<le> M" "M < 2 ^ 63" for M t
    using rd_skip_src[of "take n r" n "drop n r @ t" M] n that by (simp add: append_assoc[symmetric] del: append_assoc)
  then show "\<exists>u r'. r = u @ r' \<and> c' = src L r' \<and> (\<forall>M t. length (r @ t) \<le> M \<longrightarrow> M < 2 ^ 63 \<longrightarrow>
      steps (rd_skip n) (src M (r @ t)) = Some (x, src M (r' @ t)))"
    using n by (intro exI[of _ "take n r"] exI[of _ "drop n r"]) auto
qed

lemma steady_u32 [steady_intro]: "steady rd_u32" and steady_u64 [steady_intro]: "steady rd_u64"
  and steady_unsigned [steady_intro]: "steady (rd_unsigned n)"
  using steady_map_option[OF steady_bytes, of le_value]
  by (simp_all add: rd_u32_def[abs_def] rd_u64_def[abs_def] rd_unsigned_def[abs_def])

lemma steady_if [steady_intro]: "(b \<Longrightarrow> steady f) \<Longrightarrow> (\<not> b \<Longrightarrow> steady g) \<Longrightarrow> steady (\<lambda>c. if b then f c else g c)"
  by (cases b) simp_all

lemma steady_text [steady_intro]: "steady rd_text"
  unfolding rd_text_def by (intro steady_intro)

lemma steady_int [steady_intro]: "steady (rd_int ty)"
  unfolding rd_int_def rd_signed_def by (intro steady_intro)

text \<open>A check against the bytes that are left is passed by a longer file too.\<close>

lemma steady_enough:
  assumes "steady f"
  shows "steady (\<lambda>c. if rd_len c - rd_pos c < n then None else f c)"
proof (rule steadyI)
  fix L r x c'
  assume L: "length r \<le> L" "L < 2 ^ 63"
    and s: "(if rd_len (src L r) - rd_pos (src L r) < n then None else f (src L r)) = Some (x, c')"
  then have n: "n \<le> length r" and f: "f (src L r) = Some (x, c')" by (auto simp: src_def split: if_splits)
  from steadyD[OF assms L f] obtain u r' where "r = u @ r'" "c' = src L r'"
    "\<And>M t. length (r @ t) \<le> M \<Longrightarrow> M < 2 ^ 63 \<Longrightarrow> f (src M (r @ t)) = Some (x, src M (r' @ t))" by blast
  moreover have "\<not> rd_len (src M (r @ t)) - rd_pos (src M (r @ t)) < n" if "length (r @ t) \<le> M" for M t
    using n that by (simp add: src_def)
  ultimately show "\<exists>u r'. r = u @ r' \<and> c' = src L r' \<and> (\<forall>M t. length (r @ t) \<le> M \<longrightarrow> M < 2 ^ 63 \<longrightarrow>
      (if rd_len (src M (r @ t)) - rd_pos (src M (r @ t)) < n then None else f (src M (r @ t))) = Some (x, src M (r' @ t)))"
    by (intro exI[of _ u] exI[of _ r']) auto
qed

text \<open>Stepping over values: from the deepest arrays outwards.\<close>

lemma steady_skip_times:
  assumes "\<And>e. steady (steps (skip_value e d))"
  shows "steady (steps (skip_times e n d))"
proof (induction n)
  case 0
  then show ?case using steady_return[of "()"] by (simp add: skip_times.simps[of _ 0])
next
  case (Suc n)
  have "steps (skip_times e (Suc n) d) c = Option.bind (skip_value e d c) (steps (skip_times e n d))" for c
    by (cases "skip_value e d c") (simp_all add: skip_times.simps[of _ "Suc n"])
  then show ?case using steady_then[OF assms Suc.IH] by simp
qed

lemma steady_skip_elements:
  assumes "d < MAX_DEPTH \<Longrightarrow> \<forall>e. steady (steps (skip_value e (d + 1)))"
  shows "steady (steps (skip_elements e n d))"
proof (cases "MAX_DEPTH \<le> d \<or> checked_mul n (case fixed_size e of Some k \<Rightarrow> k | None \<Rightarrow> 8) = None")
  case True
  then have "steps (skip_elements e n d) = (\<lambda>c. None)"
    by (auto simp: skip_elements.simps fun_eq_iff split: option.splits)
  then show ?thesis using steady_none by simp
next
  case False
  then obtain need where need: "checked_mul n (case fixed_size e of Some k \<Rightarrow> k | None \<Rightarrow> 8) = Some need"
    and d: "d < MAX_DEPTH" by auto
  show ?thesis
  proof (cases "fixed_size e")
    case (Some k)
    then have "steps (skip_elements e n d) = steps (rd_skip need)"
      using need d by (simp add: skip_elements.simps fun_eq_iff)
    then show ?thesis using steady_skip by simp
  next
    case None
    then have "steps (skip_elements e n d)
        = (\<lambda>c. if rd_len c - rd_pos c < need then None else steps (skip_times e n (d + 1)) c)"
      using need d by (simp add: skip_elements.simps fun_eq_iff)
    moreover have "steady (steps (skip_times e n (d + 1)))" using assms[OF d] by (intro steady_skip_times) blast
    ultimately show ?thesis by (simp only: steady_enough)
  qed
qed

lemma steady_skip_value:
  assumes "\<And>e n. steady (steps (skip_elements e n d))"
  shows "steady (steps (skip_value ty d))"
proof (cases "fixed_size ty")
  case (Some k)
  then have "steps (skip_value ty d) = steps (rd_skip k)" by (simp add: skip_value.simps fun_eq_iff)
  then show ?thesis using steady_skip by simp
next
  case None
  have str: "steady (\<lambda>c. Option.bind (rd_u64 c) (\<lambda>(n, c). steps (rd_skip n) c))"
    by (intro steady_intro)
  have arr: "steady (\<lambda>c. Option.bind (rd_u32 c) (\<lambda>(e, c). Option.bind (rd_u64 c) (\<lambda>(n, c). steps (skip_elements e n d) c)))"
    by (intro steady_intro assms)
  have push: "map_option (Pair ()) (Option.bind r (\<lambda>(n, c). h n c)) = Option.bind r (\<lambda>(n, c). steps (h n) c)"
    for r and h :: "nat \<Rightarrow> reader \<Rightarrow> reader option" by (cases r) auto
  have "steps (skip_value ty d) =
      (if ty = T_STRING then (\<lambda>c. Option.bind (rd_u64 c) (\<lambda>(n, c). steps (rd_skip n) c))
       else if ty = T_ARRAY then (\<lambda>c. Option.bind (rd_u32 c) (\<lambda>(e, c). Option.bind (rd_u64 c) (\<lambda>(n, c). steps (skip_elements e n d) c)))
       else (\<lambda>c. None))"
    using None by (auto simp: skip_value.simps[of ty] fun_eq_iff push)
  then show ?thesis using str arr by (simp add: steady_none)
qed

lemma steady_skips: "steady (steps (skip_value e d))" "steady (steps (skip_elements e n d))"
proof -
  have "\<forall>d e n. MAX_DEPTH - d = k \<longrightarrow> steady (steps (skip_value e d)) \<and> steady (steps (skip_elements e n d))" for k
  proof (induction k)
    case 0
    have "steady (steps (skip_elements e n d))" if "MAX_DEPTH - d = 0" for d e n
      using that by (intro steady_skip_elements) simp
    then show ?case using steady_skip_value by blast
  next
    case (Suc k)
    have "steady (steps (skip_elements e n d))" if "MAX_DEPTH - d = Suc k" for d e n
      using Suc that by (intro steady_skip_elements) auto
    then show ?case using steady_skip_value by blast
  qed
  then show "steady (steps (skip_value e d))" "steady (steps (skip_elements e n d))" by blast+
qed

lemma steady_skips_pair [steady_intro]:
  "steady (\<lambda>c. map_option (Pair a) (rd_skip n c))" "steady (\<lambda>c. map_option (Pair a) (skip_value e d c))"
  "steady (\<lambda>c. map_option (Pair a) (skip_elements e n d c))"
  by (rule steady_step[OF steady_skip] steady_step[OF steady_skips(1)] steady_step[OF steady_skips(2)])+

lemma steady_ints [steady_intro]: "steady (rd_ints n e)"
proof (induction n)
  case 0
  then show ?case using steady_return[of "[]"] by (simp add: rd_ints.simps(1)[abs_def])
next
  case (Suc n)
  show ?case unfolding rd_ints.simps by (intro steady_intro Suc)
qed

lemma steady_wanted_array [steady_intro]: "steady (rd_wanted_array key st)"
proof -
  have tail: "steady (\<lambda>c.
      case (if is_int elem then fixed_size elem else None) of
        Some sz \<Rightarrow>
          if MAX_LAYERS < count then map_option (Pair st) (skip_elements elem count 0 c)
          else Option.bind (checked_mul count sz) (\<lambda>need.
             if need \<le> rd_len c - rd_pos c
             then Option.bind (rd_ints count elem c) (\<lambda>(vs, c). Some (st\<lparr>hd_found := (hd_found st)(key \<mapsto> FoundInts vs)\<rparr>, c))
             else map_option (Pair st) (skip_elements elem count 0 c))
      | None \<Rightarrow> map_option (Pair st) (skip_elements elem count 0 c))" (is "steady ?f") for elem count
  proof (cases "is_int elem \<and> fixed_size elem \<noteq> None \<and> count \<le> MAX_LAYERS")
    case False
    then have "?f = (\<lambda>c. map_option (Pair st) (skip_elements elem count 0 c))" by (auto split: option.splits)
    then show ?thesis using steady_skips_pair(3) by simp
  next
    case True
    then obtain sz where sz: "fixed_size elem = Some sz" by auto
    show ?thesis
    proof (cases "checked_mul count sz")
      case None
      then have "?f = (\<lambda>c. None)" using True sz by auto
      then show ?thesis using steady_none by simp
    next
      case (Some need)
      then have too_long: "skip_elements elem count 0 c = None" if "rd_len c - rd_pos c < need" for c
        using sz that by (auto simp: skip_elements.simps rd_skip_def checked_add_def)
      have "?f = (\<lambda>c. if rd_len c - rd_pos c < need then None
          else Option.bind (rd_ints count elem c) (\<lambda>(vs, c). Some (st\<lparr>hd_found := (hd_found st)(key \<mapsto> FoundInts vs)\<rparr>, c)))"
        using True sz Some too_long by (auto simp: fun_eq_iff)
      moreover have "steady (\<lambda>c. Option.bind (rd_ints count elem c) (\<lambda>(vs, c). Some (st\<lparr>hd_found := (hd_found st)(key \<mapsto> FoundInts vs)\<rparr>, c)))"
        by (intro steady_intro)
      ultimately show ?thesis by (simp only: steady_enough)
    qed
  qed
  show ?thesis unfolding rd_wanted_array_def Let_def by (intro steady_intro tail)
qed

lemma steady_pair [steady_intro]: "steady (rd_pair st)"
  unfolding rd_pair_def Let_def by (intro steady_intro)

lemma steady_pairs [steady_intro]: "steady (rd_pairs n st)"
proof (induction n arbitrary: st)
  case 0
  then show ?case using steady_return[of st] by (simp add: rd_pairs.simps(1)[abs_def])
next
  case (Suc n)
  show ?case unfolding rd_pairs.simps by (intro steady_intro Suc)
qed

text \<open>
  The header of a file, as a step: the count of pairs is held against the size of the file, which a
  longer file passes too.
\<close>

definition header_body :: "reader \<Rightarrow> (header \<times> reader) option" where
  "header_body c =
     do { (m, c) \<leftarrow> rd_bytes 4 c;
          if m \<noteq> GGUF_MAGIC then None
          else do { (version, c) \<leftarrow> rd_u32 c;
                    if version \<noteq> 2 \<and> version \<noteq> 3 then None
                    else do { (_, c) \<leftarrow> rd_u64 c;
                              (pairs, c) \<leftarrow> rd_u64 c;
                              if checked_mul pairs 12 = None then None else rd_pairs pairs empty_header c } } }"

lemma steady_header_body: "steady header_body"
  unfolding header_body_def by (intro steady_intro)

lemma rd_header_body: "rd_header bytes (length bytes) = Some x \<Longrightarrow> header_body (src (length bytes) bytes) = Some x"
  by (auto simp: rd_header_def header_body_def src_def split: if_splits Option.bind_splits)

lemma cut_header_is_none:
  assumes wf: "version = 2 \<or> version = 3" "tensors < 2 ^ 64" "\<forall>kv \<in> set kvs. wf_pair kv"
    and len: "length (enc_header version tensors kvs) < 2 ^ 63" and cut: "n < length (enc_header version tensors kvs)"
  shows "rd_header (take n (enc_header version tensors kvs)) n = None"
proof (rule ccontr)
  let ?h = "enc_header version tensors kvs"
  assume "rd_header (take n ?h) n \<noteq> None"
  then obtain st c' where "rd_header (take n ?h) (length (take n ?h)) = Some (st, c')" using cut by auto
  from rd_header_body[OF this] have s: "header_body (src n (take n ?h)) = Some (st, c')" using cut by simp
  obtain u r' where ur: "take n ?h = u @ r'"
    "\<And>M t. length (take n ?h @ t) \<le> M \<Longrightarrow> M < 2 ^ 63 \<Longrightarrow> header_body (src M (take n ?h @ t)) = Some (st, src M (r' @ t))"
    by (rule steadyD[OF steady_header_body _ _ s]) (use len cut in auto)
  from ur(2)[of "drop n ?h" "length ?h"] have whole: "header_body (src (length ?h) ?h) = Some (st, src (length ?h) (r' @ drop n ?h))"
    using len by simp
  have "rd_header ?h (length ?h) = Some (foldl note_pair empty_header kvs, src (length ?h) [])"
    using rd_header_src[OF wf, of "[]"] len by simp
  from rd_header_body[OF this] whole have "r' @ drop n ?h = []" by (simp add: src_def)
  then show False using cut by simp
qed

section \<open>Every round is paid for\<close>

text \<open>A step that succeeds moves on by at least \<open>k\<close> bytes and stays inside the file.\<close>

definition uses :: "nat \<Rightarrow> (reader \<Rightarrow> ('x \<times> reader) option) \<Rightarrow> bool" where
  "uses k g \<longleftrightarrow>
     (\<forall>c x c'. g c = Some (x, c') \<longrightarrow> rd_pos c \<le> rd_len c \<longrightarrow>
        rd_len c' = rd_len c \<and> rd_pos c + k \<le> rd_pos c' \<and> rd_pos c' \<le> rd_len c)"

lemma usesD:
  assumes "uses k g" "g c = Some (x, c')" "rd_pos c \<le> rd_len c"
  shows "rd_len c' = rd_len c" "rd_pos c + k \<le> rd_pos c'" "rd_pos c' \<le> rd_len c"
  using assms unfolding uses_def by blast+

lemma uses_return: "uses 0 (\<lambda>c. Some (x, c))" and uses_none: "uses k (\<lambda>c. None)"
  by (simp_all add: uses_def)

lemma uses_less: "uses k g \<Longrightarrow> j \<le> k \<Longrightarrow> uses j g"
  unfolding uses_def by (meson add_left_mono le_trans)

lemma uses_bind:
  assumes "uses k f" "\<And>x. uses j (g x)"
  shows "uses (k + j) (\<lambda>c. Option.bind (f c) (\<lambda>(x, c). g x c))"
  unfolding uses_def
proof (intro allI impI)
  fix c y c'
  assume s: "Option.bind (f c) (\<lambda>(x, c). g x c) = Some (y, c')" and le: "rd_pos c \<le> rd_len c"
  then obtain x c1 where f: "f c = Some (x, c1)" and g: "g x c1 = Some (y, c')"
    by (auto simp: bind_eq_Some_conv)
  note u = usesD[OF assms(1) f le]
  have "rd_pos c1 \<le> rd_len c1" using u by simp
  from usesD[OF assms(2) g this] u
  show "rd_len c' = rd_len c \<and> rd_pos c + (k + j) \<le> rd_pos c' \<and> rd_pos c' \<le> rd_len c" by simp
qed

lemma uses_then:
  assumes "uses k f" "\<And>x. uses 0 (g x)"
  shows "uses k (\<lambda>c. Option.bind (f c) (\<lambda>(x, c). g x c))"
  using uses_bind[OF assms] by simp

lemma uses_map: "uses k f \<Longrightarrow> uses k (\<lambda>c. map_option (map_prod h id) (f c))"
  by (fastforce simp: uses_def)

lemma uses_if: "uses k f \<Longrightarrow> uses k g \<Longrightarrow> uses k (\<lambda>c. if b c then f c else g c)"
  by (auto simp: uses_def)

lemma uses_pair: "uses k (steps f) \<Longrightarrow> uses k (\<lambda>c. map_option (Pair a) (f c))"
  by (fastforce simp: uses_def)

lemma uses_bytes: "uses n (rd_bytes n)"
  by (auto simp: uses_def rd_bytes_def checked_add_def advance_def bind_eq_Some_conv split: if_splits)

lemma uses_skip: "uses n (steps (rd_skip n))"
  by (auto simp: uses_def rd_skip_def checked_add_def advance_def bind_eq_Some_conv split: if_splits)

lemma uses_u32: "uses 4 rd_u32" and uses_u64: "uses 8 rd_u64" and uses_unsigned: "uses n (rd_unsigned n)"
  using uses_map[OF uses_bytes, where h = le_value]
  by (simp_all add: rd_u32_def[abs_def] rd_u64_def[abs_def] rd_unsigned_def[abs_def])

lemma uses_signed: "uses n (rd_signed n)"
  unfolding rd_signed_def by (intro uses_then uses_bytes uses_if uses_return uses_none)

lemma uses_text: "uses 8 rd_text"
  unfolding rd_text_def
  by (intro uses_then uses_u64 uses_if uses_none uses_less[OF uses_bytes] uses_return) simp

lemma uses_int: "uses 1 (rd_int ty)"
proof -
  have "uses 1 (rd_unsigned 1)" "uses 1 (rd_unsigned 2)" "uses 1 (rd_signed 1)" "uses 1 (rd_signed 2)"
    "uses 1 (rd_signed 4)" "uses 1 (rd_signed 8)" "uses 1 rd_u32" "uses 1 rd_u64"
    using uses_less[OF uses_unsigned, of 1] uses_less[OF uses_signed, of 1] uses_less[OF uses_u32, of 1]
      uses_less[OF uses_u64, of 1] by simp_all
  then show ?thesis unfolding rd_int_def by (intro uses_if uses_none)
qed

lemma uses_times:
  assumes "\<And>e. uses 1 (steps (skip_value e d))"
  shows "uses n (steps (skip_times e n d))"
proof (induction n)
  case 0
  then show ?case using uses_return[of "()"] by (simp add: skip_times.simps[of _ 0])
next
  case (Suc n)
  have "steps (skip_times e (Suc n) d) c = Option.bind (steps (skip_value e d) c) (\<lambda>(_, c). steps (skip_times e n d) c)" for c
    by (cases "skip_value e d c") (simp_all add: skip_times.simps[of _ "Suc n"])
  then show ?case using uses_bind[OF assms, of n "\<lambda>_. steps (skip_times e n d)" e] Suc by simp
qed

lemma uses_elements:
  assumes "d < MAX_DEPTH \<Longrightarrow> \<forall>e. uses 1 (steps (skip_value e (d + 1)))"
  shows "uses 0 (steps (skip_elements e n d))"
  unfolding uses_def
proof (intro allI impI)
  fix c x c'
  assume s: "steps (skip_elements e n d) c = Some (x, c')" and le: "rd_pos c \<le> rd_len c"
  then have d: "d < MAX_DEPTH" by (auto simp: skip_elements.simps split: if_splits)
  show "rd_len c' = rd_len c \<and> rd_pos c + 0 \<le> rd_pos c' \<and> rd_pos c' \<le> rd_len c"
  proof (cases "fixed_size e")
    case (Some k)
    with s obtain m where "steps (rd_skip m) c = Some (x, c')"
      by (auto simp: skip_elements.simps bind_eq_Some_conv split: if_splits)
    from usesD[OF uses_skip this le] show ?thesis by simp
  next
    case None
    with s have "steps (skip_times e n (d + 1)) c = Some (x, c')"
      by (auto simp: skip_elements.simps bind_eq_Some_conv split: if_splits)
    from usesD[OF uses_times this le] assms[OF d] show ?thesis by simp
  qed
qed

lemma uses_value:
  assumes "\<And>e n. uses 0 (steps (skip_elements e n d))"
  shows "uses 1 (steps (skip_value ty d))"
  unfolding uses_def
proof (intro allI impI)
  fix c x c'
  assume s: "steps (skip_value ty d) c = Some (x, c')" and le: "rd_pos c \<le> rd_len c"
  consider (fixed) k where "fixed_size ty = Some k" "steps (rd_skip k) c = Some (x, c')"
    | (str) "Option.bind (rd_u64 c) (\<lambda>(n, c). steps (rd_skip n) c) = Some (x, c')"
    | (arr) "Option.bind (rd_u32 c) (\<lambda>(e, c). Option.bind (rd_u64 c) (\<lambda>(n, c). steps (skip_elements e n d) c)) = Some (x, c')"
    using s by (auto simp: skip_value.simps[of ty] bind_eq_Some_conv split: option.splits if_splits)
  then show "rd_len c' = rd_len c \<and> rd_pos c + 1 \<le> rd_pos c' \<and> rd_pos c' \<le> rd_len c"
  proof cases
    case fixed
    from usesD[OF uses_skip fixed(2) le] fixed_size_bounds[OF fixed(1)] show ?thesis by simp
  next
    case str
    have "uses 8 (\<lambda>c. Option.bind (rd_u64 c) (\<lambda>(n, c). steps (rd_skip n) c))"
      by (intro uses_then uses_u64 uses_less[OF uses_skip]) simp
    from usesD[OF this str le] show ?thesis by simp
  next
    case arr
    have "uses 4 (\<lambda>c. Option.bind (rd_u32 c) (\<lambda>(e, c). Option.bind (rd_u64 c) (\<lambda>(n, c). steps (skip_elements e n d) c)))"
      by (intro uses_then uses_u32 uses_less[OF uses_then[OF uses_u64 assms]]) simp
    from usesD[OF this arr le] show ?thesis by simp
  qed
qed

lemma uses_skips: "uses 1 (steps (skip_value e d))" "uses 0 (steps (skip_elements e n d))"
proof -
  have "\<forall>d e n. MAX_DEPTH - d = k \<longrightarrow> uses 1 (steps (skip_value e d)) \<and> uses 0 (steps (skip_elements e n d))" for k
  proof (induction k)
    case 0
    have "uses 0 (steps (skip_elements e n d))" if "MAX_DEPTH - d = 0" for d e n
      using that by (intro uses_elements) simp
    then show ?case using uses_value by blast
  next
    case (Suc k)
    have "uses 0 (steps (skip_elements e n d))" if "MAX_DEPTH - d = Suc k" for d e n
      using Suc that by (intro uses_elements) auto
    then show ?case using uses_value by blast
  qed
  then show "uses 1 (steps (skip_value e d))" "uses 0 (steps (skip_elements e n d))" by blast+
qed

lemma uses_ints: "uses n (rd_ints n e)"
proof (induction n)
  case 0
  then show ?case using uses_return[of "[]"] by (simp add: rd_ints.simps(1)[abs_def])
next
  case (Suc n)
  have "uses (1 + n) (rd_ints (Suc n) e)"
    unfolding rd_ints.simps by (intro uses_bind uses_then uses_int Suc uses_return)
  then show ?case by (simp del: rd_ints.simps)
qed

lemma uses_wanted_array: "uses 0 (rd_wanted_array key st)"
proof -
  have tail: "uses 0 (\<lambda>c.
      case (if is_int elem then fixed_size elem else None) of
        Some sz \<Rightarrow>
          if MAX_LAYERS < count then map_option (Pair st) (skip_elements elem count 0 c)
          else Option.bind (checked_mul count sz) (\<lambda>need.
             if need \<le> rd_len c - rd_pos c
             then Option.bind (rd_ints count elem c) (\<lambda>(vs, c). Some (st\<lparr>hd_found := (hd_found st)(key \<mapsto> FoundInts vs)\<rparr>, c))
             else map_option (Pair st) (skip_elements elem count 0 c))
      | None \<Rightarrow> map_option (Pair st) (skip_elements elem count 0 c))" for elem count
  proof -
    have "uses 0 (\<lambda>c. map_option (Pair st) (skip_elements elem count 0 c))" by (rule uses_pair[OF uses_skips(2)])
    moreover have "uses 0 (\<lambda>c. Option.bind (rd_ints count elem c) (\<lambda>(vs, c). Some (st\<lparr>hd_found := (hd_found st)(key \<mapsto> FoundInts vs)\<rparr>, c)))"
      by (intro uses_then uses_less[OF uses_ints] uses_return) simp
    ultimately show ?thesis
      by (cases "is_int elem"; cases "fixed_size elem"; cases "checked_mul count (the (fixed_size elem))")
         (simp_all add: uses_if uses_none)
  qed
  show ?thesis unfolding rd_wanted_array_def Let_def
    by (intro uses_less[OF uses_then[OF uses_u32 uses_less[OF uses_then[OF uses_u64 tail]]]]) simp_all
qed

lemma uses_pair_step: "uses 12 (rd_pair st)"
proof -
  have str: "uses 0 (\<lambda>c. Option.bind (rd_u64 c) (\<lambda>(n, c). if n \<le> MAX_TEMPLATE
      then Option.bind (rd_bytes n c) (\<lambda>(b, c). Some (st\<lparr>hd_template := Some (from_utf8_lossy b)\<rparr>, c))
      else map_option (Pair st) (rd_skip n c)))"
    by (intro uses_less[OF uses_then[OF uses_u64 uses_if[OF uses_less[OF uses_then[OF uses_bytes uses_return]]
          uses_less[OF uses_pair[OF uses_skip]]]]]) simp_all
  have arch: "uses 0 (\<lambda>c. Option.bind (rd_text c) (\<lambda>(a, c). Some (st\<lparr>hd_arch := Some a\<rparr>, c)))"
    by (intro uses_less[OF uses_then[OF uses_text uses_return]]) simp
  have num: "uses 0 (\<lambda>c. Option.bind (rd_int ty c) (\<lambda>(v, c). Some (st\<lparr>hd_found := (hd_found st)(key \<mapsto> FoundInt v)\<rparr>, c)))"
    for ty key by (intro uses_less[OF uses_then[OF uses_int uses_return]]) simp
  have over: "uses 0 (\<lambda>c. map_option (Pair st) (skip_value ty 0 c))" for ty
    by (intro uses_less[OF uses_pair[OF uses_skips(1)]]) simp
  have "uses (8 + 4) (rd_pair st)"
    unfolding rd_pair_def Let_def
    by (intro uses_bind uses_then uses_text uses_u32 uses_if uses_none str arch num over uses_wanted_array)
  then show ?thesis by simp
qed

lemma uses_pairs: "uses (12 * n) (rd_pairs n st)"
proof (induction n arbitrary: st)
  case 0
  then show ?case using uses_return[of st] by (simp add: rd_pairs.simps(1)[abs_def])
next
  case (Suc n)
  have "uses (12 + 12 * n) (rd_pairs (Suc n) st)"
    unfolding rd_pairs.simps by (intro uses_bind uses_pair_step Suc)
  then show ?case by (simp del: rd_pairs.simps)
qed

text \<open>Stepping over the elements of an array, reading them and reading the pairs of a header never
  leave the file and cost a byte or more (a pair: twelve) for every round, so no count a file may
  claim keeps the reader busy for longer than the file is.\<close>
theorem every_round_reads_on:
  assumes "rd_pos c \<le> rd_len c"
  shows "(skip_times e n d c = Some c' \<longrightarrow> rd_pos c + n \<le> rd_pos c' \<and> rd_pos c' \<le> rd_len c)
    \<and> (rd_ints n e c = Some (vs, c') \<longrightarrow> rd_pos c + n \<le> rd_pos c' \<and> rd_pos c' \<le> rd_len c)
    \<and> (rd_pairs n st c = Some (st', c') \<longrightarrow> rd_pos c + 12 * n \<le> rd_pos c' \<and> rd_pos c' \<le> rd_len c)"
proof (intro conjI impI)
  assume "skip_times e n d c = Some c'"
  then have s: "steps (skip_times e n d) c = Some ((), c')" by simp
  from usesD[OF uses_times[OF uses_skips(1)] s assms] show "rd_pos c + n \<le> rd_pos c'" "rd_pos c' \<le> rd_len c" by simp_all
next
  assume s: "rd_ints n e c = Some (vs, c')"
  from usesD[OF uses_ints s assms] show "rd_pos c + n \<le> rd_pos c'" "rd_pos c' \<le> rd_len c" by simp_all
next
  assume s: "rd_pairs n st c = Some (st', c')"
  from usesD[OF uses_pairs s assms] show "rd_pos c + 12 * n \<le> rd_pos c'" "rd_pos c' \<le> rd_len c" by simp_all
qed

section \<open>What an answer holds\<close>

lemma those_Some: "those xs = Some ys \<longleftrightarrow> xs = map Some ys"
proof (induction xs arbitrary: ys)
  case (Cons x xs)
  then show ?case by (cases x; cases ys) auto
qed auto

lemma try_u32_less: "try_u32 n = Some m \<Longrightarrow> m < 2 ^ 32"
  by (simp add: try_u32_def split: if_splits)

lemma per_layer_ok:
  assumes "per_layer f arch n suffix = Some (Some v)"
  shows "length v = n \<and> (\<forall>h \<in> set v. h < 2 ^ 32)"
proof -
  have "h < 2 ^ 32" if "map try_u32 ws = map Some v" "h \<in> set v" for ws h
  proof -
    from that(2) have "Some h \<in> set (map try_u32 ws)" using that(1) by simp
    then show ?thesis using try_u32_less by fastforce
  qed
  moreover have "length ws = length v" if "map try_u32 ws = map Some v" for ws
    using that by (metis length_map)
  ultimately show ?thesis using assms
    by (auto simp: per_layer_def those_Some dest!: try_u32_less split: option.splits found.splits if_splits)
qed

lemma rd_text_ok: "rd_text c = Some (a, c') \<Longrightarrow> length a \<le> MAX_TEXT \<and> valid_utf8 a"
  by (auto simp: rd_text_def rd_bytes_def bind_eq_Some_conv split: if_splits)

lemma wanted_array_keeps_arch: "rd_wanted_array key st c = Some (st', c') \<Longrightarrow> hd_arch st' = hd_arch st"
  by (auto simp: rd_wanted_array_def bind_eq_Some_conv Let_def split: if_splits option.splits)

definition arch_ok :: "header \<Rightarrow> bool" where
  "arch_ok st \<longleftrightarrow> (\<forall>a. hd_arch st = Some a \<longrightarrow> length a \<le> MAX_TEXT \<and> valid_utf8 a)"

lemma arch_step: "rd_pair st c = Some (st', c') \<Longrightarrow> arch_ok st \<Longrightarrow> arch_ok st'"
  unfolding rd_pair_def Let_def
  by (auto simp: arch_ok_def bind_eq_Some_conv dest!: wanted_array_keeps_arch rd_text_ok split: if_splits)

lemma arch_pairs: "rd_pairs n st c = Some (st', c') \<Longrightarrow> arch_ok st \<Longrightarrow> arch_ok st'"
  by (induction n arbitrary: st c) (auto simp: bind_eq_Some_conv dest: arch_step)

lemma arch_header: "rd_header bytes len = Some (st, c) \<Longrightarrow> arch_ok st"
  by (auto simp: rd_header_def bind_eq_Some_conv empty_header_def arch_ok_def split: if_splits
      dest!: arch_pairs)

text \<open>C25: Whatever bytes a file has, an answer is fit to be used: a name of the architecture that is
  UTF-8 and short, a trained window and a width above zero, between 1 and 4096 layers with a head
  count for each, a layer that has heads, and no number beyond 32 bits.\<close>
theorem gguf_answer_is_sound:
  assumes "gguf_parse bytes len = Some m"
  shows "valid_utf8 (gm_arch m) \<and> length (gm_arch m) \<le> MAX_TEXT
    \<and> 0 < gm_trained_ctx m \<and> gm_trained_ctx m < 2 ^ 32 \<and> 0 < gm_n_embd m \<and> gm_n_embd m < 2 ^ 32
    \<and> 1 \<le> gm_n_layer m \<and> gm_n_layer m \<le> MAX_LAYERS
    \<and> length (gm_head_count m) = gm_n_layer m \<and> length (gm_head_count_kv m) = gm_n_layer m
    \<and> (\<exists>h \<in> set (gm_head_count m). 0 < h)
    \<and> (\<forall>h \<in> set (gm_head_count m) \<union> set (gm_head_count_kv m). h < 2 ^ 32)
    \<and> gm_key_length m < 2 ^ 32 \<and> gm_value_length m < 2 ^ 32"
proof -
  obtain st c where h: "rd_header bytes len = Some (st, c)" and r: "gguf_resolve st = Some m"
    using assms by (auto simp: gguf_parse_def bind_eq_Some_conv)
  obtain arch where a: "hd_arch st = Some arch" using r by (auto simp: gguf_resolve_def bind_eq_Some_conv)
  let ?num = "found_u32 (hd_found st) arch"
  have small: "?num s = Some n \<Longrightarrow> n < 2 ^ 32" for s n
    by (auto simp: found_u32_def dest!: try_u32_less split: option.splits found.splits)
  obtain ctx embd layers hc kv heads where
    ctx: "positive (?num ''.context_length'') = Some ctx" and embd: "positive (?num ''.embedding_length'') = Some embd"
    and layers: "1 \<le> layers" "layers \<le> MAX_LAYERS"
    and hc: "per_layer (hd_found st) arch layers ''.attention.head_count'' = Some (Some hc)"
    and kv: "per_layer (hd_found st) arch layers ''.attention.head_count_kv'' = Some kv"
    and heads: "List.find (\<lambda>n. 0 < n) hc = Some heads"
    and m: "m = \<lparr>gm_arch = arch, gm_trained_ctx = ctx, gm_n_layer = layers, gm_n_embd = embd,
                gm_head_count = hc, gm_head_count_kv = unwrap_or kv hc,
                gm_key_length = unwrap_or (?num ''.attention.key_length'') (embd div heads),
                gm_value_length = unwrap_or (?num ''.attention.value_length'') (embd div heads),
                gm_template_tools = map_option (\<lambda>t. str_contains t ''tool'') (hd_template st)\<rparr>"
    using r a by (auto simp: gguf_resolve_def bind_eq_Some_conv Let_def split: if_splits)
  have pos: "0 < n \<and> n < 2 ^ 32" if "positive (?num s) = Some n" for s n
    using that small by (auto simp: positive_def bind_eq_Some_conv split: if_splits)
  have kv_ok: "length (unwrap_or kv hc) = layers \<and> (\<forall>h \<in> set (unwrap_or kv hc). h < 2 ^ 32)"
    using kv per_layer_ok[OF hc] per_layer_ok by (cases kv) (auto simp: unwrap_or_def)
  have len: "unwrap_or (?num s) (embd div heads) < 2 ^ 32" for s
    using small[of s] le_less_trans[OF div_le_dividend[of embd heads]] pos[OF embd]
    by (cases "?num s") (auto simp: unwrap_or_def)
  have "valid_utf8 arch \<and> length arch \<le> MAX_TEXT" using arch_header[OF h] a by (auto simp: arch_ok_def)
  moreover have "\<exists>h \<in> set hc. 0 < h" using heads find_SomeD by fast
  moreover note pos[OF ctx] pos[OF embd] layers per_layer_ok[OF hc] kv_ok len
  ultimately show ?thesis unfolding m by (auto simp del: power_numeral)
qed

section \<open>Whole files\<close>

text \<open>C23: Every header of the format is read to its end, whatever follows it: keys in any order,
  integers of any width, strings, arrays in arrays up to four deep; the answer is what the pairs
  say, the last of two pairs with one key winning.\<close>
theorem gguf_reads_every_header:
  assumes "version = 2 \<or> version = 3" and "tensors < 2 ^ 64" and "\<forall>kv \<in> set kvs. wf_pair kv"
    and "length (enc_header version tensors kvs @ rest) < 2 ^ 63"
  shows "gguf_parse (enc_header version tensors kvs @ rest) (length (enc_header version tensors kvs @ rest))
    = gguf_resolve (foldl note_pair empty_header kvs)"
  using rd_header_src[OF assms] by (simp add: gguf_parse_def)

text \<open>C24: A file cut short anywhere inside its header gives nothing.\<close>
theorem gguf_cut_short_is_none:
  assumes "version = 2 \<or> version = 3" and "tensors < 2 ^ 64" and "\<forall>kv \<in> set kvs. wf_pair kv"
    and "length (enc_header version tensors kvs) < 2 ^ 63" and "n < length (enc_header version tensors kvs)"
  shows "gguf_parse (take n (enc_header version tensors kvs)) n = None"
  using cut_header_is_none[OF assms] by (simp add: gguf_parse_def)

definition u32_of :: "nat \<Rightarrow> gval" where "u32_of n = GFixed 4 (le_bytes 4 n)"

definition sample_pairs :: "(string \<times> gval) list" where
  "sample_pairs =
     [(''tokens'', GArr 8 [GStr ''a'', GStr ''b'']), (''nest'', GArr 9 [GArr 4 [u32_of 3]]),
      (''l.context_length'', u32_of 8192), (''l.embedding_length'', u32_of 512), (''l.block_count'', u32_of 2),
      (''l.attention.head_count'', u32_of 8), (''l.attention.head_count_kv'', GArr 4 [u32_of 2, u32_of 0]),
      (''general.architecture'', GStr ''l'')]"

lemma sample_pairs_wf: "\<forall>kv \<in> set sample_pairs. wf_pair kv"
proof -
  have v: "valid_utf8 (fst kv)" if "kv \<in> set sample_pairs" for kv
    using that by (intro ascii_valid) (auto simp: sample_pairs_def is_ascii_str_def)
  have "list_all (\<lambda>(k, v). length k \<le> MAX_TEXT \<and> wf_val v 0 \<and> (k = ''general.architecture'' \<longrightarrow> v = GStr ''l'')
      \<and> (wanted k \<longrightarrow> int_val v)) sample_pairs"
    by (simp add: sample_pairs_def MAX_TEXT_def MAX_DEPTH_def u32_of_def fixed_size_def no_sign_def T_STRING_def T_ARRAY_def)
  moreover have "valid_utf8 ''l''" by (intro ascii_valid) (simp add: is_ascii_str_def)
  ultimately show ?thesis using v by (auto simp: wf_pair_def list_all_iff MAX_TEXT_def)
qed

lemma sample_length: "length (enc_header 3 0 sample_pairs) < 1000"
  by (simp add: sample_pairs_def enc_header_def enc_pair_def enc_text_def GGUF_MAGIC_def u32_of_def)

definition sample_meta :: gguf_meta where
  "sample_meta = \<lparr>gm_arch = ''l'', gm_trained_ctx = 8192, gm_n_layer = 2, gm_n_embd = 512, gm_head_count = [8, 8],
     gm_head_count_kv = [2, 0], gm_key_length = 64, gm_value_length = 64, gm_template_tools = None\<rparr>"

lemma replicate_two: "replicate 2 x = [x, x]"
  by (simp add: numeral_2_eq_2)

lemma sample_resolves: "gguf_resolve (foldl note_pair empty_header sample_pairs) = Some sample_meta"
proof -
  have "foldl note_pair empty_header sample_pairs = \<lparr>hd_arch = Some ''l'',
      hd_found = [''l.context_length'' \<mapsto> FoundInt 8192, ''l.embedding_length'' \<mapsto> FoundInt 512,
        ''l.block_count'' \<mapsto> FoundInt 2, ''l.attention.head_count'' \<mapsto> FoundInt 8,
        ''l.attention.head_count_kv'' \<mapsto> FoundInts [2, 0]],
      hd_template = None\<rparr>"
    by (simp add: sample_pairs_def note_pair_def wanted_def SUFFIXES_def ends_with_def starts_with_def is_int_def
        u32_of_def CHAT_TEMPLATE_def MAX_LAYERS_def empty_header_def)
  then show ?thesis
    by (simp add: gguf_resolve_def found_u32_def positive_def per_layer_def try_u32_def unwrap_or_def MAX_LAYERS_def
        sample_meta_def replicate_two)
qed

theorem gguf_reads_every_header_witness:
  "gguf_parse (enc_header 3 0 sample_pairs) (length (enc_header 3 0 sample_pairs)) = Some sample_meta"
  using gguf_reads_every_header[of 3 0 sample_pairs "[]"] sample_pairs_wf sample_length sample_resolves by simp

theorem gguf_cut_short_is_none_witness: "gguf_parse (take 200 (enc_header 3 0 sample_pairs)) 200 = None"
proof -
  have "200 < length (enc_header 3 0 sample_pairs)"
    by (simp add: sample_pairs_def enc_header_def enc_pair_def enc_text_def GGUF_MAGIC_def u32_of_def)
  with gguf_cut_short_is_none[of 3 0 sample_pairs 200] sample_pairs_wf sample_length show ?thesis by simp
qed

theorem gguf_answer_is_sound_witness:
  "gguf_parse (enc_header 3 0 sample_pairs) (length (enc_header 3 0 sample_pairs)) = Some sample_meta
   \<and> length (gm_head_count_kv sample_meta) = gm_n_layer sample_meta"
proof -
  have p: "gguf_parse (enc_header 3 0 sample_pairs) (length (enc_header 3 0 sample_pairs)) = Some sample_meta"
    using rd_header_src[of 3 0 sample_pairs "[]"] sample_pairs_wf sample_length sample_resolves by (simp add: gguf_parse_def)
  with gguf_answer_is_sound[OF p] show ?thesis by simp
qed

theorem every_round_reads_on_witness:
  "skip_times 0 3 1 \<lparr>rd_rest = ''abcd'', rd_pos = 0, rd_len = 4\<rparr> = Some \<lparr>rd_rest = ''d'', rd_pos = 3, rd_len = 4\<rparr> \<and> (3::nat) \<le> 4"
proof -
  let ?c = "\<lparr>rd_rest = ''abcd'', rd_pos = 0, rd_len = 4\<rparr>"
  have s: "skip_times 0 3 1 ?c = Some \<lparr>rd_rest = ''d'', rd_pos = 3, rd_len = 4\<rparr>"
    by (simp add: skip_times.simps[of 0] skip_value.simps[of 0] fixed_size_def rd_skip_def checked_add_def advance_def)
  from every_round_reads_on[of ?c 0 3 1] s show ?thesis by simp
qed

end
