(* ===== verification/Window.thy ===== *)
theory Window imports Gguf begin

text \<open>
  The window a local model loads with (\<open>runtime/window.rs\<close>), from what its file says and the memory
  of the machine (\<open>runtime/hardware.rs\<close>), and loading it with smaller and smaller windows.  Sums of
  \<open>u64\<close> values wrap, as they do in a release build.
\<close>

section \<open>The machine\<close>

datatype gpu_vendor = VendorNvidia | VendorAmd | VendorIntel | VendorApple | VendorUnknown

record gpu_info =
  gpu_vendor :: gpu_vendor
  gpu_name :: string
  gpu_vram_mb :: "nat option"
  gpu_driver :: "string option"

record cpu_info =
  cpu_brand :: string
  cpu_cores :: nat
  cpu_avx2 :: bool
  cpu_avx512 :: bool

record hardware =
  hw_cpu :: cpu_info
  hw_ram_mb :: nat
  hw_gpus :: "gpu_info list"

definition primary_gpu :: "hardware \<Rightarrow> gpu_info option" where
  "primary_gpu hw =
     (case List.find (\<lambda>g. gpu_vendor g \<noteq> VendorUnknown) (hw_gpus hw) of
        Some g \<Rightarrow> Some g
      | None \<Rightarrow> (case hw_gpus hw of [] \<Rightarrow> None | g # _ \<Rightarrow> Some g))"

definition vram_mb :: "hardware \<Rightarrow> nat" where
  "vram_mb hw = unwrap_or (Option.bind (primary_gpu hw) gpu_vram_mb) 0"

section \<open>The window\<close>

definition DEFAULT_WINDOW :: nat where "DEFAULT_WINDOW = 4096"
definition WINDOW_CAP :: nat where "WINDOW_CAP = 32768"
definition WINDOW_FLOOR :: nat where "WINDOW_FLOOR = 2048"
definition RESERVE_BYTES :: nat where "RESERVE_BYTES = 2 ^ 30"
definition WINDOW_STEP :: nat where "WINDOW_STEP = 1024"

record resident =
  res_bytes :: nat
  res_on_gpu :: bool

definition wrap64 :: "nat \<Rightarrow> nat" where "wrap64 n = n mod 2 ^ 64"

definition wrap_sum :: "nat list \<Rightarrow> nat" where
  "wrap_sum xs = foldl (\<lambda>a x. wrap64 (a + x)) 0 xs"

definition kv_bytes_per_token :: "gguf_meta \<Rightarrow> nat" where
  "kv_bytes_per_token m =
     (let per_head = wrap64 (gm_key_length m + gm_value_length m)
      in wrap_sum (map (\<lambda>h. wrap64 (wrap64 (h * per_head) * 2)) (gm_head_count_kv m)))"

definition kv_budget :: "hardware \<Rightarrow> nat \<Rightarrow> resident list \<Rightarrow> nat" where
  "kv_budget hw model_bytes others =
     (let MB = 2 ^ 20;
          vram = wrap64 (vram_mb hw * MB);
          on_gpu = (0 < vram);
          pool = (if on_gpu then vram else wrap64 (hw_ram_mb hw * MB) div 2);
          shared = wrap_sum (map res_bytes (filter (\<lambda>r. res_on_gpu r = on_gpu \<or> \<not> on_gpu) others))
      in pool - model_bytes - shared - RESERVE_BYTES)"

definition choose_window :: "gguf_meta option \<Rightarrow> hardware \<Rightarrow> nat \<Rightarrow> resident list \<Rightarrow> nat option \<Rightarrow> nat" where
  "choose_window meta hw model_bytes others given =
     (case meta of
        None \<Rightarrow> unwrap_or given DEFAULT_WINDOW
      | Some m \<Rightarrow>
          (case given of
             Some w \<Rightarrow> min w (gm_trained_ctx m)
           | None \<Rightarrow>
               (let window = min (gm_trained_ctx m) WINDOW_CAP;
                    per_token = kv_bytes_per_token m;
                    window = (if per_token = 0 then window
                              else min window (unwrap_or (try_u32 (kv_budget hw model_bytes others div per_token)) (2 ^ 32 - 1)))
                in min (max (window div WINDOW_STEP * WINDOW_STEP) WINDOW_FLOOR) (gm_trained_ctx m))))"

definition smaller :: "nat \<Rightarrow> nat option" where
  "smaller w = (if WINDOW_FLOOR < w then Some (max (w div 2 div WINDOW_STEP * WINDOW_STEP) WINDOW_FLOOR) else None)"

section \<open>Loading\<close>

datatype engine_error =
    EnginePort string
  | EngineSpawn string
  | EngineTimeout string
  | EngineExitedEarly string
  | EngineHttp string

lemma smaller_less: "smaller w = Some v \<Longrightarrow> v < w"
proof -
  assume "smaller w = Some v"
  then have w: "2048 < w" "v = max (w div 2 div 1024 * 1024) 2048"
    by (auto simp: smaller_def WINDOW_FLOOR_def WINDOW_STEP_def split: if_splits)
  have "w div 2 div 1024 * 1024 \<le> w div 2" by (rule div_times_less_eq_dividend)
  then show "v < w" using w by simp
qed

text \<open>
  The loader keeps its own state \<open>s\<close> and answers for one window.  The loop ends because every next
  window is smaller.
\<close>

function load_shrinking ::
  "('s \<Rightarrow> nat \<Rightarrow> 's \<times> (engine_error + 't)) \<Rightarrow> bool \<Rightarrow> nat \<Rightarrow> 's \<Rightarrow> 's \<times> (engine_error + 't \<times> nat)" where
  "load_shrinking load shrink window s =
     (case load s window of
        (s, Inr done_) \<Rightarrow> (s, Inr (done_, window))
      | (s, Inl (EngineExitedEarly why)) \<Rightarrow>
          (case (if shrink then smaller window else None) of
             Some next_ \<Rightarrow> load_shrinking load shrink next_ s
           | None \<Rightarrow> (s, Inl (EngineExitedEarly why)))
      | (s, Inl other) \<Rightarrow> (s, Inl other))"
  by pat_completeness auto
termination
  by (relation "measure (\<lambda>(_, _, w, _). w)") (auto dest: smaller_less split: if_splits)

declare load_shrinking.simps [simp del]

section \<open>The window keeps to the model and to the memory\<close>

lemma wrap64_le: "wrap64 n \<le> n" and wrap64_id: "n < 2 ^ 64 \<Longrightarrow> wrap64 n = n"
  by (simp_all add: wrap64_def)

lemma wrap_sum_simps [simp]: "wrap_sum [] = 0" "wrap_sum [x] = wrap64 x"
  by (simp_all add: wrap_sum_def)

lemma wrap_sum_exact:
  assumes "sum_list xs < 2 ^ 64"
  shows "wrap_sum xs = sum_list xs"
proof -
  have "a + sum_list xs < 2 ^ 64 \<Longrightarrow> foldl (\<lambda>a x. wrap64 (a + x)) a xs = a + sum_list xs" for a
    by (induction xs arbitrary: a) (auto simp: wrap64_id)
  from this[of 0] assms show ?thesis by (simp add: wrap_sum_def)
qed

lemma kv_exact:
  assumes "(\<Sum>h \<leftarrow> gm_head_count_kv m. h * (gm_key_length m + gm_value_length m) * 2) < 2 ^ 64"
    and "gm_key_length m + gm_value_length m < 2 ^ 64"
  shows "kv_bytes_per_token m = (\<Sum>h \<leftarrow> gm_head_count_kv m. h * (gm_key_length m + gm_value_length m) * 2)"
proof -
  let ?p = "gm_key_length m + gm_value_length m" and ?hs = "gm_head_count_kv m"
  have le: "h * ?p * 2 \<le> (\<Sum>h \<leftarrow> ?hs. h * ?p * 2)" if "h \<in> set ?hs" for h
    using that by (intro member_le_sum_list) auto
  have "map (\<lambda>h. wrap64 (wrap64 (h * ?p) * 2)) ?hs = map (\<lambda>h. h * ?p * 2) ?hs"
  proof (rule map_cong[OF refl])
    fix h
    assume "h \<in> set ?hs"
    from le[OF this] assms(1) have "h * ?p * 2 < 2 ^ 64" by linarith
    then show "wrap64 (wrap64 (h * ?p) * 2) = h * ?p * 2" by (simp add: wrap64_id del: power_numeral)
  qed
  moreover have "wrap64 ?p = ?p" using assms(2) by (rule wrap64_id)
  ultimately show ?thesis using wrap_sum_exact[OF assms(1)]
    unfolding kv_bytes_per_token_def Let_def by (simp only:)
qed

text \<open>The memory bounds a window exactly, where a budget past 32 bits bounds nothing the cap allows.\<close>

lemma memory_bound_iff:
  assumes "v \<le> WINDOW_CAP"
  shows "v \<le> (if need = 0 then t else min t (unwrap_or (try_u32 (budget div need)) (2 ^ 32 - 1)))
     \<longleftrightarrow> v \<le> t \<and> v * need \<le> budget"
proof (cases "need = 0")
  case False
  then have fits: "v * need \<le> budget \<longleftrightarrow> v \<le> budget div need" by (simp add: less_eq_div_iff_mult_less_eq)
  have "v \<le> unwrap_or (try_u32 q) (2 ^ 32 - 1) \<longleftrightarrow> v \<le> q" for q
  proof (cases "q < 2 ^ 32")
    case True
    then show ?thesis by (simp add: try_u32_def unwrap_or_def)
  next
    case big: False
    then have "v \<le> q" "v \<le> 2 ^ 32 - 1" using assms by (simp_all add: WINDOW_CAP_def)
    with big show ?thesis by (simp add: try_u32_def unwrap_or_def)
  qed
  then show ?thesis using False fits by simp
qed simp

text \<open>C26: Without an override the window is a multiple of 1024 and at least the floor, unless the model was
  trained for less than the floor and then keeps its own size.  It is the largest such multiple
  within what the model was trained for and the cap whose KV cache the memory holds; a window above
  the floor always fits.  An override is taken, up to what the model was trained for.  This
  holds as long as the size of one token's KV cache does not wrap around 64 bits, which
  \<open>kv_size_can_wrap\<close> shows a file can make it do, and for head sizes below 32 bits, which is what the
  reader gives.\<close>
theorem window_fits_and_is_largest:
  assumes "(\<Sum>h \<leftarrow> gm_head_count_kv m. h * (gm_key_length m + gm_value_length m) * 2) = need" and "need < 2 ^ 64"
    and "gm_key_length m < 2 ^ 32" and "gm_value_length m < 2 ^ 32"
    and "choose_window (Some m) hw model_bytes others None = w"
  shows "w \<le> gm_trained_ctx m \<and> w \<le> WINDOW_CAP \<and> min WINDOW_FLOOR (gm_trained_ctx m) \<le> w
    \<and> (if gm_trained_ctx m < WINDOW_FLOOR then w = gm_trained_ctx m else 1024 dvd w)
    \<and> (WINDOW_FLOOR < w \<longrightarrow> w * need \<le> kv_budget hw model_bytes others)
    \<and> (\<forall>k. 1024 * k \<le> gm_trained_ctx m \<longrightarrow> 1024 * k \<le> WINDOW_CAP
          \<longrightarrow> 1024 * k * need \<le> kv_budget hw model_bytes others \<longrightarrow> 1024 * k \<le> w)
    \<and> choose_window (Some m) hw model_bytes others (Some given) = min given (gm_trained_ctx m)"
proof -
  let ?b = "kv_budget hw model_bytes others" and ?t = "min (gm_trained_ctx m) WINDOW_CAP"
  have kv: "kv_bytes_per_token m = need" using kv_exact assms(1-4) by auto
  define win where "win = (if need = 0 then ?t else min ?t (unwrap_or (try_u32 (?b div need)) (2 ^ 32 - 1)))"
  have w: "w = min (max (win div 1024 * 1024) 2048) (gm_trained_ctx m)"
    using assms(5)[symmetric]
    unfolding choose_window_def option.case Let_def kv win_def[symmetric] WINDOW_STEP_def WINDOW_FLOOR_def .
  have win_iff: "v \<le> win \<longleftrightarrow> v \<le> ?t \<and> v * need \<le> ?b" if "v \<le> WINDOW_CAP" for v
    unfolding win_def using that by (rule memory_bound_iff)
  have cap: "win \<le> ?t" unfolding win_def by (cases "need = 0") (simp_all only: if_True if_False simp_thms min.cobounded1 order_refl)
  have down: "win div 1024 * 1024 \<le> win" by (rule div_times_less_eq_dividend)
  have "w * need \<le> ?b" if "2048 < w"
  proof -
    have le: "w \<le> win" using that w down by linarith
    moreover have "w \<le> WINDOW_CAP" using le cap by simp
    ultimately show ?thesis using win_iff by blast
  qed
  moreover have "1024 * k \<le> w" if "1024 * k \<le> gm_trained_ctx m" "1024 * k \<le> WINDOW_CAP" "1024 * k * need \<le> ?b" for k
  proof -
    have "1024 * k \<le> win" using win_iff[of "1024 * k"] that by simp
    then have "k \<le> win div 1024" by (simp add: less_eq_div_iff_mult_less_eq mult.commute)
    then show ?thesis using w that(1) by simp
  qed
  moreover have "w \<le> WINDOW_CAP" using w cap down unfolding WINDOW_CAP_def by linarith
  moreover have "if gm_trained_ctx m < WINDOW_FLOOR then w = gm_trained_ctx m else 1024 dvd w"
  proof (cases "gm_trained_ctx m < 2048")
    case True
    then show ?thesis using w by (simp add: WINDOW_FLOOR_def)
  next
    case False
    then have "w = max (win div 1024 * 1024) 2048" using w down cap by linarith
    then show ?thesis using False by (simp add: WINDOW_FLOOR_def max_def)
  qed
  moreover have "w \<le> gm_trained_ctx m" "min WINDOW_FLOOR (gm_trained_ctx m) \<le> w" using w unfolding WINDOW_FLOOR_def by linarith+
  moreover have "choose_window (Some m) hw model_bytes others (Some given) = min given (gm_trained_ctx m)"
    by (simp add: choose_window_def)
  ultimately show ?thesis unfolding WINDOW_FLOOR_def by blast
qed

definition small_machine :: hardware where
  "small_machine = \<lparr>hw_cpu = \<lparr>cpu_brand = ''c'', cpu_cores = 4, cpu_avx2 = True, cpu_avx512 = False\<rparr>,
     hw_ram_mb = 8192, hw_gpus = []\<rparr>"

definition sample_model :: gguf_meta where
  "sample_model = \<lparr>gm_arch = ''l'', gm_trained_ctx = 131072, gm_n_layer = 4, gm_n_embd = 4096,
     gm_head_count = [32, 32, 32, 32], gm_head_count_kv = [8, 8, 8, 8], gm_key_length = 128,
     gm_value_length = 128, gm_template_tools = None\<rparr>"

text \<open>4 GiB for the pool, less the reserve and 2.9 GB of weights.\<close>

theorem window_fits_and_is_largest_witness:
  "choose_window (Some sample_model) small_machine 2900000000 [] None = 19456 \<and> 19456 * 16384 \<le> kv_budget small_machine 2900000000 []"
proof -
  have "kv_bytes_per_token sample_model = 16384"
    by (subst kv_exact) (simp_all add: sample_model_def)
  moreover have "kv_budget small_machine 2900000000 [] = 321225472"
    by (simp add: kv_budget_def small_machine_def vram_mb_def primary_gpu_def unwrap_or_def wrap64_def
        RESERVE_BYTES_def)
  moreover have "gm_trained_ctx sample_model = 131072" by (simp add: sample_model_def)
  moreover have "unwrap_or (try_u32 (321225472 div 16384)) (2 ^ 32 - 1) = 19606" by (simp add: unwrap_or_def try_u32_def)
  moreover have "min (max (min (min 131072 32768) 19606 div 1024 * 1024) 2048) 131072 = (19456 :: nat)" "(16384 :: nat) \<noteq> 0"
    by simp_all
  ultimately have w: "choose_window (Some sample_model) small_machine 2900000000 [] None = 19456"
    unfolding choose_window_def Let_def option.case WINDOW_STEP_def WINDOW_CAP_def WINDOW_FLOOR_def by (simp only: if_False)
  have n: "(\<Sum>h \<leftarrow> gm_head_count_kv sample_model. h * (gm_key_length sample_model + gm_value_length sample_model) * 2) = 16384"
    by (simp add: sample_model_def)
  from window_fits_and_is_largest[OF n _ _ _ w] w show ?thesis
    by (simp add: sample_model_def WINDOW_FLOOR_def)
qed

text \<open>A file may name numbers whose product wraps to zero; then no memory bounds the window.\<close>

theorem kv_size_can_wrap:
  "let m = sample_model\<lparr>gm_head_count_kv := [2 ^ 31], gm_key_length := 2 ^ 31, gm_value_length := 2 ^ 31\<rparr>
   in kv_bytes_per_token m = 0 \<and> choose_window (Some m) hw model_bytes [] None = WINDOW_CAP"
proof -
  let ?m = "sample_model\<lparr>gm_head_count_kv := [2 ^ 31], gm_key_length := 2 ^ 31, gm_value_length := 2 ^ 31\<rparr>"
  have "kv_bytes_per_token ?m = 0" by (simp add: kv_bytes_per_token_def wrap64_def)
  moreover have "gm_trained_ctx ?m = 131072" by (simp add: sample_model_def)
  moreover have "min (max (min 131072 32768 div 1024 * 1024) 2048) 131072 = (32768 :: nat)" by simp
  ultimately show ?thesis
    unfolding choose_window_def Let_def option.case WINDOW_STEP_def WINDOW_CAP_def WINDOW_FLOOR_def by (simp only: if_True simp_thms)
qed

section \<open>Loading ends\<close>

text \<open>The windows from one on, as the next is chosen after a start that died.\<close>

function shrink_chain :: "nat \<Rightarrow> nat list" where
  "shrink_chain w = w # (case smaller w of None \<Rightarrow> [] | Some v \<Rightarrow> shrink_chain v)"
  by pat_completeness auto
termination by (relation "measure id") (auto dest: smaller_less)

declare shrink_chain.simps [simp del]

text \<open>The specification: try a list of windows in turn until one loads or fails another way.\<close>

fun try_in_turn ::
  "('s \<Rightarrow> nat \<Rightarrow> 's \<times> (engine_error + 't)) \<Rightarrow> nat list \<Rightarrow> 's \<Rightarrow> 's \<times> (engine_error + 't \<times> nat) option" where
  "try_in_turn load [] s = (s, None)"
| "try_in_turn load (w # ws) s =
     (case load s w of
        (s, Inr t) \<Rightarrow> (s, Some (Inr (t, w)))
      | (s, Inl e) \<Rightarrow>
          if (\<exists>why. e = EngineExitedEarly why) \<and> ws \<noteq> [] then try_in_turn load ws s else (s, Some (Inl e)))"

definition answer_of :: "'s \<times> 'r option \<Rightarrow> 's \<times> 'r" where
  "answer_of x = (fst x, the (snd x))"

lemma chain_not_Nil [simp]: "shrink_chain w \<noteq> []"
  by (subst shrink_chain.simps) simp

lemma chain_length: "w \<le> 2 ^ k * 2048 \<Longrightarrow> length (shrink_chain w) \<le> k + 1"
proof (induction k arbitrary: w)
  case 0
  then show ?case by (simp add: shrink_chain.simps smaller_def WINDOW_FLOOR_def)
next
  case (Suc k)
  show ?case
  proof (cases "smaller w")
    case None
    then show ?thesis by (simp add: shrink_chain.simps)
  next
    case (Some v)
    then have v: "v = max (w div 2 div 1024 * 1024) 2048" by (simp add: smaller_def WINDOW_FLOOR_def WINDOW_STEP_def split: if_splits)
    have "w div 2 div 1024 * 1024 \<le> w div 2" by (rule div_times_less_eq_dividend)
    also have "\<dots> \<le> 2 ^ k * 2048" using Suc.prems by simp
    finally have "v \<le> 2 ^ k * 2048" using v by simp
    from Suc.IH[OF this] Some show ?thesis by (subst shrink_chain.simps) simp
  qed
qed

lemma shrinking_is_in_turn:
  "load_shrinking load shrink w s
   = answer_of (try_in_turn load (if shrink then shrink_chain w else [w]) s)"
proof (induction load shrink w s rule: load_shrinking.induct)
  case (1 load shrink w s)
  obtain s1 r where l: "load s w = (s1, r)" by fastforce
  show ?case
  proof (cases "shrink \<and> smaller w \<noteq> None \<and> (\<exists>why. r = Inl (EngineExitedEarly why))")
    case True
    then obtain v why where v: "smaller w = Some v" "r = Inl (EngineExitedEarly why)" "shrink" by auto
    then have "load_shrinking load shrink v s1 = answer_of (try_in_turn load (shrink_chain v) s1)"
      using 1[OF l[symmetric], of _ why v] by simp
    then show ?thesis using v l by (simp add: load_shrinking.simps[of _ _ w] shrink_chain.simps[of w])
  next
    case False
    then show ?thesis using l
      by (auto simp: answer_of_def load_shrinking.simps[of _ _ w] shrink_chain.simps[of w] split: sum.splits engine_error.splits option.splits)
  qed
qed

text \<open>Loading always ends: it tries the window and, as long as the engine dies while starting and
  shrinking is on, half of it and half of that down to the floor, each once, at most 22 for any
  32-bit window; it answers with the first that loaded together with its window, or the first
  other failure, or the last.\<close>
theorem load_shrinking_tries_in_turn:
  assumes "window < 2 ^ 32"
  shows "length (shrink_chain window) \<le> 22 \<and>
    load_shrinking load shrink window s
      = answer_of (try_in_turn load (if shrink then shrink_chain window else [window]) s)"
proof -
  have "window \<le> 2 ^ 21 * 2048" using assms by simp
  from chain_length[OF this] shrinking_is_in_turn[of load shrink window s] show ?thesis by simp
qed

theorem load_shrinking_tries_in_turn_witness:
  "load_shrinking (\<lambda>s w. (s @ [w], if w \<le> 5000 then Inr () else Inl (EngineExitedEarly ''no memory''))) True 32768 []
     = ([32768, 16384, 8192, 4096], Inr ((), 4096))"
proof -
  let ?load = "\<lambda>s w. (s @ [w], if w \<le> 5000 then Inr () else Inl (EngineExitedEarly ''no memory''))"
  have c: "shrink_chain 32768 = [32768, 16384, 8192, 4096, 2048]"
    by (simp add: shrink_chain.simps[of 32768] shrink_chain.simps[of 16384] shrink_chain.simps[of 8192]
        shrink_chain.simps[of 4096] shrink_chain.simps[of 2048] smaller_def WINDOW_FLOOR_def WINDOW_STEP_def)
  from load_shrinking_tries_in_turn[of 32768 ?load True "[]"] show ?thesis
    unfolding c by (simp add: answer_of_def)
qed

end
