(* ===== verification/Background.thy ===== *)
theory Background imports Fleet "HOL-Library.Multiset" begin

text \<open>
  Delegation that outlives its turn (\<open>agent/background.rs\<close>): a queue of children, a pool with a
  limit, and one task per child.  The pool sits behind one lock, which is held for one look or one
  change at a time, so the tasks of the program interleave between those; a task is a program
  counter here, and everything a child does to its own row and handle in one go is one step.  What
  the agent of a child answers, and what the settings say when they are read, come with the steps.
  The model of a child carries what the pool reads of \<open>Spawn\<close>; its messages, its model and its
  limits are for the agent, which is outside.
\<close>

section \<open>The rows of the children\<close>

record sub_row =
  sr_id :: string
  sr_status :: string
  sr_stop_reason :: "string option"
  sr_result :: "string option"
  sr_steps :: nat
  sr_ended_at :: "int option"

type_synonym sub_rows = "sub_row list"

text \<open>An update that fails changes nothing, and every caller goes on (\<open>let _ = \<dots>\<close>).\<close>

definition set_subagent_status :: "bool \<Rightarrow> sub_rows \<Rightarrow> string \<Rightarrow> string \<Rightarrow> sub_rows" where
  "set_subagent_status up rows i status =
     (if up then map (\<lambda>r. if sr_id r = i \<and> sr_ended_at r = None then r\<lparr>sr_status := status\<rparr> else r) rows
      else rows)"

definition finish_subagent_run ::
  "bool \<Rightarrow> sub_rows \<Rightarrow> string \<Rightarrow> string \<Rightarrow> string \<Rightarrow> string \<Rightarrow> nat \<Rightarrow> int \<Rightarrow> sub_rows" where
  "finish_subagent_run up rows i status reason result steps now =
     (if up then map (\<lambda>r. if sr_id r = i
          then r\<lparr>sr_status := status, sr_stop_reason := Some reason, sr_result := Some result,
                 sr_steps := steps, sr_ended_at := Some now\<rparr> else r) rows
      else rows)"

definition fail_interrupted :: "bool \<Rightarrow> sub_rows \<Rightarrow> int \<Rightarrow> sub_rows \<times> nat" where
  "fail_interrupted up rows now =
     (if up then
        (map (\<lambda>r. if sr_ended_at r = None
            then r\<lparr>sr_status := ''stopped'', sr_stop_reason := Some ''aborted'', sr_ended_at := Some now,
                   sr_result := (case sr_result r of Some t \<Rightarrow> Some t
                                 | None \<Rightarrow> Some ''It was still going when the app closed.'')\<rparr> else r) rows,
         length (filter (\<lambda>r. sr_ended_at r = None) rows))
      else (rows, 0))"

definition get_subagent_run :: "bool \<Rightarrow> sub_rows \<Rightarrow> string \<Rightarrow> sub_row option" where
  "get_subagent_run up rows i = (if up then List.find (\<lambda>r. sr_id r = i) rows else None)"

section \<open>The pool\<close>

definition DEFAULT_CONCURRENT :: nat where "DEFAULT_CONCURRENT = 3"
definition MAX_CONCURRENT :: nat where "MAX_CONCURRENT = 5"

record spawn =
  sp_run_id :: string
  sp_child_conversation_id :: string
  sp_agent :: string

record pool =
  pl_running :: nat
  pl_queue :: "spawn list"

definition empty_pool :: pool where "empty_pool = \<lparr>pl_running = 0, pl_queue = []\<rparr>"

definition concurrency_limit :: "db \<Rightarrow> nat" where
  "concurrency_limit d =
     clamp 1 MAX_CONCURRENT
       (case Option.bind (get_setting d ''subagents.max_background'') (\<lambda>v. parse_usize (trim v)) of
          None \<Rightarrow> DEFAULT_CONCURRENT | Some n \<Rightarrow> n)"

text \<open>One look of \<open>pump\<close> under the lock: take the next child if there is room.\<close>

definition pool_take :: "nat \<Rightarrow> pool \<Rightarrow> pool \<times> spawn option" where
  "pool_take limit p =
     (if pl_running p < limit then
        (case pl_queue p of
           [] \<Rightarrow> (p, None)
         | s # q \<Rightarrow> (\<lparr>pl_running = pl_running p + 1, pl_queue = q\<rparr>, Some s))
      else (p, None))"

definition pool_extend :: "spawn list \<Rightarrow> pool \<Rightarrow> pool" where
  "pool_extend ss p = p\<lparr>pl_queue := pl_queue p @ ss\<rparr>"

definition pool_leave :: "pool \<Rightarrow> pool" where
  "pool_leave p = p\<lparr>pl_running := pl_running p - 1\<rparr>"

definition queued :: "pool \<Rightarrow> nat" where "queued p = length (pl_queue p)"

section \<open>A child\<close>

text \<open>\<open>SubEnded\<close> on the bus of the app.\<close>

record sub_ended =
  se_run_id :: string
  se_status :: string
  se_stop :: string
  se_summary :: string
  se_steps :: nat
  se_ms :: nat

record bg_state =
  bg_fleet :: fleet
  bg_db :: db
  bg_up :: bool
  bg_rows :: sub_rows
  bg_events :: "sub_ended list"

definition stopped_early :: string where "stopped_early = ''It was stopped before it started.''"

definition announce_end :: "bg_state \<Rightarrow> string \<Rightarrow> bg_state" where
  "announce_end st i =
     (case get_subagent_run (bg_up st) (bg_rows st) i of
        None \<Rightarrow> st
      | Some r \<Rightarrow> st\<lparr>bg_events := bg_events st @
          [\<lparr>se_run_id = sr_id r, se_status = sr_status r,
            se_stop = (case sr_stop_reason r of Some t \<Rightarrow> t | None \<Rightarrow> stop_as_str StopAborted),
            se_summary = (case sr_result r of Some t \<Rightarrow> t | None \<Rightarrow> ''''), se_steps = sr_steps r, se_ms = 0\<rparr>]\<rparr>)"

definition refuse_start :: "int \<Rightarrow> bg_state \<Rightarrow> string \<Rightarrow> bg_state" where
  "refuse_start now st i =
     st\<lparr>bg_rows := finish_subagent_run (bg_up st) (bg_rows st) i ''stopped'' (stop_as_str StopAborted) stopped_early 0 now\<rparr>"

text \<open>The head of \<open>run_one\<close>: \<open>None\<close> when the child goes on to its agent.\<close>

definition run_one_gone :: "int \<Rightarrow> bg_state \<Rightarrow> spawn \<Rightarrow> bg_state" where
  "run_one_gone now st s = announce_end (refuse_start now st (sp_run_id s)) (sp_run_id s)"

definition run_one_cancelled :: "int \<Rightarrow> bg_state \<Rightarrow> spawn \<Rightarrow> bg_state" where
  "run_one_cancelled now st s =
     (let st1 = refuse_start now st (sp_run_id s);
          st2 = st1\<lparr>bg_fleet := close_run (bg_fleet st1) (sp_run_id s)\<rparr>
      in announce_end st2 (sp_run_id s))"

definition run_one_starts :: "bg_state \<Rightarrow> spawn \<Rightarrow> bg_state" where
  "run_one_starts st s =
     st\<lparr>bg_rows := set_subagent_status (bg_up st) (bg_rows st) (sp_run_id s) ''running''\<rparr>"

definition status_word :: "stop_reason \<Rightarrow> string" where
  "status_word r = (case r of StopCompleted \<Rightarrow> ''done'' | StopAborted \<Rightarrow> ''stopped'' | StopError \<Rightarrow> ''error'' | _ \<Rightarrow> ''done'')"

definition run_one_ends :: "int \<Rightarrow> nat \<Rightarrow> run_outcome \<Rightarrow> bg_state \<Rightarrow> spawn \<Rightarrow> bg_state" where
  "run_one_ends now ms o' st s =
     (let text = (if trim (out_text o') = [] then ''(it produced no text)'' else trim (out_text o'));
          status = status_word (out_stop_reason o')
      in st\<lparr>bg_rows := finish_subagent_run (bg_up st) (bg_rows st) (sp_run_id s) status (stop_as_str (out_stop_reason o'))
                          text (out_steps o') now,
            bg_events := bg_events st @
              [\<lparr>se_run_id = sp_run_id s, se_status = status, se_stop = stop_as_str (out_stop_reason o'),
                se_summary = text, se_steps = out_steps o', se_ms = ms\<rparr>],
            bg_fleet := close_run (bg_fleet st) (sp_run_id s),
            bg_db := or_unchanged (bg_db st) (log_activity (bg_db st) (Some (sp_child_conversation_id s)) ''subagent''
                       (''the '' @ sp_agent s @ '' agent finished in the background''))\<rparr>)"

section \<open>The tasks\<close>

text \<open>
  A pump first reads the limit and then looks again and again; a child asks the fleet for its
  handle, looks at its flag, works, leaves its place in the pool and pumps.
\<close>

datatype task =
    PumpRead
  | PumpLook nat
  | ChildBegin spawn
  | ChildFlag spawn nat
  | ChildWork spawn
  | ChildLeave
  | TaskDone

record world =
  w_pool :: pool
  w_state :: bg_state
  w_tasks :: "task list"
  w_accepted :: "spawn list"
  w_started :: "spawn list"

definition bg_start :: "bg_state \<Rightarrow> world" where
  "bg_start st = \<lparr>w_pool = empty_pool, w_state = st, w_tasks = [], w_accepted = [], w_started = []\<rparr>"

definition set_task :: "nat \<Rightarrow> task \<Rightarrow> world \<Rightarrow> world" where
  "set_task i t w = w\<lparr>w_tasks := (w_tasks w)[i := t]\<rparr>"

text \<open>\<open>submit\<close> where there is an app to run in.\<close>

definition submit :: "spawn list \<Rightarrow> world \<Rightarrow> world" where
  "submit ss w = w\<lparr>w_pool := pool_extend ss (w_pool w), w_tasks := w_tasks w @ [PumpRead],
     w_accepted := w_accepted w @ ss\<rparr>"

text \<open>The next step of task \<open>i\<close>, with the time and the answer of the agent for those that use them.\<close>

definition task_step :: "int \<Rightarrow> nat \<Rightarrow> run_outcome \<Rightarrow> nat \<Rightarrow> world \<Rightarrow> world" where
  "task_step now ms o' i w =
     (case w_tasks w ! i of
        PumpRead \<Rightarrow> set_task i (PumpLook (concurrency_limit (bg_db (w_state w)))) w
      | PumpLook limit \<Rightarrow>
          (case pool_take limit (w_pool w) of
             (p, None) \<Rightarrow> set_task i TaskDone w
           | (p, Some s) \<Rightarrow>
               w\<lparr>w_pool := p, w_tasks := w_tasks w @ [ChildBegin s], w_started := w_started w @ [s]\<rparr>)
      | ChildBegin s \<Rightarrow>
          (case get_run (bg_fleet (w_state w)) (sp_run_id s) of
             None \<Rightarrow> set_task i ChildLeave (w\<lparr>w_state := run_one_gone now (w_state w) s\<rparr>)
           | Some h \<Rightarrow> set_task i (ChildFlag s (h_cancel h)) w)
      | ChildFlag s flag \<Rightarrow>
          (if fl_flags (bg_fleet (w_state w)) flag
           then set_task i ChildLeave (w\<lparr>w_state := run_one_cancelled now (w_state w) s\<rparr>)
           else set_task i (ChildWork s) (w\<lparr>w_state := run_one_starts (w_state w) s\<rparr>))
      | ChildWork s \<Rightarrow> set_task i ChildLeave (w\<lparr>w_state := run_one_ends now ms o' (w_state w) s\<rparr>)
      | ChildLeave \<Rightarrow> set_task i PumpRead (w\<lparr>w_pool := pool_leave (w_pool w)\<rparr>)
      | TaskDone \<Rightarrow> w)"

text \<open>
  The moves of the program: a submission, a step of a task that is not done, and whatever the rest
  of the program does to the fleet, the settings and the rows.
\<close>

inductive bg_move :: "world \<Rightarrow> world \<Rightarrow> bool" where
  submits: "bg_move w (submit ss w)"
| steps: "i < length (w_tasks w) \<Longrightarrow> w_tasks w ! i \<noteq> TaskDone \<Longrightarrow> bg_move w (task_step now ms o' i w)"
| others: "bg_move w (w\<lparr>w_state := st\<rparr>)"

inductive bg_reach :: "world \<Rightarrow> bool" where
  start: "bg_reach (bg_start st)"
| move: "bg_reach w \<Longrightarrow> bg_move w w' \<Longrightarrow> bg_reach w'"

section \<open>The pool keeps count\<close>

fun child_task :: "task \<Rightarrow> bool" where
  "child_task (ChildBegin s) = True"
| "child_task (ChildFlag s f) = True"
| "child_task (ChildWork s) = True"
| "child_task ChildLeave = True"
| "child_task _ = False"

fun pump_task :: "task \<Rightarrow> bool" where
  "pump_task PumpRead = True"
| "pump_task (PumpLook n) = True"
| "pump_task _ = False"

definition children :: "task list \<Rightarrow> nat" where "children ts = length (filter child_task ts)"

lemma children_append [simp]: "children (ts @ us) = children ts + children us"
  by (simp add: children_def)

lemma children_simps [simp]: "children [] = 0" "children (t # ts) = (if child_task t then 1 else 0) + children ts"
  by (simp_all add: children_def)

lemma children_update:
  "i < length ts \<Longrightarrow> children (ts[i := t]) + (if child_task (ts ! i) then 1 else 0)
     = children ts + (if child_task t then 1 else 0)"
proof (induction ts arbitrary: i)
  case (Cons u ts)
  then show ?case by (cases i) auto
qed simp

lemma children_pos: "i < length ts \<Longrightarrow> child_task (ts ! i) \<Longrightarrow> 0 < children ts"
  by (metis children_def filter_empty_conv length_greater_0_conv nth_mem)

definition pool_inv :: "world \<Rightarrow> bool" where
  "pool_inv w \<longleftrightarrow>
     pl_running (w_pool w) = children (w_tasks w)
   \<and> pl_running (w_pool w) \<le> MAX_CONCURRENT
   \<and> w_accepted w = w_started w @ pl_queue (w_pool w)
   \<and> (pl_queue (w_pool w) \<noteq> [] \<longrightarrow> (\<exists>t \<in> set (w_tasks w). pump_task t \<or> child_task t))
   \<and> (\<forall>n. PumpLook n \<in> set (w_tasks w) \<longrightarrow> 1 \<le> n \<and> n \<le> MAX_CONCURRENT)"

lemma limit_bounds: "1 \<le> concurrency_limit d" "concurrency_limit d \<le> MAX_CONCURRENT"
  using clamp_bounds[of 1 MAX_CONCURRENT] by (simp_all add: concurrency_limit_def MAX_CONCURRENT_def)

lemma set_update: "t \<in> set (ts[i := u]) \<Longrightarrow> t = u \<or> t \<in> set ts"
  using set_update_subset_insert by fast

text \<open>A task that is replaced by one that still works keeps the pool in its state.\<close>

lemma inv_same_pool:
  assumes "pool_inv w" "i < length (w_tasks w)" "child_task t = child_task (w_tasks w ! i)"
    and "pump_task t \<or> child_task t" "\<And>n. t = PumpLook n \<Longrightarrow> 1 \<le> n \<and> n \<le> MAX_CONCURRENT"
  shows "pool_inv (set_task i t (w\<lparr>w_state := st\<rparr>))"
proof -
  have "children ((w_tasks w)[i := t]) = children (w_tasks w)" using children_update[OF assms(2), of t] assms(3) by simp
  moreover have "t \<in> set ((w_tasks w)[i := t])" using assms(2) by (simp add: set_update_memI)
  moreover have "1 \<le> n \<and> n \<le> MAX_CONCURRENT" if "PumpLook n \<in> set ((w_tasks w)[i := t])" for n
    using set_update[OF that] assms(1,5) by (auto simp: pool_inv_def)
  ultimately show ?thesis using assms(1,4) by (auto simp: pool_inv_def set_task_def)
qed

lemma inv_state: "pool_inv w \<Longrightarrow> pool_inv (w\<lparr>w_state := st\<rparr>)"
  by (simp add: pool_inv_def)

lemma inv_submit: "pool_inv w \<Longrightarrow> pool_inv (submit ss w)"
  by (auto simp: pool_inv_def submit_def pool_extend_def)

lemma inv_look:
  assumes inv: "pool_inv w" and i: "i < length (w_tasks w)" and t: "w_tasks w ! i = PumpLook n"
  shows "pool_inv (task_step now ms o' i w)"
proof (cases "pl_running (w_pool w) < n \<and> pl_queue (w_pool w) \<noteq> []")
  case True
  then obtain s q where q: "pl_queue (w_pool w) = s # q" by (cases "pl_queue (w_pool w)") auto
  have n: "n \<le> MAX_CONCURRENT" using inv t i nth_mem by (fastforce simp: pool_inv_def)
  show ?thesis using True q t n inv by (auto simp: pool_inv_def task_step_def pool_take_def)
next
  case False
  then have step: "task_step now ms o' i w = set_task i TaskDone w"
    using t by (auto simp: task_step_def pool_take_def split: list.split)
  have n: "1 \<le> n" using inv t i nth_mem by (fastforce simp: pool_inv_def)
  have c: "children ((w_tasks w)[i := TaskDone]) = children (w_tasks w)"
    using children_update[OF i, of TaskDone] t by simp
  have looks: "1 \<le> m \<and> m \<le> MAX_CONCURRENT" if "PumpLook m \<in> set ((w_tasks w)[i := TaskDone])" for m
    using set_update[OF that] inv by (auto simp: pool_inv_def)
  have "\<exists>t \<in> set ((w_tasks w)[i := TaskDone]). child_task t" if "pl_queue (w_pool w) \<noteq> []"
  proof -
    have "0 < children ((w_tasks w)[i := TaskDone])" using False that n inv c by (simp add: pool_inv_def)
    then show ?thesis by (metis children_def filter_empty_conv length_greater_0_conv)
  qed
  then show ?thesis unfolding step using inv c looks by (auto simp: pool_inv_def set_task_def)
qed

lemma inv_leave:
  assumes inv: "pool_inv w" and i: "i < length (w_tasks w)" and t: "w_tasks w ! i = ChildLeave"
  shows "pool_inv (task_step now ms o' i w)"
proof -
  have "children ((w_tasks w)[i := PumpRead]) + 1 = children (w_tasks w)"
    using children_update[OF i, of PumpRead] t by simp
  moreover have "\<exists>t \<in> set ((w_tasks w)[i := PumpRead]). pump_task t \<or> child_task t"
    using i by (intro bexI[of _ PumpRead]) (simp_all add: set_update_memI)
  moreover have "1 \<le> m \<and> m \<le> MAX_CONCURRENT" if "PumpLook m \<in> set ((w_tasks w)[i := PumpRead])" for m
    using set_update[OF that] inv by (auto simp: pool_inv_def)
  ultimately show ?thesis using inv t
    by (auto simp: pool_inv_def task_step_def set_task_def pool_leave_def)
qed

lemma inv_step:
  assumes inv: "pool_inv w" and i: "i < length (w_tasks w)" and t: "w_tasks w ! i \<noteq> TaskDone"
  shows "pool_inv (task_step now ms o' i w)"
proof (cases "w_tasks w ! i")
  case PumpRead
  have "pool_inv (set_task i (PumpLook (concurrency_limit (bg_db (w_state w)))) (w\<lparr>w_state := w_state w\<rparr>))"
    using PumpRead limit_bounds by (intro inv_same_pool[OF inv i]) auto
  then show ?thesis using PumpRead by (simp add: task_step_def)
next
  case (ChildBegin s)
  show ?thesis
  proof (cases "get_run (bg_fleet (w_state w)) (sp_run_id s)")
    case None
    then show ?thesis using ChildBegin inv_same_pool[OF inv i, of ChildLeave] by (simp add: task_step_def)
  next
    case (Some h)
    have "pool_inv (set_task i (ChildFlag s (h_cancel h)) (w\<lparr>w_state := w_state w\<rparr>))"
      using ChildBegin by (intro inv_same_pool[OF inv i]) auto
    then show ?thesis using ChildBegin Some by (simp add: task_step_def)
  qed
next
  case (ChildFlag s f)
  then show ?thesis using inv_same_pool[OF inv i, of ChildLeave] inv_same_pool[OF inv i, of "ChildWork s"]
    by (simp add: task_step_def)
next
  case (ChildWork s)
  then show ?thesis using inv_same_pool[OF inv i, of ChildLeave] by (simp add: task_step_def)
qed (use inv_look[OF inv i] inv_leave[OF inv i] t in auto)

lemma reach_inv: "bg_reach w \<Longrightarrow> pool_inv w"
proof (induction rule: bg_reach.induct)
  case (start st)
  then show ?case by (simp add: pool_inv_def bg_start_def empty_pool_def)
next
  case (move w w')
  from move(2,3) show ?case
    by cases (simp_all add: inv_submit inv_state inv_step)
qed

text \<open>C27: In every history of submissions, pumps, children and changes from outside, the children that
  were started followed by those that wait are exactly those that were submitted, in order: none is
  lost, started twice or overtaken; the count of the pool is the number of children under way, and
  never above five; and while something waits, a pump or a child that will pump is under way.\<close>
theorem background_pool_keeps_order:
  assumes "bg_reach w"
  shows "w_accepted w = w_started w @ pl_queue (w_pool w)
    \<and> pl_running (w_pool w) = children (w_tasks w) \<and> children (w_tasks w) \<le> 5
    \<and> (pl_queue (w_pool w) \<noteq> [] \<longrightarrow> (\<exists>t \<in> set (w_tasks w). pump_task t \<or> child_task t))"
  using reach_inv[OF assms] by (auto simp: pool_inv_def MAX_CONCURRENT_def)

section \<open>Everything that waits is started\<close>

text \<open>What is left to do: every step of a task takes some of it away, so only submissions add work.\<close>

fun task_work :: "task \<Rightarrow> nat" where
  "task_work TaskDone = 0"
| "task_work (PumpLook n) = 1"
| "task_work PumpRead = 2"
| "task_work ChildLeave = 3"
| "task_work (ChildWork s) = 4"
| "task_work (ChildFlag s f) = 5"
| "task_work (ChildBegin s) = 6"

definition work_left :: "world \<Rightarrow> nat" where
  "work_left w = 7 * length (pl_queue (w_pool w)) + sum_list (map task_work (w_tasks w))"

lemma work_update:
  "i < length ts \<Longrightarrow> sum_list (map task_work (ts[i := t])) + task_work (ts ! i) = sum_list (map task_work ts) + task_work t"
proof (induction ts arbitrary: i)
  case (Cons u ts)
  then show ?case by (cases i) auto
qed simp

lemma step_works:
  assumes i: "i < length (w_tasks w)" and t: "w_tasks w ! i \<noteq> TaskDone"
  shows "work_left (task_step now ms o' i w) < work_left w"
proof -
  have less: "work_left (set_task i u (w\<lparr>w_state := st, w_pool := p\<rparr>)) < work_left w"
    if "task_work u < task_work (w_tasks w ! i)" "pl_queue p = pl_queue (w_pool w)" for u st p
    using work_update[OF i, of u] that by (simp add: work_left_def set_task_def)
  have less_st: "work_left (set_task i u (w\<lparr>w_state := st\<rparr>)) < work_left w"
    if "task_work u < task_work (w_tasks w ! i)" for u st using less[OF that, of "w_pool w" st] by simp
  have less_id: "work_left (set_task i u w) < work_left w" if "task_work u < task_work (w_tasks w ! i)" for u
    using less_st[OF that, of "w_state w"] by simp
  show ?thesis
  proof (cases "w_tasks w ! i")
    case (PumpLook n)
    show ?thesis
    proof (cases "pl_running (w_pool w) < n \<and> pl_queue (w_pool w) \<noteq> []")
      case True
      then obtain s q where "pl_queue (w_pool w) = s # q" by (cases "pl_queue (w_pool w)") auto
      then show ?thesis using True PumpLook by (simp add: task_step_def pool_take_def work_left_def)
    next
      case False
      then have "task_step now ms o' i w = set_task i TaskDone w"
        using PumpLook by (auto simp: task_step_def pool_take_def split: list.split)
      then show ?thesis using less_id PumpLook by simp
    qed
  next
    case ChildLeave
    then show ?thesis using less[of PumpRead "pool_leave (w_pool w)" "w_state w"]
      by (simp add: task_step_def pool_leave_def)
  next
    case (ChildBegin s)
    then show ?thesis using less_st less_id by (auto simp: task_step_def split: option.split)
  qed (use t less_st less_id in \<open>auto simp: task_step_def\<close>)
qed

text \<open>C28: The pool drains: every step of a task, whatever happens around it, takes away from a count of
  the work that is left, so between submissions the tasks come to an end; and when no task can
  move any more nothing waits, every child that was submitted was started, in order, and has
  left its place.\<close>
theorem background_pool_drains:
  assumes "bg_reach w"
  shows "(\<forall>now ms o' i. i < length (w_tasks w) \<longrightarrow> w_tasks w ! i \<noteq> TaskDone
            \<longrightarrow> work_left (task_step now ms o' i w) < work_left w)
    \<and> ((\<forall>i < length (w_tasks w). w_tasks w ! i = TaskDone)
            \<longrightarrow> w_started w = w_accepted w \<and> pl_running (w_pool w) = 0 \<and> pl_queue (w_pool w) = [])"
proof (intro conjI impI allI)
  fix now ms o' i
  assume "i < length (w_tasks w)" "w_tasks w ! i \<noteq> TaskDone"
  then show "work_left (task_step now ms o' i w) < work_left w" by (rule step_works)
next
  assume done_: "\<forall>i < length (w_tasks w). w_tasks w ! i = TaskDone"
  then have "children (w_tasks w) = 0" by (auto simp: children_def filter_empty_conv in_set_conv_nth)
  moreover have "pl_queue (w_pool w) = []"
    using reach_inv[OF assms] done_ by (auto simp: pool_inv_def in_set_conv_nth)
  ultimately show "w_started w = w_accepted w" "pl_running (w_pool w) = 0" "pl_queue (w_pool w) = []"
    using reach_inv[OF assms] by (auto simp: pool_inv_def)
qed

section \<open>A child always settles\<close>

definition end_words :: "string set" where "end_words = {''done'', ''stopped'', ''error''}"

definition sub_settled :: "sub_row \<Rightarrow> bool" where
  "sub_settled r \<longleftrightarrow> sr_ended_at r \<noteq> None \<and> sr_stop_reason r \<noteq> None \<and> sr_result r \<noteq> None
     \<and> sr_status r \<in> end_words"

lemma finish_settles:
  assumes "status \<in> end_words" "r \<in> set (finish_subagent_run True rows i status reason result steps now)" "sr_id r = i"
  shows "sub_settled r"
proof -
  from assms(2) obtain r0 where "r = (if sr_id r0 = i then r0\<lparr>sr_status := status, sr_stop_reason := Some reason,
      sr_result := Some result, sr_steps := steps, sr_ended_at := Some now\<rparr> else r0)"
    unfolding finish_subagent_run_def by (simp only: if_True set_map) blast
  then show ?thesis using assms(1,3) by (cases "sr_id r0 = i") (simp_all add: sub_settled_def)
qed

lemma finish_ids: "map sr_id (finish_subagent_run up rows i status reason result steps now) = map sr_id rows"
  by (auto simp: finish_subagent_run_def)

lemma finish_others:
  "r \<in> set (finish_subagent_run up rows i status reason result steps now) \<Longrightarrow> sr_id r \<noteq> i \<Longrightarrow> r \<in> set rows"
  by (auto simp: finish_subagent_run_def split: if_splits)

lemma find_row:
  assumes "i \<in> sr_id ` set rows"
  obtains r where "List.find (\<lambda>r. sr_id r = i) rows = Some r" "r \<in> set rows" "sr_id r = i"
proof -
  have "List.find (\<lambda>r. sr_id r = i) rows \<noteq> None" using assms by (auto simp: find_None_iff)
  then obtain r where "List.find (\<lambda>r. sr_id r = i) rows = Some r" by blast
  moreover from this have "r \<in> set rows \<and> sr_id r = i" by (rule find_SomeD)
  ultimately show ?thesis using that by blast
qed

lemma close_run_gone: "get_run (close_run fl i) i = None"
  by (simp add: get_run_def close_run_def delete_conv)

lemma status_word_in: "status_word r \<in> end_words"
  by (cases r) (simp_all add: status_word_def end_words_def)

lemma stopped_in: "''stopped'' \<in> end_words" by (simp add: end_words_def)

text \<open>C29: However a child of the pool ends (its handle gone before it began, its flag set before it
  began, or its agent done in any way), its row is settled with a reason and a text, every other
  row is as it was, its handle is out of the fleet, and the app hears of its end exactly once.\<close>
theorem background_child_settles:
  assumes "bg_up st" and "sp_run_id s \<in> sr_id ` set (bg_rows st)"
    and "st' = run_one_gone now st s \<and> get_run (bg_fleet st) (sp_run_id s) = None
       \<or> st' = run_one_cancelled now st s \<or> st' = run_one_ends now ms o' st s"
  shows "(\<forall>r \<in> set (bg_rows st'). if sr_id r = sp_run_id s then sub_settled r else r \<in> set (bg_rows st))
    \<and> map sr_id (bg_rows st') = map sr_id (bg_rows st)
    \<and> get_run (bg_fleet st') (sp_run_id s) = None
    \<and> (\<exists>e. bg_events st' = bg_events st @ [e] \<and> se_run_id e = sp_run_id s
          \<and> se_status e \<in> end_words)"
proof -
  let ?i = "sp_run_id s"
  define rows where "rows = finish_subagent_run True (bg_rows st) ?i ''stopped'' (stop_as_str StopAborted) stopped_early 0 now"
  have "?i \<in> sr_id ` set rows" using assms(2) finish_ids unfolding rows_def by (metis list.set_map)
  then obtain r where r: "List.find (\<lambda>r. sr_id r = ?i) rows = Some r" "r \<in> set rows" "sr_id r = ?i" by (rule find_row)
  have st: "sub_settled x" if "x \<in> set rows" "sr_id x = ?i" for x
    using finish_settles[OF stopped_in] that unfolding rows_def by blast
  have word: "sr_status r \<in> end_words" using st[OF r(2,3)] by (simp add: sub_settled_def)
  have early: "x \<in> set (bg_rows st)" if "x \<in> set rows" "sr_id x \<noteq> ?i" for x
    using finish_others that unfolding rows_def by blast
  from assms(3) show ?thesis
  proof (elim disjE conjE)
    assume g: "st' = run_one_gone now st s" "get_run (bg_fleet st) ?i = None"
    have "bg_rows st' = rows" "bg_fleet st' = bg_fleet st"
      "\<exists>e. bg_events st' = bg_events st @ [e] \<and> se_run_id e = ?i \<and> se_status e = sr_status r"
      using r assms(1) by (simp_all add: g(1) run_one_gone_def announce_end_def refuse_start_def get_subagent_run_def rows_def[symmetric])
    then show ?thesis using st early g(2) word finish_ids unfolding rows_def by auto
  next
    assume g: "st' = run_one_cancelled now st s"
    have "bg_rows st' = rows" "bg_fleet st' = close_run (bg_fleet st) ?i"
      "\<exists>e. bg_events st' = bg_events st @ [e] \<and> se_run_id e = ?i \<and> se_status e = sr_status r"
      using r assms(1) by (simp_all add: g run_one_cancelled_def announce_end_def refuse_start_def get_subagent_run_def rows_def[symmetric] Let_def)
    then show ?thesis using st early word finish_ids close_run_gone unfolding rows_def by auto
  next
    assume g: "st' = run_one_ends now ms o' st s"
    then show ?thesis using assms(1) status_word_in[of "out_stop_reason o'"] finish_ids close_run_gone
      by (auto simp: run_one_ends_def Let_def dest: finish_settles[OF status_word_in] finish_others)
  qed
qed

section \<open>Runs\<close>

definition one_child :: spawn where
  "one_child = \<lparr>sp_run_id = ''run_1'', sp_child_conversation_id = ''c1'', sp_agent = ''general''\<rparr>"

definition one_row :: sub_row where
  "one_row = \<lparr>sr_id = ''run_1'', sr_status = ''queued'', sr_stop_reason = None, sr_result = None, sr_steps = 0, sr_ended_at = None\<rparr>"

definition bg_sample :: bg_state where
  "bg_sample = \<lparr>bg_fleet = new_fleet, bg_db = empty_db, bg_up = True, bg_rows = [one_row], bg_events = []\<rparr>"

definition quick_outcome :: run_outcome where
  "quick_outcome = \<lparr>out_text = ''ok'', out_stop_reason = StopCompleted, out_steps = 2, out_usage = None\<rparr>"

definition quick_step :: "nat \<Rightarrow> world \<Rightarrow> world" where
  "quick_step i = task_step 5 0 quick_outcome i"

text \<open>A run of chosen tasks; the steps of tasks that are done are left out.\<close>

fun quick_run :: "nat list \<Rightarrow> world \<Rightarrow> world option" where
  "quick_run [] w = Some w"
| "quick_run (i # is) w =
     (if i < length (w_tasks w) \<and> w_tasks w ! i \<noteq> TaskDone then quick_run is (quick_step i w) else None)"

lemma quick_run_reach: "bg_reach w \<Longrightarrow> quick_run is w = Some w' \<Longrightarrow> bg_reach w'"
proof (induction "is" arbitrary: w)
  case (Cons i "is")
  then have "bg_move w (quick_step i w)" by (auto simp: quick_step_def intro: bg_move.steps split: if_splits)
  with Cons show ?case by (auto intro: bg_reach.move split: if_splits)
qed simp

lemma submit_reach: "bg_reach (submit ss (bg_start st))"
  by (rule bg_reach.move[OF bg_reach.start bg_move.submits])

lemmas run_defs = submit_def bg_start_def quick_step_def task_step_def pool_take_def pool_extend_def empty_pool_def
  set_task_def concurrency_limit_def DEFAULT_CONCURRENT_def MAX_CONCURRENT_def clamp_def bg_sample_def
  get_setting_def empty_db_def get_run_def new_fleet_def pool_leave_def

theorem background_pool_keeps_order_witness:
  "\<exists>w. bg_reach w \<and> w_accepted w = replicate 4 one_child \<and> w_started w = replicate 3 one_child
     \<and> pl_queue (w_pool w) = [one_child] \<and> children (w_tasks w) = 3"
proof -
  obtain w where w: "quick_run [0, 0, 0, 0] (submit (replicate 4 one_child) (bg_start bg_sample)) = Some w"
    and acc: "w_accepted w = replicate 4 one_child" "w_started w = replicate 3 one_child"
      "children (w_tasks w) = 3"
    by (simp add: run_defs numeral_nat)
  have r: "bg_reach w" using quick_run_reach[OF submit_reach w] .
  from background_pool_keeps_order[OF this] acc have "pl_queue (w_pool w) = [one_child]"
    by (simp add: numeral_nat)
  with r acc show ?thesis by blast
qed

theorem background_pool_drains_witness:
  "\<exists>w. bg_reach w \<and> (\<forall>i < length (w_tasks w). w_tasks w ! i = TaskDone) \<and> w_started w = [one_child] \<and> w_accepted w = [one_child]"
proof -
  obtain w where w: "quick_run [0, 0, 0, 1, 1, 1, 1] (submit [one_child] (bg_start bg_sample)) = Some w"
    and d: "w_tasks w = [TaskDone, TaskDone]" "w_accepted w = [one_child]"
    by (simp add: run_defs run_one_gone_def refuse_start_def announce_end_def numeral_nat split: option.split)
  have r: "bg_reach w" using quick_run_reach[OF submit_reach w] .
  have all_done: "\<forall>i < length (w_tasks w). w_tasks w ! i = TaskDone" using d by (auto simp: less_Suc_eq)
  with background_pool_drains[OF r] d r show ?thesis by metis
qed

theorem background_child_settles_witness:
  "sub_settled (hd (bg_rows (run_one_ends 5 0 quick_outcome bg_sample one_child)))"
proof -
  let ?st = "run_one_ends 5 0 quick_outcome bg_sample one_child"
  have "bg_up bg_sample" "sp_run_id one_child \<in> sr_id ` set (bg_rows bg_sample)"
    by (simp_all add: bg_sample_def one_row_def one_child_def)
  note b = background_child_settles[OF this, of ?st 5 0 quick_outcome, OF disjI2[OF disjI2[OF refl]]]
  have "map sr_id (bg_rows ?st) = [''run_1'']" using b by (simp add: bg_sample_def one_row_def)
  then have "hd (bg_rows ?st) \<in> set (bg_rows ?st)" "sr_id (hd (bg_rows ?st)) = sp_run_id one_child"
    by (cases "bg_rows ?st"; simp add: one_child_def)+
  from bspec[OF b[THEN conjunct1] this(1)] this(2) show ?thesis by simp
qed

end
