(* ===== verification/Ledger.thy ===== *)
theory Ledger imports Paths begin

text \<open>
  What one run has read, changed and checked (\<open>agent/ledger.rs\<close>): an edit needs a read of the file
  as it is now, and a run that changed the project and did not check it is asked once.  What the
  disk says of a path comes with each call.
\<close>

section \<open>The ledger\<close>

type_synonym stamp_pair = "int \<times> nat"

text \<open>Of the metadata: whether it is a file, the time it was changed in milliseconds since 1970
  when the system can say, and its size.\<close>

record file_meta =
  fm_is_file :: bool
  fm_changed :: "int option"
  fm_len :: nat

type_synonym disk_view = "path \<Rightarrow> file_meta option"

definition stamp_of :: "disk_view \<Rightarrow> path \<Rightarrow> stamp_pair option" where
  "stamp_of fs p =
     (case fs p of
        None \<Rightarrow> None
      | Some m \<Rightarrow>
          if \<not> fm_is_file m then None
          else Some (case fm_changed m of None \<Rightarrow> 0 | Some t \<Rightarrow> if t < 0 then 0 else t, fm_len m))"

record ledger =
  ld_reads :: "path \<rightharpoonup> stamp_pair"
  ld_edited :: "path list"
  ld_last_edit :: nat
  ld_last_check :: nat
  ld_clock :: nat
  ld_nudged :: bool

definition new_ledger :: ledger where
  "new_ledger = \<lparr>ld_reads = Map.empty, ld_edited = [], ld_last_edit = 0, ld_last_check = 0, ld_clock = 0, ld_nudged = False\<rparr>"

definition record_read :: "disk_view \<Rightarrow> path \<Rightarrow> ledger \<Rightarrow> ledger" where
  "record_read fs p l =
     (case stamp_of fs p of None \<Rightarrow> l | Some s \<Rightarrow> l\<lparr>ld_reads := (ld_reads l)(p \<mapsto> s)\<rparr>)"

definition not_read :: "string \<Rightarrow> string" where
  "not_read shown =
     ''You have not read '' @ shown @ '' in this run, so this change would be made against a guess. '' @
     ''Call read_file on it first, then make the change against what is actually there.''"

definition changed_since :: "string \<Rightarrow> string" where
  "changed_since shown =
     shown @ '' changed on disk after you read it (something else wrote to it). '' @
     ''Call read_file on it again, then make the change against the new contents.''"

definition check_before_edit :: "disk_view \<Rightarrow> path \<Rightarrow> string \<Rightarrow> ledger \<Rightarrow> string + unit" where
  "check_before_edit fs p shown l =
     (case stamp_of fs p of
        None \<Rightarrow> Inr ()
      | Some now \<Rightarrow>
          (case ld_reads l p of
             None \<Rightarrow> Inl (not_read shown)
           | Some seen \<Rightarrow> if seen \<noteq> now then Inl (changed_since shown) else Inr ()))"

definition record_edit :: "disk_view \<Rightarrow> path \<Rightarrow> bool \<Rightarrow> ledger \<Rightarrow> ledger" where
  "record_edit fs p in_project l =
     (let l1 = l\<lparr>ld_reads := (ld_reads l)(p := stamp_of fs p)\<rparr>
      in if in_project
         then l1\<lparr>ld_clock := ld_clock l1 + 1, ld_last_edit := ld_clock l1 + 1, ld_edited := List.insert p (ld_edited l1)\<rparr>
         else l1)"

definition record_check :: "ledger \<Rightarrow> ledger" where
  "record_check l = l\<lparr>ld_clock := ld_clock l + 1, ld_last_check := ld_clock l + 1\<rparr>"

definition take_unverified :: "ledger \<Rightarrow> ledger \<times> nat option" where
  "take_unverified l =
     (if ld_nudged l \<or> ld_edited l = [] \<or> ld_last_edit l < ld_last_check l then (l, None)
      else (l\<lparr>ld_nudged := True\<rparr>, Some (length (ld_edited l))))"

definition has_unverified :: "ledger \<Rightarrow> bool" where
  "has_unverified l \<longleftrightarrow> \<not> (ld_nudged l \<or> ld_edited l = [] \<or> ld_last_edit l < ld_last_check l)"

definition unchecked_edits :: "ledger \<Rightarrow> bool" where
  "unchecked_edits l \<longleftrightarrow> ld_edited l \<noteq> [] \<and> ld_last_check l \<le> ld_last_edit l"

definition edited_count :: "ledger \<Rightarrow> nat" where
  "edited_count l = length (ld_edited l)"

section \<open>Histories\<close>

text \<open>What a run does with its ledger, newest first, each with the disk as it was then.\<close>

datatype ledger_call = CallRead disk_view path | CallEdit disk_view path bool | CallCheck | CallTake

fun after_calls :: "ledger_call list \<Rightarrow> ledger" where
  "after_calls [] = new_ledger"
| "after_calls (CallRead fs p # h) = record_read fs p (after_calls h)"
| "after_calls (CallEdit fs p b # h) = record_edit fs p b (after_calls h)"
| "after_calls (CallCheck # h) = record_check (after_calls h)"
| "after_calls (CallTake # h) = fst (take_unverified (after_calls h))"

text \<open>The specification: the stamp of the last time the run read or wrote a file, as it was then (a
  read of something that is no file says nothing, a write that left none forgets it).\<close>

fun last_seen :: "ledger_call list \<Rightarrow> path \<Rightarrow> stamp_pair option" where
  "last_seen [] p = None"
| "last_seen (CallRead fs q # h) p = (if q = p \<and> stamp_of fs q \<noteq> None then stamp_of fs q else last_seen h p)"
| "last_seen (CallEdit fs q b # h) p = (if q = p then stamp_of fs q else last_seen h p)"
| "last_seen (_ # h) p = last_seen h p"

fun project_edit :: "ledger_call \<Rightarrow> bool" where
  "project_edit (CallEdit fs p b) = b"
| "project_edit _ = False"

fun edited_path :: "ledger_call \<Rightarrow> path" where
  "edited_path (CallEdit fs p b) = p"
| "edited_path _ = []"

text \<open>An edit of the project that no check came after.\<close>

fun edit_open :: "ledger_call list \<Rightarrow> bool" where
  "edit_open [] = False"
| "edit_open (CallCheck # h) = False"
| "edit_open (c # h) = (project_edit c \<or> edit_open h)"

definition asked :: "ledger_call list \<Rightarrow> bool" where
  "asked h \<longleftrightarrow> ld_nudged (after_calls h)"

lemma insert_not_Nil [simp]: "List.insert x xs \<noteq> []"
  by (simp add: List.insert_def) auto

lemma reads_are_last_seen: "ld_reads (after_calls h) p = last_seen h p"
  by (induction h rule: after_calls.induct)
     (auto simp: new_ledger_def record_read_def record_edit_def record_check_def take_unverified_def Let_def
        split: option.split)

lemma edited_are_edits: "set (ld_edited (after_calls h)) = set (map edited_path (filter project_edit h))"
  by (induction h rule: after_calls.induct)
     (auto simp: new_ledger_def record_read_def record_edit_def record_check_def take_unverified_def Let_def
        split: option.split if_splits)

lemma edited_distinct: "distinct (ld_edited (after_calls h))"
  by (induction h rule: after_calls.induct)
     (auto simp: new_ledger_def record_read_def record_edit_def record_check_def take_unverified_def Let_def
        split: option.split)

text \<open>The clock orders the last edit and the last check.\<close>

lemma clock_orders:
  "ld_last_edit (after_calls h) \<le> ld_clock (after_calls h) \<and> ld_last_check (after_calls h) \<le> ld_clock (after_calls h)
   \<and> (ld_edited (after_calls h) \<noteq> [] \<longrightarrow> (edit_open h \<longleftrightarrow> ld_last_check (after_calls h) < ld_last_edit (after_calls h))
        \<and> ld_last_check (after_calls h) \<noteq> ld_last_edit (after_calls h))
   \<and> (ld_edited (after_calls h) = [] \<longrightarrow> \<not> edit_open h)"
  by (induction h rule: after_calls.induct)
     (auto simp: new_ledger_def record_read_def record_edit_def record_check_def take_unverified_def Let_def
        split: option.split)

text \<open>C30: An edit is let through exactly when there is nothing at the path, or what is there has the stamp
  it had when the run last read or wrote it; otherwise the refusal says which of the two it is.\<close>
theorem edit_needs_a_current_read:
  "check_before_edit fs p shown (after_calls h) =
     (case (stamp_of fs p, last_seen h p) of
        (None, _) \<Rightarrow> Inr ()
      | (Some now, None) \<Rightarrow> Inl (not_read shown)
      | (Some now, Some seen) \<Rightarrow> if seen = now then Inr () else Inl (changed_since shown))"
  by (simp add: check_before_edit_def reads_are_last_seen split: option.split)

lemma nudged_stays: "ld_nudged (after_calls h) \<Longrightarrow> ld_nudged (after_calls (h' @ h))"
proof (induction h')
  case (Cons c h')
  then show ?case
    by (cases c) (auto simp: record_read_def record_edit_def record_check_def take_unverified_def Let_def split: option.split)
qed simp

lemma take_sets_nudged: "take_unverified l = (l', Some n) \<Longrightarrow> ld_nudged l' \<and> \<not> ld_nudged l"
  by (auto simp: take_unverified_def split: if_splits)

lemma open_or_checked:
  "(ld_edited (after_calls h) = [] \<or> ld_last_edit (after_calls h) < ld_last_check (after_calls h)) \<longleftrightarrow> \<not> edit_open h"
  using clock_orders[of h] by (cases "ld_edited (after_calls h) = []") auto

text \<open>The run is asked exactly when it was not asked before and an edit of the project has no check
  after it; the number it hears is how many files of the project it changed in the whole run, and
  it is asked once: after that every call answers nothing, whatever the run does.\<close>
theorem asked_once_about_open_edits:
  "(snd (take_unverified (after_calls h)) =
      (if \<not> asked h \<and> edit_open h then Some (card (set (map edited_path (filter project_edit h)))) else None))
   \<and> has_unverified (after_calls h) = (\<not> asked h \<and> edit_open h)
   \<and> unchecked_edits (after_calls h) = edit_open h
   \<and> (snd (take_unverified (after_calls h)) \<noteq> None
        \<longrightarrow> (\<forall>later. snd (take_unverified (after_calls (later @ CallTake # h))) = None))"
proof -
  have n: "length (ld_edited (after_calls h)) = card (set (map edited_path (filter project_edit h)))"
    using edited_are_edits[of h] distinct_card[OF edited_distinct[of h]] by simp
  have u: "unchecked_edits (after_calls h) = edit_open h"
    using open_or_checked[of h] clock_orders[of h] by (auto simp: unchecked_edits_def)
  have "snd (take_unverified (after_calls (later @ CallTake # h))) = None"
    if "snd (take_unverified (after_calls h)) \<noteq> None" for later
  proof -
    from that obtain l k where "take_unverified (after_calls h) = (l, Some k)" by (metis not_None_eq prod.collapse)
    then have "ld_nudged (after_calls (CallTake # h))" using take_sets_nudged by simp
    from nudged_stays[OF this, of later] show ?thesis by (simp add: take_unverified_def)
  qed
  then show ?thesis using n u open_or_checked[of h]
    by (auto simp: take_unverified_def has_unverified_def asked_def)
qed

text \<open>The number counts files that were checked since they were changed.\<close>

definition one_file :: disk_view where
  "one_file p = (if length p = 1 then Some \<lparr>fm_is_file = True, fm_changed = Some 5, fm_len = 3\<rparr> else None)"

theorem asked_about_checked_files_too:
  "snd (take_unverified (after_calls [CallEdit one_file [Normal ''b''] True, CallCheck, CallEdit one_file [Normal ''a''] True])) = Some 2"
  by (simp add: take_unverified_def record_edit_def record_check_def new_ledger_def)

theorem asked_once_about_open_edits_witness:
  "snd (take_unverified (after_calls [CallEdit one_file [Normal ''a''] True])) = Some 1
   \<and> snd (take_unverified (after_calls (CallEdit one_file [Normal ''b''] True # CallTake # [CallEdit one_file [Normal ''a''] True]))) = None"
proof -
  have s: "snd (take_unverified (after_calls [CallEdit one_file [Normal ''a''] True])) = Some 1"
    by (simp add: take_unverified_def record_edit_def new_ledger_def)
  with asked_once_about_open_edits[of "[CallEdit one_file [Normal ''a''] True]"]
  have "\<forall>later. snd (take_unverified (after_calls (later @ CallTake # [CallEdit one_file [Normal ''a''] True]))) = None"
    by (metis option.distinct(1))
  from this[rule_format, of "[CallEdit one_file [Normal ''b''] True]"] s show ?thesis by simp
qed

end
