(* ===== verification/Serde.thy ===== *)
theory Serde imports Plan begin

text \<open>
  The structs of the session log as JSON: what the derived \<open>Serialize\<close> writes and the derived
  \<open>Deserialize\<close> reads, for \<open>Plan\<close> (\<open>agent/plan.rs\<close>), \<open>CommandTrace\<close>, \<open>Compaction\<close> and
  \<open>DecisionRecord\<close> (\<open>agent/log.rs\<close>).  A struct is read from an object (unknown fields are passed
  over, a known field twice is refused) or from an array of its fields in order.  Between an
  \<open>f32\<close>, which is carried as its bits, and a number of JSON stand two functions that are arguments.
\<close>

section \<open>Structs and fields\<close>

definition struct_fields :: "string list \<Rightarrow> json \<Rightarrow> (string \<Rightarrow> json option) option" where
  "struct_fields names v =
     (case v of
        JObject fs \<Rightarrow> if distinct (filter (\<lambda>k. k \<in> set names) (map fst fs)) then Some (map_of fs) else None
      | JArray xs \<Rightarrow> if length xs \<le> length names then Some (map_of (zip names xs)) else None
      | _ \<Rightarrow> None)"

definition required :: "(json \<Rightarrow> 'a option) \<Rightarrow> (string \<Rightarrow> json option) \<Rightarrow> string \<Rightarrow> 'a option" where
  "required rd f k = Option.bind (f k) rd"

definition or_default :: "'a \<Rightarrow> (json \<Rightarrow> 'a option) \<Rightarrow> (string \<Rightarrow> json option) \<Rightarrow> string \<Rightarrow> 'a option" where
  "or_default d rd f k = (case f k of None \<Rightarrow> Some d | Some v \<Rightarrow> rd v)"

definition json_bool :: "json \<Rightarrow> bool option" where
  "json_bool v = (case v of JBool b \<Rightarrow> Some b | _ \<Rightarrow> None)"

definition json_opt :: "(json \<Rightarrow> 'a option) \<Rightarrow> json \<Rightarrow> 'a option option" where
  "json_opt rd v = (case v of JNull \<Rightarrow> Some None | _ \<Rightarrow> map_option Some (rd v))"

definition json_list :: "(json \<Rightarrow> 'a option) \<Rightarrow> json \<Rightarrow> 'a list option" where
  "json_list rd v = Option.bind (json_array v) (\<lambda>xs. those (map rd xs))"

definition to_opt :: "('a \<Rightarrow> json) \<Rightarrow> 'a option \<Rightarrow> json" where
  "to_opt wr x = (case x of None \<Rightarrow> JNull | Some y \<Rightarrow> wr y)"

text \<open>\<open>skip_serializing_if\<close>.\<close>

definition field_unless :: "bool \<Rightarrow> string \<Rightarrow> json \<Rightarrow> (string \<times> json) list" where
  "field_unless skip k v = (if skip then [] else [(k, v)])"

lemma those_map_Some: "(\<And>x. x \<in> set xs \<Longrightarrow> rd (wr x) = Some x) \<Longrightarrow> those (map (rd \<circ> wr) xs) = Some xs"
  by (induction xs) auto

lemma json_list_back: "(\<And>x. x \<in> set xs \<Longrightarrow> rd (wr x) = Some x) \<Longrightarrow> json_list rd (JArray (map wr xs)) = Some xs"
  using those_map_Some[of xs rd wr] by (simp add: json_list_def json_array_def)

lemma json_opt_back:
  assumes "\<And>y. x = Some y \<Longrightarrow> rd (wr y) = Some y \<and> wr y \<noteq> JNull"
  shows "json_opt rd (to_opt wr x) = Some x"
  using assms by (cases x) (auto simp: json_opt_def to_opt_def split: json.split)

lemma json_opt_str [simp]: "json_opt json_str (to_opt JString x) = Some x"
  by (rule json_opt_back) (simp add: json_str_def)

lemma json_opt_JString [simp]: "json_opt json_str (JString s) = Some (Some s)"
  by (simp add: json_opt_def json_str_def)

lemma json_str_JString [simp]: "json_str (JString s) = Some s" by (simp add: json_str_def)
lemma json_bool_JBool [simp]: "json_bool (JBool b) = Some b" by (simp add: json_bool_def)

lemma json_list_str [simp]: "json_list json_str (JArray (map JString xs)) = Some xs"
  by (rule json_list_back) simp

section \<open>The plan\<close>

definition plan_status_word :: "plan_status \<Rightarrow> string" where
  "plan_status_word s = (case s of PlanTodo \<Rightarrow> ''todo'' | PlanDoing \<Rightarrow> ''doing'' | PlanDone \<Rightarrow> ''done''
                          | PlanDropped \<Rightarrow> ''dropped'')"

definition plan_status_of_word :: "string \<Rightarrow> plan_status option" where
  "plan_status_of_word w = map_of (map (\<lambda>s. (plan_status_word s, s)) [PlanTodo, PlanDoing, PlanDone, PlanDropped]) w"

text \<open>A variant without data is its name, or an object with that one name and \<open>null\<close>.\<close>

definition plan_status_of_json :: "json \<Rightarrow> plan_status option" where
  "plan_status_of_json v =
     (case v of JString w \<Rightarrow> plan_status_of_word w | JObject [(w, JNull)] \<Rightarrow> plan_status_of_word w | _ \<Rightarrow> None)"

definition ITEM_FIELDS :: "string list" where
  "ITEM_FIELDS = [''text'', ''status'', ''why'', ''added'', ''judged'', ''decision'']"

definition plan_item_to_json :: "(u32 \<Rightarrow> json) \<Rightarrow> plan_item \<Rightarrow> json" where
  "plan_item_to_json f32_json i =
     JObject ([(''text'', JString (item_text i)), (''status'', JString (plan_status_word (item_status i)))]
       @ field_unless (item_why i = None) ''why'' (to_opt JString (item_why i))
       @ [(''added'', JBool (item_added i))]
       @ field_unless (item_judged i = None) ''judged'' (to_opt f32_json (item_judged i))
       @ field_unless (item_decision i = None) ''decision'' (to_opt JString (item_decision i)))"

definition plan_item_of_json :: "(json \<Rightarrow> u32 option) \<Rightarrow> json \<Rightarrow> plan_item option" where
  "plan_item_of_json json_f32 v =
     Option.bind (struct_fields ITEM_FIELDS v) (\<lambda>f.
       case (required json_str f ''text'', required plan_status_of_json f ''status'',
             or_default None (json_opt json_str) f ''why'', or_default False json_bool f ''added'',
             or_default None (json_opt json_f32) f ''judged'', or_default None (json_opt json_str) f ''decision'') of
         (Some t, Some s, Some w, Some a, Some j, Some d) \<Rightarrow>
           Some \<lparr>item_text = t, item_status = s, item_why = w, item_added = a, item_judged = j, item_decision = d\<rparr>
       | _ \<Rightarrow> None)"

definition PLAN_FIELDS :: "string list" where
  "PLAN_FIELDS = [''items'', ''revisions'', ''previous'', ''awaiting_approval'']"

definition plan_to_json :: "(u32 \<Rightarrow> json) \<Rightarrow> plan \<Rightarrow> json" where
  "plan_to_json f32_json p =
     JObject ([(''items'', JArray (map (plan_item_to_json f32_json) (plan_items p))),
               (''revisions'', JInt (int (plan_revisions p)))]
       @ field_unless (plan_previous p = []) ''previous'' (JArray (map (\<lambda>t. JArray (map JString t)) (plan_previous p)))
       @ field_unless (\<not> awaiting_approval p) ''awaiting_approval'' (JBool (awaiting_approval p)))"

definition plan_of_json :: "(json \<Rightarrow> u32 option) \<Rightarrow> json \<Rightarrow> plan option" where
  "plan_of_json json_f32 v =
     Option.bind (struct_fields PLAN_FIELDS v) (\<lambda>f.
       case (or_default [] (json_list (plan_item_of_json json_f32)) f ''items'',
             or_default 0 json_u64 f ''revisions'',
             or_default [] (json_list (json_list json_str)) f ''previous'',
             or_default False json_bool f ''awaiting_approval'') of
         (Some i, Some r, Some p, Some a) \<Rightarrow>
           Some \<lparr>plan_items = i, plan_revisions = r, plan_previous = p, awaiting_approval = a\<rparr>
       | _ \<Rightarrow> None)"

text \<open>What the rest of the program holds of a plan: a count that fits a \<open>usize\<close>, ticks that are
  numbers.  Then the reading gives back what was written.\<close>

definition plan_ok_json :: "(u32 \<Rightarrow> json) \<Rightarrow> (json \<Rightarrow> u32 option) \<Rightarrow> plan \<Rightarrow> bool" where
  "plan_ok_json f32_json json_f32 p \<longleftrightarrow>
     plan_revisions p < 2 ^ 64
   \<and> (\<forall>i \<in> set (plan_items p). \<forall>b. item_judged i = Some b \<longrightarrow> json_f32 (f32_json b) = Some b \<and> f32_json b \<noteq> JNull)"

lemma plan_status_back [simp]: "plan_status_of_json (JString (plan_status_word s)) = Some s"
  by (cases s) (simp_all add: plan_status_of_json_def plan_status_of_word_def plan_status_word_def)

lemma field_unless_simps [simp]:
  "field_unless True k v = []" "field_unless False k v = [(k, v)]"
  by (simp_all add: field_unless_def)

lemma plan_item_back:
  assumes "\<And>b. item_judged i = Some b \<Longrightarrow> json_f32 (f32_json b) = Some b \<and> f32_json b \<noteq> JNull"
  shows "plan_item_of_json json_f32 (plan_item_to_json f32_json i) = Some i"
proof -
  have j: "json_opt json_f32 (to_opt f32_json (item_judged i)) = Some (item_judged i)"
    using assms by (rule json_opt_back)
  have jn: "json_opt json_f32 (f32_json b) = Some (Some b)" if "item_judged i = Some b" for b
    using j that by (simp add: to_opt_def)
  show ?thesis
    by (cases "item_why i"; cases "item_judged i"; cases "item_decision i")
       (simp_all add: plan_item_of_json_def plan_item_to_json_def struct_fields_def ITEM_FIELDS_def
         required_def or_default_def to_opt_def jn)
qed

lemma plan_back:
  assumes "plan_ok_json f32_json json_f32 p"
  shows "plan_of_json json_f32 (plan_to_json f32_json p) = Some p"
proof -
  have i: "json_list (plan_item_of_json json_f32) (JArray (map (plan_item_to_json f32_json) (plan_items p))) = Some (plan_items p)"
    using assms by (intro json_list_back plan_item_back) (auto simp: plan_ok_json_def)
  have t: "json_list (json_list json_str) (JArray (map (\<lambda>t. JArray (map JString t)) (plan_previous p))) = Some (plan_previous p)"
    by (rule json_list_back) simp
  have r: "json_u64 (JInt (int (plan_revisions p))) = Some (plan_revisions p)"
    using assms by (simp add: json_u64_def plan_ok_json_def)
  show ?thesis
    by (cases "plan_previous p = []"; cases "awaiting_approval p")
       (simp_all add: plan_of_json_def plan_to_json_def struct_fields_def PLAN_FIELDS_def or_default_def i r t)
qed

section \<open>The records of the log\<close>

record command_trace =
  ct_name :: string
  ct_args :: string
  ct_by :: string
  ct_outcome :: string
  ct_note :: "string option"
  ct_message_id :: "string option"

definition TRACE_FIELDS :: "string list" where
  "TRACE_FIELDS = [''name'', ''args'', ''by'', ''outcome'', ''note'', ''messageId'']"

definition trace_to_json :: "command_trace \<Rightarrow> json" where
  "trace_to_json t =
     JObject [(''name'', JString (ct_name t)), (''args'', JString (ct_args t)), (''by'', JString (ct_by t)),
       (''outcome'', JString (ct_outcome t)), (''note'', to_opt JString (ct_note t)),
       (''messageId'', to_opt JString (ct_message_id t))]"

definition trace_of_json :: "json \<Rightarrow> command_trace option" where
  "trace_of_json v =
     Option.bind (struct_fields TRACE_FIELDS v) (\<lambda>f.
       case (required json_str f ''name'', or_default [] json_str f ''args'', required json_str f ''by'',
             required json_str f ''outcome'', or_default None (json_opt json_str) f ''note'',
             or_default None (json_opt json_str) f ''messageId'') of
         (Some n, Some a, Some b, Some oc, Some nt, Some m) \<Rightarrow>
           Some \<lparr>ct_name = n, ct_args = a, ct_by = b, ct_outcome = oc, ct_note = nt, ct_message_id = m\<rparr>
       | _ \<Rightarrow> None)"

lemma trace_back [simp]: "trace_of_json (trace_to_json t) = Some t"
  by (simp add: trace_of_json_def trace_to_json_def struct_fields_def TRACE_FIELDS_def required_def or_default_def)

record compaction =
  cp_text :: string
  cp_from :: "string option"
  cp_upto :: string
  cp_replaced :: nat
  cp_merged_earlier :: bool

definition COMPACTION_FIELDS :: "string list" where
  "COMPACTION_FIELDS = [''text'', ''from_message_id'', ''upto_message_id'', ''replaced'', ''merged_earlier'']"

definition compaction_to_json :: "compaction \<Rightarrow> json" where
  "compaction_to_json c =
     JObject [(''text'', JString (cp_text c)), (''from_message_id'', to_opt JString (cp_from c)),
       (''upto_message_id'', JString (cp_upto c)), (''replaced'', JInt (int (cp_replaced c))),
       (''merged_earlier'', JBool (cp_merged_earlier c))]"

definition compaction_of_json :: "json \<Rightarrow> compaction option" where
  "compaction_of_json v =
     Option.bind (struct_fields COMPACTION_FIELDS v) (\<lambda>f.
       case (required json_str f ''text'', or_default None (json_opt json_str) f ''from_message_id'',
             required json_str f ''upto_message_id'', required json_u64 f ''replaced'',
             required json_bool f ''merged_earlier'') of
         (Some t, Some a, Some u, Some r, Some m) \<Rightarrow>
           Some \<lparr>cp_text = t, cp_from = a, cp_upto = u, cp_replaced = r, cp_merged_earlier = m\<rparr>
       | _ \<Rightarrow> None)"

lemma compaction_back:
  "cp_replaced c < 2 ^ 64 \<Longrightarrow> compaction_of_json (compaction_to_json c) = Some c"
proof -
  assume "cp_replaced c < 2 ^ 64"
  then have "json_u64 (JInt (int (cp_replaced c))) = Some (cp_replaced c)"
    by (simp add: json_u64_def)
  then show ?thesis
    by (simp add: compaction_of_json_def compaction_to_json_def struct_fields_def COMPACTION_FIELDS_def
        required_def or_default_def)
qed

record decision_record =
  dr_id :: string
  dr_purpose :: string
  dr_backend :: string
  dr_ms :: nat
  dr_calibrated :: bool
  dr_answers :: json
  dr_input_tokens :: nat
  dr_state_preview :: string
  dr_state_hash :: string
  dr_action :: "string option"

definition decision_to_json :: "decision_record \<Rightarrow> json" where
  "decision_to_json d =
     JObject [(''id'', JString (dr_id d)), (''purpose'', JString (dr_purpose d)), (''backend'', JString (dr_backend d)),
       (''ms'', JInt (int (dr_ms d))), (''calibrated'', JBool (dr_calibrated d)), (''answers'', dr_answers d),
       (''input_tokens'', JInt (int (dr_input_tokens d))), (''state_preview'', JString (dr_state_preview d)),
       (''state_hash'', JString (dr_state_hash d)), (''action'', to_opt JString (dr_action d))]"

end
