(* ===== verification/Session_Log.thy ===== *)
theory Session_Log imports Rewind Serde Connector_Gate begin

text \<open>
  The session log (\<open>agent/log.rs\<close>): what a run writes, what resume reads back, and what the rest
  of the program learns from the rows.  A payload is kept as the value its text parses to; the
  text of the arguments of a call is parsed by an argument of the definitions, and so is the
  Unicode table the connector gate uses.
\<close>

section \<open>Reading rows\<close>

definition str_at :: "json \<Rightarrow> string \<Rightarrow> string option" where
  "str_at v k = Option.bind (json_get v k) json_str"

definition list_at :: "json \<Rightarrow> string \<Rightarrow> json list option" where
  "list_at v k = Option.bind (json_get v k) json_array"

definition under :: "json \<Rightarrow> string \<Rightarrow> string \<Rightarrow> string option" where
  "under v k l = Option.bind (json_get v k) (\<lambda>x. str_at x l)"

definition or_str :: "string \<Rightarrow> string option \<Rightarrow> string" where
  "or_str d s = (case s of None \<Rightarrow> d | Some t \<Rightarrow> t)"

definition run_rows :: "history \<Rightarrow> string \<Rightarrow> session_event list" where
  "run_rows h r = filter (\<lambda>e. se_run e = Some r) (hy_events h)"

definition session_events_for_run :: "history \<Rightarrow> string \<Rightarrow> db_error + session_event list" where
  "session_events_for_run h r = (if hy_readable h then Inr (sort_key se_seq (run_rows h r)) else Inl DbError)"

definition session_events_for_run_after :: "history \<Rightarrow> string \<Rightarrow> int \<Rightarrow> db_error + session_event list" where
  "session_events_for_run_after h r after =
     (if hy_readable h then Inr (sort_key se_seq (filter (\<lambda>e. after < se_seq e) (run_rows h r))) else Inl DbError)"

definition session_events :: "history \<Rightarrow> string \<Rightarrow> db_error + session_event list" where
  "session_events h conv = (if hy_readable h then Inr (sort_key se_seq (events_of h conv)) else Inl DbError)"

text \<open>Newest first across conversations; rows of the same time and number come in the order they
  were written, which the statement leaves open.\<close>

definition recent_session_events_of_kind :: "history \<Rightarrow> string \<Rightarrow> nat \<Rightarrow> db_error + session_event list" where
  "recent_session_events_of_kind h kind limit =
     (if hy_readable h
      then Inr (take limit (sort_key (\<lambda>e. - se_created_at e) (sort_key (\<lambda>e. - se_seq e)
             (filter (\<lambda>e. se_kind e = kind) (hy_events h)))))
      else Inl DbError)"

definition newest :: "session_event list \<Rightarrow> session_event option" where
  "newest es = (case sort_key se_seq es of [] \<Rightarrow> None | e # rest \<Rightarrow> Some (last (e # rest)))"

text \<open>A read that fails inside is taken for no row.\<close>

definition last_logged_run :: "history \<Rightarrow> string \<Rightarrow> (string \<times> string option) option" where
  "last_logged_run h conv =
     (if \<not> hy_readable h then None
      else case Option.bind (newest (filter (\<lambda>e. se_run e \<noteq> None) (events_of h conv))) se_run of
        None \<Rightarrow> None
      | Some r \<Rightarrow>
          Some (r, Option.bind (newest (filter (\<lambda>e. se_kind e = ''stop'') (run_rows h r)))
                     (\<lambda>e. str_at (se_payload e) ''reason'')))"

section \<open>Writing rows\<close>

definition COMPACTION_KIND :: string where "COMPACTION_KIND = ''summary''"
definition PLAN_KIND :: string where "PLAN_KIND = ''plan''"
definition DECISION_KIND :: string where "DECISION_KIND = ''decision''"
definition COMMAND_KIND :: string where "COMMAND_KIND = ''command''"

text \<open>Every write is best effort.\<close>

definition log_write :: "history \<Rightarrow> string \<Rightarrow> string option \<Rightarrow> string \<Rightarrow> json \<Rightarrow> int \<Rightarrow> history" where
  "log_write h conv r kind payload now =
     (case append_session_event h conv r kind payload now of Inl _ \<Rightarrow> h | Inr (h', _) \<Rightarrow> h')"

record session_log =
  sl_conversation :: string
  sl_run :: string

definition sl_write :: "session_log \<Rightarrow> string \<Rightarrow> json \<Rightarrow> int \<Rightarrow> history \<Rightarrow> history" where
  "sl_write l kind payload now h = log_write h (sl_conversation l) (Some (sl_run l)) kind payload now"

definition kind_of_message :: "json \<Rightarrow> string" where
  "kind_of_message m =
     (if json_get m ''tool_call_id'' \<noteq> None then ''tool_result''
      else case str_at m ''role'' of
        None \<Rightarrow> ''system_note''
      | Some r \<Rightarrow>
          if r = ''assistant'' then (if json_get m ''tool_calls'' \<noteq> None then ''tool_call'' else ''assistant'')
          else if r = ''user'' then ''user''
          else if r = ''tool'' then ''tool_result''
          else ''system_note'')"

definition log_prompt :: "session_log \<Rightarrow> json list \<Rightarrow> int \<Rightarrow> history \<Rightarrow> history" where
  "log_prompt l msgs = sl_write l ''prompt'' (JArray msgs)"

definition log_appended :: "session_log \<Rightarrow> json \<Rightarrow> int \<Rightarrow> history \<Rightarrow> history" where
  "log_appended l m = sl_write l (kind_of_message m) m"

definition log_steered :: "session_log \<Rightarrow> string \<Rightarrow> int \<Rightarrow> history \<Rightarrow> history" where
  "log_steered l t = sl_write l ''steer'' (JObject [(''text'', JString t)])"

definition log_stopped :: "session_log \<Rightarrow> string \<Rightarrow> nat \<Rightarrow> int \<Rightarrow> history \<Rightarrow> history" where
  "log_stopped l reason steps = sl_write l ''stop'' (JObject [(''reason'', JString reason), (''steps'', JInt (int steps))])"

definition record_plan :: "(u32 \<Rightarrow> json) \<Rightarrow> session_log \<Rightarrow> plan \<Rightarrow> int \<Rightarrow> history \<Rightarrow> history" where
  "record_plan f32_json l p = sl_write l PLAN_KIND (plan_to_json f32_json p)"

definition record_decision :: "string \<Rightarrow> string option \<Rightarrow> decision_record \<Rightarrow> int \<Rightarrow> history \<Rightarrow> history" where
  "record_decision conv r d now h = log_write h conv r DECISION_KIND (decision_to_json d) now"

definition record_command :: "string \<Rightarrow> string option \<Rightarrow> command_trace \<Rightarrow> int \<Rightarrow> history \<Rightarrow> history" where
  "record_command conv r t now h = log_write h conv r COMMAND_KIND (trace_to_json t) now"

definition record_compaction :: "string \<Rightarrow> compaction \<Rightarrow> int \<Rightarrow> history \<Rightarrow> history" where
  "record_compaction conv c now h = log_write h conv None COMPACTION_KIND (compaction_to_json c) now"

section \<open>Reading back\<close>

definition rows_or_none :: "db_error + session_event list \<Rightarrow> session_event list" where
  "rows_or_none x = (case x of Inl _ \<Rightarrow> [] | Inr rows \<Rightarrow> rows)"

definition last_plan :: "(json \<Rightarrow> u32 option) \<Rightarrow> history \<Rightarrow> string \<Rightarrow> plan option" where
  "last_plan json_f32 h conv =
     Option.bind (List.find (\<lambda>e. se_kind e = PLAN_KIND) (rev (rows_or_none (session_events h conv))))
       (\<lambda>e. plan_of_json json_f32 (se_payload e))"

definition commands :: "history \<Rightarrow> string \<Rightarrow> (int \<times> command_trace) list" where
  "commands h conv =
     List.map_filter (\<lambda>e. map_option (\<lambda>t. (se_created_at e, t)) (trace_of_json (se_payload e)))
       (filter (\<lambda>e. se_kind e = COMMAND_KIND) (rows_or_none (session_events h conv)))"

definition compactions :: "history \<Rightarrow> string \<Rightarrow> (int \<times> compaction) list" where
  "compactions h conv =
     List.map_filter (\<lambda>e. map_option (\<lambda>c. (se_created_at e, c)) (compaction_of_json (se_payload e)))
       (filter (\<lambda>e. se_kind e = COMPACTION_KIND) (rows_or_none (session_events h conv)))"

definition was_rewound :: "history \<Rightarrow> string \<Rightarrow> bool" where
  "was_rewound h conv = list_ex (\<lambda>e. se_kind e = REWOUND_KIND) (rows_or_none (session_events h conv))"

definition declined_suggestions :: "history \<Rightarrow> string \<Rightarrow> nat" where
  "declined_suggestions h command =
     length (take 20 (filter (\<lambda>t. ct_name t = ''suggest'' \<and> ct_args t = command \<and> ct_outcome t = ''declined'')
       (List.map_filter (\<lambda>e. trace_of_json (se_payload e))
          (rows_or_none (recent_session_events_of_kind h COMMAND_KIND 400)))))"

definition OUTDATED :: string where "OUTDATED = ''outdated''"
definition NOT_RELEVANT :: string where "NOT_RELEVANT = ''not-relevant''"

definition left_quote :: string where "left_quote = [CHR 0xE2, CHR 0x80, CHR 0x9C]"
definition right_quote :: string where "right_quote = [CHR 0xE2, CHR 0x80, CHR 0x9D]"

definition trace_signal :: "command_trace \<Rightarrow> string option" where
  "trace_signal t =
     (if ct_outcome t = ''declined'' then
        Some (if ct_name t = ''suggest'' then ''The user said not now to my suggestion of /'' @ ct_args t @ ''.''
              else case Option.bind (ct_note t) (strip_prefix ''you said not now to '') of
                Some rest \<Rightarrow> ''The user said not now to '' @ rest @ ''.''
              | None \<Rightarrow> ''The user declined /'' @ ct_name t @ ''.'')
      else if ct_name t = ''forget'' \<and> ct_by t = ''user'' then
        Some (''The user told me to '' @ or_str (ct_args t) (ct_note t) @ ''.'')
      else if ct_name t = OUTDATED \<and> ct_by t = ''user'' then
        Some (''The user said what I remembered as '' @ ct_args t @ '' was out of date.'')
      else if ct_name t = NOT_RELEVANT \<and> ct_by t = ''user'' then
        Some (''The user said what I remembered as '' @ ct_args t @ '' did not belong here.'')
      else None)"

definition row_signal :: "session_event \<Rightarrow> string option" where
  "row_signal e =
     (if se_kind e = REWOUND_KIND then
        map_option (\<lambda>shown. ''The user went back to before '' @ left_quote @ shown @ right_quote
                            @ '' and abandoned what followed.'') (str_at (se_payload e) ''preview'')
      else if se_kind e = COMMAND_KIND then Option.bind (trace_of_json (se_payload e)) trace_signal
      else None)"

definition user_signals :: "history \<Rightarrow> string \<Rightarrow> string list" where
  "user_signals h conv = List.map_filter row_signal (rows_or_none (session_events h conv))"

section \<open>Resume\<close>

definition skipped_kind :: "string \<Rightarrow> bool" where
  "skipped_kind k \<longleftrightarrow> k = ''steer'' \<or> k = ''stop'' \<or> k = COMPACTION_KIND \<or> k = PLAN_KIND \<or> k = COMMAND_KIND
     \<or> k = REWOUND_KIND \<or> k = DECISION_KIND"

definition row_messages :: "session_event \<Rightarrow> json list" where
  "row_messages e =
     (if skipped_kind (se_kind e) then []
      else case se_payload e of
        JArray items \<Rightarrow> if se_kind e = ''prompt'' then items else [se_payload e]
      | other \<Rightarrow> [other])"

definition replay :: "history \<Rightarrow> string \<Rightarrow> json list" where
  "replay h r = concat (map row_messages (rows_or_none (session_events_for_run h r)))"

definition classify_mutation :: "string \<Rightarrow> bool option" where
  "classify_mutation tool =
     (if tool \<in> set [''write_file'', ''edit_file'', ''create_dir'', ''move_file'', ''delete_file'', ''run_code'',
           ''run_task'', ''run_command'', ''send_mail'', ''reply_mail'', ''generate_image'', ''create_artifact'',
           ''update_artifact'', ''render_ui'', ''remember'', ''memory'', ''propose_soul_edit'',
           ''propose_skill'', ''propose_project_instructions'', ''browser_click'', ''browser_type'',
           ''browser_press'', ''open_app''] then Some True
      else if tool \<in> set [''read_file'', ''list_directory'', ''search_files'', ''find_symbol'', ''changes'',
           ''web_search'', ''fetch_url'', ''search_folder'', ''find_similar'', ''search_history'',
           ''read_conversation'', ''list_mail'', ''search_mail'', ''read_mail'', ''read_artifact'',
           ''check_preview'', ''browse'', ''browser_read'', ''browser_scroll'', ''browser_screenshot'',
           ''screenshot'', ''skill'', ''delegate'', ''check_agents'', ''collect_agents'', ''classify'']
      then Some False
      else None)"

definition MULTI_EXECUTE :: string where "MULTI_EXECUTE = ''COMPOSIO_MULTI_EXECUTE_TOOL''"

definition trim_end_all :: "string \<Rightarrow> string \<Rightarrow> string" where
  "trim_end_all p s = rev (strip_all (rev p) (rev s))"

definition is_git_push :: "json \<Rightarrow> bool" where
  "is_git_push args \<longleftrightarrow>
     (case str_at args ''command'' of None \<Rightarrow> False
      | Some c \<Rightarrow> eq_ignore_ascii_case (trim_end_all ''.exe'' (trim c)) ''git'')
   \<and> (case list_at args ''args'' of Some (a # _) \<Rightarrow> json_str a = Some ''push'' | _ \<Rightarrow> False)"

definition outward_of :: "unicode \<Rightarrow> string \<Rightarrow> json \<Rightarrow> string option" where
  "outward_of u name args =
     (if name = ''send_mail'' then Some ''sent the email''
      else if name = ''reply_mail'' then Some ''sent the reply''
      else if name = ''run_command'' then (if is_git_push args then Some ''pushed to git'' else None)
      else if name = MULTI_EXECUTE then
        (case list_at args ''tools'' of
           None \<Rightarrow> None
         | Some ts \<Rightarrow> map_option (\<lambda>slug. ''called '' @ slug)
             (List.find (\<lambda>slug. classify u slug None = KindSend) (List.map_filter (\<lambda>t. str_at t ''tool_slug'') ts)))
      else if classify_mutation name \<noteq> None then None
      else if classify u name None = KindSend then Some (''called '' @ name)
      else None)"

text \<open>The calls of one row: id, name and arguments.\<close>

definition call_of :: "(string \<Rightarrow> json option) \<Rightarrow> json \<Rightarrow> string \<times> string \<times> json" where
  "call_of json_of c =
     (or_str [] (str_at c ''id''), or_str [] (under c ''function'' ''name''),
      case json_of (or_str ''{}'' (under c ''function'' ''arguments'')) of None \<Rightarrow> JNull | Some a \<Rightarrow> a)"

definition row_calls :: "(string \<Rightarrow> json option) \<Rightarrow> session_event \<Rightarrow> (string \<times> string \<times> json) list" where
  "row_calls json_of e =
     (if se_kind e = ''tool_call''
      then map (call_of json_of) (case list_at (se_payload e) ''tool_calls'' of None \<Rightarrow> [] | Some cs \<Rightarrow> cs)
      else [])"

definition failed_text :: "string \<Rightarrow> bool" where
  "failed_text t = starts_with (trim_start t) ''Error''"

definition row_result :: "session_event \<Rightarrow> (string \<times> bool) option" where
  "row_result e =
     (if se_kind e = ''tool_result''
      then Some (or_str [] (str_at (se_payload e) ''tool_call_id''),
             \<not> (case str_at (se_payload e) ''content'' of None \<Rightarrow> False | Some t \<Rightarrow> failed_text t))
      else None)"

text \<open>A later result of the same id replaces an earlier one.\<close>

definition result_map :: "('a \<Rightarrow> (string \<times> bool) option) \<Rightarrow> 'a list \<Rightarrow> string \<Rightarrow> bool option" where
  "result_map f rows = map_of (rev (List.map_filter f rows))"

definition outward_done :: "unicode \<Rightarrow> (string \<Rightarrow> json option) \<Rightarrow> history \<Rightarrow> string \<Rightarrow> string option" where
  "outward_done u json_of h r =
     (let rows = rows_or_none (session_events_for_run h r);
          good = result_map row_result rows
      in find_map (\<lambda>(_, name, args). outward_of u name args)
           (filter (\<lambda>(i, _, _). good i = Some True) (concat (map (row_calls json_of) rows))))"

definition script_of :: "(string \<Rightarrow> json option) \<Rightarrow> json \<Rightarrow> (string \<times> string) option" where
  "script_of json_of c =
     (if under c ''function'' ''name'' \<noteq> Some ''run_code'' then None
      else map_option (\<lambda>code. (or_str [] (str_at c ''id''), code))
        (str_at (case json_of (or_str ''{}'' (under c ''function'' ''arguments'')) of None \<Rightarrow> JNull | Some a \<Rightarrow> a) ''code''))"

definition row_scripts :: "(string \<Rightarrow> json option) \<Rightarrow> session_event \<Rightarrow> (string \<times> string) list" where
  "row_scripts json_of e =
     (if se_kind e = ''tool_call''
      then List.map_filter (script_of json_of) (case list_at (se_payload e) ''tool_calls'' of None \<Rightarrow> [] | Some cs \<Rightarrow> cs)
      else [])"

definition script_result :: "session_event \<Rightarrow> (string \<times> bool) option" where
  "script_result e =
     (if se_kind e = ''tool_result''
      then (let t = or_str [] (str_at (se_payload e) ''content'')
            in Some (or_str [] (str_at (se_payload e) ''tool_call_id''),
                 \<not> (failed_text t \<or> str_contains t ''(exited with code''
                    \<or> starts_with t ''The code ran longer than'')))
      else None)"

definition clean_scripts :: "(string \<Rightarrow> json option) \<Rightarrow> history \<Rightarrow> string \<Rightarrow> string list" where
  "clean_scripts json_of h conv =
     (let rows = rows_or_none (session_events h conv);
          clean = result_map script_result rows
      in map snd (filter (\<lambda>(i, _). clean i = Some True) (concat (map (row_scripts json_of) rows))))"

definition cut_off_after :: "string \<Rightarrow> string" where
  "cut_off_after what = ''I was cut off after I had already '' @ what @ '', so I didn'' @ [CHR 39] @ ''t start over.''"

definition RESUME_PROMPT :: string where
  "RESUME_PROMPT = ''You were interrupted before you finished. Everything above is your own work so far, including every tool result. Carry on from where you stopped '' @ [CHR 0xE2, CHR 0x80, CHR 0x94] @ '' do not start again, and do not repeat work that is already above.''"

definition NOTHING_TO_RESUME :: string where
  "NOTHING_TO_RESUME = ''I have no record of that run to pick up '' @ [CHR 0xE2, CHR 0x80, CHR 0x94] @ '' it finished before I started keeping one. Ask me again and I will start it fresh.''"

text \<open>What a resume does first: it says why it does not go on, or has the messages to go on with.\<close>

definition resume_with :: "unicode \<Rightarrow> (string \<Rightarrow> json option) \<Rightarrow> history \<Rightarrow> string \<Rightarrow> string + json list" where
  "resume_with u json_of h conv =
     (case last_logged_run h conv of
        None \<Rightarrow> Inl NOTHING_TO_RESUME
      | Some (r, _) \<Rightarrow>
          if replay h r = [] then Inl NOTHING_TO_RESUME
          else case outward_done u json_of h r of
            Some what \<Rightarrow> Inl (cut_off_after what)
          | None \<Rightarrow> Inr (replay h r @ [system_message RESUME_PROMPT]))"

end
