(* ===== verification/Resume.thy ===== *)
theory Resume imports Session_Log "HOL-Library.Multiset" begin

text \<open>
  What resume can rely on (\<open>agent/log.rs\<close>, \<open>resume_turn\<close> of \<open>agent/turn.rs\<close>): histories of writes
  to the session log by any runs and conversations, the messages a run sent in them, and what
  replay, the check for what went out, and the plan give back.
\<close>

section \<open>Histories of writes\<close>

datatype log_move =
    RunPrompt session_log "json list"
  | RunAppended session_log json
  | RunSteered session_log string
  | RunStopped session_log string nat
  | RunPlan session_log plan
  | MadeDecision string "string option" decision_record
  | RanCommand string "string option" command_trace
  | Compacted string compaction
  | WentBack string json

definition do_move :: "(u32 \<Rightarrow> json) \<Rightarrow> log_move \<Rightarrow> int \<Rightarrow> history \<Rightarrow> history" where
  "do_move f32_json mv now h =
     (case mv of
        RunPrompt l ms \<Rightarrow> log_prompt l ms now h
      | RunAppended l m \<Rightarrow> log_appended l m now h
      | RunSteered l t \<Rightarrow> log_steered l t now h
      | RunStopped l reason n \<Rightarrow> log_stopped l reason n now h
      | RunPlan l p \<Rightarrow> record_plan f32_json l p now h
      | MadeDecision c r d \<Rightarrow> record_decision c r d now h
      | RanCommand c r t \<Rightarrow> record_command c r t now h
      | Compacted c x \<Rightarrow> record_compaction c x now h
      | WentBack c payload \<Rightarrow> log_write h c None REWOUND_KIND payload now)"

fun do_moves :: "(u32 \<Rightarrow> json) \<Rightarrow> (log_move \<times> int) list \<Rightarrow> history \<Rightarrow> history" where
  "do_moves f32_json [] h = h"
| "do_moves f32_json ((mv, now) # ms) h = do_moves f32_json ms (do_move f32_json mv now h)"

text \<open>Whose write it is, and what it writes.\<close>

fun move_conv :: "log_move \<Rightarrow> string" where
  "move_conv (RunPrompt l _) = sl_conversation l"
| "move_conv (RunAppended l _) = sl_conversation l"
| "move_conv (RunSteered l _) = sl_conversation l"
| "move_conv (RunStopped l _ _) = sl_conversation l"
| "move_conv (RunPlan l _) = sl_conversation l"
| "move_conv (MadeDecision c _ _) = c"
| "move_conv (RanCommand c _ _) = c"
| "move_conv (Compacted c _) = c"
| "move_conv (WentBack c _) = c"

fun move_run :: "log_move \<Rightarrow> string option" where
  "move_run (RunPrompt l _) = Some (sl_run l)"
| "move_run (RunAppended l _) = Some (sl_run l)"
| "move_run (RunSteered l _) = Some (sl_run l)"
| "move_run (RunStopped l _ _) = Some (sl_run l)"
| "move_run (RunPlan l _) = Some (sl_run l)"
| "move_run (MadeDecision _ r _) = r"
| "move_run (RanCommand _ r _) = r"
| "move_run (Compacted _ _) = None"
| "move_run (WentBack _ _) = None"

fun move_kind :: "log_move \<Rightarrow> string" where
  "move_kind (RunPrompt _ _) = ''prompt''"
| "move_kind (RunAppended _ m) = kind_of_message m"
| "move_kind (RunSteered _ _) = ''steer''"
| "move_kind (RunStopped _ _ _) = ''stop''"
| "move_kind (RunPlan _ _) = PLAN_KIND"
| "move_kind (MadeDecision _ _ _) = DECISION_KIND"
| "move_kind (RanCommand _ _ _) = COMMAND_KIND"
| "move_kind (Compacted _ _) = COMPACTION_KIND"
| "move_kind (WentBack _ _) = REWOUND_KIND"

fun move_payload :: "(u32 \<Rightarrow> json) \<Rightarrow> log_move \<Rightarrow> json" where
  "move_payload f32_json (RunPrompt _ ms) = JArray ms"
| "move_payload f32_json (RunAppended _ m) = m"
| "move_payload f32_json (RunSteered _ t) = JObject [(''text'', JString t)]"
| "move_payload f32_json (RunStopped _ reason n) = JObject [(''reason'', JString reason), (''steps'', JInt (int n))]"
| "move_payload f32_json (RunPlan _ p) = plan_to_json f32_json p"
| "move_payload f32_json (MadeDecision _ _ d) = decision_to_json d"
| "move_payload f32_json (RanCommand _ _ t) = trace_to_json t"
| "move_payload f32_json (Compacted _ x) = compaction_to_json x"
| "move_payload f32_json (WentBack _ payload) = payload"

lemma do_move_is:
  "do_move fj mv now h = log_write h (move_conv mv) (move_run mv) (move_kind mv) (move_payload fj mv) now"
  by (cases mv) (simp_all add: do_move_def log_prompt_def log_appended_def log_steered_def log_stopped_def
      record_plan_def record_decision_def record_command_def record_compaction_def sl_write_def)

definition move_row :: "(u32 \<Rightarrow> json) \<Rightarrow> log_move \<Rightarrow> int \<Rightarrow> history \<Rightarrow> session_event" where
  "move_row fj mv now h = \<lparr>se_conversation = move_conv mv, se_run = move_run mv,
     se_seq = max_seq (events_of h (move_conv mv)) + 1, se_kind = move_kind mv,
     se_payload = move_payload fj mv, se_created_at = now\<rparr>"

lemma do_move_appends:
  assumes "hy_readable h" "hy_writable h"
  shows "do_move fj mv now h = h\<lparr>hy_events := hy_events h @ [move_row fj mv now h]\<rparr>"
  using assms by (simp add: do_move_is log_write_def append_session_event_def move_row_def Let_def)

lemma do_move_flags [simp]:
  "hy_readable (do_move fj mv now h) = hy_readable h" "hy_writable (do_move fj mv now h) = hy_writable h"
  by (simp_all add: do_move_is log_write_def append_session_event_def hy_readable_def hy_writable_def Let_def)

lemma do_moves_flags [simp]:
  "hy_readable (do_moves fj ms h) = hy_readable h" "hy_writable (do_moves fj ms h) = hy_writable h"
  by (induction fj ms h rule: do_moves.induct) simp_all

lemma do_moves_append: "do_moves fj (ms @ ms') h = do_moves fj ms' (do_moves fj ms h)"
  by (induction fj ms h rule: do_moves.induct) simp_all

section \<open>Numbers grow\<close>

lemma max_seq_ge: "e \<in> set es \<Longrightarrow> se_seq e \<le> max_seq es"
  by (auto simp: max_seq_def split: list.split)

definition grows :: "session_event list \<Rightarrow> bool" where
  "grows es \<longleftrightarrow> sorted_wrt (\<lambda>a b. se_seq a < se_seq b) es"

lemma grows_sorted: "grows es \<Longrightarrow> sort_key se_seq es = es"
  by (rule sort_key_id_if_sorted) (auto simp: grows_def sorted_wrt_map intro: sorted_wrt_mono_rel[rotated])

lemma grows_snoc: "grows (es @ [e]) \<longleftrightarrow> grows es \<and> (\<forall>a \<in> set es. se_seq a < se_seq e)"
  by (auto simp: grows_def sorted_wrt_append)

text \<open>The rows of a run that writes in one conversation stand in the order they were written.\<close>

definition one_place :: "string \<Rightarrow> string \<Rightarrow> history \<Rightarrow> bool" where
  "one_place r c h \<longleftrightarrow> grows (run_rows h r) \<and> (\<forall>e \<in> set (run_rows h r). se_conversation e = c)"

lemma run_rows_move:
  assumes "hy_readable h" "hy_writable h"
  shows "run_rows (do_move fj mv now h) r = run_rows h r @ (if move_run mv = Some r then [move_row fj mv now h] else [])"
  using assms by (simp add: do_move_appends run_rows_def move_row_def)

lemma one_place_move:
  assumes "hy_readable h" "hy_writable h" "one_place r c h" "move_run mv = Some r \<longrightarrow> move_conv mv = c"
  shows "one_place r c (do_move fj mv now h)"
proof (cases "move_run mv = Some r")
  case True
  have "se_seq a < se_seq (move_row fj mv now h)" if "a \<in> set (run_rows h r)" for a
  proof -
    have "a \<in> set (events_of h c)" using that assms(3) by (auto simp: one_place_def run_rows_def events_of_def)
    from max_seq_ge[OF this] show ?thesis using True assms(4) by (simp add: move_row_def)
  qed
  then show ?thesis using True assms by (simp add: one_place_def run_rows_move grows_snoc) (simp add: move_row_def)
next
  case False
  then show ?thesis using assms by (simp add: one_place_def run_rows_move)
qed

lemma one_place_moves:
  assumes "hy_readable h" "hy_writable h" "one_place r c h"
    and "\<forall>(mv, t) \<in> set ms. move_run mv = Some r \<longrightarrow> move_conv mv = c"
  shows "one_place r c (do_moves fj ms h)"
  using assms by (induction fj ms h rule: do_moves.induct) (simp_all add: one_place_move)

definition kept_row :: "(u32 \<Rightarrow> json) \<Rightarrow> log_move \<Rightarrow> session_event \<Rightarrow> bool" where
  "kept_row fj mv e \<longleftrightarrow> se_run e = move_run mv \<and> se_kind e = move_kind mv \<and> se_payload e = move_payload fj mv"

lemma run_rows_moves:
  assumes "hy_readable h" "hy_writable h"
  shows "\<exists>es. run_rows (do_moves fj ms h) r = run_rows h r @ es
    \<and> list_all2 (kept_row fj) (filter (\<lambda>mv. move_run mv = Some r) (map fst ms)) es"
  using assms
proof (induction fj ms h rule: do_moves.induct)
  case (2 fj mv now ms h)
  let ?h = "do_move fj mv now h"
  from 2 obtain es where es: "run_rows (do_moves fj ms ?h) r = run_rows ?h r @ es"
      "list_all2 (kept_row fj) (filter (\<lambda>mv. move_run mv = Some r) (map fst ms)) es" by auto
  let ?es = "(if move_run mv = Some r then [move_row fj mv now h] else []) @ es"
  have "run_rows (do_moves fj ((mv, now) # ms) h) r = run_rows h r @ ?es"
    using es(1) run_rows_move[OF 2(2,3), of fj mv now r] by simp
  moreover have "kept_row fj mv (move_row fj mv now h)" by (simp add: kept_row_def move_row_def)
  ultimately show ?case using es(2) by (intro exI[of _ ?es]) simp
qed simp

section \<open>Replay\<close>

text \<open>What a run sent to the model in a history.\<close>

fun sent_by :: "string \<Rightarrow> log_move \<Rightarrow> json list" where
  "sent_by r (RunPrompt l ms) = (if sl_run l = r then ms else [])"
| "sent_by r (RunAppended l m) = (if sl_run l = r then [m] else [])"
| "sent_by r _ = []"

definition sent_in :: "string \<Rightarrow> (log_move \<times> int) list \<Rightarrow> json list" where
  "sent_in r ms = concat (map (\<lambda>(mv, t). sent_by r mv) ms)"

lemma kinds_of_message:
  "kind_of_message m \<in> set [''tool_result'', ''tool_call'', ''assistant'', ''user'', ''system_note'']"
  by (simp add: kind_of_message_def split: option.split)

lemma message_not_skipped [simp]: "\<not> skipped_kind (kind_of_message m)" "kind_of_message m \<noteq> ''prompt''"
  using kinds_of_message[of m]
  by (auto simp: skipped_kind_def COMPACTION_KIND_def PLAN_KIND_def COMMAND_KIND_def REWOUND_KIND_def DECISION_KIND_def)

lemma prompt_not_skipped [simp]: "\<not> skipped_kind ''prompt''"
  by (simp add: skipped_kind_def COMPACTION_KIND_def PLAN_KIND_def COMMAND_KIND_def REWOUND_KIND_def DECISION_KIND_def)

lemma others_skipped [simp]:
  "skipped_kind ''steer''" "skipped_kind ''stop''" "skipped_kind COMPACTION_KIND" "skipped_kind PLAN_KIND"
  "skipped_kind COMMAND_KIND" "skipped_kind REWOUND_KIND" "skipped_kind DECISION_KIND"
  by (simp_all add: skipped_kind_def)

lemma row_messages_sent:
  "kept_row fj mv e \<Longrightarrow> move_run mv = Some r \<Longrightarrow> row_messages e = sent_by r mv"
  by (cases mv) (auto simp: kept_row_def row_messages_def split: json.split)

lemma sent_in_filter:
  "sent_in r ms = concat (map (sent_by r) (filter (\<lambda>mv. move_run mv = Some r) (map fst ms)))"
proof (induction ms)
  case (Cons x ms)
  obtain mv t where x: "x = (mv, t)" by fastforce
  have "move_run mv \<noteq> Some r \<Longrightarrow> sent_by r mv = []" by (cases mv) auto
  with Cons x show ?case by (simp add: sent_in_def)
qed (simp add: sent_in_def)

lemma rows_of_moves:
  assumes "hy_readable h" "hy_writable h" "run_rows h r = []"
    and "\<forall>(mv, t) \<in> set ms. move_run mv = Some r \<longrightarrow> move_conv mv = c"
  obtains es where "session_events_for_run (do_moves fj ms h) r = Inr es"
    and "list_all2 (kept_row fj) (filter (\<lambda>mv. move_run mv = Some r) (map fst ms)) es"
proof -
  have "one_place r c h" using assms(3) by (simp add: one_place_def grows_def)
  from one_place_moves[OF assms(1,2) this assms(4)] have s: "sort_key se_seq (run_rows (do_moves fj ms h) r) = run_rows (do_moves fj ms h) r"
    by (simp add: one_place_def grows_sorted)
  from run_rows_moves[OF assms(1,2), of fj ms r] assms(3) show ?thesis
    using that s assms(1) by (auto simp: session_events_for_run_def)
qed

lemma kept_rows_messages:
  assumes "list_all2 (kept_row fj) (filter (\<lambda>mv. move_run mv = Some r) mvs) es"
  shows "map row_messages es = map (sent_by r) (filter (\<lambda>mv. move_run mv = Some r) mvs)"
proof -
  have "map row_messages es = map (sent_by r) fs"
    if "list_all2 (kept_row fj) fs es" "\<forall>mv \<in> set fs. move_run mv = Some r" for fs
    using that by (induction rule: list_all2_induct) (auto intro: row_messages_sent)
  from this[OF assms] show ?thesis by auto
qed

lemma replay_sent:
  assumes "hy_readable h" "hy_writable h" "run_rows h r = []"
    and "\<forall>(mv, t) \<in> set ms. move_run mv = Some r \<longrightarrow> move_conv mv = c"
  shows "replay (do_moves fj ms h) r = sent_in r ms"
proof -
  obtain es where e: "session_events_for_run (do_moves fj ms h) r = Inr es"
    and l: "list_all2 (kept_row fj) (filter (\<lambda>mv. move_run mv = Some r) (map fst ms)) es"
    using rows_of_moves[OF assms] by blast
  then show ?thesis using kept_rows_messages[OF l] by (simp add: replay_def rows_or_none_def sent_in_filter)
qed

subsection \<open>Branches between the writes\<close>

text \<open>
  A branch or a rewind also copies the rows of one conversation into another
  (\<open>fork_session_events\<close>), with the ids of their runs.  A history is then a list of writes and
  copies; a copy that fails leaves the log as it was.
\<close>

datatype log_step = Wrote log_move int | Branched string string int

definition do_step :: "(u32 \<Rightarrow> json) \<Rightarrow> log_step \<Rightarrow> history \<Rightarrow> history" where
  "do_step f32_json s h =
     (case s of
        Wrote mv now \<Rightarrow> do_move f32_json mv now h
      | Branched src dst last_seq \<Rightarrow> (case fork_session_events h src dst last_seq of Inl _ \<Rightarrow> h | Inr h' \<Rightarrow> h'))"

fun do_steps :: "(u32 \<Rightarrow> json) \<Rightarrow> log_step list \<Rightarrow> history \<Rightarrow> history" where
  "do_steps f32_json [] h = h"
| "do_steps f32_json (s # ss) h = do_steps f32_json ss (do_step f32_json s h)"

definition writes_in :: "log_step list \<Rightarrow> (log_move \<times> int) list" where
  "writes_in ss = List.map_filter (\<lambda>s. case s of Wrote mv t \<Rightarrow> Some (mv, t) | Branched _ _ _ \<Rightarrow> None) ss"

text \<open>No branch of the history copies a row of the run: it is taken of another conversation, or up to
  a row before the run's first.\<close>

definition copies_row_of :: "string \<Rightarrow> log_step \<Rightarrow> history \<Rightarrow> bool" where
  "copies_row_of r s h \<longleftrightarrow>
     (case s of Wrote _ _ \<Rightarrow> False
      | Branched src _ last_seq \<Rightarrow> list_ex (\<lambda>e. se_seq e \<le> last_seq \<and> se_run e = Some r) (events_of h src))"

fun uncopied :: "(u32 \<Rightarrow> json) \<Rightarrow> string \<Rightarrow> log_step list \<Rightarrow> history \<Rightarrow> bool" where
  "uncopied f32_json r [] h = True"
| "uncopied f32_json r (s # ss) h = (\<not> copies_row_of r s h \<and> uncopied f32_json r ss (do_step f32_json s h))"

lemma fork_keeps_run_rows:
  assumes "\<not> copies_row_of r (Branched src dst last_seq) h"
  shows "run_rows (do_step fj (Branched src dst last_seq) h) r = run_rows h r"
proof -
  define rows where "rows = sort_key se_seq (filter (\<lambda>e. se_seq e \<le> last_seq) (events_of h src))"
  define es where "es = map (\<lambda>(n, e). e\<lparr>se_conversation := dst, se_seq := int n + 1\<rparr>) (enumerated rows)"
  have "\<forall>e \<in> set rows. se_run e \<noteq> Some r"
    using assms by (auto simp: rows_def copies_row_of_def list_ex_iff)
  then have "\<forall>e \<in> set es. se_run e \<noteq> Some r" unfolding es_def by (auto dest!: set_zip_rightD)
  then have "filter (\<lambda>e. se_run e = Some r) es = []" by (simp add: filter_empty_conv)
  moreover have "do_step fj (Branched src dst last_seq) h
      = (if hy_readable h \<and> hy_writable h then h\<lparr>hy_events := hy_events h @ es\<rparr> else h)"
    by (simp add: do_step_def fork_session_events_def es_def rows_def Let_def)
  ultimately show ?thesis by (simp add: run_rows_def)
qed

lemma do_step_flags [simp]:
  "hy_readable (do_step fj s h) = hy_readable h" "hy_writable (do_step fj s h) = hy_writable h"
proof -
  have "hy_readable (do_step fj s h) = hy_readable h \<and> hy_writable (do_step fj s h) = hy_writable h"
  proof (cases s)
    case (Branched src dst last_seq)
    have "hy_files (do_step fj s h) = hy_files h"
      unfolding do_step_def Branched log_step.case fork_session_events_def Let_def by (cases "hy_readable h \<and> hy_writable h") simp_all
    then show ?thesis by (simp add: hy_readable_def hy_writable_def)
  qed (simp add: do_step_def)
  then show "hy_readable (do_step fj s h) = hy_readable h" "hy_writable (do_step fj s h) = hy_writable h" by simp_all
qed

lemma run_rows_steps:
  assumes "hy_readable h" "hy_writable h" "one_place r c h" "uncopied fj r ss h"
    and "\<forall>(mv, t) \<in> set (writes_in ss). move_run mv = Some r \<longrightarrow> move_conv mv = c"
  shows "one_place r c (do_steps fj ss h) \<and> (\<exists>es. run_rows (do_steps fj ss h) r = run_rows h r @ es
    \<and> list_all2 (kept_row fj) (filter (\<lambda>mv. move_run mv = Some r) (map fst (writes_in ss))) es)"
  using assms
proof (induction fj ss h rule: do_steps.induct)
  case (2 fj s ss h)
  show ?case
  proof (cases s)
    case (Branched src dst last_seq)
    then have "run_rows (do_step fj s h) r = run_rows h r" using fork_keeps_run_rows "2.prems"(4) by simp
    moreover from this have "one_place r c (do_step fj s h)" using "2.prems"(3) by (simp add: one_place_def)
    moreover have "writes_in (s # ss) = writes_in ss" using Branched by (simp add: writes_in_def map_filter_simps)
    ultimately show ?thesis using 2 by simp
  next
    case (Wrote mv t)
    then have w: "writes_in (s # ss) = (mv, t) # writes_in ss" by (simp add: writes_in_def map_filter_simps)
    have step: "do_step fj s h = do_move fj mv t h" using Wrote by (simp add: do_step_def)
    have "one_place r c (do_step fj s h)"
      using one_place_move[OF "2.prems"(1-3), of mv] "2.prems"(5) by (simp add: step w)
    then obtain es where es: "one_place r c (do_steps fj ss (do_step fj s h))"
        "run_rows (do_steps fj ss (do_step fj s h)) r = run_rows (do_step fj s h) r @ es"
        "list_all2 (kept_row fj) (filter (\<lambda>mv. move_run mv = Some r) (map fst (writes_in ss))) es"
      using "2.IH" "2.prems" by (auto simp: w)
    let ?es = "(if move_run mv = Some r then [move_row fj mv t h] else []) @ es"
    have "run_rows (do_steps fj (s # ss) h) r = run_rows h r @ ?es"
      using es(2) run_rows_move[OF "2.prems"(1,2), of fj mv t r] by (simp add: step)
    moreover have "kept_row fj mv (move_row fj mv t h)" by (simp add: kept_row_def move_row_def)
    ultimately show ?thesis using es(1,3) by (intro conjI exI[of _ ?es]) (simp_all add: w)
  qed
qed (simp add: writes_in_def map_filter_simps)

text \<open>C31: Whatever any runs and conversations write to the log, before, between and after, replay gives
  back exactly the messages the run sent, its prompt and every message appended after it, in
  order: steering, plans, decisions, commands, compactions, rewound rows and stops are not among
  them.  Branches may be taken as well, as long as none copies a row of this run: of other
  conversations, or of the run's own up to before it began.  One that does copy its rows breaks
  this: \<open>branch_replays_twice\<close>.  The run writes in one conversation, under an id that no row had
  before, and the log can be read and written.\<close>
theorem replay_gives_what_was_sent:
  assumes "hy_readable h" and "hy_writable h" and "run_rows h r = []"
    and "\<forall>(mv, t) \<in> set (writes_in ss). move_run mv = Some r \<longrightarrow> move_conv mv = c"
    and "uncopied f32_json r ss h"
  shows "replay (do_steps f32_json ss h) r = sent_in r (writes_in ss)"
proof -
  have one: "one_place r c h" using assms(3) by (simp add: one_place_def grows_def)
  obtain es where es: "one_place r c (do_steps f32_json ss h)" "run_rows (do_steps f32_json ss h) r = es"
    "list_all2 (kept_row f32_json) (filter (\<lambda>mv. move_run mv = Some r) (map fst (writes_in ss))) es"
    using run_rows_steps[OF assms(1,2) one assms(5,4)] assms(3) by auto
  have "hy_readable (do_steps f32_json ss h)" using assms(1) by (induction f32_json ss h rule: do_steps.induct) simp_all
  then have "session_events_for_run (do_steps f32_json ss h) r = Inr es"
    using es(1,2) by (simp add: session_events_for_run_def one_place_def grows_sorted)
  then show ?thesis using kept_rows_messages[OF es(3)] by (simp add: replay_def rows_or_none_def sent_in_filter)
qed

section \<open>The rows of a conversation\<close>

lemma sort_key_append:
  assumes "\<forall>a \<in> set xs. \<forall>b \<in> set ys. f a < f b"
  shows "sort_key f (xs @ ys) = sort_key f xs @ sort_key f ys"
proof (rule properties_for_sort_key)
  show "mset (sort_key f xs @ sort_key f ys) = mset (xs @ ys)" by simp
  show "filter (\<lambda>x. f k = f x) (sort_key f xs @ sort_key f ys) = filter (\<lambda>x. f k = f x) (xs @ ys)" for k
  proof -
    have "(\<lambda>x. f k = f x) = (\<lambda>x. f x = f k)" by auto
    then show ?thesis by (simp add: sort_key_stable)
  qed
  show "sorted (map f (sort_key f xs @ sort_key f ys))" using assms by (auto simp: sorted_append less_imp_le)
qed

lemma events_move:
  assumes "hy_readable h" "hy_writable h"
  shows "events_of (do_move fj mv now h) c = events_of h c @ (if move_conv mv = c then [move_row fj mv now h] else [])"
  using assms by (simp add: do_move_appends events_of_def move_row_def)

lemma events_moves:
  assumes "hy_readable h" "hy_writable h"
  shows "\<exists>es. events_of (do_moves fj ms h) c = events_of h c @ es
    \<and> list_all2 (kept_row fj) (filter (\<lambda>mv. move_conv mv = c) (map fst ms)) es
    \<and> grows es \<and> (\<forall>b \<in> set es. max_seq (events_of h c) < se_seq b)"
  using assms
proof (induction fj ms h rule: do_moves.induct)
  case (2 fj mv now ms h)
  let ?h = "do_move fj mv now h" and ?e = "move_row fj mv now h"
  from 2 obtain es where es: "events_of (do_moves fj ms ?h) c = events_of ?h c @ es"
      "list_all2 (kept_row fj) (filter (\<lambda>mv. move_conv mv = c) (map fst ms)) es"
      "grows es" "\<forall>b \<in> set es. max_seq (events_of ?h c) < se_seq b" by auto
  show ?case
  proof (cases "move_conv mv = c")
    case True
    have new: "max_seq (events_of h c) < se_seq ?e" using True by (simp add: move_row_def)
    have "\<forall>b \<in> set es. se_seq ?e < se_seq b"
    proof -
      have "se_seq ?e \<le> max_seq (events_of ?h c)" using True events_move[OF 2(2,3), of fj mv now c] by (intro max_seq_ge) simp
      then show ?thesis using es(4) by auto
    qed
    then have "grows (?e # es)" "\<forall>b \<in> set (?e # es). max_seq (events_of h c) < se_seq b"
      using es(3) new by (auto simp: grows_def intro: less_trans)
    moreover have "kept_row fj mv ?e" by (simp add: kept_row_def move_row_def)
    ultimately show ?thesis using es(1,2) True events_move[OF 2(2,3), of fj mv now c]
      by (intro exI[of _ "?e # es"]) simp
  next
    case False
    then show ?thesis using es events_move[OF 2(2,3), of fj mv now c] by auto
  qed
qed (simp add: grows_def)

lemma sorted_events_moves:
  assumes "hy_readable h" "hy_writable h"
  obtains es where "events_of (do_moves fj ms h) c = events_of h c @ es"
    and "session_events (do_moves fj ms h) c = Inr (sort_key se_seq (events_of h c) @ es)"
    and "list_all2 (kept_row fj) (filter (\<lambda>mv. move_conv mv = c) (map fst ms)) es"
    and "grows es" and "\<forall>a \<in> set (events_of h c). \<forall>b \<in> set es. se_seq a < se_seq b"
proof -
  obtain es where es: "events_of (do_moves fj ms h) c = events_of h c @ es"
      "list_all2 (kept_row fj) (filter (\<lambda>mv. move_conv mv = c) (map fst ms)) es"
      "grows es" "\<forall>b \<in> set es. max_seq (events_of h c) < se_seq b"
    using events_moves[OF assms] by blast
  have lt: "\<forall>a \<in> set (events_of h c). \<forall>b \<in> set es. se_seq a < se_seq b"
    using es(4) max_seq_ge le_less_trans by blast
  then show ?thesis using that es assms(1) by (simp add: session_events_def sort_key_append grows_sorted)
qed

section \<open>The run that is picked up\<close>

lemma newest_last:
  assumes "grows es" "es \<noteq> []" "\<forall>a \<in> set as. \<forall>b \<in> set es. se_seq a < se_seq b"
  shows "newest (as @ es) = Some (last es)"
proof -
  have "sort_key se_seq (as @ es) = sort_key se_seq as @ es" using assms(1,3) by (simp add: sort_key_append grows_sorted)
  moreover have "last (sort_key se_seq as @ es) = last es" using assms(2) by simp
  ultimately show ?thesis using assms(2) by (cases "sort_key se_seq as @ es") (auto simp: newest_def)
qed

lemma grows_filter: "grows es \<Longrightarrow> grows (filter P es)"
  by (simp add: grows_def sorted_wrt_filter)

text \<open>The last run that wrote in a conversation.\<close>

definition last_run_in :: "string \<Rightarrow> (log_move \<times> int) list \<Rightarrow> string option" where
  "last_run_in c ms = find_map (\<lambda>(mv, t). if move_conv mv = c then move_run mv else None) (rev ms)"

lemma find_map_append: "find_map f (xs @ ys) = (case find_map f xs of None \<Rightarrow> find_map f ys | Some y \<Rightarrow> Some y)"
  by (induction xs) (auto split: option.split)

lemma last_filter_run:
  assumes "list_all2 (kept_row fj) (filter (\<lambda>mv. move_conv mv = c) (map fst ms)) es" "last_run_in c ms = Some r"
  shows "filter (\<lambda>e. se_run e \<noteq> None) es \<noteq> [] \<and> se_run (last (filter (\<lambda>e. se_run e \<noteq> None) es)) = Some r"
  using assms
proof (induction ms arbitrary: es rule: rev_induct)
  case Nil
  then show ?case by (simp add: last_run_in_def)
next
  case (snoc x ms)
  obtain mv t where x: "x = (mv, t)" by fastforce
  show ?case
  proof (cases "move_conv mv = c")
    case True
    with snoc.prems(1) x obtain es' e where es: "es = es' @ [e]" "kept_row fj mv e"
        "list_all2 (kept_row fj) (filter (\<lambda>mv. move_conv mv = c) (map fst ms)) es'"
      by (auto simp: list_all2_append1 list_all2_Cons1)
    have run: "se_run e = move_run mv" using es(2) by (simp add: kept_row_def)
    show ?thesis
    proof (cases "move_run mv")
      case None
      with snoc.prems(2) x True have "last_run_in c ms = Some r" by (simp add: last_run_in_def)
      from snoc.IH[OF es(3) this] show ?thesis using es(1) run None by simp
    next
      case (Some r')
      then show ?thesis using snoc.prems(2) x True es(1) run by (simp add: last_run_in_def)
    qed
  next
    case False
    then show ?thesis using snoc x by (simp add: last_run_in_def)
  qed
qed

lemma last_logged_run_moves:
  assumes "hy_readable h" "hy_writable h" "last_run_in c ms = Some r"
  shows "\<exists>reason. last_logged_run (do_moves fj ms h) c = Some (r, reason)"
proof -
  obtain es where es: "events_of (do_moves fj ms h) c = events_of h c @ es"
      "list_all2 (kept_row fj) (filter (\<lambda>mv. move_conv mv = c) (map fst ms)) es"
      "grows es" "\<forall>a \<in> set (events_of h c). \<forall>b \<in> set es. se_seq a < se_seq b"
    using sorted_events_moves[OF assms(1,2)] by metis
  have "newest (filter (\<lambda>e. se_run e \<noteq> None) (events_of h c) @ filter (\<lambda>e. se_run e \<noteq> None) es)
      = Some (last (filter (\<lambda>e. se_run e \<noteq> None) es))"
    using last_filter_run[OF es(2) assms(3)] es(4) by (intro newest_last grows_filter es(3)) auto
  then show ?thesis using last_filter_run[OF es(2) assms(3)] es(1) assms(1)
    by (simp add: last_logged_run_def)
qed

section \<open>What went out\<close>

text \<open>The messages a run appended, and what they say of calls: the last result of a call is the one
  that counts, and it is good when its text does not begin with \<open>Error\<close>.\<close>

fun appended_by :: "string \<Rightarrow> log_move \<Rightarrow> json list" where
  "appended_by r (RunAppended l m) = (if sl_run l = r then [m] else [])"
| "appended_by r _ = []"

definition appended_in :: "string \<Rightarrow> (log_move \<times> int) list \<Rightarrow> json list" where
  "appended_in r ms = concat (map (\<lambda>(mv, t). appended_by r mv) ms)"

definition message_calls :: "(string \<Rightarrow> json option) \<Rightarrow> json \<Rightarrow> (string \<times> string \<times> json) list" where
  "message_calls json_of m =
     (if kind_of_message m = ''tool_call''
      then map (call_of json_of) (case list_at m ''tool_calls'' of None \<Rightarrow> [] | Some cs \<Rightarrow> cs) else [])"

definition answers :: "json \<Rightarrow> string \<Rightarrow> bool" where
  "answers m i \<longleftrightarrow> kind_of_message m = ''tool_result'' \<and> or_str [] (str_at m ''tool_call_id'') = i"

definition says_error :: "json \<Rightarrow> bool" where
  "says_error m \<longleftrightarrow> (\<exists>t. str_at m ''content'' = Some t \<and> failed_text t)"

definition well_done :: "json list \<Rightarrow> string \<Rightarrow> bool" where
  "well_done msgs i \<longleftrightarrow> (\<exists>before m after. msgs = before @ m # after \<and> answers m i \<and> \<not> says_error m
      \<and> (\<forall>later \<in> set after. \<not> answers later i))"

definition went_out :: "unicode \<Rightarrow> (string \<Rightarrow> json option) \<Rightarrow> json list \<Rightarrow> bool" where
  "went_out u json_of msgs \<longleftrightarrow>
     (\<exists>m \<in> set msgs. \<exists>(i, name, args) \<in> set (message_calls json_of m).
        well_done msgs i \<and> outward_of u name args \<noteq> None)"

definition message_result :: "json \<Rightarrow> (string \<times> bool) option" where
  "message_result m =
     (if kind_of_message m = ''tool_result'' then Some (or_str [] (str_at m ''tool_call_id''), \<not> says_error m) else None)"

lemma result_map_last:
  "result_map f xs i = Some b \<longleftrightarrow>
     (\<exists>before x after. xs = before @ x # after \<and> f x = Some (i, b) \<and> (\<forall>y \<in> set after. \<forall>c. f y \<noteq> Some (i, c)))"
proof (induction xs rule: rev_induct)
  case (snoc x xs)
  show ?case
  proof (cases "\<exists>c. f x = Some (i, c)")
    case True
    then obtain c where c: "f x = Some (i, c)" by blast
    then have "result_map f (xs @ [x]) i = Some c" by (simp add: result_map_def List.map_filter_def)
    moreover have "(\<exists>before x' after. xs @ [x] = before @ x' # after \<and> f x' = Some (i, b)
        \<and> (\<forall>y \<in> set after. \<forall>c. f y \<noteq> Some (i, c))) \<longleftrightarrow> c = b" (is "?L \<longleftrightarrow> _")
    proof
      assume ?L
      then obtain before x' after where l: "xs @ [x] = before @ x' # after" "f x' = Some (i, b)"
        "\<forall>y \<in> set after. \<forall>c. f y \<noteq> Some (i, c)" by blast
      have "after = []"
      proof (rule ccontr)
        assume "after \<noteq> []"
        then have "x \<in> set after" using l(1) by (metis last.simps last_appendR last_in_set last_snoc list.distinct(1))
        with l(3) c show False by blast
      qed
      with l(1,2) c show "c = b" by simp
    next
      assume "c = b"
      then show ?L using c by (intro exI[of _ xs] exI[of _ x] exI[of _ "[]"]) simp
    qed
    ultimately show ?thesis by simp
  next
    case False
    then have "result_map f (xs @ [x]) i = result_map f xs i"
      by (cases "f x") (auto simp: result_map_def List.map_filter_def)
    moreover have "(\<exists>before x' after. xs @ [x] = before @ x' # after \<and> f x' = Some (i, b)
        \<and> (\<forall>y \<in> set after. \<forall>c. f y \<noteq> Some (i, c)))
      \<longleftrightarrow> (\<exists>before x' after. xs = before @ x' # after \<and> f x' = Some (i, b)
        \<and> (\<forall>y \<in> set after. \<forall>c. f y \<noteq> Some (i, c)))" (is "?L \<longleftrightarrow> ?R")
    proof
      assume ?L
      then obtain before x' after where l: "xs @ [x] = before @ x' # after" "f x' = Some (i, b)"
        "\<forall>y \<in> set after. \<forall>c. f y \<noteq> Some (i, c)" by blast
      from l(1,2) False have "after \<noteq> []" by auto
      then obtain after' where "after = after' @ [x]" using l(1) by (metis append_butlast_last_id last.simps last_appendR last_snoc list.distinct(1))
      with l show ?R by (intro exI[of _ before] exI[of _ x'] exI[of _ after']) auto
    next
      assume ?R
      then obtain before x' after where "xs = before @ x' # after" "f x' = Some (i, b)"
        "\<forall>y \<in> set after. \<forall>c. f y \<noteq> Some (i, c)" by blast
      with False show ?L by (intro exI[of _ before] exI[of _ x'] exI[of _ "after @ [x]"]) auto
    qed
    ultimately show ?thesis using snoc by simp
  qed
qed (simp add: result_map_def List.map_filter_def)

lemma well_done_result: "result_map message_result msgs i = Some True \<longleftrightarrow> well_done msgs i"
proof -
  have "message_result x = Some (i, True) \<longleftrightarrow> answers x i \<and> \<not> says_error x" for x
    by (auto simp: message_result_def answers_def)
  moreover have "(\<forall>c. message_result y \<noteq> Some (i, c)) \<longleftrightarrow> \<not> answers y i" for y
    by (auto simp: message_result_def answers_def)
  ultimately show ?thesis by (simp only: result_map_last well_done_def conj_assoc)
qed

lemma appended_in_filter:
  "appended_in r ms = concat (map (appended_by r) (filter (\<lambda>mv. move_run mv = Some r) (map fst ms)))"
proof (induction ms)
  case (Cons x ms)
  obtain mv t where x: "x = (mv, t)" by fastforce
  have "move_run mv \<noteq> Some r \<Longrightarrow> appended_by r mv = []" by (cases mv) auto
  with Cons x show ?case by (simp add: appended_in_def)
qed (simp add: appended_in_def)

lemma no_call_kinds [simp]:
  "PLAN_KIND \<noteq> ''tool_call''" "DECISION_KIND \<noteq> ''tool_call''" "COMMAND_KIND \<noteq> ''tool_call''"
  "COMPACTION_KIND \<noteq> ''tool_call''" "REWOUND_KIND \<noteq> ''tool_call''"
  "PLAN_KIND \<noteq> ''tool_result''" "DECISION_KIND \<noteq> ''tool_result''" "COMMAND_KIND \<noteq> ''tool_result''"
  "COMPACTION_KIND \<noteq> ''tool_result''" "REWOUND_KIND \<noteq> ''tool_result''"
  by (simp_all add: PLAN_KIND_def DECISION_KIND_def COMMAND_KIND_def COMPACTION_KIND_def REWOUND_KIND_def)

lemma row_of_move:
  assumes "kept_row fj mv e" "move_run mv = Some r"
  shows "row_calls json_of e = concat (map (message_calls json_of) (appended_by r mv))"
    and "row_result e = (case appended_by r mv of [] \<Rightarrow> None | m # _ \<Rightarrow> message_result m)"
    and "length (appended_by r mv) \<le> 1"
proof -
  show "row_calls json_of e = concat (map (message_calls json_of) (appended_by r mv))"
    using assms by (cases mv) (simp_all add: kept_row_def row_calls_def message_calls_def)
  show "row_result e = (case appended_by r mv of [] \<Rightarrow> None | m # _ \<Rightarrow> message_result m)"
    using assms by (cases mv) (auto simp: kept_row_def row_result_def message_result_def says_error_def split: option.split)
  show "length (appended_by r mv) \<le> 1" by (cases mv) simp_all
qed

lemma rows_say:
  assumes "list_all2 (kept_row fj) mvs es" "\<forall>mv \<in> set mvs. move_run mv = Some r"
  shows "concat (map (row_calls json_of) es) = concat (map (message_calls json_of) (concat (map (appended_by r) mvs)))
    \<and> List.map_filter row_result es = List.map_filter message_result (concat (map (appended_by r) mvs))"
  using assms
proof (induction rule: list_all2_induct)
  case (Cons mv mvs e es)
  then have ih: "concat (map (row_calls json_of) es) = concat (map (message_calls json_of) (concat (map (appended_by r) mvs)))"
      "List.map_filter row_result es = List.map_filter message_result (concat (map (appended_by r) mvs))" by auto
  have run: "move_run mv = Some r" using Cons by simp
  note row = row_of_move[OF Cons(1) run]
  show ?case
  proof (cases "appended_by r mv")
    case Nil
    then show ?thesis using row ih by (simp add: List.map_filter_def)
  next
    case (Cons m rest)
    then have "appended_by r mv = [m]" using row(3) by simp
    then show ?thesis using row(1)[of json_of] row(2) ih by (simp add: List.map_filter_def split: option.split)
  qed
qed simp

lemma outward_done_moves:
  assumes "hy_readable h" "hy_writable h" "run_rows h r = []"
    and "\<forall>(mv, t) \<in> set ms. move_run mv = Some r \<longrightarrow> move_conv mv = c"
  shows "outward_done u json_of (do_moves fj ms h) r \<noteq> None \<longleftrightarrow> went_out u json_of (appended_in r ms)"
proof -
  obtain es where e: "session_events_for_run (do_moves fj ms h) r = Inr es"
    and l: "list_all2 (kept_row fj) (filter (\<lambda>mv. move_run mv = Some r) (map fst ms)) es"
    using rows_of_moves[OF assms] by blast
  have runs: "\<forall>mv \<in> set (filter (\<lambda>mv. move_run mv = Some r) (map fst ms)). move_run mv = Some r" by simp
  note say = rows_say[OF l runs, of json_of, folded appended_in_filter]
  have good: "result_map row_result es i = Some True \<longleftrightarrow> well_done (appended_in r ms) i" for i
    using say well_done_result[of "appended_in r ms" i] by (simp add: result_map_def)
  show ?thesis using e say
    by (simp add: outward_done_def rows_or_none_def find_map_None went_out_def good Let_def) fastforce
qed

text \<open>C32: Whatever was written to the log, resume says that it does not start over exactly when some call
  of the run that was cut off has a good last result and went out: a mail, a push, or a call the
  connector gate holds for a send; and when the run sent nothing there is nothing to resume.
  Otherwise it goes on with all the run sent and one word about the interruption.\<close>
theorem resume_never_repeats_a_send:
  assumes "hy_readable h" and "hy_writable h" and "run_rows h r = []"
    and "\<forall>(mv, t) \<in> set ms. move_run mv = Some r \<longrightarrow> move_conv mv = c"
    and "last_run_in conv ms = Some r"
  shows "resume_with u json_of (do_moves f32_json ms h) conv = Inr msgs \<longleftrightarrow>
    sent_in r ms \<noteq> [] \<and> \<not> went_out u json_of (appended_in r ms)
    \<and> msgs = sent_in r ms @ [system_message RESUME_PROMPT]"
  using outward_done_moves[OF assms(1-4), of u json_of f32_json] last_logged_run_moves[OF assms(1,2,5), of f32_json]
    replay_sent[OF assms(1-4), of f32_json]
  by (auto simp: resume_with_def split: option.split)

section \<open>The plan comes back\<close>

lemma find_append_none: "\<forall>x \<in> set xs. \<not> P x \<Longrightarrow> List.find P (xs @ ys) = List.find P ys"
  by (induction xs) auto

lemma kind_moves [simp]: "kind_of_message m \<noteq> PLAN_KIND"
  using kinds_of_message[of m] by (auto simp: PLAN_KIND_def)

lemma no_plan_kinds [simp]:
  "DECISION_KIND \<noteq> PLAN_KIND" "COMMAND_KIND \<noteq> PLAN_KIND" "COMPACTION_KIND \<noteq> PLAN_KIND" "REWOUND_KIND \<noteq> PLAN_KIND"
  "''prompt'' \<noteq> PLAN_KIND" "''steer'' \<noteq> PLAN_KIND" "''stop'' \<noteq> PLAN_KIND"
  by (simp_all add: PLAN_KIND_def DECISION_KIND_def COMMAND_KIND_def COMPACTION_KIND_def REWOUND_KIND_def)

lemma plan_move_only: "move_kind mv = PLAN_KIND \<Longrightarrow> \<exists>l p. mv = RunPlan l p"
  by (cases mv) simp_all

lemma plan_kind_only: "kept_row fj mv e \<Longrightarrow> se_kind e = PLAN_KIND \<Longrightarrow> \<exists>l p. mv = RunPlan l p"
  by (rule plan_move_only) (simp add: kept_row_def)

lemma last_plan_moves:
  assumes "hy_readable h" "hy_writable h" "plan_ok_json fj jf p"
    and "\<forall>(mv, t) \<in> set later. \<forall>l' p'. mv = RunPlan l' p' \<longrightarrow> sl_conversation l' \<noteq> sl_conversation l"
  shows "last_plan jf (do_moves fj (ms @ (RunPlan l p, t) # later) h) (sl_conversation l) = Some p"
proof -
  let ?c = "sl_conversation l" and ?h = "do_moves fj ms h"
  obtain es where s: "session_events (do_moves fj ((RunPlan l p, t) # later) ?h) ?c = Inr (sort_key se_seq (events_of ?h ?c) @ es)"
    and k: "list_all2 (kept_row fj) (filter (\<lambda>mv. move_conv mv = ?c) (map fst ((RunPlan l p, t) # later))) es"
    using sorted_events_moves[of ?h fj "(RunPlan l p, t) # later" ?c] assms(1,2) do_moves_flags by metis
  from k obtain e es' where e: "es = e # es'" "kept_row fj (RunPlan l p) e"
      "list_all2 (kept_row fj) (filter (\<lambda>mv. move_conv mv = ?c) (map fst later)) es'"
    by (auto simp: list_all2_Cons1)
  have "se_kind x \<noteq> PLAN_KIND" if x: "x \<in> set es'" for x
  proof
    assume kind: "se_kind x = PLAN_KIND"
    from x obtain i where i: "i < length es'" "x = es' ! i" by (metis in_set_conv_nth)
    let ?ms = "filter (\<lambda>mv. move_conv mv = ?c) (map fst later)"
    have li: "i < length ?ms" using e(3) i(1) by (metis list_all2_lengthD)
    have "kept_row fj (?ms ! i) x" using list_all2_nthD[OF e(3) li] i(2) by simp
    then obtain l' p' where m: "?ms ! i = RunPlan l' p'" using plan_kind_only kind by blast
    obtain t' where mem: "(RunPlan l' p', t') \<in> set later" "sl_conversation l' = ?c" using nth_mem[OF li] m by auto
    from bspec[OF assms(4) mem(1)] mem(2) show False by simp
  qed
  then have "List.find (\<lambda>e. se_kind e = PLAN_KIND) (rev (sort_key se_seq (events_of ?h ?c) @ es)) = Some e"
    using e(1,2) by (simp add: find_append_none kept_row_def)
  moreover have "do_moves fj (ms @ (RunPlan l p, t) # later) h = do_moves fj ((RunPlan l p, t) # later) ?h"
    by (simp only: do_moves_append)
  ultimately show ?thesis using s e(2) plan_back[OF assms(3)]
    by (simp add: last_plan_def rows_or_none_def kept_row_def)
qed

lemma find_same: "map_option f (List.find (\<lambda>x. P (f x)) xs) = List.find P (map f xs)"
  by (induction xs) auto

lemma find_plan_same:
  assumes "map (\<lambda>e. (se_kind e, se_payload e)) xs = map (\<lambda>e. (se_kind e, se_payload e)) ys"
  shows "Option.bind (List.find (\<lambda>e. se_kind e = PLAN_KIND) (rev xs)) (\<lambda>e. plan_of_json jf (se_payload e))
       = Option.bind (List.find (\<lambda>e. se_kind e = PLAN_KIND) (rev ys)) (\<lambda>e. plan_of_json jf (se_payload e))"
proof -
  have found: "map_option (\<lambda>e. (se_kind e, se_payload e)) (List.find (\<lambda>e. se_kind e = PLAN_KIND) (rev zs))
      = List.find (\<lambda>(k, _). k = PLAN_KIND) (rev (map (\<lambda>e. (se_kind e, se_payload e)) zs))" for zs
    using find_same[of "\<lambda>e. (se_kind e, se_payload e)" "\<lambda>(k, _). k = PLAN_KIND" "rev zs"] by (simp add: rev_map)
  have "map_option (\<lambda>e. (se_kind e, se_payload e)) (List.find (\<lambda>e. se_kind e = PLAN_KIND) (rev xs))
      = map_option (\<lambda>e. (se_kind e, se_payload e)) (List.find (\<lambda>e. se_kind e = PLAN_KIND) (rev ys))"
    by (simp only: found assms)
  then show ?thesis
    by (cases "List.find (\<lambda>e. se_kind e = PLAN_KIND) (rev xs)"; cases "List.find (\<lambda>e. se_kind e = PLAN_KIND) (rev ys)") auto
qed

text \<open>C33: The plan a run wrote last is the plan a resume is handed, item for item with its ticks, whatever
  else was logged after it, and a branch that takes the whole log has it too.\<close>
theorem plan_comes_back:
  assumes "hy_readable h" and "hy_writable h" and "plan_ok_json f32_json json_f32 p"
    and "\<forall>(mv, t) \<in> set later. \<forall>l' p'. mv = RunPlan l' p' \<longrightarrow> sl_conversation l' \<noteq> sl_conversation l"
    and "h' = do_moves f32_json (ms @ (RunPlan l p, t) # later) h"
  shows "last_plan json_f32 h' (sl_conversation l) = Some p
    \<and> (events_of h' branch = [] \<and> (\<forall>e \<in> set (events_of h' (sl_conversation l)). se_seq e \<le> last_seq)
        \<longrightarrow> (\<exists>h2. fork_session_events h' (sl_conversation l) branch last_seq = Inr h2
              \<and> last_plan json_f32 h2 branch = Some p))"
proof -
  let ?c = "sl_conversation l"
  have here: "last_plan json_f32 h' ?c = Some p" using last_plan_moves[OF assms(1-4)] assms(5) by simp
  have ok: "hy_readable h'" "hy_writable h'" using assms(1,2,5) by simp_all
  have "\<exists>h2. fork_session_events h' ?c branch last_seq = Inr h2 \<and> last_plan json_f32 h2 branch = Some p"
    if b: "events_of h' branch = []" and upto: "\<forall>e \<in> set (events_of h' ?c). se_seq e \<le> last_seq"
  proof -
    define rows where "rows = sort_key se_seq (events_of h' ?c)"
    define copy where "copy = map (\<lambda>(n, e). e\<lparr>se_conversation := branch, se_seq := int n + 1\<rparr>) (enumerated rows)"
    define h2 where "h2 = h'\<lparr>hy_events := hy_events h' @ copy\<rparr>"
    have f: "fork_session_events h' ?c branch last_seq = Inr h2"
      using ok upto by (simp add: fork_session_events_def filter_id_conv h2_def copy_def rows_def)
    have places: "\<forall>e \<in> set copy. se_conversation e = branch" by (auto simp: copy_def)
    have copy: "events_of h2 branch = copy"
      using b places by (simp add: h2_def events_of_def filter_id_conv)
    have grow: "sort_key se_seq copy = copy"
      by (rule sort_key_id_if_sorted) (simp add: sorted_iff_nth_mono copy_def)
    have same: "map (\<lambda>e. (se_kind e, se_payload e)) copy = map (\<lambda>e. (se_kind e, se_payload e)) rows"
      by (rule nth_equalityI) (simp_all add: copy_def)
    have "hy_readable h2" using ok by (simp add: h2_def hy_readable_def)
    then have ev: "session_events h2 branch = Inr copy" "session_events h' ?c = Inr rows"
      using ok by (simp_all add: session_events_def copy grow rows_def)
    have "last_plan json_f32 h2 branch = last_plan json_f32 h' ?c"
      unfolding last_plan_def rows_or_none_def ev sum.case by (rule find_plan_same[OF same])
    then have "last_plan json_f32 h2 branch = Some p" by (simp only: here)
    with f show ?thesis by (intro exI[of _ h2] conjI)
  qed
  then show ?thesis using here by blast
qed

section \<open>Branches are read twice\<close>

text \<open>A branch copies the rows with the id of their run, and replay asks for the rows of the run
  alone.\<close>

definition empty_history :: history where
  "empty_history = \<lparr>hy_files = work_files [], hy_chats = [], hy_messages = [], hy_attachments = [], hy_events = []\<rparr>"

definition log_c :: session_log where "log_c = \<lparr>sl_conversation = ''c'', sl_run = ''r''\<rparr>"

definition says :: "string \<Rightarrow> string \<Rightarrow> json" where
  "says role content = JObject [(''role'', JString role), (''content'', JString content)]"

definition mail_call :: json where
  "mail_call = JObject [(''role'', JString ''assistant''), (''tool_calls'', JArray [JObject [(''id'', JString ''x''),
     (''function'', JObject [(''name'', JString ''send_mail'')])]])]"

definition mail_result :: "string \<Rightarrow> json" where
  "mail_result content = JObject [(''role'', JString ''tool''), (''tool_call_id'', JString ''x''), (''content'', JString content)]"

definition mail_moves :: "string \<Rightarrow> (log_move \<times> int) list" where
  "mail_moves content = [(RunPrompt log_c [says ''user'' ''write to Ada''], 1), (RunAppended log_c mail_call, 2),
     (RunSteered log_c ''quickly'', 3), (RunAppended log_c (mail_result content), 4)]"

lemma empty_history_facts:
  "hy_readable empty_history" "hy_writable empty_history" "run_rows empty_history r = []" "hy_events empty_history = []"
  by (simp_all add: empty_history_def hy_readable_def hy_writable_def run_rows_def work_files_def empty_db_def)

lemma mail_moves_place: "\<forall>(mv, t) \<in> set (mail_moves content). move_run mv = Some ''r'' \<longrightarrow> move_conv mv = ''c''"
  by (simp add: mail_moves_def log_c_def)

lemma mail_facts:
  "appended_in ''r'' (mail_moves content) = [mail_call, mail_result content]"
  "sent_in ''r'' (mail_moves content) = [says ''user'' ''write to Ada'', mail_call, mail_result content]"
  "last_run_in ''c'' (mail_moves content) = Some ''r''"
  by (simp_all add: appended_in_def sent_in_def last_run_in_def mail_moves_def log_c_def)

lemma mail_goes_out:
  "went_out u json_of [mail_call, mail_result content] \<longleftrightarrow> \<not> failed_text content"
proof -
  have c: "message_calls json_of mail_call = [(''x'', ''send_mail'', case json_of ''{}'' of None \<Rightarrow> JNull | Some a \<Rightarrow> a)]"
    "message_calls json_of (mail_result content) = []"
    by (simp_all add: message_calls_def mail_call_def mail_result_def kind_of_message_def json_get_def str_at_def list_at_def
        json_array_def call_of_def under_def or_str_def)
  have "well_done [mail_call, mail_result content] ''x'' \<longleftrightarrow> \<not> failed_text content"
    by (simp add: well_done_result[symmetric] result_map_def List.map_filter_def message_result_def mail_call_def mail_result_def
        kind_of_message_def json_get_def str_at_def says_error_def or_str_def)
  then show ?thesis by (simp add: went_out_def c outward_of_def)
qed

text \<open>The same writes, with a branch of the conversation before the run began and one of another.\<close>

definition mail_steps :: "string \<Rightarrow> log_step list" where
  "mail_steps content = [Branched ''c'' ''e'' 0] @ map (\<lambda>(mv, t). Wrote mv t) (mail_moves content) @ [Branched ''x'' ''c'' 9]"

theorem replay_gives_what_was_sent_witness:
  "replay (do_steps (\<lambda>_. JNull) (mail_steps ''ok'') empty_history) ''r'' = [says ''user'' ''write to Ada'', mail_call, mail_result ''ok'']"
proof -
  have w: "writes_in (mail_steps ''ok'') = mail_moves ''ok''"
    by (simp add: mail_steps_def mail_moves_def writes_in_def map_filter_simps)
  have u: "uncopied (\<lambda>_. JNull) ''r'' (mail_steps ''ok'') empty_history"
    by code_simp
  show ?thesis
    using replay_gives_what_was_sent[OF empty_history_facts(1-3) _ u] mail_moves_place[of "''ok''"] by (simp add: w mail_facts)
qed

theorem resume_never_repeats_a_send_witness:
  "(\<nexists>msgs. resume_with ascii_only (\<lambda>_. None) (do_moves (\<lambda>_. JNull) (mail_moves ''sent'') empty_history) ''c'' = Inr msgs)
   \<and> resume_with ascii_only (\<lambda>_. None) (do_moves (\<lambda>_. JNull) (mail_moves ''Error: offline'') empty_history) ''c''
      = Inr [says ''user'' ''write to Ada'', mail_call, mail_result ''Error: offline'', system_message RESUME_PROMPT]"
proof -
  have f: "\<not> failed_text ''sent''" "failed_text ''Error: offline''"
    by code_simp+
  show ?thesis
    by (simp add: resume_never_repeats_a_send[OF empty_history_facts(1-3) mail_moves_place mail_facts(3)] mail_facts mail_goes_out f)
qed

definition one_item :: plan where
  "one_item = \<lparr>plan_items = [\<lparr>item_text = ''look'', item_status = PlanDone, item_why = None, item_added = False,
     item_judged = Some 7, item_decision = Some ''d1''\<rparr>], plan_revisions = 2, plan_previous = [[''read'']], awaiting_approval = False\<rparr>"

text \<open>An exact codec of the bits, for the witness.\<close>

definition bits_json :: "u32 \<Rightarrow> json" where "bits_json b = JInt (uint b)"
definition json_bits :: "json \<Rightarrow> u32 option" where
  "json_bits v = (case v of JInt i \<Rightarrow> Some (word_of_int i) | _ \<Rightarrow> None)"

theorem plan_comes_back_witness:
  "last_plan json_bits (do_moves bits_json ([] @ (RunPlan log_c one_item, 5) # [(RunStopped log_c ''timeout'' 3, 6)]) empty_history) ''c''
     = Some one_item"
proof -
  have "plan_ok_json bits_json json_bits one_item"
    by (simp add: plan_ok_json_def one_item_def bits_json_def json_bits_def)
  from plan_comes_back[OF empty_history_facts(1,2) this, of "[(RunStopped log_c ''timeout'' 3, 6)]" log_c _ "[]" 5, OF _ refl, THEN conjunct1]
  show ?thesis by (simp add: log_c_def)
qed

lemmas log_eval = mail_moves_def do_move_is log_write_def append_session_event_def events_of_def max_seq_def
  empty_history_def hy_readable_def hy_writable_def work_files_def empty_db_def log_c_def fork_session_events_def

lemma mail_rows:
  "hy_events (do_moves (\<lambda>_. JNull) (mail_moves ''ok'') empty_history) =
     map (\<lambda>(n, k, p). \<lparr>se_conversation = ''c'', se_run = Some ''r'', se_seq = n, se_kind = k, se_payload = p, se_created_at = n\<rparr>)
       [(1, ''prompt'', JArray [says ''user'' ''write to Ada'']), (2, ''tool_call'', mail_call),
        (3, ''steer'', JObject [(''text'', JString ''quickly'')]), (4, ''tool_result'', mail_result ''ok'')]"
  by (simp add: log_eval kind_of_message_def mail_call_def mail_result_def json_get_def str_at_def)

theorem branch_replays_twice:
  "\<exists>h2. fork_session_events (do_moves (\<lambda>_. JNull) (mail_moves ''ok'') empty_history) ''c'' ''d'' 4 = Inr h2
     \<and> replay h2 ''r'' = [says ''user'' ''write to Ada'', says ''user'' ''write to Ada'', mail_call, mail_call,
                          mail_result ''ok'', mail_result ''ok'']"
proof -
  have ok: "hy_readable (do_moves (\<lambda>_. JNull) (mail_moves ''ok'') empty_history)"
    "hy_writable (do_moves (\<lambda>_. JNull) (mail_moves ''ok'') empty_history)" by (simp_all add: empty_history_facts)
  then have db: "db_readable (fl_db (hy_files (do_moves (\<lambda>_. JNull) (mail_moves ''ok'') empty_history)))"
    by (simp add: hy_readable_def)
  have k: "\<not> skipped_kind ''tool_call''" "\<not> skipped_kind ''tool_result''"
    using message_not_skipped[of mail_call] message_not_skipped[of "mail_result ''ok''"]
    by (simp_all add: kind_of_message_def mail_call_def mail_result_def json_get_def str_at_def)
  have m: "row_messages e = [mail_call]" if "se_kind e = ''tool_call''" "se_payload e = mail_call" for e
    using that k by (simp add: row_messages_def mail_call_def)
  have n: "row_messages e = [mail_result ''ok'']" if "se_kind e = ''tool_result''" "se_payload e = mail_result ''ok''" for e
    using that k by (simp add: row_messages_def mail_result_def)
  have p: "row_messages e = xs" if "se_kind e = ''prompt''" "se_payload e = JArray xs" for e xs
    using that by (simp add: row_messages_def)
  have q: "row_messages e = []" if "se_kind e = ''steer''" for e
    using that by (simp add: row_messages_def)
  show ?thesis
    by (simp add: fork_session_events_def ok db events_of_def mail_rows replay_def session_events_for_run_def run_rows_def
        hy_readable_def rows_or_none_def m n p q empty_history_facts(2))
qed

end
