(* ===== verification/Context_Prompt.thy ===== *)
theory Context_Prompt imports Plan Complex_Main begin

text \<open>
  Prompt assembly (\<open>agent/context.rs\<close>): the estimate of tokens, which earlier turns fit, the blocks
  of the system prompt and the briefs put in front of a transcript.  A text is its bytes; JavaScript's
  length is counted in units of UTF-16, of which a character of four bytes has two.  Parsing stored JSON
  is an argument.
\<close>

section \<open>Lengths\<close>

definition char_units :: "string \<Rightarrow> nat" where
  "char_units c = (if 4 \<le> length c then 2 else 1)"

definition utf16_len :: "string \<Rightarrow> nat" where
  "utf16_len s = sum_list (map char_units (utf8_chars s))"

definition estimate_tokens :: "string \<Rightarrow> nat" where
  "estimate_tokens s = (utf16_len s + 3) div 4"

definition char_len :: "string \<Rightarrow> nat" where "char_len s = utf16_len s"

text \<open>The characters of the first units; \<open>None\<close> when the cut goes through a pair.\<close>

fun first_units :: "nat \<Rightarrow> string list \<Rightarrow> string option" where
  "first_units 0 cs = Some []"
| "first_units n [] = Some []"
| "first_units n (c # cs) = (if n < char_units c then None else map_option (\<lambda>r. c @ r) (first_units (n - char_units c) cs))"

definition take_chars :: "string \<Rightarrow> nat \<Rightarrow> string" where
  "take_chars s n =
     (if char_len s \<le> n then s
      else case first_units n (utf8_chars s) of Some p \<Rightarrow> p | None \<Rightarrow> s)"

definition clip_units :: "string \<Rightarrow> nat \<Rightarrow> string" where
  "clip_units s cap = (if cap < char_len s then take_chars s cap @ ellipsis else s)"

section \<open>Which turns fit\<close>

definition IMAGE_TOKEN_COST :: nat where "IMAGE_TOKEN_COST = 800"
definition KEEP_RECENT :: nat where "KEEP_RECENT = 6"
definition KEEP_RECENT_WORKSPACE :: nat where "KEEP_RECENT_WORKSPACE = 3"

definition part_tokens :: "json \<Rightarrow> nat" where
  "part_tokens p =
     (if Option.bind (json_get p ''type'') json_str = Some ''text''
      then estimate_tokens (case Option.bind (json_get p ''text'') json_str of Some t \<Rightarrow> t | None \<Rightarrow> [])
      else IMAGE_TOKEN_COST)"

definition turn_tokens :: "json \<Rightarrow> nat" where
  "turn_tokens turn =
     (case json_get turn ''content'' of
        Some (JString s) \<Rightarrow> estimate_tokens s
      | Some (JArray parts) \<Rightarrow> sum_list (map part_tokens parts)
      | _ \<Rightarrow> 0)"

record budgeted =
  bt_turns :: "json list"
  bt_overflow :: nat
  bt_used_tokens :: nat
  bt_budget :: nat
  bt_needs_compaction :: bool

text \<open>\<open>RESPONSE_RESERVE\<close> of a quarter leaves three quarters.  The code compares as \<open>f64\<close>, which is
  exact for counts below \<open>2 ^ 51\<close>.\<close>

definition over_ceiling :: "nat \<Rightarrow> nat \<Rightarrow> bool" where
  "over_ceiling budget n \<longleftrightarrow> 3 * budget < 4 * n"

text \<open>The loop over the earlier turns, newest first: \<open>kept\<close> is how many are in.\<close>

fun keep_turns :: "nat \<Rightarrow> nat \<Rightarrow> nat \<Rightarrow> json list \<Rightarrow> nat \<Rightarrow> json list \<Rightarrow> nat \<Rightarrow> json list \<times> nat" where
  "keep_turns budget fixed recent [] seen kept acc = (kept, acc)"
| "keep_turns budget fixed recent (turn # older) seen kept acc =
     (if \<not> seen + 1 \<le> recent \<and> over_ceiling budget (fixed + acc + turn_tokens turn) then (kept, acc)
      else keep_turns budget fixed recent older (seen + 1) (turn # kept) (acc + turn_tokens turn))"

definition budget_turns :: "string \<Rightarrow> json list \<Rightarrow> json \<Rightarrow> nat \<Rightarrow> nat \<Rightarrow> budgeted" where
  "budget_turns system prior current budget keep_recent =
     (let fixed = estimate_tokens system + turn_tokens current;
          (kept, acc) = keep_turns budget fixed keep_recent (rev prior) 0 [] 0;
          overflow = length prior - length kept
      in \<lparr>bt_turns = [system_message system] @ kept @ [current], bt_overflow = overflow,
          bt_used_tokens = fixed + acc, bt_budget = budget, bt_needs_compaction = 0 < overflow\<rparr>)"

definition with_summary :: "string \<Rightarrow> string \<Rightarrow> string" where
  "with_summary system summary =
     (if trim summary = [] then system
      else system @ newline @ newline @ ''## Conversation so far (older turns were summarized)'' @ newline @ trim summary)"

section \<open>The blocks of the system prompt\<close>

record skill_entry =
  sk_name :: string
  sk_description :: string
  sk_when_to_use :: "string option"
  sk_model_invocable :: bool

record surface_view =
  sv_data_json :: string
  sv_state_json :: "string option"

record health_entry =
  he_tool_name :: string
  he_ok :: int
  he_total :: int

text \<open>What reached the turn besides the prompt (\<open>context_refs\<close>, \<open>recalled_matches\<close>) is left out.\<close>

record prompt_inputs =
  pi_base :: string
  pi_about_you :: "string option"
  pi_soul :: "string option"
  pi_project_name :: "string option"
  pi_project_instructions :: "string option"
  pi_memory_index :: "string option"
  pi_fact_count :: nat
  pi_tools_enabled :: bool
  pi_memory_enabled :: bool
  pi_skills :: "skill_entry list"
  pi_workspace :: bool
  pi_surface :: "surface_view option"
  pi_session_state_json :: "string option"
  pi_tool_health :: "health_entry list"
  pi_plan_mode :: plan_mode
  pi_spoken :: bool

definition SKILL_ENTRY_CAP :: nat where "SKILL_ENTRY_CAP = 1536"
definition SKILLS_BLOCK_CAP :: nat where "SKILLS_BLOCK_CAP = 4000"
definition PROJECT_INSTRUCTIONS_CAP :: nat where "PROJECT_INSTRUCTIONS_CAP = 4000"

definition SPOKEN_GUIDANCE :: string where
  "SPOKEN_GUIDANCE =
     ''The user is talking to you by voice and will hear your reply spoken aloud. Answer ''
     @ ''in short spoken sentences. Do not use markdown, lists, tables or code in the reply; ''
     @ ''if something needs to be on screen, put it in an artifact and say so in one short '' @ ''sentence.''"

definition NO_TOOLS_GUIDANCE :: string where
  "NO_TOOLS_GUIDANCE =
     ''## No tools in this chat'' @ newline
     @ ''You cannot search the web, open files or save notes here, and you have no live ''
     @ ''data. Never write out a tool call or say you are looking something up. If the user ''
     @ ''asks for something current, like the weather, news or prices, say you cannot check ''
     @ ''it in this chat, and give only what you know, saying it may be out of date.''"

definition HEDGE_NOTE :: string where
  "HEDGE_NOTE =
     '' A note marked [unsure] or [contested] may be wrong: say so, and give its date, ''
     @ ''when you rely on it.''"

definition SURFACE_GUIDANCE :: string where
  "SURFACE_GUIDANCE =
     ''## Composing the workspace'' @ newline
     @ ''The Workspace view renders whatever interface tree you pass to `render_ui` '' @ em_dash
     @ '' compose a real interface for the task (a dashboard, a board, a picker, a wizard, a ''
     @ ''tracker) instead of describing things in prose.'' @ newline
     @ ''Keep the surface CURRENT: as the task evolves, revise it (render_ui with node_id ''
     @ ''for one region, or re-render the whole tree) rather than accumulating chat.'' @ newline
     @ ''When a `ui_action` message arrives, it carries the user's bound state '' @ em_dash
     @ '' revise the surface to reflect the interaction and reply in at most one sentence.'' @ newline
     @ ''If the user asks how you are, what you remember, or what you've learned, you may ''
     @ ''render your notes and lessons as a workspace surface.''"

definition PLAN_FIRST_GUIDANCE :: string where
  "PLAN_FIRST_GUIDANCE =
     ''## Working through a task'' @ newline
     @ ''For multi-step tasks, state a one-line plan before your first tool call.''"

definition DEFAULT_SYSTEM_PROMPT :: string where
  "DEFAULT_SYSTEM_PROMPT =
     ''You are Poiesis Agent, a local-first assistant that maintains itself: you keep ''
     @ ''durable memory, learn lessons from your own mistakes, and propose '' @ em_dash @ '' never impose ''
     @ em_dash @ '' changes to how you work. Be concise and clear.''"

definition SYSTEM_PROMPT_KEY :: string where "SYSTEM_PROMPT_KEY = ''system_prompt''"

text \<open>The base prompt: the persona's, or the setting of the user; an empty one is the default.\<close>

definition prompt_base :: "db \<Rightarrow> string option \<Rightarrow> string" where
  "prompt_base d persona =
     (case (case persona of Some p \<Rightarrow> Some p | None \<Rightarrow> get_setting d SYSTEM_PROMPT_KEY) of
        None \<Rightarrow> DEFAULT_SYSTEM_PROMPT
      | Some s \<Rightarrow> if s = [] then DEFAULT_SYSTEM_PROMPT else s)"

definition or_none :: "string option \<Rightarrow> string" where
  "or_none t = (case t of None \<Rightarrow> [] | Some s \<Rightarrow> s)"

definition about_you_block :: "string option \<Rightarrow> string" where
  "about_you_block text =
     (let t = trim (or_none text) in
      if t = [] then []
      else ''## About you, as I understand it (apply it; don't mention it unless asked; the ''
             @ ''persona/system prompt above always wins if they conflict)'' @ newline @ t)"

definition soul_block :: "string option \<Rightarrow> string" where
  "soul_block soul =
     (let s = trim (or_none soul) in
      if s = [] then []
      else ''## Standing instructions (SOUL.md '' @ em_dash
             @ '' the user approved these; they take precedence over the persona/system prompt above ''
             @ ''when the two conflict)'' @ newline @ s)"

definition project_block :: "string option \<Rightarrow> string option \<Rightarrow> string" where
  "project_block name instructions =
     (case (name, instructions) of
        (Some n, Some t) \<Rightarrow>
          (if trim n = [] \<or> trim t = [] then []
           else ''## Project: '' @ trim n @
             '' (instructions for this project; the persona/system prompt above still governs voice, '' @
             ''format and depth)'' @ newline @ clip_units (trim t) PROJECT_INSTRUCTIONS_CAP)
      | _ \<Rightarrow> [])"

definition has_hedge_marker :: "string \<Rightarrow> bool" where
  "has_hedge_marker index \<longleftrightarrow> str_contains index '' [unsure, noted '' \<or> str_contains index '' [contested, noted ''"

definition memory_index_block :: "string option \<Rightarrow> bool \<Rightarrow> string" where
  "memory_index_block index tools_enabled =
     (let i = trim (or_none index);
          read = (if tools_enabled
                  then ''Read a note's full text with memory(op:'' @ [CHR 34] @ ''read'' @ [CHR 34] @ '', name:'' @ ellipsis
                       @ '') before relying on its details.''
                  else ''Only these descriptions are available in this chat, not the full notes.'');
          hedge = (if has_hedge_marker i then HEDGE_NOTE else [])
      in if i = [] then []
         else ''## Your notes about the user (durable facts)'' @ newline @ i @ newline @ ''('' @ read @ hedge @ '')'')"

text \<open>Stored JSON, but only an object with a key; the text is passed on, not the value.\<close>

definition non_empty_object :: "(string \<Rightarrow> json option) \<Rightarrow> string option \<Rightarrow> string option" where
  "non_empty_object json_of text =
     Option.bind text (\<lambda>t.
       case json_of (trim t) of
         Some (JObject fs) \<Rightarrow> if fs = [] then None else Some (trim t)
       | _ \<Rightarrow> None)"

definition session_state_block :: "(string \<Rightarrow> json option) \<Rightarrow> string option \<Rightarrow> bool \<Rightarrow> string" where
  "session_state_block json_of state tools_enabled =
     (case non_empty_object json_of state of
        None \<Rightarrow> []
      | Some t \<Rightarrow> ''## Session state (durable'' @ (if tools_enabled then ''; update with the remember tool'' else [])
                  @ '')'' @ newline @ t)"

definition plan_guidance :: "plan_mode \<Rightarrow> string" where
  "plan_guidance mode =
     (case mode of
        ModeAlways \<Rightarrow>
          ''Before your first tool call, write the plan with the `plan` tool, then keep it up ''
          @ ''to date as you work.''
      | ModeAuto \<Rightarrow>
          ''When a request has several distinct parts, or will take more than a few steps, ''
          @ ''write a short plan with the `plan` tool before you start and keep it up to date as ''
          @ ''you work; otherwise just do the work.''
      | ModeNever \<Rightarrow> [])"

definition tool_guidance_block :: "plan_mode \<Rightarrow> bool \<Rightarrow> string" where
  "tool_guidance_block mode in_workspace =
     (if in_workspace then SURFACE_GUIDANCE @ newline @ newline else []) @ PLAN_FIRST_GUIDANCE
     @ (if plan_guidance mode = [] then [] else newline @ plan_guidance mode)"

definition REMEMBERING :: "string list" where
  "REMEMBERING =
     [''## Remembering'',
      ''You keep durable notes about the user across conversations with the `memory` tool. ''
       @ ''When the user says something that will still be true next week and would change how ''
       @ ''you answer later, call memory(op:'' @ [CHR 34] @ ''save'' @ [CHR 34] @ '') in the same turn ''
       @ em_dash @ '' do not wait to be asked, and do not announce it at length; the save shows up in ''
       @ ''their timeline on its own.'',
      ''Worth saving: how they want you to work (tone, length, format, language), ''
       @ ''tools/stacks/services they use, what they're building and why, stable personal or ''
       @ ''professional facts, standing decisions they've made.'',
      ''Never save: task state, one-off requests, anything you inferred rather than heard, ''
       @ ''or anything they haven't actually confirmed. When in doubt, don't.'',
      ''One fact per save, in their own terms, with a slug you would search for later.'']"

definition memory_guidance_block :: "bool \<Rightarrow> string" where
  "memory_guidance_block has_facts =
     join_with newline (REMEMBERING @
       (if has_facts then []
        else [''You have not saved anything about this user yet, so the bar for the first few notes ''
       @ ''is simply: would knowing this next month make you better here? If so, save it.'']))"

section \<open>Skills, cautions, the surface\<close>

definition skill_text :: "skill_entry \<Rightarrow> string" where
  "skill_text s =
     (case sk_when_to_use s of
        None \<Rightarrow> sk_description s
      | Some w \<Rightarrow>
          if w = [] then sk_description s
          else if sk_description s \<noteq> [] then sk_description s @ '' '' @ em_dash @ '' '' @ w
          else w)"

definition skill_line :: "skill_entry \<Rightarrow> string" where
  "skill_line s = ''- '' @ sk_name s @ '': '' @ clip_units (skill_text s) SKILL_ENTRY_CAP"

definition SKILLS_HEADER :: string where
  "SKILLS_HEADER = ''Skills available (read one with the `skill` tool before doing the work it covers):''"

text \<open>The lines that fit, from the first on.\<close>

fun skill_lines :: "skill_entry list \<Rightarrow> nat \<Rightarrow> string list" where
  "skill_lines [] used = []"
| "skill_lines (s # rest) used =
     (if SKILLS_BLOCK_CAP < used + char_len (skill_line s) + 1 then []
      else skill_line s # skill_lines rest (used + char_len (skill_line s) + 1))"

definition skills_block :: "skill_entry list \<Rightarrow> string" where
  "skills_block all =
     (let skills = filter sk_model_invocable all;
          lines = skill_lines skills (char_len SKILLS_HEADER);
          remaining = length skills - length lines
      in if skills = [] then []
         else join_with newline ([SKILLS_HEADER] @ lines
                @ (if 0 < remaining then [''(+'' @ show_nat remaining @ '' more)''] else [])))"

text \<open>The ratio of good calls, of which the code compares the nearest \<open>f64\<close>; that agrees with the
  fractions for counts below \<open>2 ^ 26\<close>.\<close>

definition health_ratio :: "health_entry \<Rightarrow> rat" where
  "health_ratio t = Fract (he_ok t) (he_total t)"

definition tool_cautions :: "health_entry list \<Rightarrow> string" where
  "tool_cautions health =
     (let failing = sort_key health_ratio (filter (\<lambda>t. 8 \<le> he_total t \<and> health_ratio t < Fract 2 5) health)
      in join_with newline (map (\<lambda>t. ''Note: your '' @ [CHR 34] @ he_tool_name t @ [CHR 34]
           @ '' tool has failed often recently '' @ em_dash @ '' double-check its arguments, and prefer an alternative ''
           @ ''when one exists.'') (take 2 failing)))"

definition surface_context :: "(string \<Rightarrow> json option) \<Rightarrow> surface_view option \<Rightarrow> string" where
  "surface_context json_of surface =
     (case surface of
        None \<Rightarrow> []
      | Some v \<Rightarrow>
          (let tree = (if 4000 < char_len (sv_data_json v)
                       then take_chars (sv_data_json v) 4000 @ ellipsis @ ''(truncated '' @ em_dash
                            @ '' re-render regions you need to change)''
                       else sv_data_json v);
               bound = (case non_empty_object json_of (sv_state_json v) of
                          Some st \<Rightarrow> newline @ ''User's bound state (from inputs/choices/toggles): '' @ st
                        | None \<Rightarrow> [])
           in ''## Workspace surface (the live interface you composed with render_ui)'' @ newline
              @ ''Current tree: '' @ tree @ bound))"

section \<open>The system prompt\<close>

text \<open>The blocks in their order; an empty one leaves no gap.\<close>

definition prompt_blocks :: "(string \<Rightarrow> json option) \<Rightarrow> prompt_inputs \<Rightarrow> string list" where
  "prompt_blocks json_of inp =
     [about_you_block (pi_about_you inp), soul_block (pi_soul inp),
      project_block (pi_project_name inp) (pi_project_instructions inp),
      memory_index_block (pi_memory_index inp) (pi_tools_enabled inp)]
   @ (if pi_tools_enabled inp
      then [skills_block (pi_skills inp)] @ (if pi_workspace inp then [surface_context json_of (pi_surface inp)] else [])
      else [])
   @ [session_state_block json_of (pi_session_state_json inp) (pi_tools_enabled inp)]
   @ (if pi_tools_enabled inp then [] else [NO_TOOLS_GUIDANCE])
   @ (if pi_tools_enabled inp
      then [tool_guidance_block (pi_plan_mode inp) (pi_workspace inp)]
         @ (if pi_memory_enabled inp then [memory_guidance_block (0 < pi_fact_count inp)] else [])
         @ [tool_cautions (pi_tool_health inp)]
      else [])
   @ (if pi_spoken inp then [SPOKEN_GUIDANCE] else [])"

definition push_block :: "string \<Rightarrow> string \<Rightarrow> string" where
  "push_block out block = (if block = [] then out else out @ newline @ newline @ block)"

definition compose_system_prompt :: "(string \<Rightarrow> json option) \<Rightarrow> prompt_inputs \<Rightarrow> string" where
  "compose_system_prompt json_of inp = foldl push_block (pi_base inp) (prompt_blocks json_of inp)"

section \<open>Briefs\<close>

definition is_system :: "json \<Rightarrow> bool" where
  "is_system m \<longleftrightarrow> json_get m ''role'' = Some (JString ''system'')"

definition insert_brief :: "json list \<Rightarrow> string \<Rightarrow> json list" where
  "insert_brief msgs brief =
     takeWhile is_system msgs @ [system_message brief] @ dropWhile is_system msgs"

text \<open>The folder brief, the project brief and the artifacts brief, where each has something to say.\<close>

definition insert_briefs :: "bool \<Rightarrow> bool \<Rightarrow> bool \<Rightarrow> string option \<Rightarrow> string option \<Rightarrow> string option \<Rightarrow> json list \<Rightarrow> json list" where
  "insert_briefs tools_enabled file_access artifacts folder project arts msgs =
     (if \<not> tools_enabled then msgs
      else foldl insert_brief msgs
        (List.map_filter id [if file_access then folder else None, if file_access then project else None,
                             if artifacts then arts else None]))"

end
