(* ===== verification/Context_Budget.thy ===== *)
theory Context_Budget imports Context_Prompt begin

text \<open>
  What the assembly of the prompt promises (\<open>agent/context.rs\<close>): which turns are kept, how long
  clipped texts and the list of skills are, where briefs land.
\<close>

section \<open>Characters\<close>

definition starts_char :: "string \<Rightarrow> bool" where
  "starts_char s \<longleftrightarrow> s = [] \<or> is_char_start (hd s)"

lemma utf8_rest_append: "starts_char b \<Longrightarrow> utf8_rest (a @ b) = (fst (utf8_rest a), snd (utf8_rest a) @ b)"
proof (induction a)
  case Nil
  then show ?case by (cases b) (auto simp: starts_char_def)
qed (auto simp: Let_def split_beta)

lemma utf8_chars_append: "starts_char b \<Longrightarrow> utf8_chars (a @ b) = utf8_chars a @ utf8_chars b"
proof (induction a rule: utf8_chars.induct)
  case (2 c s)
  then show ?case by (simp add: utf8_rest_append)
qed simp

lemma utf8_rest_parts:
  "starts_char (snd (utf8_rest s))" "\<forall>c \<in> set (fst (utf8_rest s)). \<not> is_char_start c"
  by (induction s) (auto simp: Let_def split_beta starts_char_def)

lemma utf8_rest_none: "\<forall>c \<in> set s. \<not> is_char_start c \<Longrightarrow> utf8_rest s = (s, [])"
  by (induction s) auto

lemma utf8_chars_one: "\<forall>c \<in> set s. \<not> is_char_start c \<Longrightarrow> utf8_chars (c # s) = [c # s]"
  by (simp add: utf8_rest_none)

lemma utf8_chars_hd: "utf8_chars s = x # xs \<Longrightarrow> s \<noteq> [] \<and> x \<noteq> [] \<and> hd x = hd s"
  by (cases s) auto

lemma utf8_chars_prefix: "utf8_chars s = xs @ ys \<Longrightarrow> utf8_chars (concat xs) = xs"
proof (induction s arbitrary: xs rule: utf8_chars.induct)
  case (2 c s)
  show ?case
  proof (cases xs)
    case (Cons x xs')
    let ?r = "snd (utf8_rest s)"
    from 2(2) Cons have x: "x = c # fst (utf8_rest s)" and r: "utf8_chars ?r = xs' @ ys" by auto
    have ih: "utf8_chars (concat xs') = xs'" using 2(1) r by blast
    have "starts_char (concat xs')"
    proof (cases xs')
      case (Cons y ys')
      with r utf8_chars_hd[of ?r y "ys' @ ys"] have "y \<noteq> []" "hd y = hd ?r" "?r \<noteq> []" by auto
      then show ?thesis using Cons utf8_rest_parts(1)[of s] by (simp add: starts_char_def)
    qed (simp add: starts_char_def)
    from utf8_chars_append[OF this, of x] show ?thesis
      using Cons x ih utf8_chars_one[OF utf8_rest_parts(2)[of s], of c] by simp
  qed simp
qed simp

lemma char_len_append: "starts_char b \<Longrightarrow> char_len (a @ b) = char_len a + char_len b"
  by (simp add: char_len_def utf16_len_def utf8_chars_append)

lemma starts_char_ellipsis [simp]: "starts_char ellipsis"
  by (simp add: starts_char_def ellipsis_def is_char_start_def)

lemma char_len_ellipsis [simp]: "char_len ellipsis = 1"
  by (simp add: char_len_def utf16_len_def ellipsis_def is_char_start_def char_units_def)

section \<open>Clipping\<close>

lemma first_units_take:
  "first_units n cs = Some p \<Longrightarrow> n \<le> sum_list (map char_units cs) \<Longrightarrow>
     \<exists>k. p = concat (take k cs) \<and> sum_list (map char_units (take k cs)) = n"
proof (induction n cs arbitrary: p rule: first_units.induct)
  case (1 cs)
  then show ?case by (intro exI[of _ 0]) simp
next
  case (3 n c cs)
  from 3(2) obtain r where r: "\<not> Suc n < char_units c" "first_units (Suc n - char_units c) cs = Some r" "p = c @ r"
    by (auto split: if_splits)
  have "Suc n - char_units c \<le> sum_list (map char_units cs)" using 3(3) r(1) by simp
  from 3(1)[OF r(1,2) this] obtain k where "r = concat (take k cs)" "sum_list (map char_units (take k cs)) = Suc n - char_units c"
    by blast
  then show ?case using r by (intro exI[of _ "Suc k"]) simp
qed simp

lemma first_units_len:
  assumes "first_units n (utf8_chars s) = Some p" "n \<le> char_len s"
  shows "char_len p = n \<and> (\<exists>r. s = p @ r)"
proof -
  obtain k where k: "p = concat (take k (utf8_chars s))" "sum_list (map char_units (take k (utf8_chars s))) = n"
    using first_units_take[OF assms(1)] assms(2) by (auto simp: char_len_def utf16_len_def)
  have "utf8_chars p = take k (utf8_chars s)"
    unfolding k(1) by (rule utf8_chars_prefix[OF append_take_drop_id[symmetric]])
  moreover have "s = p @ concat (drop k (utf8_chars s))"
    using k(1) concat_utf8_chars[of s] by (metis append_take_drop_id concat_append)
  ultimately show ?thesis using k(2) by (auto simp: char_len_def utf16_len_def)
qed

text \<open>A clipped text is the text when it is short enough; otherwise it is its first \<open>cap\<close> units and
  an ellipsis, unless the cut goes through a pair: then it is the whole text and an ellipsis.\<close>

lemma clip_units_exact:
  "clip_units s cap =
     (if char_len s \<le> cap then s
      else case first_units cap (utf8_chars s) of Some p \<Rightarrow> p @ ellipsis | None \<Rightarrow> s @ ellipsis)"
  by (auto simp: clip_units_def take_chars_def split: option.split)

lemma clip_len: "first_units cap (utf8_chars s) \<noteq> None \<Longrightarrow> char_len (clip_units s cap) \<le> cap + 1"
  using first_units_len[of cap s] by (auto simp: clip_units_exact char_len_append split: option.split)

text \<open>So a long text of characters of two units is not clipped at all when one stands across the cut.\<close>

definition smile :: string where "smile = [CHR 0xF0, CHR 0x9F, CHR 0x99, CHR 0x82]"

lemma smile_facts: "utf8_chars smile = [smile]" "starts_char (smile @ s)" "char_units smile = 2"
  by (simp_all add: smile_def is_char_start_def starts_char_def char_units_def)

lemma utf8_smiles: "utf8_chars (concat (replicate n smile)) = replicate n smile"
proof (induction n)
  case (Suc n)
  have "starts_char (concat (replicate n smile))" using smile_facts(2) by (cases n) (auto simp: starts_char_def)
  with Suc show ?case by (simp add: utf8_chars_append smile_facts(1))
qed simp

lemma utf8_letters: "utf8_chars (replicate n (CHR ''a'') @ b) = replicate n ''a'' @ utf8_chars b" if "starts_char b"
proof (induction n)
  case (Suc n)
  have "utf8_rest (replicate n (CHR ''a'') @ b) = ([], replicate n (CHR ''a'') @ b)"
    using that by (cases n; cases b) (auto simp: starts_char_def is_char_start_def)
  with Suc show ?case by simp
qed simp

lemma first_units_letters: "first_units (n + m) (replicate n ''a'' @ cs) = map_option (\<lambda>r. replicate n (CHR ''a'') @ r) (first_units m cs)"
proof (induction n)
  case 0
  then show ?case by (cases "first_units m cs") simp_all
next
  case (Suc n)
  then show ?case by (cases "first_units m cs") (simp_all add: char_units_def)
qed

theorem clip_keeps_a_long_text:
  "clip_units (replicate 3999 (CHR ''a'') @ concat (replicate (Suc n) smile)) PROJECT_INSTRUCTIONS_CAP
     = replicate 3999 (CHR ''a'') @ concat (replicate (Suc n) smile) @ ellipsis"
proof -
  let ?s = "replicate 3999 (CHR ''a'') @ concat (replicate (Suc n) smile)"
  have st: "starts_char (concat (replicate (Suc n) smile))" using smile_facts(2) by simp
  have chars: "utf8_chars ?s = replicate 3999 ''a'' @ replicate (Suc n) smile"
    using utf8_letters[OF st] utf8_smiles[of "Suc n"] by simp
  have "char_len ?s = 3999 + 2 * Suc n"
    unfolding char_len_def utf16_len_def chars
    by (simp only: map_append map_replicate smile_facts(3) sum_list_append sum_list_replicate) (simp add: char_units_def)
  moreover have "first_units PROJECT_INSTRUCTIONS_CAP (utf8_chars ?s) = None"
    using first_units_letters[of 3999 1 "replicate (Suc n) smile"] unfolding chars
    by (simp add: PROJECT_INSTRUCTIONS_CAP_def smile_facts(3))
  ultimately show ?thesis by (simp add: clip_units_exact PROJECT_INSTRUCTIONS_CAP_def)
qed

section \<open>Turns\<close>

definition turns_cost :: "json list \<Rightarrow> nat" where "turns_cost ts = sum_list (map turn_tokens ts)"

lemma turns_cost_simps [simp]:
  "turns_cost [] = 0" "turns_cost (t # ts) = turn_tokens t + turns_cost ts" "turns_cost (xs @ ys) = turns_cost xs + turns_cost ys"
  "turns_cost (rev xs) = turns_cost xs"
  by (simp_all add: turns_cost_def rev_map[symmetric] sum_list_rev)

lemma keep_turns_exact:
  "\<exists>k \<le> length older. keep_turns budget fixed recent older seen kept acc
       = (rev (take k older) @ kept, acc + turns_cost (take k older))
   \<and> (recent < seen + k \<and> 0 < k \<longrightarrow> \<not> over_ceiling budget (fixed + acc + turns_cost (take k older)))
   \<and> (k < length older \<longrightarrow> recent \<le> seen + k
        \<and> over_ceiling budget (fixed + acc + turns_cost (take k older) + turn_tokens (older ! k)))"
proof (induction budget fixed recent older seen kept acc rule: keep_turns.induct)
  case (2 budget fixed recent turn older seen kept acc)
  show ?case
  proof (cases "\<not> seen + 1 \<le> recent \<and> over_ceiling budget (fixed + acc + turn_tokens turn)")
    case True
    then show ?thesis by (intro exI[of _ 0]) simp
  next
    case False
    from 2[OF False] obtain k where k: "k \<le> length older"
      "keep_turns budget fixed recent older (seen + 1) (turn # kept) (acc + turn_tokens turn)
        = (rev (take k older) @ turn # kept, acc + turn_tokens turn + turns_cost (take k older))"
      "recent < seen + 1 + k \<and> 0 < k \<longrightarrow> \<not> over_ceiling budget (fixed + (acc + turn_tokens turn) + turns_cost (take k older))"
      "k < length older \<longrightarrow> recent \<le> seen + 1 + k
        \<and> over_ceiling budget (fixed + (acc + turn_tokens turn) + turns_cost (take k older) + turn_tokens (older ! k))"
      by blast
    show ?thesis using k False by (intro exI[of _ "Suc k"]) (cases "k = 0"; auto simp: add_ac)
  qed
qed simp

text \<open>C34: Which turns a request carries: the system turn, the longest run of the newest earlier turns
  that the budget allows, and the current turn, in order.  The last \<open>keep_recent\<close> are always there;
  with more than those the whole is within three quarters of the budget; and the first turn left out
  would have passed it.  What was used is what the kept turns cost.\<close>
theorem budget_keeps_the_newest:
  assumes "b = budget_turns system prior current budget keep_recent" and "n = bt_overflow b"
  shows "bt_turns b = [system_message system] @ drop n prior @ [current] \<and> n \<le> length prior - keep_recent
    \<and> bt_used_tokens b = estimate_tokens system + turn_tokens current + turns_cost (drop n prior)
    \<and> (n < length prior - keep_recent \<longrightarrow> 4 * bt_used_tokens b \<le> 3 * budget)
    \<and> (0 < n \<longrightarrow> 3 * budget < 4 * (bt_used_tokens b + turn_tokens (prior ! (n - 1))))
    \<and> (bt_needs_compaction b \<longleftrightarrow> 0 < n)"
proof -
  let ?fixed = "estimate_tokens system + turn_tokens current"
  obtain k where k: "k \<le> length (rev prior)"
      "keep_turns budget ?fixed keep_recent (rev prior) 0 [] 0 = (rev (take k (rev prior)) @ [], 0 + turns_cost (take k (rev prior)))"
      "keep_recent < 0 + k \<and> 0 < k \<longrightarrow> \<not> over_ceiling budget (?fixed + 0 + turns_cost (take k (rev prior)))"
      "k < length (rev prior) \<longrightarrow> keep_recent \<le> 0 + k
        \<and> over_ceiling budget (?fixed + 0 + turns_cost (take k (rev prior)) + turn_tokens (rev prior ! k))"
    using keep_turns_exact[of "rev prior" budget ?fixed keep_recent 0 "[]" 0] by blast
  have kept: "rev (take k (rev prior)) = drop (length prior - k) prior" by (simp add: take_rev)
  then have cost: "turns_cost (take k (rev prior)) = turns_cost (drop (length prior - k) prior)" by (metis turns_cost_simps(4))
  have n: "n = length prior - k" using assms k(1,2) by (simp add: budget_turns_def Let_def kept)
  have b: "bt_turns b = [system_message system] @ drop n prior @ [current]"
    "bt_used_tokens b = ?fixed + turns_cost (drop n prior)" "bt_needs_compaction b \<longleftrightarrow> 0 < n"
    using assms k(1,2) n by (simp_all add: budget_turns_def Let_def kept cost)
  have first: "rev prior ! k = prior ! (n - 1)" if "0 < n"
    using that k(1) n by (simp add: rev_nth)
  show ?thesis
    using b k(1,3,4) n cost first by (auto simp: over_ceiling_def)
qed

definition user_turn_of :: "string \<Rightarrow> json" where
  "user_turn_of t = JObject [(''role'', JString ''user''), (''content'', JString t)]"

lemma user_turn_tokens: "turn_tokens (user_turn_of t) = estimate_tokens t"
  by (simp add: turn_tokens_def user_turn_of_def json_get_def)

lemma token_counts: "estimate_tokens ''a'' = 1" "estimate_tokens ''12345678'' = 2"
  by (simp_all add: estimate_tokens_def utf16_len_def is_char_start_def char_units_def)

theorem budget_keeps_the_newest_witness:
  "bt_overflow (budget_turns ''a'' (map user_turn_of [''a'', ''12345678'', ''a'']) (user_turn_of ''a'') 4 1) = 2
   \<and> bt_turns (budget_turns ''a'' (map user_turn_of [''a'', ''12345678'', ''a'']) (user_turn_of ''a'') 4 1)
      = [system_message ''a'', user_turn_of ''a'', user_turn_of ''a'']"
proof -
  have o: "2 = bt_overflow (budget_turns ''a'' (map user_turn_of [''a'', ''12345678'', ''a'']) (user_turn_of ''a'') 4 1)"
    by (simp add: budget_turns_def Let_def over_ceiling_def user_turn_tokens token_counts)
  from budget_keeps_the_newest[OF refl o] o show ?thesis by simp
qed

section \<open>Skills\<close>

lemma newline_starts [simp]: "starts_char (CHR 0x0A # s)"
  by (simp add: starts_char_def is_char_start_def)

lemma char_len_newline:
  assumes "starts_char s"
  shows "char_len (CHR 0x0A # s) = 1 + char_len s"
proof -
  have "utf8_chars ([CHR 0x0A] @ s) = [[CHR 0x0A]] @ utf8_chars s" using utf8_chars_append[OF assms, of "[CHR 0x0A]"] by simp
  then show ?thesis by (simp add: char_len_def utf16_len_def char_units_def)
qed

lemma starts_join: "\<forall>x \<in> set xs. starts_char x \<and> x \<noteq> [] \<Longrightarrow> starts_char (join_with newline xs)"
  by (cases xs rule: list.exhaust; cases "tl xs") (auto simp: starts_char_def)

lemma char_len_join:
  "\<forall>x \<in> set xs. starts_char x \<and> x \<noteq> [] \<Longrightarrow>
   char_len (join_with newline (x # xs)) = char_len x + sum_list (map (\<lambda>l. char_len l + 1) xs)"
proof (induction xs arbitrary: x)
  case (Cons y ys)
  have st: "starts_char (join_with newline (y # ys))" using Cons.prems by (intro starts_join) simp
  have "char_len (join_with newline (y # ys)) = char_len y + sum_list (map (\<lambda>l. char_len l + 1) ys)"
    using Cons by simp
  then show ?case using st by (simp add: char_len_append char_len_newline)
qed simp

definition lines_cost :: "skill_entry list \<Rightarrow> nat" where
  "lines_cost ss = sum_list (map (\<lambda>s. char_len (skill_line s) + 1) ss)"

lemma skill_line_starts [simp]: "starts_char (skill_line s)" "skill_line s \<noteq> []"
  by (simp_all add: skill_line_def starts_char_def is_char_start_def)

lemma skill_lines_exact:
  "\<exists>k \<le> length ss. skill_lines ss used = map skill_line (take k ss)
     \<and> (0 < k \<longrightarrow> used + lines_cost (take k ss) \<le> SKILLS_BLOCK_CAP)
     \<and> (k < length ss \<longrightarrow> SKILLS_BLOCK_CAP < used + lines_cost (take (Suc k) ss))"
proof (induction ss used rule: skill_lines.induct)
  case (2 s rest used)
  show ?case
  proof (cases "SKILLS_BLOCK_CAP < used + char_len (skill_line s) + 1")
    case True
    then show ?thesis by (intro exI[of _ 0]) (simp add: lines_cost_def)
  next
    case False
    from 2[OF this] obtain k where k: "k \<le> length rest"
      "skill_lines rest (used + char_len (skill_line s) + 1) = map skill_line (take k rest)"
      "0 < k \<longrightarrow> used + char_len (skill_line s) + 1 + lines_cost (take k rest) \<le> SKILLS_BLOCK_CAP"
      "k < length rest \<longrightarrow> SKILLS_BLOCK_CAP < used + char_len (skill_line s) + 1 + lines_cost (take (Suc k) rest)"
      by blast
    then show ?thesis using False by (intro exI[of _ "Suc k"]) (cases k; auto simp: lines_cost_def)
  qed
qed simp

lemma char_len_le: "char_len s \<le> length s"
proof -
  have "sum_list (map char_units cs) \<le> length (concat cs)" if "\<forall>c \<in> set cs. c \<noteq> []" for cs
    using that
  proof (induction cs)
    case (Cons c cs)
    then show ?case by (cases c) (auto simp: char_units_def)
  qed simp
  moreover have "\<forall>c \<in> set (utf8_chars s). c \<noteq> []" by (induction s rule: utf8_chars.induct) auto
  ultimately show ?thesis using concat_utf8_chars[of s] by (metis char_len_def utf16_len_def)
qed

lemma skills_header_len: "char_len SKILLS_HEADER \<le> 4000"
proof -
  have "length SKILLS_HEADER \<le> 4000" by (simp add: SKILLS_HEADER_def)
  then show ?thesis using char_len_le[of SKILLS_HEADER] by linarith
qed

text \<open>The list of skills names a prefix of the skills the model may use, each in full or clipped by
  itself, in at most 4000 units of UTF-16 with the header and the breaks, and as many as fit; the
  rest is a count, and a skill only the user may run is neither named nor counted.\<close>
theorem skills_block_fits:
  assumes "skills = filter sk_model_invocable all" and "skills \<noteq> []"
  shows "\<exists>k \<le> length skills.
    skills_block all = join_with newline (SKILLS_HEADER # map skill_line (take k skills)
      @ (if k < length skills then [''(+'' @ show_nat (length skills - k) @ '' more)''] else []))
    \<and> char_len (join_with newline (SKILLS_HEADER # map skill_line (take k skills))) \<le> 4000
    \<and> (k < length skills \<longrightarrow> 4000 < char_len (join_with newline (SKILLS_HEADER # map skill_line (take (Suc k) skills))))"
proof -
  have len: "char_len (join_with newline (SKILLS_HEADER # map skill_line (take j skills)))
      = char_len SKILLS_HEADER + lines_cost (take j skills)" for j
    by (subst char_len_join) (auto simp: lines_cost_def o_def)
  obtain k where k: "k \<le> length skills" "skill_lines skills (char_len SKILLS_HEADER) = map skill_line (take k skills)"
      "0 < k \<longrightarrow> char_len SKILLS_HEADER + lines_cost (take k skills) \<le> SKILLS_BLOCK_CAP"
      "k < length skills \<longrightarrow> SKILLS_BLOCK_CAP < char_len SKILLS_HEADER + lines_cost (take (Suc k) skills)"
    using skill_lines_exact[of skills "char_len SKILLS_HEADER"] by blast
  have fits: "char_len SKILLS_HEADER + lines_cost (take k skills) \<le> 4000"
    using k(3) skills_header_len by (cases "k = 0") (simp_all add: SKILLS_BLOCK_CAP_def lines_cost_def)
  have block: "skills_block all = join_with newline (SKILLS_HEADER # map skill_line (take k skills)
      @ (if k < length skills then [''(+'' @ show_nat (length skills - k) @ '' more)''] else []))"
    unfolding skills_block_def assms(1)[symmetric] using assms(2) k(1,2) by (simp add: Let_def)
  have "char_len (join_with newline (SKILLS_HEADER # map skill_line (take k skills))) \<le> 4000" using fits by (simp only: len)
  moreover have "k < length skills \<longrightarrow> 4000 < char_len (join_with newline (SKILLS_HEADER # map skill_line (take (Suc k) skills)))"
    using k(4) by (simp only: len SKILLS_BLOCK_CAP_def)
  ultimately show ?thesis using k(1) block by blast
qed

definition two_skills :: "skill_entry list" where
  "two_skills = [\<lparr>sk_name = ''pdf'', sk_description = ''Read files'', sk_when_to_use = None, sk_model_invocable = True\<rparr>,
     \<lparr>sk_name = ''mine'', sk_description = ''x'', sk_when_to_use = None, sk_model_invocable = False\<rparr>]"

theorem skills_block_fits_witness:
  "\<exists>k \<le> length [hd two_skills]. skills_block two_skills = join_with newline (SKILLS_HEADER # map skill_line (take k [hd two_skills])
     @ (if k < length [hd two_skills] then [''(+'' @ show_nat (length [hd two_skills] - k) @ '' more)''] else []))"
proof -
  have f: "[hd two_skills] = filter sk_model_invocable two_skills" by (simp add: two_skills_def)
  have "[hd two_skills] \<noteq> []" by simp
  from skills_block_fits[OF f this] show ?thesis by (elim exE conjE) (intro exI conjI; assumption)
qed

section \<open>Blocks and briefs\<close>

lemma compose_is_base_and_blocks:
  "compose_system_prompt json_of inp =
     pi_base inp @ concat (map (\<lambda>b. newline @ newline @ b) (filter (\<lambda>b. b \<noteq> []) (prompt_blocks json_of inp)))"
proof -
  have "foldl push_block out bs = out @ concat (map (\<lambda>b. newline @ newline @ b) (filter (\<lambda>b. b \<noteq> []) bs))" for out bs
    by (induction bs arbitrary: out) (auto simp: push_block_def)
  then show ?thesis by (simp add: compose_system_prompt_def)
qed

lemma insert_brief_keeps:
  "takeWhile is_system (insert_brief msgs b) = takeWhile is_system msgs @ [system_message b]
   \<and> dropWhile is_system (insert_brief msgs b) = dropWhile is_system msgs"
proof -
  have b: "is_system (system_message b)" by (simp add: is_system_def system_message_def json_get_def)
  have tw: "\<forall>m \<in> set (takeWhile is_system msgs). is_system m" by (blast dest: set_takeWhileD)
  have "takeWhile is_system (dropWhile is_system msgs) = []" "dropWhile is_system (dropWhile is_system msgs) = dropWhile is_system msgs"
    by (induction msgs) auto
  then show ?thesis using b tw by (simp add: insert_brief_def takeWhile_append2 dropWhile_append2)
qed

text \<open>The briefs land behind the leading system turns and in front of the first real turn, the folder
  first, then the project, then the artifacts; nothing else moves, and without tools nothing is said.\<close>
theorem briefs_follow_the_system_prefix:
  "insert_briefs tools_enabled file_access artifacts folder project arts msgs =
     (if tools_enabled
      then takeWhile is_system msgs
           @ map system_message (List.map_filter id [if file_access then folder else None,
               if file_access then project else None, if artifacts then arts else None])
           @ dropWhile is_system msgs
      else msgs)"
proof -
  have "foldl insert_brief ms bs = takeWhile is_system ms @ map system_message bs @ dropWhile is_system ms" for ms bs
  proof (induction bs arbitrary: ms)
    case (Cons b bs)
    then show ?case using insert_brief_keeps[of ms b] by simp
  qed simp
  then show ?thesis by (simp add: insert_briefs_def)
qed

end
