(* ===== verification/Results.thy ===== *)
theory Results imports Disk Session_Log begin

text \<open>
  Big tool results (\<open>agent/results.rs\<close>): what is kept on disk for a run, the handle and the preview
  the model gets, and the two tools that read it back.  A panic of the program is \<open>None\<close>.  Case
  beyond ASCII is the standard library's table, and the words of an error of the system are an argument.
\<close>

section \<open>The store of a run\<close>

definition INLINE_CAP :: nat where "INLINE_CAP = 8192"
definition PREVIEW :: nat where "PREVIEW = 2048"
definition WINDOW_BYTES :: nat where "WINDOW_BYTES = 8192"
definition MATCH_LIMIT :: nat where "MATCH_LIMIT = 40"

record result_store =
  rs_dir :: path
  rs_refs :: "string \<rightharpoonup> path"
  rs_any :: bool

definition new_result_store :: "path \<Rightarrow> string \<Rightarrow> string \<Rightarrow> result_store" where
  "new_result_store data conv r =
     \<lparr>rs_dir = data @ [Normal ''results'', Normal conv, Normal r], rs_refs = Map.empty, rs_any = False\<rparr>"

definition reference_for :: "string \<Rightarrow> string" where
  "reference_for call_id = ''res_'' @ take 6 (rev (filter is_ascii_alnum call_id))"

definition clip_bytes :: "string \<Rightarrow> nat \<Rightarrow> string" where
  "clip_bytes s n = (if length s \<le> n then s else take (floor_boundary s n) s)"

text \<open>\<open>{:.1}\<close> of a number of megabytes: the nearest tenth, the even one of two.\<close>

definition nearest_tenth :: "nat \<Rightarrow> nat \<Rightarrow> nat" where
  "nearest_tenth n unit =
     (let q = (n * 10) div unit; r = (n * 10) mod unit
      in if 2 * r < unit \<or> 2 * r = unit \<and> even q then q else q + 1)"

definition human_size :: "nat \<Rightarrow> string" where
  "human_size bytes =
     (if bytes < 1024 then show_nat bytes @ '' B''
      else if bytes < 1024 * 1024 then show_nat (bytes div 1024) @ '' KB''
      else (let t = nearest_tenth bytes (1024 * 1024)
            in show_nat (t div 10) @ ''.'' @ show_nat (t mod 10) @ '' MB''))"

definition preview_for :: "string \<Rightarrow> string \<Rightarrow> string" where
  "preview_for reference output =
     clip_bytes output PREVIEW @ newline @ newline @ ''[truncated: '' @ human_size (length output)
     @ '' total. Use read_result {'' @ [CHR 34] @ ''ref'' @ [CHR 34] @ '': '' @ [CHR 34] @ reference @ [CHR 34]
     @ '', '' @ [CHR 34] @ ''offset'' @ [CHR 34] @ '': N, '' @ [CHR 34] @ ''limit'' @ [CHR 34] @ '': N} or search_result {''
     @ [CHR 34] @ ''ref'' @ [CHR 34] @ '': '' @ [CHR 34] @ reference @ [CHR 34] @ '', '' @ [CHR 34] @ ''query''
     @ [CHR 34] @ '': '' @ [CHR 34] @ ''...'' @ [CHR 34] @ ''} to see more.]''"

definition result_file :: "result_store \<Rightarrow> string \<Rightarrow> path" where
  "result_file st reference = rs_dir st @ [Normal (reference @ ''.txt'')]"

text \<open>The disk changes also where the folder could be made and the file not.\<close>

definition keep_forced :: "result_store \<Rightarrow> disk \<Rightarrow> string \<Rightarrow> string \<Rightarrow> (result_store \<times> disk) \<times> string option" where
  "keep_forced st d call_id output =
     (let reference = reference_for call_id in
      case fs_create_dir_all d (rs_dir st) of
        None \<Rightarrow> ((st, d), None)
      | Some d1 \<Rightarrow>
          (case fs_write d1 (result_file st reference) output of
             None \<Rightarrow> ((st, d1), None)
           | Some d2 \<Rightarrow> ((st\<lparr>rs_refs := (rs_refs st)(reference \<mapsto> result_file st reference), rs_any := True\<rparr>, d2),
                         Some reference)))"

definition keep :: "result_store \<Rightarrow> disk \<Rightarrow> string \<Rightarrow> string \<Rightarrow> (result_store \<times> disk) \<times> (string \<times> string) option" where
  "keep st d call_id output =
     (if length output \<le> INLINE_CAP then ((st, d), None)
      else (case keep_forced st d call_id output of
              (sd, None) \<Rightarrow> (sd, None)
            | (sd, Some reference) \<Rightarrow> (sd, Some (reference, preview_for reference output))))"

definition path_of_ref :: "result_store \<Rightarrow> string \<Rightarrow> path option" where
  "path_of_ref st reference = rs_refs st reference"

definition knows :: "result_store \<Rightarrow> string \<Rightarrow> bool" where
  "knows st reference \<longleftrightarrow> path_of_ref st reference \<noteq> None"

definition read_kept :: "(path \<Rightarrow> string) \<Rightarrow> result_store \<Rightarrow> disk \<Rightarrow> string \<Rightarrow> string + string" where
  "read_kept why st d reference =
     (case path_of_ref st reference of
        None \<Rightarrow> Inl (''No kept result called '' @ reference @ '' in this run.'')
      | Some p \<Rightarrow>
          (if dk_denied d p then Inl (''Could not read '' @ reference @ '': '' @ why p)
           else case file_bytes d p of
             None \<Rightarrow> Inl (''Could not read '' @ reference @ '': '' @ why p)
           | Some b \<Rightarrow> Inr b))"

section \<open>Paging and searching\<close>

text \<open>The end of a page is a \<open>usize\<close> sum that wraps; a slice that ends before it begins panics.\<close>

definition window :: "string \<Rightarrow> nat \<Rightarrow> nat \<Rightarrow> string option" where
  "window body offset limit =
     (let ls = str_lines body in
      if length ls \<le> offset
      then Some (''(past the end: this result has '' @ show_nat (length ls) @ '' lines)'')
      else (let stop = min ((offset + max limit 1) mod 2 ^ 64) (length ls) in
            if stop < offset then None
            else Some (clip_bytes (join_with newline (take (stop - offset) (drop offset ls))) WINDOW_BYTES
                   @ (if stop < length ls
                      then newline @ newline @ ''['' @ show_nat (length ls - stop) @ '' more lines. Next offset: ''
                           @ show_nat stop @ ''.]''
                      else []))))"

definition search_lines :: "unicode \<Rightarrow> string \<Rightarrow> string \<Rightarrow> string" where
  "search_lines u body query =
     (let needle = str_lowercase u query;
          hits = map (\<lambda>(i, l). show_nat i @ '': '' @ clip_bytes (trim l) 400)
                   (take MATCH_LIMIT (filter (\<lambda>(i, l). str_contains (str_lowercase u l) needle) (enumerated (str_lines body))))
      in if hits = [] then ''No line matches '' @ left_quote @ query @ right_quote @ ''.''
         else show_nat (length hits) @ '' matching line(s), as `line number: text`:'' @ newline @ join_with newline hits)"

definition result_handles :: "string \<Rightarrow> bool" where
  "result_handles name \<longleftrightarrow> name = ''read_result'' \<or> name = ''search_result''"

definition nat_at :: "json \<Rightarrow> string \<Rightarrow> nat \<Rightarrow> nat" where
  "nat_at v k d = (case Option.bind (json_get v k) json_u64 of None \<Rightarrow> d | Some n \<Rightarrow> n)"

definition result_execute ::
  "unicode \<Rightarrow> (path \<Rightarrow> string) \<Rightarrow> result_store \<Rightarrow> disk \<Rightarrow> string \<Rightarrow> json \<Rightarrow> (string + string) option" where
  "result_execute u why st d name args =
     (case str_at args ''ref'' of
        None \<Rightarrow> Some (Inl ''`ref` is required.'')
      | Some reference \<Rightarrow>
          (case read_kept why st d reference of
             Inl e \<Rightarrow> Some (Inl e)
           | Inr body \<Rightarrow>
               if name = ''read_result'' then map_option Inr (window body (nat_at args ''offset'' 0) (nat_at args ''limit'' 200))
               else if name = ''search_result'' then
                 (case str_at args ''query'' of
                    None \<Rightarrow> Some (Inl ''`query` is required.'')
                  | Some q \<Rightarrow> Some (Inr (search_lines u body q)))
               else Some (Inl (''Unknown result tool: '' @ name))))"

definition result_describe :: "string \<Rightarrow> json \<Rightarrow> string \<times> string" where
  "result_describe name args =
     (if name = ''search_result''
      then (''searched the kept result'', left_quote @ or_str [] (str_at args ''query'') @ right_quote)
      else (''read the kept result'', or_str [] (str_at args ''ref'')))"

section \<open>What is kept comes back\<close>

lemma keep_forced_reads:
  assumes "keep_forced st d call_id output = ((st', d'), Some reference)"
  shows "reference = reference_for call_id \<and> read_kept why st' d' reference = Inr output
    \<and> rs_dir st' = rs_dir st \<and> rs_refs st' reference = Some (result_file st reference)"
proof -
  obtain d1 where d1: "fs_create_dir_all d (rs_dir st) = Some d1"
    using assms by (cases "fs_create_dir_all d (rs_dir st)") (simp_all add: keep_forced_def Let_def)
  obtain d2 where d2: "fs_write d1 (result_file st (reference_for call_id)) output = Some d2"
    using assms d1 by (cases "fs_write d1 (result_file st (reference_for call_id)) output") (simp_all add: keep_forced_def Let_def)
  have k: "st' = st\<lparr>rs_refs := (rs_refs st)(reference_for call_id \<mapsto> result_file st (reference_for call_id)), rs_any := True\<rparr>"
      "d' = d2" "reference = reference_for call_id"
    using assms d1 d2 by (auto simp: keep_forced_def Let_def)
  have "dk_denied d2 = dk_denied d1" "\<not> dk_denied d1 (result_file st reference)"
      "dk_at d2 (result_file st reference) = Some (FileNode output)"
    using d2 unfolding fs_write_def k(3) by (auto split: if_splits)
  then show ?thesis using k by (simp add: read_kept_def path_of_ref_def file_bytes_def)
qed

text \<open>A kept result stays as it is when something is kept under another handle.\<close>

lemma keep_forced_others:
  assumes "keep_forced st d call_id output = ((st', d'), r)" and "reference \<noteq> reference_for call_id"
    and "rs_refs st reference = Some (result_file st reference)" and "read_kept why st d reference = Inr body"
  shows "rs_refs st' reference = Some (result_file st' reference) \<and> read_kept why st' d' reference = Inr body
    \<and> rs_dir st' = rs_dir st"
proof -
  have p: "\<not> dk_denied d (result_file st reference)" "dk_at d (result_file st reference) = Some (FileNode body)"
    using assms(3,4) by (auto simp: read_kept_def path_of_ref_def file_bytes_def split: if_splits option.splits node.splits)
  have other: "result_file st reference \<noteq> result_file st (reference_for call_id)"
    using assms(2) by (simp add: result_file_def)
  show ?thesis
  proof (cases "fs_create_dir_all d (rs_dir st)")
    case None
    then show ?thesis using assms p by (auto simp: keep_forced_def Let_def)
  next
    case (Some d1)
    then have d1: "dk_at d1 (result_file st reference) = Some (FileNode body)" "dk_denied d1 = dk_denied d"
      using p by (auto simp: fs_create_dir_all_def split: if_splits)
    show ?thesis
    proof (cases "fs_write d1 (result_file st (reference_for call_id)) output")
      case None
      then show ?thesis using assms p Some d1
        by (auto simp: keep_forced_def Let_def read_kept_def path_of_ref_def file_bytes_def)
    next
      case (Some d2)
      then have d2: "dk_at d2 (result_file st reference) = Some (FileNode body)" "dk_denied d2 = dk_denied d"
        using d1 other by (auto simp: fs_write_def split: if_splits)
      from assms(1) Some \<open>fs_create_dir_all d (rs_dir st) = Some d1\<close>
      have "st' = st\<lparr>rs_refs := (rs_refs st)(reference_for call_id \<mapsto> result_file st (reference_for call_id)), rs_any := True\<rparr>" "d' = d2"
        by (auto simp: keep_forced_def Let_def)
      then show ?thesis using d2 p assms(2,3)
        by (simp add: read_kept_def path_of_ref_def file_bytes_def result_file_def)
    qed
  qed
qed

text \<open>A run keeps results by both ways in any order.\<close>

datatype keeping = Kept string string | KeptForced string string

definition keep_step :: "keeping \<Rightarrow> result_store \<times> disk \<Rightarrow> result_store \<times> disk" where
  "keep_step k = (\<lambda>(st, d). case k of Kept c out \<Rightarrow> fst (keep st d c out) | KeptForced c out \<Rightarrow> fst (keep_forced st d c out))"

fun keeping_ref :: "keeping \<Rightarrow> string" where
  "keeping_ref (Kept c _) = reference_for c"
| "keeping_ref (KeptForced c _) = reference_for c"

definition reads_back :: "(path \<Rightarrow> string) \<Rightarrow> string \<Rightarrow> string \<Rightarrow> result_store \<times> disk \<Rightarrow> bool" where
  "reads_back why reference body = (\<lambda>(st, d). rs_refs st reference = Some (result_file st reference) \<and> read_kept why st d reference = Inr body)"

lemma keep_is_forced: "keep st d c out = (if length out \<le> INLINE_CAP then ((st, d), None)
    else (fst (keep_forced st d c out), map_option (\<lambda>r. (r, preview_for r out)) (snd (keep_forced st d c out))))"
  by (auto simp: keep_def split: prod.split option.split)

lemma keep_step_reads:
  assumes "reads_back why r body sd" "keeping_ref k \<noteq> r"
  shows "reads_back why r body (keep_step k sd)"
proof -
  obtain st d where sd: "sd = (st, d)" by fastforce
  have forced: "reads_back why r body (fst (keep_forced st d c out))" if "reference_for c \<noteq> r" for c out
  proof -
    obtain st' d' o' where f: "keep_forced st d c out = ((st', d'), o')" by (metis prod.collapse)
    have n: "r \<noteq> reference_for c" using that by simp
    have p: "rs_refs st r = Some (result_file st r)" "read_kept why st d r = Inr body"
      using assms(1) by (simp_all add: sd reads_back_def)
    from keep_forced_others[OF f n p] show ?thesis by (simp add: reads_back_def f)
  qed
  then show ?thesis using assms(1,2) by (cases k) (simp_all add: keep_step_def sd keep_is_forced)
qed

lemma keep_steps_read: "reads_back why r body sd \<Longrightarrow> \<forall>k \<in> set ks. keeping_ref k \<noteq> r \<Longrightarrow> reads_back why r body (fold keep_step ks sd)"
  by (induction ks arbitrary: sd) (simp_all add: keep_step_reads)

text \<open>C35: A result past the cap that could be written is replaced by a preview with a handle, and the
  handle reads back the whole result, byte for byte, after whatever else the run keeps, as long as
  no later call has an id that ends in the same six letters and digits; a result up to the cap is
  pasted as it is.\<close>
theorem kept_result_reads_back:
  assumes "keep st d call_id output = (sd, Some (reference, shown))"
    and "\<forall>k \<in> set later. keeping_ref k \<noteq> reference"
    and "fold keep_step later sd = (st', d')"
  shows "INLINE_CAP < length output \<and> reference = reference_for call_id \<and> shown = preview_for reference output
    \<and> knows st' reference \<and> read_kept why st' d' reference = Inr output"
proof -
  have big: "INLINE_CAP < length output" using assms(1) by (auto simp: keep_def split: if_splits)
  then have f: "keep_forced st d call_id output = (sd, Some reference)" "shown = preview_for reference output"
    using assms(1) by (auto simp: keep_is_forced prod_eq_iff)
  obtain st1 d1 where sd: "sd = (st1, d1)" by fastforce
  note k = keep_forced_reads[OF f(1)[unfolded sd], of why]
  have "reads_back why reference output sd"
    using k by (auto simp: reads_back_def sd result_file_def)
  from keep_steps_read[OF this assms(2)] assms(3) have "reads_back why reference output (st', d')" by simp
  then show ?thesis using big f(2) k by (auto simp: reads_back_def knows_def path_of_ref_def)
qed

definition empty_disk :: disk where "empty_disk = \<lparr>dk_at = Map.empty, dk_denied = (\<lambda>_. False)\<rparr>"

definition long_output :: string where "long_output = replicate 8193 (CHR ''x'')"

definition sample_store :: result_store where
  "sample_store = new_result_store [] ''c'' ''r''"

lemma keeps_long_output:
  "\<exists>sd. keep sample_store empty_disk ''call_1'' long_output = (sd, Some (''res_1llac'', preview_for ''res_1llac'' long_output))"
proof -
  have r: "reference_for ''call_1'' = ''res_1llac''"
    by (simp add: reference_for_def is_ascii_alnum_def is_ascii_alphabetic_def is_ascii_digit_def)
  obtain d1 where d1: "fs_create_dir_all empty_disk (rs_dir sample_store) = Some d1" "is_folder d1 (rs_dir sample_store)"
      "dk_denied d1 = (\<lambda>_. False)" "\<And>p. \<not> below p (rs_dir sample_store) \<Longrightarrow> dk_at d1 p = None"
    by (simp add: fs_create_dir_all_def empty_disk_def sample_store_def new_result_store_def is_file_def file_bytes_def
        is_folder_def upt_rec)
  have "path_parent (rs_dir sample_store @ [Normal x]) = Some (rs_dir sample_store)" for x
    by (simp add: path_parent_def sample_store_def new_result_store_def)
  moreover have "\<not> below (rs_dir sample_store @ [Normal x]) (rs_dir sample_store)" for x by (simp add: below_def)
  ultimately have "fs_write d1 (result_file sample_store ''res_1llac'') long_output \<noteq> None"
    using d1(2,3,4) by (simp add: fs_write_def result_file_def parent_there_def is_folder_def)
  then show ?thesis using d1(1) r
    by (auto simp: keep_is_forced keep_forced_def Let_def INLINE_CAP_def long_output_def)
qed

theorem kept_result_reads_back_witness:
  "\<exists>st d. read_kept (\<lambda>_. []) st d ''res_1llac'' = Inr long_output"
proof -
  obtain sd where k: "keep sample_store empty_disk ''call_1'' long_output = (sd, Some (''res_1llac'', preview_for ''res_1llac'' long_output))"
    using keeps_long_output by blast
  obtain st d where "fold keep_step [] sd = (st, d)" by fastforce
  moreover have "\<forall>k \<in> set []. keeping_ref k \<noteq> ''res_1llac''" by simp
  ultimately show ?thesis using kept_result_reads_back[OF k, of "[]" st d "\<lambda>_. []"] by blast
qed

section \<open>What paging does not show\<close>

text \<open>A page is cut at 8192 bytes, but the next offset it names is behind all its lines: what was cut is
  on no page.\<close>

theorem paging_skips_a_line:
  "window (replicate 9000 (CHR ''x'') @ newline @ ''second'' @ newline @ ''third'') 0 2
     = Some (replicate 8192 (CHR ''x'') @ newline @ newline @ ''[1 more lines. Next offset: 2.]'')"
proof -
  let ?x = "replicate 9000 (CHR ''x'')"
  have ls: "str_lines (?x @ newline @ ''second'' @ newline @ ''third'') = [?x, ''second'', ''third'']"
  proof -
    have "split_on (CHR 0x0A) (?x @ CHR 0x0A # (''second'' @ newline @ ''third'')) = ?x # split_on (CHR 0x0A) (''second'' @ newline @ ''third'')"
      by (rule split_on_append) simp
    moreover have "split_on (CHR 0x0A) (''second'' @ newline @ ''third'') = [''second'', ''third'']" by simp
    ultimately show ?thesis by (simp add: str_lines_def strip_cr_def del: split_on.simps)
  qed
  have page: "take 8192 (?x @ newline @ ''second'') = replicate 8192 (CHR ''x'')" by simp
  have "is_char_boundary (?x @ newline @ ''second'') (Suc 8191)"
    unfolding is_char_boundary_def by (simp add: nth_append is_char_start_def del: upt_Suc)
  then have "floor_boundary (?x @ newline @ ''second'') (Suc 8191) = Suc 8191" by (simp only: floor_boundary.simps if_True)
  then have cut: "clip_bytes (?x @ newline @ ''second'') WINDOW_BYTES = replicate 8192 (CHR ''x'')"
    using page by (simp add: clip_bytes_def WINDOW_BYTES_def)
  have two: "take 2 [?x, ''second'', ''third''] = [?x, ''second'']" by (simp add: numeral_2_eq_2)
  have shown: "show_nat 1 = ''1''" "show_nat 2 = ''2''" by code_simp+
  have stop: "min ((0 + max 2 1) mod 2 ^ 64) (length [?x, ''second'', ''third'']) = 2" by simp
  show ?thesis unfolding window_def ls Let_def stop using cut two shown by simp
qed

text \<open>A limit near the largest number makes the sum wrap and the slice end before it begins.\<close>
theorem paging_can_panic:
  "window (''a'' @ newline @ ''b'') 1 (2 ^ 64 - 1) = None"
  by (simp add: window_def str_lines_def strip_cr_def)

end
