(* ===== verification/Transcript.thy ===== *)
theory Transcript imports Results Context_Prompt begin

text \<open>
  The transcript a run sends (\<open>agent/run.rs\<close>): the messages of the loop, the two rewrites for
  templates that want strict turns, the estimate of its size and the clearing of old results.  A
  message is a JSON value; the printing of JSON is an argument.
\<close>

section \<open>Messages\<close>

text \<open>Assigning to a field (\<open>value[k] = x\<close>) of an object; a null becomes an object.\<close>

fun put_field :: "string \<Rightarrow> json \<Rightarrow> (string \<times> json) list \<Rightarrow> (string \<times> json) list" where
  "put_field k x [] = [(k, x)]"
| "put_field k x ((j, y) # fs) = (if j = k then (k, x) # fs else (j, y) # put_field k x fs)"

definition json_put :: "json \<Rightarrow> string \<Rightarrow> json \<Rightarrow> json" where
  "json_put v k x = (case v of JObject fs \<Rightarrow> JObject (put_field k x fs) | JNull \<Rightarrow> JObject [(k, x)] | _ \<Rightarrow> v)"

record tool_call_req =
  tc_id :: string
  tc_name :: string
  tc_arguments :: string

definition call_to_json :: "tool_call_req \<Rightarrow> json" where
  "call_to_json c =
     JObject [(''id'', JString (tc_id c)), (''type'', JString ''function''),
       (''function'', JObject [(''name'', JString (tc_name c)), (''arguments'', JString (tc_arguments c))])]"

definition assistant_tool_call_message :: "tool_call_req list \<Rightarrow> json" where
  "assistant_tool_call_message calls =
     JObject [(''role'', JString ''assistant''), (''content'', JNull), (''tool_calls'', JArray (map call_to_json calls))]"

definition tool_result_message :: "string \<Rightarrow> string \<Rightarrow> json" where
  "tool_result_message call_id content =
     JObject [(''role'', JString ''tool''), (''tool_call_id'', JString call_id), (''content'', JString content)]"

definition role_of :: "json \<Rightarrow> string" where "role_of msg = or_str [] (str_at msg ''role'')"

definition content_of :: "json \<Rightarrow> string" where "content_of msg = or_str [] (str_at msg ''content'')"

definition plain_text :: "json \<Rightarrow> string \<Rightarrow> bool" where
  "plain_text msg role \<longleftrightarrow> str_at msg ''role'' = Some role \<and> json_get msg ''tool_calls'' = None \<and> str_at msg ''content'' \<noteq> None"

definition merge_text :: "json \<Rightarrow> string \<Rightarrow> json" where
  "merge_text prev addition = json_put prev ''content'' (JString (content_of prev @ newline @ newline @ addition))"

section \<open>Folding repeated turns\<close>

definition normalize_step :: "json \<Rightarrow> json list \<times> bool \<Rightarrow> json list \<times> bool" where
  "normalize_step msg = (\<lambda>(out, seen_user).
     let role = role_of msg; seen = (seen_user \<or> role = ''user'') in
     if role = ''assistant'' \<and> \<not> seen then (out, seen)
     else if role = ''assistant'' \<and> plain_text msg ''assistant'' \<and> trim (content_of msg) = [] then (out, seen)
     else if (role = ''user'' \<or> role = ''assistant'') \<and> out \<noteq> [] \<and> plain_text (last out) role \<and> plain_text msg role
     then (butlast out @ [merge_text (last out) (content_of msg)], seen)
     else (out @ [msg], seen))"

definition normalize_transcript :: "json list \<Rightarrow> json list" where
  "normalize_transcript messages = fst (fold normalize_step messages ([], False))"

section \<open>Strict turns\<close>

text \<open>The text of a message: a string, or the text parts of an array.\<close>

definition text_of :: "json \<Rightarrow> string" where
  "text_of msg =
     (case json_get msg ''content'' of
        Some (JString s) \<Rightarrow> s
      | Some (JArray parts) \<Rightarrow> join_with newline (List.map_filter (\<lambda>p. str_at p ''text'') parts)
      | _ \<Rightarrow> [])"

definition calls_of :: "json \<Rightarrow> json list" where
  "calls_of msg = (case list_at msg ''tool_calls'' of None \<Rightarrow> [] | Some cs \<Rightarrow> cs)"

definition note_call :: "json \<Rightarrow> (string \<rightharpoonup> string) \<Rightarrow> (string \<rightharpoonup> string)" where
  "note_call call names =
     (case (str_at call ''id'', under call ''function'' ''name'') of
        (Some i, Some n) \<Rightarrow> names(i \<mapsto> n)
      | _ \<Rightarrow> names)"

definition called_line :: "json \<Rightarrow> string \<Rightarrow> string" where
  "called_line call text =
     text @ (if text = [] then [] else newline) @ ''[I called '' @ or_str ''a tool'' (under call ''function'' ''name'')
     @ '' with '' @ or_str ''{}'' (under call ''function'' ''arguments'') @ '']''"

definition flat_text :: "(string \<rightharpoonup> string) \<Rightarrow> json \<Rightarrow> string \<times> string" where
  "flat_text names msg =
     (if role_of msg = ''assistant'' then (''assistant'', fold called_line (calls_of msg) (text_of msg))
      else if role_of msg = ''tool'' then
        (''user'', ''['' @ or_str ''the tool'' (Option.bind (str_at msg ''tool_call_id'') names) @ '' returned]'' @ newline @ text_of msg)
      else (''user'', text_of msg))"

definition flat_message :: "string \<Rightarrow> string \<Rightarrow> json" where
  "flat_message role text = JObject [(''role'', JString role), (''content'', JString text)]"

definition flatten_step ::
  "json \<Rightarrow> json list \<times> (string \<rightharpoonup> string) \<times> bool \<Rightarrow> json list \<times> (string \<rightharpoonup> string) \<times> bool" where
  "flatten_step msg = (\<lambda>(out, names, seen_user).
     let names = fold note_call (calls_of msg) names; (as_role, text) = flat_text names msg in
     if trim text = [] then (out, names, seen_user)
     else if as_role = ''assistant'' \<and> \<not> seen_user then (out, names, seen_user)
     else (if out \<noteq> [] \<and> str_at (last out) ''role'' = Some as_role
           then butlast out @ [merge_text (last out) text]
           else out @ [flat_message as_role text],
           names, seen_user \<or> as_role = ''user''))"

definition flatten_to_alternating :: "json list \<Rightarrow> json list" where
  "flatten_to_alternating messages =
     (case messages of
        first # rest \<Rightarrow>
          if str_at first ''role'' = Some ''system'' then fst (fold flatten_step rest ([first], Map.empty, False))
          else fst (fold flatten_step messages ([], Map.empty, False))
      | [] \<Rightarrow> [])"

definition is_template_error :: "string \<Rightarrow> bool" where
  "is_template_error provider_message =
     (let m = to_ascii_lowercase provider_message in
      str_contains m ''roles must alternate'' \<or> str_contains m ''jinja''
      \<or> str_contains m ''generate parser for this template'' \<or> str_contains m ''chat template'')"

section \<open>Fields\<close>

lemma map_of_put [simp]: "map_of (put_field k x fs) = (map_of fs)(k \<mapsto> x)"
  by (induction fs rule: put_field.induct) auto

lemma put_simps [simp]:
  "json_get (JObject fs) j = map_of fs j"
  "json_get (json_put (JObject fs) k x) j = (if j = k then Some x else map_of fs j)"
  by (auto simp: json_get_def json_put_def)

lemma str_at_object: "str_at v k = Some s \<Longrightarrow> \<exists>fs. v = JObject fs"
  by (cases v) (auto simp: str_at_def json_get_def)

lemma merge_text_simps:
  assumes "str_at m ''role'' \<noteq> None"
  shows "str_at (merge_text m t) ''role'' = str_at m ''role''"
    "str_at (merge_text m t) ''content'' = Some (content_of m @ newline @ newline @ t)"
    "json_get (merge_text m t) ''tool_calls'' = json_get m ''tool_calls''"
proof -
  obtain fs where m: "m = JObject fs" using assms str_at_object by blast
  show "str_at (merge_text m t) ''role'' = str_at m ''role''" "json_get (merge_text m t) ''tool_calls'' = json_get m ''tool_calls''"
    "str_at (merge_text m t) ''content'' = Some (content_of m @ newline @ newline @ t)"
    by (simp_all add: m merge_text_def str_at_def json_str_def)
qed

lemma flat_message_simps [simp]:
  "str_at (flat_message r t) ''role'' = Some r" "content_of (flat_message r t) = t"
  "merge_text (flat_message r t) u = flat_message r (t @ newline @ newline @ u)"
  by (simp_all add: flat_message_def str_at_def json_str_def content_of_def or_str_def merge_text_def json_put_def)

section \<open>Flattened transcripts\<close>

text \<open>What each message says, under the names of the calls up to it.\<close>

fun said :: "(string \<rightharpoonup> string) \<Rightarrow> json list \<Rightarrow> (string \<times> string) list" where
  "said names [] = []"
| "said names (m # ms) = (let names = fold note_call (calls_of m) names in flat_text names m # said names ms)"

definition spoken :: "json list \<Rightarrow> (string \<times> string) list" where
  "spoken ms = dropWhile (\<lambda>(r, t). r = ''assistant'') (filter (\<lambda>(r, t). trim t \<noteq> []) (said Map.empty ms))"

definition joined_turn :: "(string \<times> string) list \<Rightarrow> json" where
  "joined_turn g = flat_message (fst (hd g)) (join_with (newline @ newline) (map snd g))"

text \<open>Turns said by one side each, the sides taking turns from the user on.\<close>

definition side :: "nat \<Rightarrow> string" where "side i = (if even i then ''user'' else ''assistant'')"

definition taking_turns :: "(string \<times> string) list list \<Rightarrow> bool" where
  "taking_turns gs \<longleftrightarrow> (\<forall>i < length gs. gs ! i \<noteq> [] \<and> fst ` set (gs ! i) \<subseteq> {side i})"

lemma taking_turns_Nil [simp]: "taking_turns []" by (simp add: taking_turns_def)

lemma taking_turns_snoc: "taking_turns (gs @ [g]) \<longleftrightarrow> taking_turns gs \<and> g \<noteq> [] \<and> fst ` set g \<subseteq> {side (length gs)}"
  by (auto simp: taking_turns_def nth_append All_less_Suc)

lemma side_other: "r = ''user'' \<or> r = ''assistant'' \<Longrightarrow> r \<noteq> side n \<longleftrightarrow> r = side (Suc n)"
  by (auto simp: side_def)

lemma hd_side: "g \<noteq> [] \<Longrightarrow> fst ` set g \<subseteq> {s} \<Longrightarrow> fst (hd g) = s"
  by (cases g) auto

lemma join_with_snoc: "xs \<noteq> [] \<Longrightarrow> join_with s (xs @ [x]) = join_with s xs @ s @ x"
  by (induction s xs rule: join_with.induct) auto

lemma joined_turn_merge: "g \<noteq> [] \<Longrightarrow> merge_text (joined_turn g) t = joined_turn (g @ [(r, t)])"
  by (simp add: joined_turn_def join_with_snoc hd_append)

lemma flat_role: "fst (flat_text names m) = ''user'' \<or> fst (flat_text names m) = ''assistant''"
  by (simp add: flat_text_def)

text \<open>The loop keeps the groups said so far, one message for each.\<close>

definition flattened ::
  "json list \<Rightarrow> (string \<times> string) list list \<Rightarrow> json list \<times> (string \<rightharpoonup> string) \<times> bool \<Rightarrow> bool" where
  "flattened sys gs = (\<lambda>(out, names, seen). out = sys @ map joined_turn gs \<and> taking_turns gs \<and> seen = (gs \<noteq> []))"

definition heard :: "(string \<times> string) list list \<Rightarrow> string \<times> string \<Rightarrow> (string \<times> string) list list" where
  "heard gs = (\<lambda>(r, t).
     if trim t = [] \<or> gs = [] \<and> r = ''assistant'' then gs
     else if gs \<noteq> [] \<and> fst (hd (last gs)) = r then butlast gs @ [last gs @ [(r, t)]]
     else gs @ [[(r, t)]])"

lemma heard_turns:
  assumes "taking_turns gs" "fst x = ''user'' \<or> fst x = ''assistant''"
  shows "taking_turns (heard gs x)"
proof (cases gs rule: rev_cases)
  case Nil
  then show ?thesis using assms(2) taking_turns_snoc[of "[]"] by (cases x) (auto simp: heard_def side_def)
next
  case (snoc hs g)
  then have g: "taking_turns hs" "g \<noteq> []" "fst ` set g \<subseteq> {side (length hs)}" using assms(1) by (auto simp: taking_turns_snoc)
  obtain r t where x: "x = (r, t)" by fastforce
  have hd: "fst (hd g) = side (length hs)" by (rule hd_side[OF g(2,3)])
  show ?thesis
  proof (cases "r = side (length hs)")
    case True
    then have "taking_turns (hs @ [g @ [x]])" using g by (simp add: taking_turns_snoc x)
    moreover have "heard gs x = (if trim t = [] then gs else hs @ [g @ [x]])"
      using True by (simp add: heard_def snoc x hd)
    ultimately show ?thesis using assms(1) by simp
  next
    case False
    then have "r = side (Suc (length hs))" using side_other[of r] assms(2) by (simp add: x)
    moreover have "length gs = Suc (length hs)" by (simp add: snoc)
    ultimately have "taking_turns (gs @ [[x]])" using assms(1) by (simp add: taking_turns_snoc x)
    moreover have "heard gs x = (if trim t = [] then gs else gs @ [[x]])"
      using False by (simp add: heard_def snoc x hd)
    ultimately show ?thesis using assms(1) by simp
  qed
qed

lemma heard_concat:
  "concat (heard gs x) = (if trim (snd x) = [] \<or> gs = [] \<and> fst x = ''assistant'' then concat gs else concat gs @ [x])"
proof (cases gs rule: rev_cases)
  case Nil
  then show ?thesis by (cases x) (simp add: heard_def)
next
  case (snoc hs g)
  then show ?thesis by (cases x) (simp add: heard_def)
qed

lemma flatten_step_heard:
  assumes "flattened sys gs (out, names, seen)" "list_all (\<lambda>m. str_at m ''role'' = Some ''system'') sys"
  shows "flattened sys (heard gs (flat_text (fold note_call (calls_of m) names) m)) (flatten_step m (out, names, seen))"
    and "fst (snd (flatten_step m (out, names, seen))) = fold note_call (calls_of m) names"
proof -
  obtain r t where rt: "flat_text (fold note_call (calls_of m) names) m = (r, t)" by fastforce
  then have r: "r = ''user'' \<or> r = ''assistant''" using flat_role by (metis fst_conv)
  have inv: "out = sys @ map joined_turn gs" "taking_turns gs" "seen = (gs \<noteq> [])"
    using assms(1) by (simp_all add: flattened_def)
  show "fst (snd (flatten_step m (out, names, seen))) = fold note_call (calls_of m) names"
    by (simp add: flatten_step_def rt Let_def)
  have turns: "taking_turns (heard gs (r, t))" using heard_turns[OF inv(2), of "(r, t)"] r by simp
  show "flattened sys (heard gs (flat_text (fold note_call (calls_of m) names) m)) (flatten_step m (out, names, seen))"
  proof (cases "trim t = [] \<or> gs = [] \<and> r = ''assistant''")
    case True
    then show ?thesis using inv assms(1) by (auto simp: flatten_step_def rt heard_def Let_def flattened_def)
  next
    case said: False
    show ?thesis
    proof (cases gs rule: rev_cases)
      case Nil
      have "\<not> (out \<noteq> [] \<and> str_at (last out) ''role'' = Some r)"
        using assms(2) r by (auto simp: inv(1) Nil list_all_iff)
      then show ?thesis using said inv turns r
        by (auto simp: flatten_step_def rt heard_def Let_def flattened_def Nil joined_turn_def)
    next
      case (snoc hs g)
      have g: "g \<noteq> []" "fst ` set g \<subseteq> {side (length hs)}" using inv(2) by (auto simp: snoc taking_turns_snoc)
      have last: "out \<noteq> []" "last out = joined_turn g" "butlast out = sys @ map joined_turn hs"
        by (simp_all add: inv(1) snoc butlast_append)
      have role: "str_at (joined_turn g) ''role'' = Some (fst (hd g))" by (simp add: joined_turn_def)
      have merge: "fst (hd g) = r \<Longrightarrow> merge_text (joined_turn g) t = joined_turn (g @ [(r, t)])"
        using joined_turn_merge[OF g(1)] by blast
      show ?thesis using said inv(3) turns
        by (auto simp: flatten_step_def rt heard_def Let_def flattened_def last role merge snoc joined_turn_def[of "[(r, t)]"] inv(1) butlast_append)
    qed
  qed
qed

lemma flatten_fold:
  assumes "flattened sys gs (out, names, seen)" "list_all (\<lambda>m. str_at m ''role'' = Some ''system'') sys"
  shows "flattened sys (fold (\<lambda>x gs. heard gs x) (said names ms) gs) (fold flatten_step ms (out, names, seen))"
  using assms(1)
proof (induction ms arbitrary: gs out names seen)
  case (Cons m ms)
  obtain out' names' seen' where st: "flatten_step m (out, names, seen) = (out', names', seen')" by (metis prod.collapse)
  show ?case
    using Cons.IH flatten_step_heard[OF Cons.prems assms(2), of m]
    by (simp add: st Let_def)
qed simp

lemma heard_all_concat:
  "concat (fold (\<lambda>x gs. heard gs x) xs gs)
     = concat gs @ (if gs = [] then dropWhile (\<lambda>(r, t). r = ''assistant'') (filter (\<lambda>(r, t). trim t \<noteq> []) xs)
                    else filter (\<lambda>(r, t). trim t \<noteq> []) xs)"
proof (induction xs arbitrary: gs)
  case (Cons x xs)
  have "heard gs x = [] \<longleftrightarrow> gs = [] \<and> (trim (snd x) = [] \<or> fst x = ''assistant'')"
    by (cases x) (auto simp: heard_def)
  then show ?case by (cases x) (auto simp: Cons.IH heard_concat)
qed simp

definition leading_system :: "json list \<Rightarrow> json list" where
  "leading_system ms = (if ms \<noteq> [] \<and> str_at (hd ms) ''role'' = Some ''system'' then [hd ms] else [])"

text \<open>C36: The flattened transcript is the leading system message as it was and then turns that strictly
  alternate, beginning with the user; joined turn by turn they say all that the messages said, in order,
  but for blank messages and what the assistant said before the user spoke at all.\<close>
theorem flattened_turns_alternate:
  "\<exists>gs. flatten_to_alternating ms = leading_system ms @ map joined_turn gs
     \<and> concat gs = spoken (drop (length (leading_system ms)) ms) \<and> taking_turns gs"
proof -
  define sys where "sys = leading_system ms"
  define rest where "rest = drop (length sys) ms"
  have flat: "flatten_to_alternating ms = fst (fold flatten_step rest (sys, Map.empty, False))"
    by (cases ms) (simp_all add: flatten_to_alternating_def rest_def sys_def leading_system_def)
  have start: "flattened sys [] (sys, Map.empty, False)" by (simp add: flattened_def)
  have system: "list_all (\<lambda>m. str_at m ''role'' = Some ''system'') sys" by (simp add: sys_def leading_system_def)
  define gs where "gs = fold (\<lambda>x gs. heard gs x) (said Map.empty rest) []"
  obtain out names seen where st: "fold flatten_step rest (sys, Map.empty, False) = (out, names, seen)" by (metis prod.collapse)
  have fl: "flattened sys gs (out, names, seen)" using flatten_fold[OF start system, of rest] by (simp add: gs_def st)
  have "concat gs = spoken rest" by (simp add: gs_def heard_all_concat spoken_def)
  then show ?thesis using fl flat st by (auto simp: flattened_def sys_def[symmetric] rest_def[symmetric] intro!: exI[of _ gs])
qed

section \<open>Blank texts\<close>

lemma trim_start_append_blank: "trim_start a = [] \<Longrightarrow> trim_start (a @ b) = trim_start b"
proof (induction a rule: trim_start.induct)
  case (2 a)
  then show ?case by (cases b rule: trim_start.cases) (auto split: if_splits)
next
  case (3 a c)
  then show ?case by (cases b) (auto split: if_splits)
next
  case (4 a c e s)
  then show ?case by (auto split: if_splits)
qed simp

lemma ws3_first: "ws3 a b c \<Longrightarrow> \<not> ws1 a \<and> \<not> ws2 a b"
proof -
  assume "ws3 a b c"
  then have "a = CHR 0xE1 \<or> a = CHR 0xE2 \<or> a = CHR 0xE3" unfolding ws3_def by blast
  then show ?thesis by (elim disjE) (simp_all add: ws1_def ws2_def)
qed

lemma trim_rev_blank: "trim_rev r = [] \<Longrightarrow> trim_start (rev r) = []"
proof (induction r rule: trim_rev.induct)
  case (3 b a)
  have "ws2 a b \<Longrightarrow> \<not> ws1 a" by (auto simp: ws1_def ws2_def)
  then show ?case using 3 by (auto simp: trim_start_append_blank split: if_splits)
next
  case (4 c b a s)
  consider "ws1 c" | "\<not> ws1 c" "ws2 b c" | "\<not> ws1 c" "\<not> ws2 b c" "ws3 a b c" using "4.prems" by (auto split: if_splits)
  then show ?case
  proof cases
    case 1
    then show ?thesis using 4 trim_start_append_blank[of "rev (b # a # s)" "[c]"] by simp
  next
    case 2
    then have "\<not> ws1 b" by (auto simp: ws1_def ws2_def)
    then show ?thesis using 4 2 trim_start_append_blank[of "rev (a # s)" "[b, c]"] by simp
  next
    case 3
    note a = ws3_first[OF 3(3)]
    have "trim_rev s = []" using "4.prems" 3 by simp
    then have "trim_start (rev s) = []" by (rule "4.IH"(3)[OF 3])
    then show ?thesis using a 3 trim_start_append_blank[of "rev s" "[a, b, c]"] by simp
  qed
qed (auto split: if_splits)

lemma trim_blank_iff: "trim s = [] \<longleftrightarrow> trim_start s = []"
  using trim_rev_blank[of "rev (trim_start s)"] by (auto simp: trim_def trim_end_def trim_start_idem)

lemma trim_start_before_newline: "trim_start (c @ CHR 0x0A # y) = [] \<Longrightarrow> trim_start c = []"
proof (induction c rule: trim_start.induct)
  case (2 a)
  have "\<not> ws2 a (CHR 0x0A)" "\<not> ws3 a (CHR 0x0A) z" for z by (auto simp: ws2_def ws3_def)
  then show ?case using 2 by (cases y) (auto split: if_splits)
next
  case (3 a b)
  have "\<not> ws2 b (CHR 0x0A)" "\<not> ws3 a b (CHR 0x0A)" by (auto simp: ws2_def ws3_def)
  then show ?case using 3 by (auto split: if_splits)
qed (auto split: if_splits)

lemma nonblank_merge: "trim c \<noteq> [] \<Longrightarrow> trim (c @ newline @ x) \<noteq> []"
  using trim_start_before_newline[of c x] by (auto simp: trim_blank_iff)

section \<open>Normalized transcripts\<close>

definition blank_turn :: "json \<Rightarrow> bool" where
  "blank_turn m \<longleftrightarrow> role_of m = ''assistant'' \<and> plain_text m ''assistant'' \<and> trim (content_of m) = []"

definition joins :: "json \<Rightarrow> json \<Rightarrow> bool" where
  "joins prev m \<longleftrightarrow> (role_of m = ''user'' \<or> role_of m = ''assistant'') \<and> plain_text prev (role_of m) \<and> plain_text m (role_of m)"

text \<open>What is left out: the assistant before the user, and blank turns of the assistant.\<close>

fun surviving :: "bool \<Rightarrow> json list \<Rightarrow> json list" where
  "surviving seen [] = []"
| "surviving seen (m # ms) =
     (let seen = (seen \<or> role_of m = ''user'')
      in if role_of m = ''assistant'' \<and> \<not> seen \<or> blank_turn m then surviving seen ms else m # surviving seen ms)"

definition folded :: "json list \<Rightarrow> json" where
  "folded g = foldl (\<lambda>p m. merge_text p (content_of m)) (hd g) (tl g)"

definition one_side :: "json list \<Rightarrow> bool" where
  "one_side g \<longleftrightarrow> g \<noteq> [] \<and> (length g = 1 \<or> (\<exists>r. (r = ''user'' \<or> r = ''assistant'') \<and> list_all (\<lambda>m. plain_text m r) g))"

definition tidy :: "json list \<Rightarrow> bool" where
  "tidy out \<longleftrightarrow> surviving False out = out \<and> (\<forall>i. Suc i < length out \<longrightarrow> \<not> joins (out ! i) (out ! Suc i))"

lemma plain_role: "plain_text m r \<Longrightarrow> role_of m = r"
  by (simp add: plain_text_def role_of_def or_str_def)

lemma plain_merge: "plain_text m r \<Longrightarrow> plain_text (merge_text m t) r'= (r' = r)"
  by (auto simp: plain_text_def merge_text_simps)

lemma content_merge: "plain_text m r \<Longrightarrow> content_of (merge_text m t) = content_of m @ newline @ newline @ t"
  by (simp add: plain_text_def merge_text_simps content_of_def[of "merge_text m t"] or_str_def)

lemma folded_plain: "g \<noteq> [] \<Longrightarrow> list_all (\<lambda>m. plain_text m r) g \<Longrightarrow> plain_text (folded g) r"
  by (induction g rule: rev_nonempty_induct) (auto simp: folded_def plain_merge)

lemma folded_snoc: "g \<noteq> [] \<Longrightarrow> folded (g @ [m]) = merge_text (folded g) (content_of m)"
  by (cases g) (simp_all add: folded_def)

lemma surviving_snoc:
  "surviving seen (ms @ [m]) = surviving seen ms @ surviving (seen \<or> (\<exists>x \<in> set ms. role_of x = ''user'')) [m]"
  by (induction ms arbitrary: seen) (auto simp: Let_def)

lemma tidy_snoc:
  "tidy (out @ [m]) \<longleftrightarrow> tidy out \<and> surviving (\<exists>x \<in> set out. role_of x = ''user'') [m] = [m]
     \<and> (out = [] \<or> \<not> joins (last out) m)"
proof -
  have len: "length (surviving seen xs) \<le> length xs" for seen xs
    by (induction xs arbitrary: seen) (auto simp: Let_def le_SucI)
  have "surviving False (out @ [m]) = out @ [m] \<longleftrightarrow>
      surviving False out = out \<and> surviving (\<exists>x \<in> set out. role_of x = ''user'') [m] = [m]"
    using len[of False out] len[of "\<exists>x \<in> set out. role_of x = ''user''" "[m]"]
    unfolding surviving_snoc by (auto simp: append_eq_append_conv2 append_eq_Cons_conv split: if_splits)
  moreover have "(\<forall>i. Suc i < length (out @ [m]) \<longrightarrow> \<not> joins ((out @ [m]) ! i) ((out @ [m]) ! Suc i))
      \<longleftrightarrow> (\<forall>i. Suc i < length out \<longrightarrow> \<not> joins (out ! i) (out ! Suc i)) \<and> (out = [] \<or> \<not> joins (last out) m)"
    by (cases out rule: rev_cases) (auto simp: nth_append less_Suc_eq All_less_Suc)
  ultimately show ?thesis by (auto simp: tidy_def)
qed

definition has_user :: "json list \<Rightarrow> bool" where "has_user ms \<longleftrightarrow> (\<exists>x \<in> set ms. role_of x = ''user'')"

definition normalized :: "json list \<Rightarrow> json list list \<Rightarrow> json list \<times> bool \<Rightarrow> bool" where
  "normalized ms gs = (\<lambda>(out, seen). out = map folded gs \<and> list_all one_side gs \<and> concat gs = surviving False ms
     \<and> tidy out \<and> seen = has_user ms \<and> has_user out = seen)"

lemma one_side_more:
  assumes "one_side g" "joins (folded g) m"
  shows "one_side (g @ [m])"
proof -
  have r: "role_of m = ''user'' \<or> role_of m = ''assistant''" "plain_text (folded g) (role_of m)" "plain_text m (role_of m)"
    using assms(2) by (simp_all add: joins_def)
  have "list_all (\<lambda>x. plain_text x (role_of m)) g"
  proof (cases "length g = 1")
    case True
    then obtain x where "g = [x]" by (auto simp: length_Suc_conv)
    then show ?thesis using r(2) by (simp add: folded_def)
  next
    case False
    then obtain q where q: "list_all (\<lambda>x. plain_text x q) g" "g \<noteq> []" using assms(1) unfolding one_side_def by blast
    have "q = role_of m" using plain_role[OF folded_plain[OF q(2,1)]] plain_role[OF r(2)] by simp
    then show ?thesis using q(1) by simp
  qed
  then have l: "list_all (\<lambda>x. plain_text x (role_of m)) (g @ [m])" using r(3) by simp
  show ?thesis unfolding one_side_def
  proof (intro conjI disjI2)
    show "g @ [m] \<noteq> []" by simp
    show "\<exists>r. (r = ''user'' \<or> r = ''assistant'') \<and> list_all (\<lambda>x. plain_text x r) (g @ [m])"
      using r(1) l by (intro exI conjI)
  qed
qed

lemma joins_merge:
  assumes "joins p m"
  shows "role_of (merge_text p t) = role_of p" "joins q (merge_text p t) = joins q p"
    "blank_turn (merge_text p t) \<Longrightarrow> blank_turn p"
proof -
  have p: "plain_text p (role_of m)" using assms by (simp add: joins_def)
  note r = plain_role[OF p]
  have merged: "plain_text (merge_text p t) q = (q = role_of p)" for q using plain_merge[OF p] r by simp
  then show role: "role_of (merge_text p t) = role_of p" using plain_role by blast
  show "joins q (merge_text p t) = joins q p" using merged p r by (simp add: joins_def role)
  assume "blank_turn (merge_text p t)"
  then show "blank_turn p"
    using nonblank_merge[of "content_of p" "newline @ t"] p r unfolding blank_turn_def content_merge[OF p] role by auto
qed

lemma tidy_merge:
  assumes "tidy (out @ [p])" "joins p m"
  shows "tidy (out @ [merge_text p t])"
  using assms(1) joins_merge[OF assms(2)] by (auto simp: tidy_snoc Let_def split: if_splits)

lemma normalize_step_groups:
  assumes inv: "normalized ms gs (out, seen)"
  shows "\<exists>gs'. normalized (ms @ [m]) gs' (normalize_step m (out, seen))"
proof -
  define seen' where "seen' = (seen \<or> role_of m = ''user'')"
  have i: "out = map folded gs" "list_all one_side gs" "concat gs = surviving False ms" "tidy out"
    "seen = has_user ms" "has_user out = seen"
    using inv unfolding normalized_def prod.case by blast+
  have seen: "seen' = has_user (ms @ [m])" by (auto simp: seen'_def i(5) has_user_def)
  have surv: "surviving False (ms @ [m]) = surviving False ms
      @ (if role_of m = ''assistant'' \<and> \<not> seen' \<or> blank_turn m then [] else [m])"
    using i(5) by (simp add: surviving_snoc has_user_def seen'_def Let_def)
  consider (gone) "role_of m = ''assistant'' \<and> \<not> seen' \<or> blank_turn m"
    | (joined) "\<not> (role_of m = ''assistant'' \<and> \<not> seen' \<or> blank_turn m)" "out \<noteq> []" "joins (last out) m"
    | (new) "\<not> (role_of m = ''assistant'' \<and> \<not> seen' \<or> blank_turn m)" "out = [] \<or> \<not> joins (last out) m"
    by blast
  then show ?thesis
  proof cases
    case gone
    then have st: "normalize_step m (out, seen) = (out, seen')"
      by (auto simp: normalize_step_def Let_def seen'_def blank_turn_def)
    have "seen' = seen" using gone by (auto simp: seen'_def blank_turn_def)
    then have "normalized (ms @ [m]) gs (out, seen')" using i gone by (simp add: normalized_def surv seen[symmetric])
    then show ?thesis using st by metis
  next
    case joined
    have st: "normalize_step m (out, seen) = (butlast out @ [merge_text (last out) (content_of m)], seen')"
      using joined by (auto simp: normalize_step_def Let_def seen'_def blank_turn_def joins_def)
    obtain hs g where gs: "gs = hs @ [g]" using joined(2) i(1) by (cases gs rule: rev_cases) auto
    have out: "last out = folded g" "butlast out = map folded hs" "out = map folded hs @ [folded g]" by (simp_all add: i(1) gs)
    have g: "one_side g" "g \<noteq> []" using i(2) by (auto simp: gs one_side_def)
    have j: "joins (folded g) m" using joined(3) out(1) by simp
    have sv: "surviving False (ms @ [m]) = concat gs @ [m]" using surv joined(1) i(3) by (simp only: if_False)
    have role: "role_of m = role_of (folded g)" using j plain_role by (auto simp: joins_def)
    have users: "has_user (map folded hs @ [merge_text (folded g) (content_of m)]) = has_user out"
      using joins_merge(1)[OF j] by (simp add: has_user_def out(3))
    have "has_user out = seen'" using i(6) role by (auto simp: seen'_def has_user_def out(3))
    then have "normalized (ms @ [m]) (hs @ [g @ [m]]) (map folded hs @ [merge_text (folded g) (content_of m)], seen')"
      using i one_side_more[OF g(1) j] tidy_merge[OF _ j, of "map folded hs"] users
      by (simp add: normalized_def sv seen[symmetric] gs folded_snoc[OF g(2)])
    then show ?thesis using st out by metis
  next
    case new
    have st: "normalize_step m (out, seen) = (out @ [m], seen')"
      using new by (auto simp: normalize_step_def Let_def seen'_def blank_turn_def joins_def)
    have users: "has_user (out @ [m]) = seen'" using i(6) by (auto simp: seen'_def has_user_def)
    have "surviving (has_user out) [m] = [m]" using new(1) i(6) by (simp add: seen'_def Let_def)
    then have "tidy (out @ [m])" using i(4) new(2) by (simp add: tidy_snoc has_user_def)
    moreover have "surviving False (ms @ [m]) = concat gs @ [m]" using surv new(1) i(3) by (simp only: if_False)
    ultimately have "normalized (ms @ [m]) (gs @ [[m]]) (out @ [m], seen')"
      using i users by (simp add: normalized_def seen[symmetric] one_side_def folded_def)
    then show ?thesis using st by metis
  qed
qed

lemma normalize_groups: "\<exists>gs. normalized ms gs (fold normalize_step ms ([], False))"
proof (induction ms rule: rev_induct)
  case Nil
  show ?case by (rule exI[of _ "[]"]) (simp add: normalized_def tidy_def has_user_def)
next
  case (snoc m ms)
  then obtain gs out seen where "normalized ms gs (out, seen)" "fold normalize_step ms ([], False) = (out, seen)"
    by (metis prod.collapse)
  then show ?case using normalize_step_groups[of ms gs out seen m] by simp
qed

lemma tidy_unchanged: "tidy out \<Longrightarrow> fold normalize_step out ([], False) = (out, has_user out)"
proof (induction out rule: rev_induct)
  case (snoc m out)
  then have t: "tidy out" "surviving (has_user out) [m] = [m]" "out = [] \<or> \<not> joins (last out) m"
    by (simp_all add: tidy_snoc has_user_def)
  have "normalize_step m (out, has_user out) = (out @ [m], has_user (out @ [m]))"
    using t(2,3) by (auto simp: normalize_step_def Let_def blank_turn_def joins_def has_user_def split: if_splits)
  then show ?case using snoc.IH[OF t(1)] by simp
qed (simp add: has_user_def)

text \<open>C37: Normalizing a transcript leaves out the assistant before the first word of the user and its
  blank turns, nothing else; it joins neighbouring plain turns of one side, in order; what results
  has no such neighbours left, and normalizing it again changes nothing.\<close>
theorem normalized_transcript_is_tidy:
  "(\<exists>gs. normalize_transcript ms = map folded gs \<and> list_all one_side gs \<and> concat gs = surviving False ms)
     \<and> tidy (normalize_transcript ms) \<and> normalize_transcript (normalize_transcript ms) = normalize_transcript ms"
proof -
  obtain gs where g: "normalized ms gs (fold normalize_step ms ([], False))" using normalize_groups by blast
  then have n: "normalize_transcript ms = map folded gs" "list_all one_side gs" "concat gs = surviving False ms"
      "tidy (normalize_transcript ms)"
    by (auto simp: normalized_def normalize_transcript_def split: prod.splits)
  have "normalize_transcript (normalize_transcript ms) = normalize_transcript ms"
    by (simp only: normalize_transcript_def[of "normalize_transcript ms"] tidy_unchanged[OF n(4)] fst_conv)
  then show ?thesis using n by blast
qed

section \<open>Making room\<close>

definition CLEAR_ABOVE :: "nat \<times> nat" where "CLEAR_ABOVE = (3, 4)"
definition CLEAR_DOWN_TO :: "nat \<times> nat" where "CLEAR_DOWN_TO = (1, 2)"
definition KEEP_RECENT_RESULTS :: nat where "KEEP_RECENT_RESULTS = 4"
definition KEEP_RECENT_RESULTS_ASKED :: nat where "KEEP_RECENT_RESULTS_ASKED = 2"
definition CLEAR_MIN_CHARS :: nat where "CLEAR_MIN_CHARS = 1000"
definition CLEARED_MARK :: string where "CLEARED_MARK = ''[I cleared this result to make room.''"

definition part_bytes :: "json \<Rightarrow> nat" where
  "part_bytes p = (if str_at p ''type'' = Some ''text'' then length (or_str [] (str_at p ''text'')) else 4000)"

definition message_bytes :: "(json \<Rightarrow> string) \<Rightarrow> json \<Rightarrow> nat" where
  "message_bytes to_text m =
     (case json_get m ''content'' of
        Some (JString s) \<Rightarrow> length s
      | Some (JArray parts) \<Rightarrow> sum_list (map part_bytes parts)
      | Some v \<Rightarrow> length (to_text v)
      | None \<Rightarrow> 0)"

definition transcript_tokens :: "(json \<Rightarrow> string) \<Rightarrow> json list \<Rightarrow> nat" where
  "transcript_tokens to_text messages = (sum_list (map (message_bytes to_text) messages) + 3) div 4"

record cleared =
  cl_count :: nat
  cl_tokens :: nat

definition second_piece :: "string \<Rightarrow> string \<Rightarrow> string option" where
  "second_piece sep s =
     map_option (\<lambda>(_, r). case split_once sep r of None \<Rightarrow> r | Some (a, _) \<Rightarrow> a) (split_once sep s)"

definition existing_reference :: "string \<Rightarrow> string option" where
  "existing_reference content =
     Option.bind (second_piece ''[truncated:'' content) (\<lambda>tail.
     Option.bind (second_piece ([CHR 34] @ ''ref'' @ [CHR 34] @ '': '' @ [CHR 34]) tail) (\<lambda>after.
       (let reference = hd (split_on (CHR 34) after)
        in if starts_with reference ''res_'' then Some reference else None)))"

definition skill_calls :: "json list \<Rightarrow> string list" where
  "skill_calls messages =
     List.map_filter (\<lambda>call. if under call ''function'' ''name'' = Some ''skill'' then str_at call ''id'' else None)
       (concat (map calls_of messages))"

definition tool_at :: "json list \<Rightarrow> nat list" where
  "tool_at messages = filter (\<lambda>i. str_at (messages ! i) ''role'' = Some ''tool'') [0..<length messages]"

definition call_id_of :: "json \<Rightarrow> string" where "call_id_of m = or_str [] (str_at m ''tool_call_id'')"

definition cleared_stub :: "string \<Rightarrow> string" where
  "cleared_stub reference =
     CLEARED_MARK @ '' read_result {'' @ [CHR 34] @ ''ref'' @ [CHR 34] @ '': '' @ [CHR 34] @ reference @ [CHR 34]
     @ ''} brings it back.]''"

definition to_clear :: "string list \<Rightarrow> json \<Rightarrow> string option" where
  "to_clear skills m =
     (case str_at m ''content'' of
        None \<Rightarrow> None
      | Some content \<Rightarrow>
          if starts_with content CLEARED_MARK \<or> length (utf8_chars content) \<le> CLEAR_MIN_CHARS \<or> call_id_of m \<in> set skills
          then None else Some content)"

definition reference_of ::
  "result_store \<Rightarrow> disk \<Rightarrow> string \<Rightarrow> string \<Rightarrow> (result_store \<times> disk) \<times> string option" where
  "reference_of st d call_id content =
     (case existing_reference content of
        Some r \<Rightarrow> if knows st r then ((st, d), Some r) else keep_forced st d call_id content
      | None \<Rightarrow> keep_forced st d call_id content)"

type_synonym clearing = "json list \<times> result_store \<times> disk \<times> cleared"

definition clear_at :: "(json \<Rightarrow> string) \<Rightarrow> string list \<Rightarrow> nat \<Rightarrow> clearing \<Rightarrow> clearing" where
  "clear_at to_text skills i = (\<lambda>(ms, st, d, out).
     (case to_clear skills (ms ! i) of
        None \<Rightarrow> (ms, st, d, out)
      | Some content \<Rightarrow>
          (case reference_of st d (call_id_of (ms ! i)) content of
             ((st, d), None) \<Rightarrow> (ms, st, d, out)
           | ((st, d), Some reference) \<Rightarrow>
               (let m = json_put (ms ! i) ''content'' (JString (cleared_stub reference)) in
                (ms[i := m], st, d,
                 \<lparr>cl_count = cl_count out + 1,
                  cl_tokens = (cl_tokens out + transcript_tokens to_text [ms ! i]) - transcript_tokens to_text [m]\<rparr>)))))"

fun clear_loop :: "(json \<Rightarrow> string) \<Rightarrow> string list \<Rightarrow> nat option \<Rightarrow> nat list \<Rightarrow> clearing \<Rightarrow> clearing" where
  "clear_loop to_text skills limit [] s = s"
| "clear_loop to_text skills limit (i # is) s =
     (if \<exists>w \<in> set_option limit. transcript_tokens to_text (fst s) < w * fst CLEAR_DOWN_TO div snd CLEAR_DOWN_TO then s
      else clear_loop to_text skills limit is (clear_at to_text skills i s))"

definition clear_old_results ::
  "(json \<Rightarrow> string) \<Rightarrow> json list \<Rightarrow> result_store \<Rightarrow> disk \<Rightarrow> nat \<Rightarrow> nat option \<Rightarrow> clearing" where
  "clear_old_results to_text messages st d keep_recent limit =
     clear_loop to_text (skill_calls messages) limit (take (length (tool_at messages) - keep_recent) (tool_at messages))
       (messages, st, d, \<lparr>cl_count = 0, cl_tokens = 0\<rparr>)"

definition clearing_plan :: "db \<Rightarrow> nat option \<Rightarrow> nat \<Rightarrow> bool \<Rightarrow> (nat \<times> nat option) option" where
  "clearing_plan h limit tokens asked =
     (if autonomy_gate h ''context'' = RungOff then None
      else if asked then Some (KEEP_RECENT_RESULTS_ASKED, None)
      else (case limit of
              None \<Rightarrow> None
            | Some w \<Rightarrow> if w * fst CLEAR_ABOVE mod 2 ^ 64 div snd CLEAR_ABOVE < tokens then Some (KEEP_RECENT_RESULTS, Some w) else None))"

definition made_room_note :: "cleared \<Rightarrow> string" where
  "made_room_note c =
     ''I made room: I cleared '' @ show_nat (cl_count c) @ '' old result'' @ (if cl_count c = 1 then [] else ''s'')
     @ '' I no longer need word for word.''"

lemma tool_at_facts: "i \<in> set (tool_at ms) \<Longrightarrow> i < length ms \<and> str_at (ms ! i) ''role'' = Some ''tool''" "distinct (tool_at ms)"
  by (simp_all add: tool_at_def)

lemma call_id_put: "call_id_of (json_put m ''content'' x) = call_id_of m"
proof -
  have "json_get (json_put m ''content'' x) ''tool_call_id'' = json_get m ''tool_call_id''"
    by (cases m) (simp_all add: json_put_def json_get_def)
  then show ?thesis by (simp add: call_id_of_def str_at_def)
qed

text \<open>What a result stands for: its own text, or, where it is a preview, what the handle in it reads back.\<close>

definition whole_text :: "(path \<Rightarrow> string) \<Rightarrow> result_store \<times> disk \<Rightarrow> string \<Rightarrow> string + string" where
  "whole_text why sd content =
     (case existing_reference content of None \<Rightarrow> Inr content | Some r \<Rightarrow> read_kept why (fst sd) (snd sd) r)"

text \<open>What clearing did to one message: a stub in place of its long text, with the handle of its own call,
  which reads back all the message stood for before.\<close>

definition stubbed ::
  "(path \<Rightarrow> string) \<Rightarrow> string list \<Rightarrow> result_store \<times> disk \<Rightarrow> json \<Rightarrow> result_store \<times> disk \<Rightarrow> json \<Rightarrow> bool" where
  "stubbed why skills before m sd m' \<longleftrightarrow> (\<exists>content full. to_clear skills m = Some content
     \<and> m' = json_put m ''content'' (JString (cleared_stub (reference_for (call_id_of m))))
     \<and> whole_text why before content = Inr full
     \<and> read_kept why (fst sd) (snd sd) (reference_for (call_id_of m)) = Inr full)"

text \<open>A preview names the handle of its own call, and that handle can be read.\<close>

definition own_preview :: "(path \<Rightarrow> string) \<Rightarrow> string list \<Rightarrow> result_store \<times> disk \<Rightarrow> json \<Rightarrow> bool" where
  "own_preview why skills sd m \<longleftrightarrow>
     (case to_clear skills m of None \<Rightarrow> True
      | Some content \<Rightarrow>
          (case existing_reference content of None \<Rightarrow> True
           | Some r \<Rightarrow> r = reference_for (call_id_of m)
                 \<and> (case read_kept why (fst sd) (snd sd) r of Inl _ \<Rightarrow> False | Inr _ \<Rightarrow> True)))"

definition own_files :: "result_store \<Rightarrow> bool" where
  "own_files st \<longleftrightarrow> (\<forall>r p. rs_refs st r = Some p \<longrightarrow> p = result_file st r)"

lemma keep_forced_store:
  assumes "keep_forced st d c out = ((st', d'), x)"
  shows "own_files st \<Longrightarrow> own_files st'" "knows st r \<Longrightarrow> knows st' r"
proof -
  have "st' = st \<or> st' = st\<lparr>rs_refs := (rs_refs st)(reference_for c \<mapsto> result_file st (reference_for c)), rs_any := True\<rparr>"
    using assms by (auto simp: keep_forced_def Let_def split: option.splits)
  then show "own_files st \<Longrightarrow> own_files st'" "knows st r \<Longrightarrow> knows st' r"
    by (auto simp: own_files_def knows_def path_of_ref_def result_file_def split: if_splits)
qed

lemma reads_back_own: "own_files st \<Longrightarrow> reads_back why r body (st, d) \<longleftrightarrow> read_kept why st d r = Inr body"
  by (auto simp: reads_back_def read_kept_def path_of_ref_def own_files_def split: option.splits)

lemma reads_knows: "read_kept why st d r = Inr body \<Longrightarrow> knows st r"
  by (auto simp: read_kept_def knows_def split: option.splits)

lemma reference_of_store:
  assumes "reference_of st d c content = ((st', d'), x)" "own_files st"
  shows "own_files st'"
    "read_kept why st d r = Inr body \<Longrightarrow> r \<noteq> reference_for c \<Longrightarrow> read_kept why st' d' r = Inr body"
proof -
  have "(st' = st \<and> d' = d) \<or> keep_forced st d c content = ((st', d'), x)"
    using assms(1) by (auto simp: reference_of_def split: option.splits if_splits)
  then consider (known) "st' = st" "d' = d" | (kept) "keep_forced st d c content = ((st', d'), x)" by blast
  note cs = this
  show "own_files st'" using cs assms(2) keep_forced_store(1) by cases auto
  show "read_kept why st d r = Inr body \<Longrightarrow> r \<noteq> reference_for c \<Longrightarrow> read_kept why st' d' r = Inr body"
    using cs
  proof cases
    case kept
    assume r: "read_kept why st d r = Inr body" "r \<noteq> reference_for c"
    have "rs_refs st r = Some (result_file st r)"
      using reads_back_own[OF assms(2)] r(1) by (auto simp: reads_back_def)
    then show ?thesis using keep_forced_others[OF kept r(2) _ r(1)] by blast
  qed simp
qed

lemma reference_of_own:
  assumes "reference_of st d (call_id_of m) content = ((st', d'), Some q)"
    and "to_clear skills m = Some content" "own_preview why skills (st, d) m"
  shows "q = reference_for (call_id_of m)
    \<and> (\<exists>full. whole_text why (st, d) content = Inr full \<and> read_kept why st' d' q = Inr full)"
proof (cases "existing_reference content")
  case None
  then have "keep_forced st d (call_id_of m) content = ((st', d'), Some q)" using assms(1) by (simp add: reference_of_def)
  from keep_forced_reads[OF this, of why] None show ?thesis by (auto simp: whole_text_def)
next
  case (Some r)
  then obtain full where r: "r = reference_for (call_id_of m)" "read_kept why st d r = Inr full"
    using assms(2,3) by (auto simp: own_preview_def split: sum.splits)
  then have "((st', d'), Some q) = ((st, d), Some r)" using assms(1) Some reads_knows by (simp add: reference_of_def)
  then show ?thesis using r Some by (simp add: whole_text_def)
qed

text \<open>One clearing step, and then the whole loop: other messages stay, ids stay, what was readable stays
  readable.\<close>

definition handles_apart :: "json list \<Rightarrow> nat list \<Rightarrow> bool" where
  "handles_apart ms is \<longleftrightarrow> distinct (map (\<lambda>i. reference_for (call_id_of (ms ! i))) is)"

lemma clear_at_cases:
  assumes "clear_at to_text skills i (ms, st, d, out) = (ms', st', d', out')"
  obtains (kept) "ms' = ms" "st' = st" "d' = d"
  | (failed) content where "ms' = ms" "to_clear skills (ms ! i) = Some content"
      "reference_of st d (call_id_of (ms ! i)) content = ((st', d'), None)"
  | (stub) content q where "to_clear skills (ms ! i) = Some content"
      "reference_of st d (call_id_of (ms ! i)) content = ((st', d'), Some q)"
      "ms' = ms[i := json_put (ms ! i) ''content'' (JString (cleared_stub q))]"
proof (cases "to_clear skills (ms ! i)")
  case None
  then show ?thesis using assms by (intro kept) (simp_all add: clear_at_def)
next
  case (Some content)
  obtain st1 d1 x where r: "reference_of st d (call_id_of (ms ! i)) content = ((st1, d1), x)" by (metis prod.collapse)
  show ?thesis
  proof (cases x)
    case None
    then show ?thesis using assms Some r by (intro failed) (auto simp: clear_at_def)
  next
    case q: (Some q)
    then show ?thesis using assms Some r by (intro stub) (auto simp: clear_at_def Let_def)
  qed
qed

lemma clear_at_effect:
  assumes "clear_at to_text skills i (ms, st, d, out) = (ms', st', d', out')" "own_files st" "i < length ms"
    and "own_preview why skills (st, d) (ms ! i)"
  shows "ms' = ms[i := ms' ! i]" "call_id_of (ms' ! i) = call_id_of (ms ! i)" "own_files st'"
    "read_kept why st d r = Inr body \<Longrightarrow> r \<noteq> reference_for (call_id_of (ms ! i)) \<Longrightarrow> read_kept why st' d' r = Inr body"
    "ms' ! i = ms ! i \<or> stubbed why skills (st, d) (ms ! i) (st', d') (ms' ! i)"
proof -
  note cs = clear_at_cases[OF assms(1)]
  show "ms' = ms[i := ms' ! i]" using assms(3) by (cases rule: cs) simp_all
  show "call_id_of (ms' ! i) = call_id_of (ms ! i)" using assms(3) by (cases rule: cs) (simp_all add: call_id_put)
  show "own_files st'" using assms(2) reference_of_store(1)[OF _ assms(2)] by (cases rule: cs) blast+
  show "read_kept why st d r = Inr body \<Longrightarrow> r \<noteq> reference_for (call_id_of (ms ! i)) \<Longrightarrow> read_kept why st' d' r = Inr body"
    using reference_of_store(2)[OF _ assms(2)] by (cases rule: cs) blast+
  show "ms' ! i = ms ! i \<or> stubbed why skills (st, d) (ms ! i) (st', d') (ms' ! i)"
  proof (cases rule: cs)
    case (3 content q)
    from reference_of_own[OF 3(2,1) assms(4)] 3(1,3) assms(3) show ?thesis by (auto simp: stubbed_def)
  qed simp_all
qed

text \<open>What a message stands for is touched neither by its own step nor by a step on another.\<close>

lemma clear_at_whole:
  assumes "clear_at to_text skills i (ms, st, d, out) = (ms', st', d', out')"
    and "own_preview why skills (st, d) (ms ! i)" and "to_clear skills (ms ! i) = Some content"
  shows "whole_text why (st', d') content = whole_text why (st, d) content"
proof (cases "existing_reference content")
  case (Some r)
  then obtain full where "read_kept why st d r = Inr full"
    using assms(2,3) by (auto simp: own_preview_def split: sum.splits)
  then have "reference_of st d (call_id_of (ms ! i)) content = ((st, d), Some r)"
    using Some reads_knows by (simp add: reference_of_def)
  then have "st' = st" "d' = d" using assms(1,3) by (simp_all add: clear_at_def Let_def)
  then show ?thesis by simp
qed (simp add: whole_text_def)

lemma later_preview:
  assumes "own_preview why skills (st, d) m"
    and "\<And>body. read_kept why st d (reference_for (call_id_of m)) = Inr body
           \<Longrightarrow> read_kept why st' d' (reference_for (call_id_of m)) = Inr body"
  shows "own_preview why skills (st', d') m"
    and "\<And>content. to_clear skills m = Some content \<Longrightarrow> whole_text why (st', d') content = whole_text why (st, d) content"
  using assms by (auto simp: own_preview_def whole_text_def split: option.splits sum.splits)

lemma stubbed_stays:
  assumes "stubbed why skills before m (st, d) m'"
    and "\<And>body. read_kept why st d (reference_for (call_id_of m)) = Inr body \<Longrightarrow> read_kept why st' d' (reference_for (call_id_of m)) = Inr body"
  shows "stubbed why skills before m (st', d') m'"
  using assms unfolding stubbed_def by auto

lemma clear_loop_effect:
  assumes "clear_loop to_text skills limit is (ms, st, d, out) = (ms', st', d', out')" "own_files st"
    and "handles_apart ms is" "set is \<subseteq> {..< length ms}" "\<forall>i \<in> set is. own_preview why skills (st, d) (ms ! i)"
  shows "length ms' = length ms \<and> (\<forall>i. i \<notin> set is \<longrightarrow> ms' ! i = ms ! i)
    \<and> (\<forall>r body. read_kept why st d r = Inr body \<longrightarrow> r \<notin> (\<lambda>i. reference_for (call_id_of (ms ! i))) ` set is
         \<longrightarrow> read_kept why st' d' r = Inr body)
    \<and> (\<forall>i. ms' ! i = ms ! i \<or> stubbed why skills (st, d) (ms ! i) (st', d') (ms' ! i))
    \<and> (\<forall>i \<in> set is. \<forall>content. to_clear skills (ms ! i) = Some content
         \<longrightarrow> whole_text why (st', d') content = whole_text why (st, d) content)"
  using assms
proof (induction "is" arbitrary: ms st d out)
  case (Cons j js)
  show ?case
  proof (cases "\<exists>w \<in> set_option limit. transcript_tokens to_text ms < w * fst CLEAR_DOWN_TO div snd CLEAR_DOWN_TO")
    case True
    then have "ms' = ms" "st' = st" "d' = d" using Cons.prems(1) by simp_all
    then show ?thesis by blast
  next
    case False
    obtain ms1 st1 d1 out1 where one: "clear_at to_text skills j (ms, st, d, out) = (ms1, st1, d1, out1)" by (metis prod.collapse)
    have j: "j < length ms" "j \<notin> set js" using Cons.prems(3,4) by (auto simp: handles_apart_def)
    have rest: "clear_loop to_text skills limit js (ms1, st1, d1, out1) = (ms', st', d', out')"
      using Cons.prems(1) False one by (simp del: bex_simps)
    have oj: "own_preview why skills (st, d) (ms ! j)" using Cons.prems(5) by simp
    note e = clear_at_effect[OF one Cons.prems(2) j(1) oj]
    have ids: "call_id_of (ms1 ! i) = call_id_of (ms ! i)" "i \<noteq> j \<Longrightarrow> ms1 ! i = ms ! i" for i
      using e(2) arg_cong[OF e(1), of "\<lambda>l. l ! i"] by (cases "i = j"; simp)+
    have len: "length ms1 = length ms" using arg_cong[OF e(1), of length] by simp
    have apart: "handles_apart ms1 js" using Cons.prems(3) by (simp add: handles_apart_def ids(1))
    have sub: "set js \<subseteq> {..< length ms1}" using Cons.prems(4) len by simp
    have later: "own_preview why skills (st1, d1) (ms ! i)"
      "to_clear skills (ms ! i) = Some content \<Longrightarrow> whole_text why (st1, d1) content = whole_text why (st, d) content"
      if "i \<in> set js" for i content
    proof -
      have "reference_for (call_id_of (ms ! i)) \<noteq> reference_for (call_id_of (ms ! j))"
      proof
        assume "reference_for (call_id_of (ms ! i)) = reference_for (call_id_of (ms ! j))"
        then have "reference_for (call_id_of (ms ! j)) \<in> (\<lambda>i. reference_for (call_id_of (ms ! i))) ` set js"
          using that by (metis image_eqI)
        then show False using Cons.prems(3) by (simp add: handles_apart_def)
      qed
      then have k: "read_kept why st1 d1 (reference_for (call_id_of (ms ! i))) = Inr body"
        if "read_kept why st d (reference_for (call_id_of (ms ! i))) = Inr body" for body using e(4)[OF that] by simp
      have oi: "own_preview why skills (st, d) (ms ! i)" using Cons.prems(5) that by simp
      show "own_preview why skills (st1, d1) (ms ! i)"
        "to_clear skills (ms ! i) = Some content \<Longrightarrow> whole_text why (st1, d1) content = whole_text why (st, d) content"
        using later_preview[OF oi k] by blast+
    qed
    have "\<forall>i \<in> set js. own_preview why skills (st1, d1) (ms1 ! i)" using later(1) ids(2) j(2) by metis
    note ih = Cons.IH[OF rest e(3) apart sub this]
    have rd: "read_kept why st' d' r = Inr body"
      if "read_kept why st d r = Inr body" "r \<notin> (\<lambda>i. reference_for (call_id_of (ms ! i))) ` set (j # js)" for r body
      using that e(4)[OF that(1)] ih by (simp add: ids(1))
    have st: "ms' ! i = ms ! i \<or> stubbed why skills (st, d) (ms ! i) (st', d') (ms' ! i)" for i
    proof (cases "i = j")
      case True
      then have same: "ms' ! i = ms1 ! i" using ih j(2) by blast
      have free: "reference_for (call_id_of (ms ! j)) \<notin> (\<lambda>i. reference_for (call_id_of (ms ! i))) ` set js"
        using Cons.prems(3) by (simp add: handles_apart_def)
      have "stubbed why skills (st, d) (ms ! j) (st1, d1) (ms1 ! j) \<Longrightarrow> stubbed why skills (st, d) (ms ! j) (st', d') (ms1 ! j)"
        by (erule stubbed_stays) (use ih free in \<open>auto simp: ids(1)\<close>)
      then show ?thesis using e(5) same True by metis
    next
      case False
      show ?thesis
      proof (cases "i \<in> set js")
        case True
        then have "stubbed why skills (st1, d1) (ms ! i) (st', d') (ms' ! i) \<Longrightarrow> stubbed why skills (st, d) (ms ! i) (st', d') (ms' ! i)"
          using later(2) unfolding stubbed_def by fastforce
        then show ?thesis using ih ids(2)[OF False] by metis
      qed (use ih ids(2)[OF False] in metis)
    qed
    have whole: "whole_text why (st', d') content = whole_text why (st, d) content"
      if i: "i \<in> set (j # js)" and c: "to_clear skills (ms ! i) = Some content" for i content
    proof (cases "i = j")
      case True
      have free: "reference_for (call_id_of (ms ! j)) \<notin> (\<lambda>i. reference_for (call_id_of (ms ! i))) ` set js"
        using Cons.prems(3) by (simp add: handles_apart_def)
      have here: "whole_text why (st1, d1) content = whole_text why (st, d) content"
        using clear_at_whole[OF one oj] c True by simp
      have r: "read_kept why st' d' r = Inr full" if "existing_reference content = Some r" "read_kept why st1 d1 r = Inr full" for r full
      proof -
        have "r = reference_for (call_id_of (ms ! j))" using oj that(1) c True by (simp add: own_preview_def)
        then show ?thesis using ih free that(2) by (auto simp: ids(1))
      qed
      obtain full where "whole_text why (st, d) content = Inr full"
        using oj c True by (auto simp: own_preview_def whole_text_def split: option.splits sum.splits)
      then show ?thesis using here r by (auto simp: whole_text_def split: option.splits)
    next
      case False
      then show ?thesis using ih later(2) ids(2)[OF False] i c by auto
    qed
    show ?thesis using ih len ids(2) rd st whole by auto
  qed
qed simp

subsection \<open>The preview of a kept result\<close>

lemma strip_prefix_within: "strip_prefix p (ys @ d # zs) = Some r \<Longrightarrow> d \<notin> set p \<Longrightarrow> strip_prefix p ys \<noteq> None"
proof (induction p ys rule: strip_prefix.induct)
  case (2 p ps)
  then show ?case by (auto split: if_splits)
next
  case (3 p ps c s)
  then show ?case by (auto split: if_splits)
qed simp

lemma split_once_past:
  "split_once sep xs = None \<Longrightarrow> d \<notin> set sep \<Longrightarrow>
   split_once sep (xs @ d # zs) = map_option (\<lambda>(a, b). (xs @ d # a, b)) (split_once sep zs)"
proof (induction xs)
  case Nil
  then have "strip_prefix sep (d # zs) = None" by (cases sep) auto
  then show ?case by simp
next
  case (Cons x xs)
  then have n: "strip_prefix sep (x # xs) = None" "split_once sep xs = None" by (auto split: option.splits)
  then have "strip_prefix sep ((x # xs) @ d # zs) = None" using strip_prefix_within[of sep "x # xs" d zs] Cons.prems(2) by fastforce
  then show ?case using Cons.IH[OF n(2) Cons.prems(2)] by (auto simp: option.map_comp comp_def split_beta)
qed

lemma split_once_without:
  "c \<notin> set xs \<Longrightarrow> split_once (c # cs) (xs @ ys) = map_option (\<lambda>(a, b). (xs @ a, b)) (split_once (c # cs) ys)"
proof (induction xs)
  case (Cons x xs)
  then show ?case by (auto simp: option.map_comp comp_def split_beta)
qed (simp add: option.map_id)

lemma split_once_at_mark: "split_once (c # cs) ((c # cs) @ ys) = Some ([], ys)"
proof -
  have "strip_prefix (c # cs) ((c # cs) @ ys) = Some ys" by (simp add: strip_prefix_iff)
  then show ?thesis by simp
qed

lemma human_size_plain: "c \<in> set (human_size n) \<Longrightarrow> c \<notin> {CHR ''['', CHR 34}"
  by (auto simp: human_size_def Let_def is_ascii_digit_def split: if_splits dest!: show_nat_digits)

lemma hd_split_on: "x \<notin> set r \<Longrightarrow> hd (split_on x (r @ x # ys)) = r"
  by (simp add: split_on_append)

text \<open>The preview of a kept result names its handle to the clearing, unless what it shows of the result
  has a preview in it.\<close>

lemma preview_names_its_handle:
  assumes "split_once ''[truncated:'' (clip_bytes output PREVIEW) = None"
    and "CHR 34 \<notin> set r" "CHR ''['' \<notin> set r" "starts_with r ''res_''"
  shows "existing_reference (preview_for r output @ rest) = Some r"
proof -
  let ?Q = "''[truncated:''" and ?R = "[CHR 34] @ ''ref'' @ [CHR 34] @ '': '' @ [CHR 34]"
  define A where "A = '' '' @ human_size (length output) @ '' total. Use read_result {''"
  obtain U where p: "preview_for r output @ rest
      = clip_bytes output PREVIEW @ CHR 0x0A # [] @ CHR 0x0A # ?Q @ (A @ ?R @ r @ [CHR 34, CHR '','']) @ U"
    by (simp add: preview_for_def A_def) 
  have A: "CHR ''['' \<notin> set (A @ ?R @ r @ [CHR 34, CHR '',''])" "CHR 34 \<notin> set A"
    using assms(3) by (auto simp: A_def dest!: human_size_plain)
  obtain U' where Q: "second_piece ?Q (preview_for r output @ rest) = Some ((A @ ?R @ r @ [CHR 34, CHR '','']) @ U')"
  proof -
    have n: "CHR 0x0A \<notin> set ?Q" by simp
    let ?T = "(A @ ?R @ r @ [CHR 34, CHR '','']) @ U"
    have "split_once ?Q (CHR 0x0A # ?Q @ ?T) = Some ([CHR 0x0A], ?T)"
      using split_once_past[of ?Q "[]" "CHR 0x0A" "?Q @ ?T"] split_once_at_mark[of "CHR ''[''" "''truncated:''" ?T] n by simp
    then have "split_once ?Q (preview_for r output @ rest) = Some (clip_bytes output PREVIEW @ [CHR 0x0A, CHR 0x0A], ?T)"
      using split_once_past[OF assms(1) n, of "CHR 0x0A # ?Q @ ?T"] unfolding p by simp
    then have p2: "second_piece ?Q (preview_for r output @ rest) = Some (case split_once ?Q ?T of None \<Rightarrow> ?T | Some (a, _) \<Rightarrow> a)"
      by (simp only: second_piece_def option.map prod.case)
    have t: "split_once ?Q ?T = map_option (\<lambda>(a, b). ((A @ ?R @ r @ [CHR 34, CHR '','']) @ a, b)) (split_once ?Q U)"
      using split_once_without[OF A(1), of "''truncated:''" U] by (simp only:)
    show thesis
    proof (cases "split_once ?Q U")
      case None
      then show thesis using that[of U] p2 unfolding t by (simp only: option.map option.case)
    next
      case (Some x)
      then show thesis using that[of "fst x"] p2 unfolding t by (simp only: option.map option.case split_beta fst_conv)
    qed
  qed
  let ?W = "r @ CHR 34 # CHR '','' # U'"
  have one: "split_once ?R (A @ ?R @ ?W) = Some (A, ?W)"
    using split_once_without[OF A(2), of "tl ?R" "?R @ ?W"] split_once_at_mark[of "CHR 34" "tl ?R" ?W] by simp
  have two: "split_once ?R ?W = None \<or> (\<exists>a b. split_once ?R ?W = Some (r @ CHR 34 # a, b))"
    using split_once_without[OF assms(2), of "tl ?R" "CHR 34 # CHR '','' # U'"]
    by (cases "split_once ?R U'") auto
  obtain a where R: "second_piece ?R ((A @ ?R @ r @ [CHR 34, CHR '','']) @ U') = Some (r @ CHR 34 # a)"
  proof -
    have "(A @ ?R @ r @ [CHR 34, CHR '','']) @ U' = A @ ?R @ ?W" by simp
    then show thesis using that one two by (auto simp: second_piece_def)
  qed
  show ?thesis
    unfolding existing_reference_def Q Option.bind.simps R Let_def hd_split_on[OF assms(2)] using assms(4) by simp
qed

lemma reference_for_plain: "CHR ''['' \<notin> set (reference_for call_id)" "CHR 34 \<notin> set (reference_for call_id)"
  "starts_with (reference_for call_id) ''res_''"
  by (auto simp: reference_for_def starts_with_def is_ascii_alnum_def is_ascii_alphabetic_def is_ascii_digit_def
      dest!: in_set_takeD)

text \<open>So what \<open>keep\<close> puts in place of a big result is a preview of the own call, whatever is added to it.\<close>

lemma kept_result_is_own_preview:
  assumes "keep st d call_id output = ((st', d'), Some (r, shown))"
    and "split_once ''[truncated:'' (clip_bytes output PREVIEW) = None"
  shows "own_preview why skills (st', d') (tool_result_message call_id (shown @ rest))"
proof -
  have f: "keep_forced st d call_id output = ((st', d'), Some r)" "shown = preview_for r output"
    using assms(1) by (auto simp: keep_is_forced prod_eq_iff split: if_splits)
  note k = keep_forced_reads[OF f(1), of why]
  have "existing_reference (shown @ rest) = Some r"
    unfolding f(2) using k reference_for_plain[of call_id] by (intro preview_names_its_handle assms(2)) auto
  moreover have "to_clear skills (tool_result_message call_id (shown @ rest)) = Some content \<Longrightarrow> content = shown @ rest" for content
    by (auto simp: to_clear_def tool_result_message_def str_at_def json_str_def split: if_splits)
  moreover have "call_id_of (tool_result_message call_id t) = call_id" for t
    by (simp add: call_id_of_def tool_result_message_def str_at_def json_str_def or_str_def)
  ultimately show ?thesis using k by (auto simp: own_preview_def split: option.split)
qed

text \<open>C38: Clearing keeps every message in its place, and all but the old results of tools stay exactly as
  they were, the newest ones among them.  A result that goes was long, no loaded skill and not cleared
  before, and the stub in its place names the handle of its own call, which now reads back the whole
  text: what the message held, or, where that was a preview, all that the preview's handle read
  back before.  What a result stood for that was left alone can
  be had as before, and every other handle of the run reads what it read.  This needs call ids with different
  handles, and previews that name the handle of their own call, as those of \<open>keep\<close> do
  (\<open>kept_result_is_own_preview\<close>): a result that quotes another preview loses its text
  (\<open>quoted_handle_loses_the_result\<close>, \<open>quoted_unknown_handle_is_overwritten\<close>).\<close>
theorem clearing_loses_nothing:
  assumes "clear_old_results to_text ms st d keep_recent limit = (ms', st', d', out)"
    and "own_files st" and "handles_apart ms (tool_at ms)"
    and "\<forall>i \<in> set (tool_at ms). own_preview why (skill_calls ms) (st, d) (ms ! i)"
  shows "length ms' = length ms \<and>
    (\<forall>i < length ms. ms' ! i = ms ! i \<or>
       i \<in> set (take (length (tool_at ms) - keep_recent) (tool_at ms))
       \<and> stubbed why (skill_calls ms) (st, d) (ms ! i) (st', d') (ms' ! i)) \<and>
    (\<forall>r body. read_kept why st d r = Inr body
       \<longrightarrow> r \<notin> (\<lambda>i. reference_for (call_id_of (ms ! i))) ` set (take (length (tool_at ms) - keep_recent) (tool_at ms))
       \<longrightarrow> read_kept why st' d' r = Inr body) \<and>
    (\<forall>i \<in> set (tool_at ms). \<forall>content. to_clear (skill_calls ms) (ms ! i) = Some content
       \<longrightarrow> whole_text why (st', d') content = whole_text why (st, d) content)"
proof -
  let ?is = "take (length (tool_at ms) - keep_recent) (tool_at ms)"
  have "handles_apart ms ?is" using assms(3) by (simp add: handles_apart_def take_map[symmetric] distinct_take)
  moreover have "set ?is \<subseteq> {..< length ms}" using tool_at_facts(1) by (blast dest: in_set_takeD)
  moreover have "\<forall>i \<in> set ?is. own_preview why (skill_calls ms) (st, d) (ms ! i)" using assms(4) by (blast dest: in_set_takeD)
  ultimately have e: "length ms' = length ms" "\<And>i. i \<notin> set ?is \<Longrightarrow> ms' ! i = ms ! i"
    "\<And>r body. read_kept why st d r = Inr body \<Longrightarrow> r \<notin> (\<lambda>i. reference_for (call_id_of (ms ! i))) ` set ?is
        \<Longrightarrow> read_kept why st' d' r = Inr body"
    "\<And>i. ms' ! i = ms ! i \<or> stubbed why (skill_calls ms) (st, d) (ms ! i) (st', d') (ms' ! i)"
    "\<And>i content. i \<in> set ?is \<Longrightarrow> to_clear (skill_calls ms) (ms ! i) = Some content
        \<Longrightarrow> whole_text why (st', d') content = whole_text why (st, d) content"
    using clear_loop_effect[OF assms(1)[unfolded clear_old_results_def] assms(2)] by blast+
  have "whole_text why (st', d') content = whole_text why (st, d) content"
    if i: "i \<in> set (tool_at ms)" and c: "to_clear (skill_calls ms) (ms ! i) = Some content" for i content
  proof (cases "i \<in> set ?is")
    case False
    have "reference_for (call_id_of (ms ! i)) \<notin> (\<lambda>i. reference_for (call_id_of (ms ! i))) ` set ?is"
    proof
      assume "reference_for (call_id_of (ms ! i)) \<in> (\<lambda>i. reference_for (call_id_of (ms ! i))) ` set ?is"
      then obtain j where j: "j \<in> set ?is" "reference_for (call_id_of (ms ! i)) = reference_for (call_id_of (ms ! j))" by blast
      then have "j \<in> set (tool_at ms)" by (blast dest: in_set_takeD)
      then have "i = j" using assms(3) i j(2) by (auto simp: handles_apart_def distinct_map dest: inj_onD)
      then show False using False j(1) by simp
    qed
    then show ?thesis using later_preview(2)[OF _ _ c, of why st d st' d'] assms(4) i e(3) by blast
  qed (use e(5) c in blast)
  then show ?thesis using e(1,2,3,4) by blast
qed

lemma utf8_chars_ascii: "list_all is_char_start s \<Longrightarrow> length (utf8_chars s) = length s"
proof (induction s)
  case (Cons c s)
  then have "utf8_rest s = ([], s)" by (cases s) auto
  then show ?case using Cons by simp
qed simp

lemma split_once_replicate: "b \<noteq> c \<Longrightarrow> split_once (b # bs) (replicate n c) = None"
  by (induction n) auto

lemma long_output_Cons: "long_output = CHR ''x'' # replicate 8192 (CHR ''x'')"
  unfolding long_output_def replicate_Suc[symmetric] by simp

definition sample_result :: json where "sample_result = tool_result_message ''call_1'' long_output"

lemma sample_is_cleared:
  "\<exists>st d. clear_old_results to_text [sample_result] sample_store empty_disk 0 None
     = ([tool_result_message ''call_1'' (cleared_stub ''res_1llac'')], st, d,
        \<lparr>cl_count = 1, cl_tokens = transcript_tokens to_text [sample_result]
           - transcript_tokens to_text [tool_result_message ''call_1'' (cleared_stub ''res_1llac'')]\<rparr>)"
proof -
  obtain st d where "keep sample_store empty_disk ''call_1'' long_output = ((st, d), Some (''res_1llac'', preview_for ''res_1llac'' long_output))"
    using keeps_long_output by force
  then have forced: "keep_forced sample_store empty_disk ''call_1'' long_output = ((st, d), Some ''res_1llac'')"
    by (auto simp: keep_is_forced prod_eq_iff split: if_splits)
  have none: "existing_reference long_output = None"
    by (simp add: existing_reference_def second_piece_def long_output_def split_once_replicate)
  have "length (utf8_chars long_output) = 8193"
    by (simp add: utf8_chars_ascii long_output_def is_char_start_def list_all_iff)
  moreover have "\<not> starts_with long_output CLEARED_MARK"
    by (simp add: starts_with_def long_output_Cons CLEARED_MARK_def)
  moreover have fields: "str_at sample_result ''content'' = Some long_output" "call_id_of sample_result = ''call_1''"
      "str_at sample_result ''role'' = Some ''tool''" "calls_of sample_result = []"
    by (simp_all add: sample_result_def tool_result_message_def str_at_def json_str_def call_id_of_def or_str_def
        calls_of_def list_at_def)
  ultimately have clear: "to_clear [] sample_result = Some long_output"
    by (simp add: to_clear_def CLEAR_MIN_CHARS_def)
  have "json_put sample_result ''content'' (JString t) = tool_result_message ''call_1'' t" for t
    by (simp add: sample_result_def tool_result_message_def json_put_def)
  moreover have "reference_of sample_store empty_disk ''call_1'' long_output = ((st, d), Some ''res_1llac'')"
    by (simp add: reference_of_def none forced)
  ultimately have "clear_at to_text [] 0 ([sample_result], sample_store, empty_disk, \<lparr>cl_count = 0, cl_tokens = 0\<rparr>)
     = ([tool_result_message ''call_1'' (cleared_stub ''res_1llac'')], st, d,
        \<lparr>cl_count = 1, cl_tokens = transcript_tokens to_text [sample_result]
           - transcript_tokens to_text [tool_result_message ''call_1'' (cleared_stub ''res_1llac'')]\<rparr>)"
    using clear fields(2) by (simp add: clear_at_def Let_def)
  moreover have "skill_calls [sample_result] = []" "tool_at [sample_result] = [0]"
    by (simp_all add: skill_calls_def fields tool_at_def map_filter_def)
  ultimately show ?thesis by (simp add: clear_old_results_def)
qed

lemma sample_no_preview: "to_clear skills sample_result = Some content \<Longrightarrow> existing_reference content = None"
  by (auto simp: to_clear_def sample_result_def tool_result_message_def str_at_def json_str_def
      existing_reference_def second_piece_def long_output_def split_once_replicate split: if_splits)

theorem clearing_loses_nothing_witness:
  "\<exists>ms' st d. ms' \<noteq> [sample_result] \<and> length ms' = 1 \<and> stubbed (\<lambda>_. []) [] (sample_store, empty_disk) sample_result (st, d) (ms' ! 0)"
proof -
  obtain st d out where run: "clear_old_results (\<lambda>_. []) [sample_result] sample_store empty_disk 0 None
      = ([tool_result_message ''call_1'' (cleared_stub ''res_1llac'')], st, d, out)" using sample_is_cleared by metis
  have own: "own_files sample_store" by (simp add: own_files_def sample_store_def new_result_store_def)
  have "tool_at [sample_result] = [0]" "skill_calls [sample_result] = []"
    by (simp_all add: tool_at_def sample_result_def tool_result_message_def str_at_def json_str_def skill_calls_def
        calls_of_def list_at_def map_filter_def)
  moreover have "tool_result_message ''call_1'' (cleared_stub ''res_1llac'') \<noteq> sample_result"
    by (simp add: tool_result_message_def sample_result_def cleared_stub_def CLEARED_MARK_def long_output_Cons)
  moreover from calculation have apart: "handles_apart [sample_result] (tool_at [sample_result])" by (simp add: handles_apart_def)
  moreover have "\<forall>i \<in> set (tool_at [sample_result]).
      own_preview (\<lambda>_. []) (skill_calls [sample_result]) (sample_store, empty_disk) ([sample_result] ! i)"
    using \<open>tool_at [sample_result] = [0]\<close> \<open>skill_calls [sample_result] = []\<close> sample_no_preview
    by (auto simp: own_preview_def split: option.split)
  ultimately show ?thesis using clearing_loses_nothing[OF run own apart, of "\<lambda>_. []"]
    by (intro exI[of _ "[tool_result_message ''call_1'' (cleared_stub ''res_1llac'')]"] exI[of _ st] exI[of _ d]) simp
qed

text \<open>A long result that quotes the preview of another kept result is taken for that preview: the stub
  names the other handle, and its own text was not kept.\<close>

definition quoting :: string where
  "quoting = ''[truncated: '' @ [CHR 34] @ ''ref'' @ [CHR 34] @ '': '' @ [CHR 34] @ ''res_abc'' @ [CHR 34] @ CHR ''x'' # replicate 1000 (CHR ''x'')"

theorem quoted_handle_loses_the_result:
  assumes "knows st ''res_abc''"
  shows "\<exists>out'. clear_at to_text [] 0 ([tool_result_message c quoting], st, d, out)
    = ([tool_result_message c (cleared_stub ''res_abc'')], st, d, out')"
proof -
  let ?x = "CHR ''x'' # replicate 1000 (CHR ''x'')"
  have q: "split_on (CHR 34) (''res_abc'' @ [CHR 34] @ ?x) = [''res_abc'', ?x]"
    using split_on_append[of "CHR 34" "''res_abc''" ?x] split_on_none[of "CHR 34" ?x]
    by (simp del: split_on.simps)
  have "second_piece ''[truncated:'' quoting = Some ('' '' @ [CHR 34] @ ''ref'' @ [CHR 34] @ '': '' @ [CHR 34] @ ''res_abc'' @ [CHR 34] @ ?x)"
    by (simp add: second_piece_def quoting_def split_once_replicate)
  moreover have "second_piece ([CHR 34] @ ''ref'' @ [CHR 34] @ '': '' @ [CHR 34]) ('' '' @ [CHR 34] @ ''ref'' @ [CHR 34] @ '': '' @ [CHR 34] @ ''res_abc'' @ [CHR 34] @ ?x)
      = Some (''res_abc'' @ [CHR 34] @ ?x)"
    by (simp add: second_piece_def split_once_replicate)
  ultimately have ref: "existing_reference quoting = Some ''res_abc''"
    using q by (simp add: existing_reference_def starts_with_def del: split_on.simps)
  have "list_all is_char_start quoting" by (simp add: quoting_def is_char_start_def list_all_iff)
  then have "length (utf8_chars quoting) > 1000" by (simp add: utf8_chars_ascii) (simp add: quoting_def)
  moreover have "\<not> starts_with quoting CLEARED_MARK" by (simp add: starts_with_def quoting_def CLEARED_MARK_def)
  ultimately have clear: "to_clear [] (tool_result_message c quoting) = Some quoting"
    by (simp add: to_clear_def CLEAR_MIN_CHARS_def tool_result_message_def str_at_def json_str_def)
  have put: "json_put (tool_result_message c quoting) ''content'' (JString t) = tool_result_message c t" for t
    by (simp add: tool_result_message_def json_put_def)
  have "reference_of st d x quoting = ((st, d), Some ''res_abc'')" for x
    using ref assms by (simp add: reference_of_def)
  then show ?thesis using clear by (simp add: clear_at_def put Let_def)
qed

text \<open>And one that names a handle the run does not know is kept in place of what its own handle had: when a
  preview shows such a name in its first bytes, the whole text behind it is overwritten by the preview.\<close>

theorem quoted_unknown_handle_is_overwritten:
  assumes "existing_reference preview = Some other" and "\<not> knows st other"
    and "reference_of st d call_id preview = ((st', d'), Some r)"
  shows "r = reference_for call_id \<and> read_kept why st' d' (reference_for call_id) = Inr preview"
proof -
  have "keep_forced st d call_id preview = ((st', d'), Some r)" using assms by (simp add: reference_of_def)
  from keep_forced_reads[OF this] show ?thesis by blast
qed

end
