(* ===== verification/Toolsets.thy ===== *)
theory Toolsets imports Transcript Connector_Gate File_Access Fleet begin

text \<open>
  The tools of a run: the built-in toolsets with their switches (\<open>agent/toolsets.rs\<close>), what a model
  can carry (\<open>agent/tier.rs\<close>) and the registry of one run (\<open>agent/run.rs\<close>).  The schemas of the tools
  are texts for the model and come as an argument, as do the skills found on disk and the tools of
  connected servers.
\<close>

section \<open>Toolsets\<close>

datatype toolset =
    TsFileSystem | TsWebSearch | TsCodeExec | TsArtifacts | TsImageGen | TsPresent | TsRecall | TsMemory
  | TsIndexing | TsMail | TsSkills | TsBrowser | TsSystem | TsSubagents | TsCodeRun | TsDecide

definition ALL_TOOLSETS :: "toolset list" where
  "ALL_TOOLSETS = [TsFileSystem, TsWebSearch, TsCodeExec, TsCodeRun, TsArtifacts, TsImageGen, TsPresent, TsRecall,
     TsMemory, TsIndexing, TsMail, TsSkills, TsBrowser, TsSystem, TsSubagents, TsDecide]"

primrec toolset_id :: "toolset \<Rightarrow> string" where
  "toolset_id TsFileSystem = ''filesystem''"
| "toolset_id TsWebSearch = ''web_search''"
| "toolset_id TsCodeExec = ''code_exec''"
| "toolset_id TsArtifacts = ''artifacts''"
| "toolset_id TsImageGen = ''image_gen''"
| "toolset_id TsPresent = ''present''"
| "toolset_id TsRecall = ''recall''"
| "toolset_id TsMemory = ''memory''"
| "toolset_id TsIndexing = ''indexing''"
| "toolset_id TsMail = ''mail''"
| "toolset_id TsSkills = ''skills''"
| "toolset_id TsBrowser = ''browser''"
| "toolset_id TsSystem = ''system''"
| "toolset_id TsSubagents = ''subagents''"
| "toolset_id TsCodeRun = ''code_run''"
| "toolset_id TsDecide = ''decide''"

definition toolset_from_id :: "string \<Rightarrow> toolset option" where
  "toolset_from_id i = List.find (\<lambda>s. toolset_id s = i) ALL_TOOLSETS"

primrec toolset_label :: "toolset \<Rightarrow> string" where
  "toolset_label TsFileSystem = ''File access''"
| "toolset_label TsWebSearch = ''Web search''"
| "toolset_label TsCodeExec = ''Code execution''"
| "toolset_label TsArtifacts = ''Artifacts''"
| "toolset_label TsImageGen = ''Image generation''"
| "toolset_label TsPresent = ''Workspace UI''"
| "toolset_label TsRecall = ''Recall''"
| "toolset_label TsMemory = ''Memory''"
| "toolset_label TsIndexing = ''Folder reading''"
| "toolset_label TsMail = ''Mail''"
| "toolset_label TsSkills = ''Skills''"
| "toolset_label TsBrowser = ''Browser''"
| "toolset_label TsSystem = ''Screen & apps''"
| "toolset_label TsSubagents = ''Delegation''"
| "toolset_label TsCodeRun = ''Run project tasks''"
| "toolset_label TsDecide = ''Sort many items''"

definition toolset_sensitive :: "toolset \<Rightarrow> bool" where
  "toolset_sensitive s \<longleftrightarrow> s \<in> {TsWebSearch, TsCodeExec, TsCodeRun, TsMail, TsBrowser, TsSystem}"

definition default_enabled :: "toolset \<Rightarrow> bool" where
  "default_enabled s \<longleftrightarrow> s \<in> {TsFileSystem, TsArtifacts, TsPresent, TsRecall, TsMemory, TsIndexing, TsSkills,
     TsSubagents, TsDecide}"

definition toolset_key :: "toolset \<Rightarrow> string" where
  "toolset_key s = ''toolset.'' @ toolset_id s @ ''.enabled''"

definition toolset_on :: "db \<Rightarrow> toolset \<Rightarrow> bool" where
  "toolset_on h s =
     (case get_setting h (toolset_key s) of
        Some v \<Rightarrow> v = ''true'' \<or> v = ''1''
      | None \<Rightarrow> default_enabled s)"

text \<open>What is set up on the machine: the mail accounts (their switches), an image backend, the fast and
  slow experiment, a decision model on disk or in the cloud.\<close>

record tool_setup =
  su_mail :: "db_error + bool list"
  su_image :: bool
  su_fast_slow :: bool
  su_decide_file :: bool
  su_decide_cloud :: bool

definition toolset_ready :: "tool_setup \<Rightarrow> toolset \<Rightarrow> bool" where
  "toolset_ready u s =
     (case s of
        TsMail \<Rightarrow> (case su_mail u of Inl _ \<Rightarrow> True | Inr accounts \<Rightarrow> list_ex id accounts)
      | TsImageGen \<Rightarrow> su_image u
      | TsDecide \<Rightarrow> su_fast_slow u \<and> (su_decide_file u \<or> su_decide_cloud u)
      | _ \<Rightarrow> True)"

definition set_toolset :: "toolset \<Rightarrow> db \<Rightarrow> bool \<Rightarrow> db" where
  "set_toolset s h on = put_setting h (toolset_key s) (if on then ''true'' else ''false'')"

primrec toolset_needs :: "toolset \<Rightarrow> string" where
  "toolset_needs TsFileSystem = []"
| "toolset_needs TsWebSearch = []"
| "toolset_needs TsCodeExec = []"
| "toolset_needs TsArtifacts = []"
| "toolset_needs TsImageGen = ''I can't use this yet. Set up image generation in Models '' @ right_arrow
     @ '' Image, or connect an account in Providers.''"
| "toolset_needs TsPresent = []"
| "toolset_needs TsRecall = []"
| "toolset_needs TsMemory = []"
| "toolset_needs TsIndexing = []"
| "toolset_needs TsMail = ''I can't use this yet. Add a mail account in Settings '' @ right_arrow @ '' Mail.''"
| "toolset_needs TsSkills = []"
| "toolset_needs TsBrowser = []"
| "toolset_needs TsSystem = []"
| "toolset_needs TsSubagents = []"
| "toolset_needs TsCodeRun = []"
| "toolset_needs TsDecide = ''I can't use this yet. Turn on Fast & slow thinking in Settings '' @ right_arrow
     @ '' Experiments and install the decision model in Models.''"

record toolset_info =
  ti_id :: string
  ti_label :: string
  ti_enabled :: bool
  ti_sensitive :: bool
  ti_needs :: "string option"

definition toolset_info_of :: "tool_setup \<Rightarrow> db \<Rightarrow> toolset \<Rightarrow> toolset_info" where
  "toolset_info_of u h s =
     \<lparr>ti_id = toolset_id s, ti_label = toolset_label s, ti_enabled = toolset_on h s, ti_sensitive = toolset_sensitive s,
      ti_needs = (if toolset_on h s \<and> \<not> toolset_ready u s then Some (toolset_needs s) else None)\<rparr>"

text \<open>The tools of each set, as their modules name them.\<close>

definition websearch_handles :: "string \<Rightarrow> bool" where
  "websearch_handles name \<longleftrightarrow> name = ''web_search'' \<or> name = ''fetch_url''"

definition codeexec_handles :: "string \<Rightarrow> bool" where
  "codeexec_handles name \<longleftrightarrow> name = ''run_code''"

definition artifacts_handles :: "string \<Rightarrow> bool" where
  "artifacts_handles name \<longleftrightarrow> name \<in> {''create_artifact'', ''read_artifact'', ''update_artifact'', ''check_preview''}"

definition imagegen_handles :: "string \<Rightarrow> bool" where
  "imagegen_handles name \<longleftrightarrow> name = ''generate_image''"

definition present_handles :: "string \<Rightarrow> bool" where
  "present_handles name \<longleftrightarrow> name = ''remember'' \<or> name = ''render_ui''"

definition recall_handles :: "string \<Rightarrow> bool" where
  "recall_handles name \<longleftrightarrow> name = ''search_history'' \<or> name = ''read_conversation''"

definition memory_skill_handles :: "string \<Rightarrow> bool" where
  "memory_skill_handles name \<longleftrightarrow> name = ''memory'' \<or> name = ''propose_soul_edit''"

definition retrieval_handles :: "string \<Rightarrow> bool" where
  "retrieval_handles name \<longleftrightarrow> name = ''search_folder'' \<or> name = ''find_similar''"

definition mail_handles :: "string \<Rightarrow> bool" where
  "mail_handles name \<longleftrightarrow> name \<in> {''list_mail'', ''search_mail'', ''read_mail'', ''send_mail'', ''reply_mail''}"

definition skillpack_handles :: "string \<Rightarrow> bool" where
  "skillpack_handles name \<longleftrightarrow> name \<in> {''skill'', ''propose_skill'', ''propose_project_instructions''}"

definition browser_handles :: "string \<Rightarrow> bool" where
  "browser_handles name \<longleftrightarrow> name \<in> {''browse'', ''browser_click'', ''browser_type'', ''browser_press'', ''browser_scroll'',
     ''browser_read'', ''browser_screenshot''}"

definition screen_handles :: "string \<Rightarrow> bool" where
  "screen_handles name \<longleftrightarrow> name = ''screenshot'' \<or> name = ''open_app''"

definition subagents_handles :: "string \<Rightarrow> bool" where
  "subagents_handles name \<longleftrightarrow> name \<in> {''delegate'', ''check_agents'', ''collect_agents''}"

definition coderun_handles :: "string \<Rightarrow> bool" where
  "coderun_handles name \<longleftrightarrow> name = ''run_task'' \<or> name = ''run_command''"

definition classify_handles :: "string \<Rightarrow> bool" where
  "classify_handles name \<longleftrightarrow> name = ''classify''"

primrec toolset_handles :: "toolset \<Rightarrow> string \<Rightarrow> bool" where
  "toolset_handles TsFileSystem name = fs_handles name"
| "toolset_handles TsWebSearch name = websearch_handles name"
| "toolset_handles TsCodeExec name = codeexec_handles name"
| "toolset_handles TsArtifacts name = artifacts_handles name"
| "toolset_handles TsImageGen name = imagegen_handles name"
| "toolset_handles TsPresent name = present_handles name"
| "toolset_handles TsRecall name = recall_handles name"
| "toolset_handles TsMemory name = memory_skill_handles name"
| "toolset_handles TsIndexing name = retrieval_handles name"
| "toolset_handles TsMail name = mail_handles name"
| "toolset_handles TsSkills name = skillpack_handles name"
| "toolset_handles TsBrowser name = browser_handles name"
| "toolset_handles TsSystem name = screen_handles name"
| "toolset_handles TsSubagents name = subagents_handles name"
| "toolset_handles TsCodeRun name = coderun_handles name"
| "toolset_handles TsDecide name = classify_handles name"

lemmas handles_defs = fs_handles_def websearch_handles_def codeexec_handles_def artifacts_handles_def
  imagegen_handles_def present_handles_def recall_handles_def memory_skill_handles_def
  retrieval_handles_def mail_handles_def skillpack_handles_def browser_handles_def
  screen_handles_def subagents_handles_def coderun_handles_def classify_handles_def

definition is_serial :: "toolset \<Rightarrow> string \<Rightarrow> bool" where
  "is_serial s tool =
     (case s of
        TsFileSystem \<Rightarrow> \<not> is_read_only tool
      | TsWebSearch \<Rightarrow> False | TsRecall \<Rightarrow> False | TsIndexing \<Rightarrow> False
      | _ \<Rightarrow> True)"

definition mutates :: "toolset \<Rightarrow> string \<Rightarrow> bool" where
  "mutates s tool = (if s = TsSubagents then False else (case classify_mutation tool of None \<Rightarrow> True | Some b \<Rightarrow> b))"

definition enabled_toolsets :: "db \<Rightarrow> toolset list" where
  "enabled_toolsets h = filter (toolset_on h) ALL_TOOLSETS"

text \<open>The list a persona allows is parsed by the caller's argument; a text that does not parse allows all.\<close>

definition enabled_for_persona :: "(string \<Rightarrow> string list option) \<Rightarrow> db \<Rightarrow> string option \<Rightarrow> toolset list" where
  "enabled_for_persona parse_list h tools_json =
     (case Option.bind tools_json parse_list of
        None \<Rightarrow> enabled_toolsets h
      | Some allow \<Rightarrow> filter (\<lambda>s. toolset_id s \<in> set allow) (enabled_toolsets h))"

definition all_info :: "tool_setup \<Rightarrow> db \<Rightarrow> toolset_info list" where
  "all_info u h = map (toolset_info_of u h) ALL_TOOLSETS"

datatype render_skip = SkipHeadless | SkipTooLarge | SkipAlreadyRendered

definition RENDER_CAP_BYTES :: nat where "RENDER_CAP_BYTES = 64 * 1024"

definition check_render :: "bool \<Rightarrow> bool \<Rightarrow> nat \<Rightarrow> nat \<Rightarrow> render_skip + unit" where
  "check_render headless already_rendered payload_len max_bytes =
     (if headless then Inl SkipHeadless
      else if already_rendered then Inl SkipAlreadyRendered
      else if max_bytes < payload_len then Inl SkipTooLarge
      else Inr ())"

section \<open>What a model can carry\<close>

definition CHAT_BELOW :: nat where "CHAT_BELOW = 8192"
definition FULL_FROM :: nat where "FULL_FROM = 32768"

datatype model_tier = TierFull | TierBasic | TierChat

definition tier_parse :: "string \<Rightarrow> model_tier option" where
  "tier_parse raw =
     (let w = to_ascii_lowercase (trim raw) in
      if w = ''full'' then Some TierFull
      else if w = ''basic'' then Some TierBasic
      else if w = ''chat'' then Some TierChat
      else None)"

definition tier_for :: "bool \<Rightarrow> nat option \<Rightarrow> model_tier option \<Rightarrow> model_tier" where
  "tier_for tools ctx override =
     (case override of
        Some t \<Rightarrow> t
      | None \<Rightarrow>
          if \<not> tools then TierChat
          else (case ctx of
                  Some w \<Rightarrow> if w < CHAT_BELOW then TierChat else if w < FULL_FROM then TierBasic else TierFull
                | None \<Rightarrow> TierFull))"

definition tools_on :: "bool \<Rightarrow> model_tier \<Rightarrow> bool" where
  "tools_on asked tier \<longleftrightarrow> asked \<and> tier \<noteq> TierChat"

definition BASIC_TOOLSETS :: "toolset list" where
  "BASIC_TOOLSETS = [TsFileSystem, TsWebSearch, TsMemory, TsRecall]"

definition tier_key :: "string \<Rightarrow> string" where "tier_key model = ''models.tier.'' @ model"
definition ctx_key :: "string \<Rightarrow> string" where "ctx_key model = ''models.ctx.'' @ model"

definition tier_override :: "db \<Rightarrow> string \<Rightarrow> model_tier option" where
  "tier_override h model = Option.bind (get_setting h (tier_key model)) tier_parse"

definition ctx_override :: "db \<Rightarrow> string \<Rightarrow> nat option" where
  "ctx_override h model =
     Option.bind (Option.bind (get_setting h (ctx_key model)) (\<lambda>v. parse_usize (trim v)))
       (\<lambda>n. if n < 2 ^ 32 \<and> 0 < n then Some n else None)"

definition cloud_model_id :: "string \<Rightarrow> string \<Rightarrow> string" where
  "cloud_model_id provider model = ''cloud:'' @ provider @ '':'' @ model"

definition endpoint_model_id :: "string \<Rightarrow> string \<Rightarrow> string" where
  "endpoint_model_id endpoint model = ''endpoint:'' @ endpoint @ '':'' @ model"

section \<open>The registry of a run\<close>

definition COMPOSIO_TRANSPORT :: string where "COMPOSIO_TRANSPORT = ''composio''"

record mcp_binding =
  mb_connector_id :: string
  mb_connector_name :: string
  mb_url :: string
  mb_transport :: string
  mb_kind :: call_kind

record tool_registry =
  reg_specs :: "json list"
  reg_toolsets :: "toolset list"
  reg_mcp :: "string \<rightharpoonup> mcp_binding"
  reg_skills :: "string list"

definition spec_name :: "json \<Rightarrow> string option" where
  "spec_name s = Option.bind (json_get s ''function'') (\<lambda>f. str_at f ''name'')"

definition self_change_class :: "string \<Rightarrow> string option" where
  "self_change_class tool =
     (if tool = ''memory'' then Some ''facts''
      else if tool = ''propose_soul_edit'' then Some ''soul''
      else if tool = ''propose_skill'' then Some ''skills''
      else None)"

definition withdraw_for_mode :: "bool \<Rightarrow> json list \<Rightarrow> json list" where
  "withdraw_for_mode in_workspace specs =
     (if in_workspace then specs else filter (\<lambda>s. spec_name s \<noteq> Some ''render_ui'') specs)"

definition builtin_in :: "toolset list \<Rightarrow> string \<Rightarrow> toolset option" where
  "builtin_in toolsets name = List.find (\<lambda>s. toolset_handles s name) toolsets"

definition TOOL_GUIDANCE :: string where
  "TOOL_GUIDANCE =
     '' You can also call my own tools from inside the snippet, which is the right shape ''
     @ ''when a job is the same fixed sequence over many items: one snippet that loops costs ''
     @ ''one turn, where one tool call per item costs a turn each and fills my context with ''
     @ ''results I don't need to read. In Python: `from poiesis import tool` then `text = '' @ ''tool(''
     @ [CHR 34] @ ''web_search'' @ [CHR 34] @ '', query=q)`. In Node: `const { tool } = require('' @ [CHR 34]
     @ ''./poiesis'' @ [CHR 34] @ '')` then `const text = await tool('' @ [CHR 34] @ ''web_search'' @ [CHR 34]
     @ '', { query: q })`. It returns the tool's output as a string and raises if the tool ''
     @ ''refused. Every tool I have is reachable except run_code itself, each call still ''
     @ ''asks the user for anything that needs asking, and each one shows up in the timeline ''
     @ ''under this step. Use it for the loop, not for a single call '' @ [CHR 0xC3, CHR 0xA2]
     @ [CHR 0xC2, CHR 0x80] @ [CHR 0xC2, CHR 0x94] @ '' one call is cheaper made directly.''"

definition script_rpc_on :: "db \<Rightarrow> bool" where
  "script_rpc_on h \<longleftrightarrow> get_setting h ''tools.script_rpc'' \<in> {Some ''true'', Some ''1''}"

definition teach_loop :: "json \<Rightarrow> json" where
  "teach_loop s =
     (case (spec_name s = Some ''run_code'', Option.bind (json_get s ''function'') (\<lambda>f. map_option (Pair f) (str_at f ''description''))) of
        (True, Some (f, d)) \<Rightarrow> json_put s ''function'' (json_put f ''description'' (JString (d @ TOOL_GUIDANCE)))
      | _ \<Rightarrow> s)"

text \<open>What a run starts from.\<close>

record build_inputs =
  bi_persona_tools :: "string option"
  bi_skills :: "string list"
  bi_in_workspace :: bool
  bi_runs_tasks :: bool
  bi_runs_commands :: bool

definition run_toolsets ::
  "(string \<Rightarrow> string list option) \<Rightarrow> tool_setup \<Rightarrow> db \<Rightarrow> build_inputs \<Rightarrow> toolset list option \<Rightarrow> bool \<Rightarrow> model_tier \<Rightarrow> toolset list" where
  "run_toolsets parse_list u h b ceil may_delegate tier =
     filter (toolset_ready u)
       (filter (\<lambda>s. tier = TierBasic \<longrightarrow> s \<in> set BASIC_TOOLSETS)
         (filter (\<lambda>s. may_delegate \<or> s \<noteq> TsSubagents)
           (filter (\<lambda>s. case ceil of None \<Rightarrow> True | Some c \<Rightarrow> s \<in> set c)
             (enabled_for_persona parse_list h (bi_persona_tools b)))))"

definition class_off :: "db \<Rightarrow> string \<Rightarrow> bool" where
  "class_off h name = (case self_change_class name of None \<Rightarrow> False | Some c \<Rightarrow> autonomy_gate h c = RungOff)"

definition reads_only :: "toolset list \<Rightarrow> string \<Rightarrow> bool" where
  "reads_only enabled name = (case builtin_in enabled name of Some t \<Rightarrow> \<not> mutates t name | None \<Rightarrow> False)"

definition kept_specs :: "(toolset \<Rightarrow> json list) \<Rightarrow> db \<Rightarrow> build_inputs \<Rightarrow> bool \<Rightarrow> toolset list \<Rightarrow> json list" where
  "kept_specs tool_specs h b read_only enabled =
     (let specs = withdraw_for_mode (bi_in_workspace b) (concat (map tool_specs enabled));
          specs = filter (\<lambda>s. case spec_name s of None \<Rightarrow> True | Some name \<Rightarrow> \<not> class_off h name) specs;
          specs = (if read_only then filter (\<lambda>s. case spec_name s of None \<Rightarrow> False | Some name \<Rightarrow> reads_only enabled name) specs
                   else specs)
      in if TsCodeRun \<in> set enabled
         then filter (\<lambda>s. if spec_name s = Some ''run_task'' then bi_runs_tasks b
                           else if spec_name s = Some ''run_command'' then bi_runs_commands b else True) specs
         else specs)"

definition builtin_specs :: "(toolset \<Rightarrow> json list) \<Rightarrow> db \<Rightarrow> build_inputs \<Rightarrow> bool \<Rightarrow> toolset list \<Rightarrow> json list" where
  "builtin_specs tool_specs h b read_only enabled =
     (let specs = kept_specs tool_specs h b read_only enabled
      in if script_rpc_on h then map teach_loop specs else specs)"

text \<open>The tools a connector has listed, each with what the model reads of it.\<close>

record listed_tool =
  lt_tool :: mcp_tool
  lt_description :: string
  lt_schema :: json

record listed_connector =
  lc_id :: string
  lc_name :: string
  lc_url :: "string option"
  lc_transport :: string
  lc_enabled :: bool
  lc_tools :: "listed_tool list"
  lc_overrides :: "string \<rightharpoonup> call_kind"

definition to_openai_spec :: "listed_tool \<Rightarrow> json" where
  "to_openai_spec t =
     JObject [(''type'', JString ''function''), (''function'', JObject
       [(''name'', JString (mt_name (lt_tool t))), (''description'', JString (lt_description t)),
        (''parameters'', case lt_schema t of JObject fs \<Rightarrow> JObject fs
                         | _ \<Rightarrow> JObject [(''type'', JString ''object''), (''properties'', JObject [])])])]"

definition meta_kind :: "string \<Rightarrow> call_kind" where
  "meta_kind name = (if name = MULTI_EXECUTE then KindChange else KindRead)"

type_synonym menu = "json list \<times> string list \<times> (string \<rightharpoonup> mcp_binding)"

text \<open>One tool of a connector: whether it is left out, and the menu with it.\<close>

definition skip_tool :: "bool \<Rightarrow> bool \<Rightarrow> string list \<Rightarrow> listed_connector \<Rightarrow> listed_tool \<Rightarrow> call_kind \<Rightarrow> bool" where
  "skip_tool read_only no_sending taken c t kind =
     (mt_name (lt_tool t) \<in> set taken
      \<or> (if lc_transport c = COMPOSIO_TRANSPORT
         then read_only \<and> kind \<noteq> KindRead \<and> mt_name (lt_tool t) \<noteq> MULTI_EXECUTE
         else read_only \<and> kind \<noteq> KindRead \<or> no_sending \<and> kind = KindSend))"

definition listed_kind :: "unicode \<Rightarrow> listed_connector \<Rightarrow> listed_tool \<Rightarrow> call_kind" where
  "listed_kind u c t =
     (if lc_transport c = COMPOSIO_TRANSPORT then meta_kind (mt_name (lt_tool t)) else effective_kind u (lc_overrides c) (lt_tool t))"

definition add_tool :: "unicode \<Rightarrow> bool \<Rightarrow> bool \<Rightarrow> listed_connector \<Rightarrow> listed_tool \<Rightarrow> menu \<Rightarrow> menu" where
  "add_tool u read_only no_sending c t = (\<lambda>(specs, taken, mcp).
     let kind = listed_kind u c t; name = mt_name (lt_tool t) in
     if skip_tool read_only no_sending taken c t kind then (specs, taken, mcp)
     else (specs @ [to_openai_spec t], name # taken,
           mcp(name \<mapsto> \<lparr>mb_connector_id = lc_id c, mb_connector_name = lc_name c,
             mb_url = (if lc_transport c = COMPOSIO_TRANSPORT then [] else or_str [] (lc_url c)),
             mb_transport = lc_transport c, mb_kind = kind\<rparr>)))"

definition add_connector :: "unicode \<Rightarrow> bool \<Rightarrow> bool \<Rightarrow> listed_connector \<Rightarrow> menu \<Rightarrow> menu" where
  "add_connector u read_only no_sending c menu =
     (if \<not> lc_enabled c \<or> lc_transport c \<noteq> COMPOSIO_TRANSPORT \<and> lc_url c = None then menu
      else fold (add_tool u read_only no_sending c) (lc_tools c) menu)"

definition build_registry ::
  "unicode \<Rightarrow> (string \<Rightarrow> string list option) \<Rightarrow> (toolset \<Rightarrow> json list) \<Rightarrow> tool_setup \<Rightarrow> db \<Rightarrow> build_inputs \<Rightarrow>
     listed_connector list \<Rightarrow> toolset list option \<Rightarrow> bool \<Rightarrow> bool \<Rightarrow> model_tier \<Rightarrow> tool_registry" where
  "build_registry uc parse_list tool_specs u h b connectors ceil may_delegate read_only tier =
     (let enabled = run_toolsets parse_list u h b ceil may_delegate tier;
          specs = builtin_specs tool_specs h b read_only enabled;
          no_sending = (autonomy_gate h ''app_send'' = RungOff);
          (specs, taken, mcp) = fold (add_connector uc read_only no_sending) (if tier = TierFull then connectors else [])
            (specs, List.map_filter spec_name specs, Map.empty)
      in \<lparr>reg_specs = specs, reg_toolsets = enabled, reg_mcp = mcp, reg_skills = bi_skills b\<rparr>)"

definition builtin_for :: "tool_registry \<Rightarrow> string \<Rightarrow> toolset option" where
  "builtin_for r name = builtin_in (reg_toolsets r) name"

definition with_web :: "(toolset \<Rightarrow> json list) \<Rightarrow> tool_registry \<Rightarrow> tool_registry" where
  "with_web tool_specs r =
     (if TsWebSearch \<in> set (reg_toolsets r) then r
      else r\<lparr>reg_specs := reg_specs r @ tool_specs TsWebSearch, reg_toolsets := reg_toolsets r @ [TsWebSearch]\<rparr>)"

definition find_spec :: "tool_registry \<Rightarrow> string \<Rightarrow> json option" where
  "find_spec r name = List.find (\<lambda>s. spec_name s = Some name) (reg_specs r)"

definition description_of :: "tool_registry \<Rightarrow> string \<Rightarrow> string" where
  "description_of r name =
     or_str [] (Option.bind (find_spec r name) (\<lambda>s. Option.bind (json_get s ''function'') (\<lambda>f. str_at f ''description'')))"

definition tool_names :: "tool_registry \<Rightarrow> string list" where
  "tool_names r = List.map_filter spec_name (reg_specs r)"

definition invocable_names :: "tool_registry \<Rightarrow> string list" where
  "invocable_names r = tool_names r @ reg_skills r"

definition skill_named :: "tool_registry \<Rightarrow> string \<Rightarrow> string option" where
  "skill_named r token =
     (if builtin_for r ''skill'' = None then None
      else List.find (\<lambda>s. s = hd (split_on (CHR '':'') token)) (reg_skills r))"

definition refuses_in_plan_first :: "tool_registry \<Rightarrow> string \<Rightarrow> bool" where
  "refuses_in_plan_first r name =
     (case builtin_for r name of
        Some t \<Rightarrow> mutates t name
      | None \<Rightarrow>
          (case reg_mcp r name of
             None \<Rightarrow> False
           | Some mb \<Rightarrow> mb_kind mb \<noteq> KindRead \<and> \<not> (mb_transport mb = COMPOSIO_TRANSPORT \<and> name = MULTI_EXECUTE)))"

definition script_refusal :: "tool_registry \<Rightarrow> string \<Rightarrow> string option" where
  "script_refusal r name =
     (if builtin_for r name = Some TsCodeExec
      then Some (''A script can'' @ [CHR 39] @ ''t start another script. Do the work in this one.'') else None)"

text \<open>The name of a tool's one required property.\<close>

definition sole_required_property :: "tool_registry \<Rightarrow> string \<Rightarrow> string option" where
  "sole_required_property r tool =
     Option.bind (find_spec r tool) (\<lambda>s.
     Option.bind (json_get s ''function'') (\<lambda>f.
     Option.bind (json_get f ''parameters'') (\<lambda>p.
     Option.bind (list_at p ''required'') (\<lambda>xs. case xs of [only] \<Rightarrow> json_str only | _ \<Rightarrow> None))))"

section \<open>What a run is offered\<close>

lemma spec_name_teach [simp]: "spec_name (teach_loop s) = spec_name s"
proof (cases "spec_name s = Some ''run_code'' \<and> Option.bind (json_get s ''function'') (\<lambda>f. map_option (Pair f) (str_at f ''description'')) \<noteq> None")
  case True
  then obtain f d where f: "json_get s ''function'' = Some f" "str_at f ''description'' = Some d"
    by (cases "json_get s ''function''") (auto simp: option.map_sel)
  moreover obtain fs where "s = JObject fs" using f(1) by (cases s) (simp_all add: json_get_def)
  moreover obtain gs where "f = JObject gs" using str_at_object[OF f(2)] by blast
  ultimately have o: "s = JObject fs" "f = JObject gs" by simp_all
  show ?thesis using True f by (simp add: teach_loop_def o spec_name_def str_at_def)
next
  case False
  then show ?thesis by (auto simp: teach_loop_def split: option.splits bool.splits)
qed

lemma spec_name_openai [simp]: "spec_name (to_openai_spec t) = Some (mt_name (lt_tool t))"
  by (simp add: spec_name_def to_openai_spec_def str_at_def json_str_def)

abbreviation names_of :: "json list \<Rightarrow> string list" where "names_of specs \<equiv> List.map_filter spec_name specs"

lemma count_distinct: "distinct xs \<Longrightarrow> x \<in> set xs \<Longrightarrow> count_list xs x = 1"
  by (induction xs) (auto simp: count_list_0_iff)

lemma names_of_snoc: "names_of (specs @ [s]) = names_of specs @ (case spec_name s of None \<Rightarrow> [] | Some n \<Rightarrow> [n])"
  by (simp add: map_filter_def split: option.splits)

text \<open>The menu while connectors are added to the built-in specs \<open>s0\<close>.\<close>

definition binding_allowed :: "bool \<Rightarrow> bool \<Rightarrow> string \<Rightarrow> mcp_binding \<Rightarrow> bool" where
  "binding_allowed read_only no_sending n mb \<longleftrightarrow>
     (read_only \<longrightarrow> mb_kind mb = KindRead \<or> mb_transport mb = COMPOSIO_TRANSPORT \<and> n = MULTI_EXECUTE)
     \<and> (no_sending \<longrightarrow> mb_kind mb \<noteq> KindSend)"

definition menu_ok :: "bool \<Rightarrow> bool \<Rightarrow> json list \<Rightarrow> menu \<Rightarrow> bool" where
  "menu_ok read_only no_sending s0 = (\<lambda>(specs, taken, mcp). \<exists>extra. specs = s0 @ extra
     \<and> set taken = set (names_of specs) \<and> distinct (names_of extra) \<and> set (names_of extra) = dom mcp
     \<and> dom mcp \<inter> set (names_of s0) = {} \<and> (\<forall>n mb. mcp n = Some mb \<longrightarrow> binding_allowed read_only no_sending n mb))"

lemma add_tool_ok:
  assumes "menu_ok read_only no_sending s0 menu"
  shows "menu_ok read_only no_sending s0 (add_tool u read_only no_sending c t menu)"
proof -
  obtain specs taken mcp where m: "menu = (specs, taken, mcp)" by (cases menu)
  let ?n = "mt_name (lt_tool t)" and ?k = "listed_kind u c t"
  obtain extra where e: "specs = s0 @ extra" "set taken = set (names_of specs)" "distinct (names_of extra)"
      "set (names_of extra) = dom mcp" "dom mcp \<inter> set (names_of s0) = {}"
      "\<And>n mb. mcp n = Some mb \<Longrightarrow> binding_allowed read_only no_sending n mb"
    using assms unfolding menu_ok_def m prod.case by blast
  show ?thesis
  proof (cases "skip_tool read_only no_sending taken c t ?k")
    case True
    then show ?thesis using assms by (simp add: add_tool_def m Let_def)
  next
    case False
    have names: "names_of (s0 @ extra) = names_of s0 @ names_of extra" by (simp add: map_filter_def)
    have fresh: "?n \<notin> set (names_of s0)" "?n \<notin> dom mcp" using False e(1,2,4) by (auto simp: skip_tool_def names)
    have kind: "read_only \<Longrightarrow> ?k = KindRead \<or> lc_transport c = COMPOSIO_TRANSPORT \<and> ?n = MULTI_EXECUTE"
        "no_sending \<Longrightarrow> ?k \<noteq> KindSend"
      using False by (auto simp: skip_tool_def listed_kind_def meta_kind_def split: if_splits)
    show ?thesis unfolding menu_ok_def add_tool_def m Let_def prod.case if_not_P[OF False]
      by (rule exI[of _ "extra @ [to_openai_spec t]"])
        (use e fresh kind in \<open>auto simp: names_of_snoc names binding_allowed_def simp flip: append_assoc\<close>)
  qed
qed

lemma add_connector_ok: "menu_ok r s s0 menu \<Longrightarrow> menu_ok r s s0 (add_connector u r s c menu)"
proof -
  have "menu_ok r s s0 menu \<Longrightarrow> menu_ok r s s0 (fold (add_tool u r s c) ts menu)" for ts menu
    by (induction ts arbitrary: menu) (simp_all add: add_tool_ok)
  then show "menu_ok r s s0 menu \<Longrightarrow> menu_ok r s s0 (add_connector u r s c menu)" by (simp add: add_connector_def)
qed

lemma add_connectors_ok: "menu_ok r s s0 menu \<Longrightarrow> menu_ok r s s0 (fold (add_connector u r s) cs menu)"
  by (induction cs arbitrary: menu) (simp_all add: add_connector_ok)

lemma builtin_specs_allowed:
  assumes "n \<in> set (names_of (builtin_specs tool_specs h b read_only enabled))"
  shows "read_only \<Longrightarrow> \<exists>t. builtin_in enabled n = Some t \<and> \<not> mutates t n"
    "self_change_class n = Some c \<Longrightarrow> autonomy_gate h c \<noteq> RungOff"
proof -
  obtain s where s: "spec_name s = Some n" "s \<in> set (kept_specs tool_specs h b read_only enabled)"
    using assms by (auto simp: map_filter_def builtin_specs_def Let_def split: if_splits)
  have off: "\<not> class_off h n" and ro: "read_only \<Longrightarrow> reads_only enabled n"
    using s by (simp_all add: kept_specs_def Let_def split: if_splits)
  from ro show "read_only \<Longrightarrow> \<exists>t. builtin_in enabled n = Some t \<and> \<not> mutates t n"
    by (auto simp: reads_only_def split: option.splits)
  from off show "self_change_class n = Some c \<Longrightarrow> autonomy_gate h c \<noteq> RungOff" by (simp add: class_off_def)
qed

definition registry_allowed :: "db \<Rightarrow> bool \<Rightarrow> model_tier \<Rightarrow> tool_registry \<Rightarrow> bool" where
  "registry_allowed h read_only tier r \<longleftrightarrow>
     (\<forall>n mb. reg_mcp r n = Some mb \<longrightarrow> tier = TierFull \<and> count_list (tool_names r) n = 1
        \<and> (autonomy_gate h ''app_send'' = RungOff \<longrightarrow> mb_kind mb \<noteq> KindSend))
     \<and> (\<forall>n \<in> set (tool_names r). reg_mcp r n = None \<longrightarrow>
          (\<forall>c. self_change_class n = Some c \<longrightarrow> autonomy_gate h c \<noteq> RungOff) \<and> (read_only \<longrightarrow> \<not> refuses_in_plan_first r n))
     \<and> (\<forall>n \<in> set (tool_names r). read_only \<and> builtin_for r n = None \<longrightarrow> \<not> refuses_in_plan_first r n)"

text \<open>C39: Whatever the switches, the persona and the connectors say, the menu of a run holds a connector's
  tool only for a full model, under a name no other tool has, and none that sends while sending is off; no
  built-in tool whose class is switched off; and while planning first nothing that is refused when it is
  called, but for a connector's tool that has the name of a built-in one.\<close>
theorem registry_offers_only_what_is_allowed:
  "registry_allowed h read_only tier (build_registry u parse_list tool_specs su h b connectors ceil may_delegate read_only tier)"
proof -
  define enabled where "enabled = run_toolsets parse_list su h b ceil may_delegate tier"
  define s0 where "s0 = builtin_specs tool_specs h b read_only enabled"
  define off where "off = (autonomy_gate h ''app_send'' = RungOff)"
  define cs where "cs = (if tier = TierFull then connectors else [])"
  obtain specs taken mcp where f: "fold (add_connector u read_only off) cs (s0, names_of s0, Map.empty) = (specs, taken, mcp)"
    by (metis prod.collapse)
  define r where "r = \<lparr>reg_specs = specs, reg_toolsets = enabled, reg_mcp = mcp, reg_skills = bi_skills b\<rparr>"
  have r: "build_registry u parse_list tool_specs su h b connectors ceil may_delegate read_only tier = r"
    using f by (simp add: build_registry_def enabled_def s0_def off_def cs_def r_def Let_def)
  have "menu_ok read_only off s0 (s0, names_of s0, Map.empty)" by (simp add: menu_ok_def)
  then have "menu_ok read_only off s0 (specs, taken, mcp)" using add_connectors_ok f by metis
  then obtain extra where e: "specs = s0 @ extra" "distinct (names_of extra)" "set (names_of extra) = dom mcp"
      "dom mcp \<inter> set (names_of s0) = {}" "\<And>n mb. mcp n = Some mb \<Longrightarrow> binding_allowed read_only off n mb"
    unfolding menu_ok_def prod.case by blast
  have names: "tool_names r = names_of s0 @ names_of extra" by (simp add: tool_names_def r_def e(1) map_filter_def)
  have mcp: "reg_mcp r = mcp" and tools: "reg_toolsets r = enabled" by (simp_all add: r_def)
  have full: "mcp n = None" if "tier \<noteq> TierFull" for n using f that by (auto simp: cs_def)
  have one: "count_list (tool_names r) n = 1" if "mcp n = Some mb" for n mb
  proof -
    have "n \<in> set (names_of extra)" "n \<notin> set (names_of s0)" using that e(3,4) by auto
    then show ?thesis using e(2) by (simp add: names count_list_0_iff count_distinct)
  qed
  have refuses: "\<not> refuses_in_plan_first r n" if "read_only" "n \<in> set (tool_names r)" "mcp n = None \<or> builtin_in enabled n = None" for n
  proof (cases "mcp n")
    case None
    then have "n \<in> set (names_of s0)" using that(2) e(3) names by auto
    note ro = that(1)
    from \<open>n \<in> set (names_of s0)\<close> obtain t where "builtin_in enabled n = Some t" "\<not> mutates t n"
      using builtin_specs_allowed(1)[of n tool_specs h b read_only enabled] ro unfolding s0_def by blast
    then show ?thesis by (simp add: refuses_in_plan_first_def builtin_for_def tools)
  next
    case (Some mb)
    then show ?thesis using that e(5)[OF Some] by (auto simp: refuses_in_plan_first_def builtin_for_def tools mcp binding_allowed_def)
  qed
  have cls: "autonomy_gate h c \<noteq> RungOff" if "n \<in> set (tool_names r)" "mcp n = None" "self_change_class n = Some c" for n c
    using that e(3) names builtin_specs_allowed(2)[of n tool_specs h b read_only enabled c] by (auto simp: s0_def)
  show ?thesis unfolding r registry_allowed_def
  proof (intro conjI allI ballI impI)
    fix n mb assume m: "reg_mcp r n = Some mb"
    then show "tier = TierFull" using full[of n] by (auto simp: mcp)
    show "count_list (tool_names r) n = 1" using one m by (simp add: mcp)
    assume "autonomy_gate h ''app_send'' = RungOff"
    then show "mb_kind mb \<noteq> KindSend" using e(5)[of n mb] m by (simp add: mcp binding_allowed_def off_def)
  qed (use refuses cls in \<open>auto simp: mcp builtin_for_def tools\<close>)
qed

lemma find_only: "x \<in> set xs \<Longrightarrow> (\<And>y. P y \<longleftrightarrow> y = x) \<Longrightarrow> List.find P xs = Some x"
  by (induction xs) auto

text \<open>A connector's tool with the name of a built-in tool that was left off the menu is offered, and a call
  of it goes to the built-in tool.\<close>

definition offered_twice :: "db \<Rightarrow> tool_registry" where
  "offered_twice h = build_registry ascii_only (\<lambda>_. None) (\<lambda>_. []) \<lparr>su_mail = Inr [], su_image = False, su_fast_slow = False,
     su_decide_file = False, su_decide_cloud = False\<rparr> h
     \<lparr>bi_persona_tools = None, bi_skills = [], bi_in_workspace = False, bi_runs_tasks = False, bi_runs_commands = False\<rparr>
     [\<lparr>lc_id = ''c'', lc_name = ''Notes'', lc_url = Some ''http://notes'', lc_transport = ''http'', lc_enabled = True,
       lc_tools = [\<lparr>lt_tool = \<lparr>mt_name = ''memory'', mt_annotations = Some (Some True)\<rparr>, lt_description = [], lt_schema = JNull\<rparr>],
       lc_overrides = Map.empty\<rparr>] None True False TierFull"

theorem withdrawn_name_is_offered_by_a_connector:
  assumes "get_setting h ''toolset.memory.enabled'' = None"
  shows "''memory'' \<in> set (tool_names (offered_twice h)) \<and> reg_mcp (offered_twice h) ''memory'' \<noteq> None
    \<and> builtin_for (offered_twice h) ''memory'' = Some TsMemory"
proof -
  let ?su = "\<lparr>su_mail = Inr [], su_image = False, su_fast_slow = False, su_decide_file = False, su_decide_cloud = False\<rparr>"
  let ?b = "\<lparr>bi_persona_tools = None, bi_skills = [], bi_in_workspace = False, bi_runs_tasks = False, bi_runs_commands = False\<rparr>"
  let ?ts = "run_toolsets (\<lambda>_. None) ?su h ?b None True TierFull"
  let ?t = "\<lparr>lt_tool = \<lparr>mt_name = ''memory'', mt_annotations = Some (Some True)\<rparr>, lt_description = [], lt_schema = JNull\<rparr>"
  have kind: "effective_kind ascii_only Map.empty \<lparr>mt_name = ''memory'', mt_annotations = Some (Some True)\<rparr> = KindRead"
    by code_simp
  have "builtin_specs (\<lambda>_. []) h ?b False ?ts = []"
    by (simp add: builtin_specs_def kept_specs_def withdraw_for_mode_def Let_def)
  then have r: "reg_mcp (offered_twice h) ''memory'' \<noteq> None" "reg_specs (offered_twice h) = [to_openai_spec ?t]"
      "reg_toolsets (offered_twice h) = ?ts"
    using kind by (simp_all add: offered_twice_def build_registry_def Let_def add_connector_def add_tool_def skip_tool_def
        listed_kind_def COMPOSIO_TRANSPORT_def map_filter_def)
  have "TsMemory \<in> set ?ts"
    using assms by (simp add: run_toolsets_def enabled_for_persona_def enabled_toolsets_def ALL_TOOLSETS_def toolset_on_def
        toolset_key_def default_enabled_def toolset_ready_def)
  moreover have "toolset_handles s ''memory'' \<longleftrightarrow> s = TsMemory" for s by (cases s) (simp_all add: handles_defs)
  ultimately have "builtin_in ?ts ''memory'' = Some TsMemory"
    unfolding builtin_in_def by (rule find_only)
  then show ?thesis using r by (simp add: builtin_for_def tool_names_def map_filter_def)
qed

end
