(* ===== verification/Run_Text.thy ===== *)
theory Run_Text imports Toolsets begin

text \<open>
  The text of a turn (\<open>agent/run.rs\<close>): how much of it may be shown while it arrives, tool calls written
  as text, and calls that are only described.  Parsing and printing JSON, fresh ids and the letters
  beyond ASCII are arguments.
\<close>

section \<open>What may be shown while it arrives\<close>

definition EARLY_FLUSH_CHARS :: nat where "EARLY_FLUSH_CHARS = 160"

definition fence :: string where "fence = ''```''"

text \<open>\<open>alpha\<close> says which characters are letters.\<close>

definition should_flush_prose :: "(string \<Rightarrow> bool) \<Rightarrow> string \<Rightarrow> string list \<Rightarrow> bool" where
  "should_flush_prose alpha buf names =
     (let t = trim_start buf in
      case utf8_chars t of
        [] \<Rightarrow> False
      | first # _ \<Rightarrow>
          if first \<in> {''{'', ''['', ''`'', ''<''} then False
          else if list_ex (str_contains t) names then False
          else alpha first \<or> EARLY_FLUSH_CHARS \<le> length (utf8_chars t))"

definition words_where :: "(string \<Rightarrow> bool) \<Rightarrow> string \<Rightarrow> string list" where
  "words_where P s = split_where (\<lambda>c. \<not> P c) (utf8_chars s)"

definition fence_could_be_a_call :: "unicode \<Rightarrow> string \<Rightarrow> string list \<Rightarrow> bool" where
  "fence_could_be_a_call u block names =
     (case split_once newline block of
        None \<Rightarrow> True
      | Some (info, body) \<Rightarrow>
          trim info \<in> {''tool'', ''tool_call'', ''tool_calls'', ''function'', ''function_call''}
          \<or> list_ex (\<lambda>w. w \<in> set names) (words_where (\<lambda>c. char_alphanumeric u c \<or> c = ''_'') body))"

lemma split_once_parts: "split_once sep s = Some (a, b) \<Longrightarrow> s = a @ sep @ b"
  by (induction s arbitrary: a) (auto simp: strip_prefix_iff split: option.splits if_splits)

text \<open>The first fence that could hold a call, as an offset; fences come in pairs.\<close>

function fence_cut :: "unicode \<Rightarrow> string list \<Rightarrow> nat \<Rightarrow> string \<Rightarrow> nat option" where
  "fence_cut u names pos buf =
     (case split_once fence buf of
        None \<Rightarrow> None
      | Some (lead, after) \<Rightarrow>
          (case split_once fence after of
             None \<Rightarrow> if fence_could_be_a_call u after names then Some (pos + length lead) else None
           | Some (block, rest) \<Rightarrow>
               if fence_could_be_a_call u block names then Some (pos + length lead)
               else fence_cut u names (pos + length lead + 3 + length block + 3) rest))"
  by pat_completeness auto

termination
  by (relation "measure (\<lambda>(u, names, pos, buf). length buf)") (auto dest!: split_once_parts simp: fence_def)

declare fence_cut.simps [simp del]

definition line_start :: "string \<Rightarrow> nat \<Rightarrow> nat" where
  "line_start s i = (case str_rfind (CHR 0x0A) (take i s) of Some n \<Rightarrow> n + 1 | None \<Rightarrow> 0)"

definition brace_cut :: "string \<Rightarrow> nat option" where
  "brace_cut head =
     find_map (\<lambda>i. if head ! i = CHR ''{'' \<and> trim (drop (line_start head i) (take i head)) = []
                    then Some (line_start head i) else None) [0..<length head]"

definition safe_prefix :: "unicode \<Rightarrow> string \<Rightarrow> string list \<Rightarrow> nat" where
  "safe_prefix u buf names =
     (let stop = (case fence_cut u names 0 buf of Some i \<Rightarrow> i | None \<Rightarrow> length buf)
      in case brace_cut (take stop buf) of Some i \<Rightarrow> i | None \<Rightarrow> stop)"

record stream_state =
  ss_buf :: string
  ss_live :: bool
  ss_emitted :: nat
  ss_final :: string
  ss_shown :: "string list"

definition on_token ::
  "unicode \<Rightarrow> (string \<Rightarrow> bool) \<Rightarrow> bool \<Rightarrow> string list \<Rightarrow> string list \<Rightarrow> string \<Rightarrow> stream_state \<Rightarrow> stream_state" where
  "on_token u alpha tools_enabled names invocable t st =
     (let buf = ss_buf st @ t in
      if \<not> tools_enabled
      then st\<lparr>ss_buf := buf, ss_final := ss_final st @ t, ss_shown := ss_shown st @ [t]\<rparr>
      else
        (let live = (ss_live st \<or> should_flush_prose alpha buf names);
             upto_here = safe_prefix u buf invocable;
             chunk = drop (ss_emitted st) (take upto_here buf)
         in if live \<and> ss_emitted st < upto_here
            then st\<lparr>ss_buf := buf, ss_live := live, ss_emitted := upto_here, ss_final := ss_final st @ chunk,
                    ss_shown := ss_shown st @ [chunk]\<rparr>
            else st\<lparr>ss_buf := buf, ss_live := live\<rparr>))"

definition stream_start :: "string \<Rightarrow> stream_state" where
  "stream_start final_text =
     \<lparr>ss_buf = [], ss_live = False, ss_emitted = 0, ss_final = final_text, ss_shown = []\<rparr>"

text \<open>What was held back when the turn has ended (\<open>classify\<close>).\<close>

definition unshown :: "stream_state \<Rightarrow> string \<Rightarrow> string" where
  "unshown st text = (if ss_live st then (if is_char_boundary text (ss_emitted st) \<and> ss_emitted st \<le> length text
                                          then drop (ss_emitted st) text else []) else text)"

section \<open>Calls written as text\<close>

definition strip_think :: "string \<Rightarrow> string" where
  "strip_think s =
     (case strip_prefix ''<think>'' (trim_start s) of
        None \<Rightarrow> s
      | Some rest \<Rightarrow> (case split_once ''</think>'' rest of None \<Rightarrow> s | Some (_, r) \<Rightarrow> trim_start r))"

definition before_last :: "string \<Rightarrow> string \<Rightarrow> string option" where
  "before_last sep s = map_option (\<lambda>r. take (length s - length r - length sep) s) (after_last sep s)"

definition strip_code_fence :: "string \<Rightarrow> string" where
  "strip_code_fence s0 =
     (let s = trim s0 in
      case strip_prefix fence s of
        None \<Rightarrow> s
      | Some rest \<Rightarrow>
          (let rest = (case split_once newline rest of
                         Some (info, body) \<Rightarrow> if CHR ''`'' \<in> set info then rest else body
                       | None \<Rightarrow> rest)
           in case before_last fence rest of Some body \<Rightarrow> trim body | None \<Rightarrow> trim rest))"

text \<open>A call is its name and its arguments; every call that is made gets a fresh id.\<close>

definition skill_call :: "(json \<Rightarrow> string) \<Rightarrow> string \<Rightarrow> string \<times> string" where
  "skill_call print skill = (''skill'', print (JObject [(''name'', JString skill)]))"

definition known_tool :: "tool_registry \<Rightarrow> string \<Rightarrow> bool" where
  "known_tool r name \<longleftrightarrow> builtin_for r name \<noteq> None \<or> reg_mcp r name \<noteq> None"

definition one_text_call :: "(json \<Rightarrow> string) \<Rightarrow> tool_registry \<Rightarrow> json \<Rightarrow> (string \<times> string) option" where
  "one_text_call print r v =
     Option.bind (Option.bind (case json_get v ''name'' of Some n \<Rightarrow> Some n | None \<Rightarrow> json_get v ''function'') json_str) (\<lambda>name.
       case skill_named r name of
         Some skill \<Rightarrow> Some (skill_call print skill)
       | None \<Rightarrow>
           if \<not> known_tool r name then None
           else Some (name, case (case json_get v ''parameters'' of Some a \<Rightarrow> Some a | None \<Rightarrow> json_get v ''arguments'') of
                              Some (JString s) \<Rightarrow> s
                            | Some other \<Rightarrow> print other
                            | None \<Rightarrow> ''{}''))"

definition drop_ends :: "char set \<Rightarrow> string \<Rightarrow> string" where
  "drop_ends A s = rev (dropWhile (\<lambda>c. c \<in> A) (rev s))"

definition drop_both :: "char set \<Rightarrow> string \<Rightarrow> string" where
  "drop_both A s = drop_ends A (dropWhile (\<lambda>c. c \<in> A) s)"

definition clean_line :: "string \<Rightarrow> string" where
  "clean_line l0 =
     (let l = trim (dropWhile (\<lambda>c. c \<in> {CHR ''-'', CHR ''*'', CHR ''>'', CHR ''#''}) (trim l0));
          l = trim (drop_both {CHR ''`''} l)
      in trim (case strip_prefix ''call:'' l of
                 Some r \<Rightarrow> r
               | None \<Rightarrow> (case strip_prefix ''tool:'' l of Some r \<Rightarrow> r | None \<Rightarrow> l)))"

text \<open>One line: nothing to call here, or the answer of the whole.\<close>

definition line_call ::
  "(string \<Rightarrow> json option) \<Rightarrow> (json \<Rightarrow> string) \<Rightarrow> tool_registry \<Rightarrow> string \<Rightarrow> (string \<times> string) option option" where
  "line_call parse print r l0 =
     (let line = clean_line l0 in
      if line = [] then None
      else
        (let head = takeWhile (\<lambda>c. c \<notin> {CHR ''('', CHR '' '', CHR 0x09, CHR ''{''}) line;
             rest = trim (drop (length head) line);
             name = drop_ends {CHR '':''} head
         in case skill_named r name of
              Some skill \<Rightarrow> Some (Some (skill_call print skill))
            | None \<Rightarrow>
                if \<not> known_tool r name then None
                else
                  (let rest = trim (drop_ends {CHR '')'', CHR ''.'', CHR '';''} (dropWhile (\<lambda>c. c = CHR ''('') rest)) in
                   if rest = [] then None
                   else if starts_with rest ''{'' then
                     (case parse rest of
                        Some (JObject fs) \<Rightarrow> Some (Some (name, print (JObject fs)))
                      | _ \<Rightarrow> None)
                   else
                     (case sole_required_property r name of
                        None \<Rightarrow> Some None
                      | Some key \<Rightarrow>
                          (let val = trim (drop_both {CHR 34, CHR 39} rest) in
                           if val = [] \<or> list_ex char_whitespace (utf8_chars val) then None
                           else Some (Some (name, print (JObject [(key, JString val)]))))))))"

definition invocation_line_call ::
  "(string \<Rightarrow> json option) \<Rightarrow> (json \<Rightarrow> string) \<Rightarrow> tool_registry \<Rightarrow> string \<Rightarrow> (string \<times> string) option" where
  "invocation_line_call parse print r body =
     (case find_map (line_call parse print r) (str_lines body) of Some x \<Rightarrow> x | None \<Rightarrow> None)"

definition with_ids :: "(nat \<Rightarrow> string) \<Rightarrow> (string \<times> string) list \<Rightarrow> tool_call_req list" where
  "with_ids fresh calls = map (\<lambda>(i, n, a). \<lparr>tc_id = fresh i, tc_name = n, tc_arguments = a\<rparr>) (enumerated calls)"

text \<open>\<open>first_json\<close> reads the first value of a text and leaves what follows.\<close>

definition parse_text_tool_calls ::
  "(nat \<Rightarrow> string) \<Rightarrow> (string \<Rightarrow> json option) \<Rightarrow> (string \<Rightarrow> json option) \<Rightarrow> (json \<Rightarrow> string) \<Rightarrow> string \<Rightarrow> tool_registry \<Rightarrow>
     tool_call_req list option" where
  "parse_text_tool_calls fresh parse first_json print content r =
     (let body = strip_code_fence (strip_think (trim content));
          whole = (case parse body of
                     Some (JArray items) \<Rightarrow> List.map_filter (one_text_call print r) items
                   | Some (JObject fs) \<Rightarrow> (case one_text_call print r (JObject fs) of None \<Rightarrow> [] | Some c \<Rightarrow> [c])
                   | _ \<Rightarrow> []);
          inside = (case split_once ''{'' body of
                      None \<Rightarrow> None
                    | Some (_, rest) \<Rightarrow> Option.bind (first_json (CHR ''{'' # rest)) (one_text_call print r))
      in if whole \<noteq> [] then Some (with_ids fresh whole)
         else case inside of
           Some c \<Rightarrow> Some (with_ids fresh [c])
         | None \<Rightarrow>
             if starts_with (trim_start content) fence \<or> length (filter (\<lambda>l. trim l \<noteq> []) (str_lines body)) = 1
             then map_option (\<lambda>c. with_ids fresh [c]) (invocation_line_call parse print r body)
             else None)"

section \<open>Calls that are only described\<close>

fun every_second :: "'a list \<Rightarrow> 'a list" where
  "every_second (_ # y # xs) = y # every_second xs"
| "every_second _ = []"

fun marked_lines :: "bool \<Rightarrow> string list \<Rightarrow> string list" where
  "marked_lines in_fence [] = []"
| "marked_lines in_fence (l # ls) =
     (if starts_with (trim_start l) fence then marked_lines (\<not> in_fence) ls
      else (if in_fence then [l] else every_second (split_on (CHR ''`'') l)) @ marked_lines in_fence ls)"

definition narrates_a_tool_call :: "unicode \<Rightarrow> string \<Rightarrow> string list \<Rightarrow> bool" where
  "narrates_a_tool_call u text names =
     (let marked = concat (map (\<lambda>l. l @ newline) (marked_lines False (str_lines text)));
          words = words_where (\<lambda>c. char_alphanumeric u c \<or> c = ''_'' \<or> c = ''-'') marked
      in list_ex (\<lambda>n. n \<in> set words) names)"

section \<open>Streaming\<close>

lemma fence_cut_bounds: "fence_cut u names pos buf = Some i \<Longrightarrow> pos \<le> i \<and> i < pos + length buf \<and> buf ! (i - pos) = CHR ''`''"
proof (induction u names pos buf rule: fence_cut.induct)
  case (1 u names pos buf)
  obtain lead after where s: "split_once fence buf = Some (lead, after)"
    using "1.prems" by (cases "split_once fence buf") (auto simp: fence_cut.simps[of u names pos buf])
  note buf = split_once_parts[OF s]
  show ?case
  proof (cases "split_once fence after")
    case None
    then have "i = pos + length lead" using "1.prems" s by (auto simp: fence_cut.simps[of u names pos buf] split: if_splits)
    then show ?thesis by (simp add: buf fence_def nth_append)
  next
    case (Some p)
    obtain block rest where p: "p = (block, rest)" by fastforce
    note after = split_once_parts[OF Some[unfolded p]]
    show ?thesis
    proof (cases "fence_could_be_a_call u block names")
      case True
      then have "i = pos + length lead" using "1.prems" s Some p by (simp add: fence_cut.simps[of u names pos buf])
      then show ?thesis by (simp add: buf fence_def nth_append)
    next
      case False
      let ?pos = "pos + length lead + 3 + length block + 3"
      have "fence_cut u names ?pos rest = Some i" using "1.prems" s Some p False by (simp add: fence_cut.simps[of u names pos buf])
      then have ih: "?pos \<le> i" "i < ?pos + length rest" "rest ! (i - ?pos) = CHR ''`''" using "1.IH"[OF s refl Some p[symmetric] False] by blast+
      have "buf = (lead @ fence @ block @ fence) @ rest" by (simp add: buf after)
      moreover have "length (lead @ fence @ block @ fence) = ?pos - pos" by (simp add: fence_def)
      moreover have "i - pos = (?pos - pos) + (i - ?pos)" using ih(1) by simp
      ultimately show ?thesis using ih by (metis (no_types, lifting) add_lessD1 add_less_cancel_left le_add_diff_inverse
          length_append le_trans nth_append_length_plus add.assoc le_add1)
    qed
  qed
qed

lemma str_rfind_Some:
  assumes "str_rfind x s = Some n"
  shows "n < length s" "s ! n = x"
proof -
  let ?k = "length (takeWhile (\<lambda>c. c \<noteq> x) (rev s))"
  have x: "x \<in> set (rev s)" and n: "n = length s - 1 - ?k" using assms by (auto simp: str_rfind_def split: if_splits)
  have "takeWhile (\<lambda>c. c \<noteq> x) (rev s) \<noteq> rev s" using x by (simp add: takeWhile_eq_all_conv)
  then have k: "?k < length (rev s)"
    by (metis length_takeWhile_le le_neq_implies_less order_refl take_all takeWhile_eq_take)
  then have "rev s ! ?k = x" using nth_length_takeWhile[OF k] by simp
  then show "n < length s" "s ! n = x" using k n by (auto simp: rev_nth)
qed

lemma line_start_bounds:
  assumes "i \<le> length s"
  shows "line_start s i \<le> i" "line_start s i = 0 \<or> s ! (line_start s i - 1) = CHR 0x0A"
  using assms str_rfind_Some[of "CHR 0x0A" "take i s"]
  by (auto simp: line_start_def Suc_le_eq split: option.split)

lemma brace_cut_bounds:
  assumes "brace_cut head = Some i"
  shows "i < length head" "i = 0 \<or> head ! (i - 1) = CHR 0x0A"
proof -
  obtain j where j: "j < length head" "i = line_start head j"
    using assms unfolding brace_cut_def by (auto split: if_splits dest!: find_map_Some)
  then show "i < length head" "i = 0 \<or> head ! (i - 1) = CHR 0x0A" using line_start_bounds[of j head] by auto
qed

text \<open>The cut is at the end, at a backtick or at the start of a line.\<close>

lemma safe_prefix_bounds:
  "safe_prefix u buf names \<le> length buf"
  "safe_prefix u buf names = length buf \<or> buf ! safe_prefix u buf names = CHR ''`''
     \<or> safe_prefix u buf names = 0 \<or> buf ! (safe_prefix u buf names - 1) = CHR 0x0A"
proof -
  define stop where "stop = (case fence_cut u names 0 buf of Some i \<Rightarrow> i | None \<Rightarrow> length buf)"
  have stop: "stop \<le> length buf" "stop = length buf \<or> buf ! stop = CHR ''`''"
    using fence_cut_bounds[of u names 0 buf] by (cases "fence_cut u names 0 buf"; simp add: stop_def)+
  have sp: "safe_prefix u buf names = (case brace_cut (take stop buf) of Some i \<Rightarrow> i | None \<Rightarrow> stop)"
    unfolding safe_prefix_def stop_def Let_def by (rule refl)
  have "safe_prefix u buf names \<le> length buf \<and> (safe_prefix u buf names = length buf \<or> buf ! safe_prefix u buf names = CHR ''`''
     \<or> safe_prefix u buf names = 0 \<or> buf ! (safe_prefix u buf names - 1) = CHR 0x0A)"
  proof (cases "brace_cut (take stop buf)")
    case None
    then show ?thesis using stop by (simp add: sp) blast
  next
    case (Some i)
    have "i < stop" using brace_cut_bounds(1)[OF Some] by simp
    then show ?thesis using brace_cut_bounds(2)[OF Some] stop(1) by (auto simp: sp Some)
  qed
  then show "safe_prefix u buf names \<le> length buf"
    "safe_prefix u buf names = length buf \<or> buf ! safe_prefix u buf names = CHR ''`''
     \<or> safe_prefix u buf names = 0 \<or> buf ! (safe_prefix u buf names - 1) = CHR 0x0A" by blast+
qed

text \<open>Each part that arrives is a text of its own, so it begins with a character.\<close>

definition streamed :: "string \<Rightarrow> string \<Rightarrow> stream_state \<Rightarrow> bool" where
  "streamed f0 text st \<longleftrightarrow> ss_buf st = text \<and> ss_emitted st \<le> length text \<and> ss_final st = f0 @ take (ss_emitted st) text
     \<and> concat (ss_shown st) = take (ss_emitted st) text \<and> is_char_boundary text (ss_emitted st)
     \<and> (\<not> ss_live st \<longrightarrow> ss_emitted st = 0)"

definition whole_chars :: "string \<Rightarrow> bool" where
  "whole_chars s \<longleftrightarrow> (s = [] \<or> is_char_start (s ! 0)) \<and> (\<forall>i. Suc i < length s \<and> s ! i = CHR 0x0A \<longrightarrow> is_char_start (s ! Suc i))"

lemma whole_chars_append: "whole_chars a \<Longrightarrow> whole_chars b \<Longrightarrow> whole_chars (a @ b)"
  by (auto simp: whole_chars_def nth_append less_Suc_eq_0_disj Suc_diff_le not_less intro: Suc_lessI)

lemma boundary_append: "is_char_boundary a n \<Longrightarrow> whole_chars b \<Longrightarrow> is_char_boundary (a @ b) n"
  by (auto simp: is_char_boundary_def whole_chars_def nth_append)

lemma safe_prefix_boundary: "whole_chars buf \<Longrightarrow> is_char_boundary buf (safe_prefix u buf names)"
proof -
  assume w: "whole_chars buf"
  have tick: "is_char_start (CHR ''`'')" by (simp add: is_char_start_def)
  define n where "n = safe_prefix u buf names"
  have n: "n \<le> length buf" "n = length buf \<or> buf ! n = CHR ''`'' \<or> n = 0 \<or> buf ! (n - 1) = CHR 0x0A"
    using safe_prefix_bounds[of u buf names] by (simp_all add: n_def)
  have "n < length buf \<Longrightarrow> 0 < n \<Longrightarrow> buf ! (n - 1) = CHR 0x0A \<Longrightarrow> is_char_start (buf ! n)"
    using w unfolding whole_chars_def by (metis Suc_diff_1)
  then show "is_char_boundary buf (safe_prefix u buf names)"
    using n tick unfolding n_def[symmetric] is_char_boundary_def by (metis le_neq_implies_less neq0_conv)
qed

lemma on_token_streamed:
  assumes "streamed f0 text st" "whole_chars text" "whole_chars t"
  shows "streamed f0 (text @ t) (on_token u alpha True names invocable t st)"
proof -
  let ?buf = "text @ t" and ?cut = "safe_prefix u (text @ t) invocable"
  have st: "ss_buf st = text" "ss_emitted st \<le> length text" "ss_final st = f0 @ take (ss_emitted st) text"
    "concat (ss_shown st) = take (ss_emitted st) text" "is_char_boundary text (ss_emitted st)" "\<not> ss_live st \<longrightarrow> ss_emitted st = 0"
    using assms(1) by (simp_all add: streamed_def)
  have w: "whole_chars ?buf" using assms(2,3) whole_chars_append by blast
  show ?thesis
  proof (cases "(ss_live st \<or> should_flush_prose alpha ?buf names) \<and> ss_emitted st < ?cut")
    case True
    have cut: "?cut \<le> length ?buf" "is_char_boundary ?buf ?cut" using safe_prefix_bounds(1) safe_prefix_boundary[OF w] by blast+
    have join: "take (ss_emitted st) text @ drop (ss_emitted st) (take ?cut ?buf) = take ?cut ?buf"
    proof -
      have "take (ss_emitted st) text = take (ss_emitted st) (take ?cut ?buf)" using True st(2) by (simp add: min_def)
      then show ?thesis by (metis append_take_drop_id)
    qed
    show ?thesis using True cut join st by (simp add: on_token_def streamed_def Let_def)
  next
    case False
    then have "on_token u alpha True names invocable t st
        = st\<lparr>ss_buf := ?buf, ss_live := ss_live st \<or> should_flush_prose alpha ?buf names\<rparr>"
      using st(1) by (auto simp: on_token_def Let_def)
    then show ?thesis using st boundary_append[OF st(5) assms(3)] by (simp add: streamed_def)
  qed
qed

lemma tokens_streamed:
  assumes "\<forall>t \<in> set ts. whole_chars t"
  shows "streamed f0 (concat ts) (fold (on_token u alpha True names invocable) ts (stream_start f0)) \<and> whole_chars (concat ts)"
  using assms
proof (induction ts rule: rev_induct)
  case Nil
  show ?case by (simp add: streamed_def stream_start_def is_char_boundary_def whole_chars_def)
next
  case (snoc t ts)
  then show ?case using on_token_streamed whole_chars_append by simp
qed

text \<open>C40: Whatever parts a turn arrives in, what was shown and what was held back together are the turn, each
  character once and in order, and the answer collected so far is what was shown.\<close>
theorem streamed_turn_is_shown_once:
  assumes "\<forall>t \<in> set ts. whole_chars t"
    and "st = fold (on_token u alpha True names invocable) ts (stream_start f0)"
  shows "concat (ss_shown st) @ unshown st (concat ts) = concat ts
    \<and> ss_final st @ unshown st (concat ts) = f0 @ concat ts
    \<and> (ss_live st \<or> ss_shown st = [] \<or> concat (ss_shown st) = [])"
proof -
  have s: "streamed f0 (concat ts) st" using tokens_streamed[OF assms(1)] assms(2) by simp
  then show ?thesis by (auto simp: streamed_def unshown_def)
qed

text \<open>A model that opens in prose and then writes a call in a fence without a tag: the fence is shown as
  soon as its line ends, the rest is held back, and what is held is no call any more.\<close>

definition ascii_letter :: "string \<Rightarrow> bool" where
  "ascii_letter c = (case c of [b] \<Rightarrow> is_ascii_alphabetic b | _ \<Rightarrow> False)"

definition skills_only :: tool_registry where
  "skills_only = \<lparr>reg_specs = [], reg_toolsets = [TsSkills], reg_mcp = Map.empty, reg_skills = [''notes'']\<rparr>"

definition bare_fence :: "string list" where
  "bare_fence = [''Loading it.'' @ newline, fence @ newline, ''notes now'' @ newline, fence]"

definition bare_state :: stream_state where
  "bare_state = fold (on_token ascii_only ascii_letter True [''skill''] [''skill'', ''notes'']) bare_fence (stream_start [])"

theorem bare_fence_loses_the_call:
  "unshown bare_state (concat bare_fence) = ''notes now'' @ newline @ fence
     \<and> parse_text_tool_calls fresh (\<lambda>_. None) (\<lambda>_. None) print (unshown bare_state (concat bare_fence)) skills_only = None
     \<and> \<not> narrates_a_tool_call ascii_only (unshown bare_state (concat bare_fence)) [''skill'', ''notes'']
     \<and> parse_text_tool_calls fresh (\<lambda>_. None) (\<lambda>_. None) print (concat (tl bare_fence)) skills_only
         = Some (with_ids fresh [skill_call print ''notes''])"
  by code_simp

theorem streamed_turn_is_shown_once_witness:
  "concat (ss_shown bare_state) @ unshown bare_state (concat bare_fence) = concat bare_fence"
proof -
  have "\<forall>t \<in> set bare_fence. whole_chars t"
    by (auto simp: bare_fence_def fence_def whole_chars_def is_char_start_def nth_Cons' less_Suc_eq_0_disj)
  from streamed_turn_is_shown_once[OF this bare_state_def] show ?thesis by blast
qed

end
