(* ===== verification/Run_Loop.thy ===== *)
theory Run_Loop imports Run_Text Ledger begin

text \<open>
  The loop of a run (\<open>agent/run.rs\<close>): its state, one turn phase by phase, the batch of tool calls, and
  the loop itself.  What comes from outside in a turn is one record: whether Stop was pressed and when, the
  clock, what was said to the run, the answers of the provider and of the tools, the calls of scripts.  The loop runs over a
  list of such records and may still be going at its end.  Events for the screen are left out; a panic ends
  the program, so what is computed after one is dropped.
\<close>

section \<open>State\<close>

definition MAX_NARRATION_NUDGES :: nat where "MAX_NARRATION_NUDGES = 2"
definition MAX_EMPTY_RETRIES :: nat where "MAX_EMPTY_RETRIES = 1"
definition MAX_PLAN_NUDGES :: nat where "MAX_PLAN_NUDGES = 1"
definition MAX_FREE_PLAN_STEPS :: nat where "MAX_FREE_PLAN_STEPS = 6"

definition WRAP_UP_PROMPT :: string where
  "WRAP_UP_PROMPT =
     ''You are out of room for tool calls. Answer now with what you already have. Say ''
     @ ''plainly what you did not get to.''"

definition ANSWER_NOW_PROMPT :: string where
  "ANSWER_NOW_PROMPT =
     ''Your last turn was empty. The tool results above are the work you already did. ''
     @ ''Write the answer now, using them. Do not call any more tools and do not start again.''"

definition FINISH_THINKING_PROMPT :: string where
  "FINISH_THINKING_PROMPT =
     ''You finished thinking but wrote no reply. Write the answer itself now, as ordinary '' @ ''text.''"

definition PLAN_FIRST_NOTE :: string where
  "PLAN_FIRST_NOTE =
     ''Plan first: investigate as much as you need, but change nothing. Write the plan ''
     @ ''with the plan tool, then stop and summarise it. The user approves it before ''
     @ ''anything changes.''"

definition PLAN_FIRST_REFUSAL :: string where
  "PLAN_FIRST_REFUSAL =
     ''I'm planning first. Nothing changes until you approve the plan.''"

type_synonym fix_tracker = "string \<rightharpoonup> string \<times> string"

definition fix_failed :: "fix_tracker \<Rightarrow> string \<Rightarrow> string \<Rightarrow> string \<Rightarrow> fix_tracker" where
  "fix_failed t tool args err = t(tool \<mapsto> (args, err))"

definition fix_succeeded :: "fix_tracker \<Rightarrow> string \<Rightarrow> fix_tracker \<times> (string \<times> string) option" where
  "fix_succeeded t tool = (t(tool := None), t tool)"

record run_state =
  rs_messages :: "json list"
  rs_logged :: nat
  rs_final_text :: string
  rs_retried :: "string list"
  rs_last_failure :: fix_tracker
  rs_narration_nudges :: nat
  rs_empty_retries :: nat
  rs_plan_nudges :: nat
  rs_free_steps :: nat
  rs_strict_template :: bool
  rs_wrap_up :: "stop_reason option"
  rs_iteration :: nat

text \<open>What the observer is told, in order; a plan that is recorded and a clearing go to the same log.\<close>

datatype log_call = ObsPrompt "json list" | ObsAppended json | ObsSteered string | ObsStopped string nat | LogPlan plan
  | LogCommand command_trace

record tool_fix =
  tf_tool :: string
  tf_failed_args :: string
  tf_error :: string
  tf_fixed_args :: string

text \<open>What turns of a run share: the handle, the plan, the ledger, kept results, and what is written down.\<close>

record run_world =
  w_handle :: run_handle
  w_plan :: plan
  w_ledger :: ledger
  w_store :: result_store
  w_disk :: disk
  w_compact_asked :: bool
  w_obs :: "log_call list"
  w_stats :: "(string \<times> bool) list"
  w_fixes :: "tool_fix list"
  w_panicked :: bool

record turn_ctx =
  cx_unicode :: unicode
  cx_alpha :: "string \<Rightarrow> bool"
  cx_parse :: "string \<Rightarrow> json option"
  cx_first_json :: "string \<Rightarrow> json option"
  cx_print :: "json \<Rightarrow> string"
  cx_why :: "path \<Rightarrow> string"
  cx_tools_enabled :: bool
  cx_headless :: bool
  cx_registry :: tool_registry
  cx_limits :: run_limits
  cx_window :: "nat option"
  cx_tool_names :: "string list"
  cx_invocable :: "string list"
  cx_plan_mode :: plan_mode
  cx_plan_first :: bool
  cx_early_notes :: "string list"
  cx_read_only :: bool
  cx_harness :: bool
  cx_ask_offered :: bool

datatype delta = DeltaAnswer string | DeltaThinking string

datatype turn_outcome =
    TurnFinal string string "usage option"
  | TurnCalls "tool_call_req list" "usage option"
  | TurnCancelled

type_synonym call_result = "string + string \<times> string option"

datatype finish = FinishDone u32 | FinishProbably u32 | FinishOpen

record judged =
  jd_index :: nat
  jd_finish :: finish
  jd_decision :: string

record turn_input =
  in_cancelled :: bool
  in_now :: nat
  in_steers :: "steer list"
  in_db :: db
  in_reply :: "nat \<Rightarrow> json list \<Rightarrow> delta list \<times> (string + turn_outcome)"
  in_fresh :: "nat \<Rightarrow> string"
  in_judged :: "judged list"
  in_check_task :: "string option"
  in_claims_nothing :: bool
  in_can_run :: bool
  in_stop :: "nat \<Rightarrow> bool"
  in_held :: bool
  in_tool :: "nat \<Rightarrow> call_result"
  in_script :: "nat \<Rightarrow> (string \<times> json \<times> call_result) list"
  in_spoken :: "nat \<Rightarrow> string"
  in_ledger :: "ledger \<Rightarrow> ledger"
  in_compact :: bool
  in_waiting :: "string option"

type_synonym agent_run = "run_state \<times> run_world"

definition did_tool_work :: "run_state \<Rightarrow> bool" where
  "did_tool_work st \<longleftrightarrow> list_ex (\<lambda>m. json_get m ''tool_call_id'' \<noteq> None) (rs_messages st)"

definition charged :: "run_state \<Rightarrow> nat" where
  "charged st = rs_iteration st - rs_free_steps st"

definition push :: "json \<Rightarrow> run_state \<Rightarrow> run_state" where
  "push m st = st\<lparr>rs_messages := rs_messages st @ [m]\<rparr>"

definition assistant_message :: "string \<Rightarrow> json" where
  "assistant_message text = JObject [(''role'', JString ''assistant''), (''content'', JString text)]"

definition push_answer :: "string \<Rightarrow> run_state \<Rightarrow> run_state" where
  "push_answer answer st = (if trim answer \<noteq> [] then push (assistant_message answer) st else st)"

definition rescue_empty_answer :: "run_state \<Rightarrow> bool \<Rightarrow> run_state \<times> bool" where
  "rescue_empty_answer st thought =
     (if trim (rs_final_text st) \<noteq> [] \<or> MAX_EMPTY_RETRIES \<le> rs_empty_retries st then (st, False)
      else if did_tool_work st
      then (push (system_message ANSWER_NOW_PROMPT) (st\<lparr>rs_empty_retries := rs_empty_retries st + 1\<rparr>), True)
      else if thought
      then (push (system_message FINISH_THINKING_PROMPT) (st\<lparr>rs_empty_retries := rs_empty_retries st + 1\<rparr>), True)
      else (st, False))"

definition plan_nudge_text :: "plan \<Rightarrow> nat list \<Rightarrow> string" where
  "plan_nudge_text p probably =
     ''You are about to finish, but your own plan still has these items open:'' @ newline @ join_with newline (map (\<lambda>(n, i). ''- '' @ item_text i
       @ (if n \<in> set probably then '' (probably done: your answer seems to cover it)'' else [])) (open_items p))
     @ newline @ ''Carry on with them now. If you genuinely do not need one any more, drop it with ''
        @ ''plan(update:{index, status:'' @ [CHR 34] @ ''dropped'' @ [CHR 34]
        @ '', why}) so the plan says what happened '' @ em_dash
        @ '' the user is looking at it. If everything is really done, mark the items done and ''
        @ ''then give your answer.''"

definition nudge_unfinished_plan :: "run_state \<Rightarrow> plan \<Rightarrow> string \<Rightarrow> nat list \<Rightarrow> run_state \<times> bool" where
  "nudge_unfinished_plan st p answer probably =
     (if MAX_PLAN_NUDGES \<le> rs_plan_nudges st \<or> open_items p = [] then (st, False)
      else (push (system_message (plan_nudge_text p probably))
              (push_answer answer (st\<lparr>rs_plan_nudges := rs_plan_nudges st + 1\<rparr>)), True))"

definition push_nudge :: "string \<Rightarrow> string \<Rightarrow> run_state \<Rightarrow> run_state" where
  "push_nudge answer note st = push (system_message note) (push_answer answer st)"

definition unverified_message :: "nat \<Rightarrow> string \<Rightarrow> bool \<Rightarrow> string" where
  "unverified_message files check can_run =
     ''You changed '' @ show_nat files @ '' file'' @ (if files = 1 then [] else ''s'') @ '' in this project''
     @ (if can_run then '' and have not run `''
        @ check @ ''` since. Run it with run_task and read the result before you say the change works. ''
        @ ''If there is a real reason not to, say so plainly instead.''
        else '', and `''
        @ check @ ''` cannot be run here. Say plainly, in one sentence, that you have not verified the ''
        @ ''change by running it.'')"

definition NARRATION_PROMPT :: string where
  "NARRATION_PROMPT =
     ''You described a tool call instead of making one. Call the tool for real now '' @ em_dash
        @ '' emit it as a tool call, not as text or a code block.''"

section \<open>The log\<close>

definition flush_log :: "agent_run \<Rightarrow> agent_run" where
  "flush_log = (\<lambda>(st, w).
     (st\<lparr>rs_logged := length (rs_messages st)\<rparr>,
      w\<lparr>w_obs := w_obs w @ map ObsAppended (drop (rs_logged st) (rs_messages st))\<rparr>))"

section \<open>Opening a turn\<close>

definition take_steer :: "steer \<Rightarrow> agent_run \<Rightarrow> agent_run" where
  "take_steer s = (\<lambda>(st, w). (push (steer_message s) st, w\<lparr>w_obs := w_obs w @ [ObsSteered (steer_text s)]\<rparr>))"

definition spent :: "turn_ctx \<Rightarrow> nat \<Rightarrow> run_state \<Rightarrow> stop_reason option" where
  "spent cx now st =
     (if out_of_time (cx_limits cx) now then Some StopTimeout
      else if max_iterations (cx_limits cx) \<le> charged st + 1 then Some StopMaxSteps
      else None)"

definition open_turn :: "turn_ctx \<Rightarrow> nat \<Rightarrow> agent_run \<Rightarrow> agent_run" where
  "open_turn cx now = (\<lambda>(st, w).
     let (h, steers) = drain_steers (w_handle w);
         (st, w) = fold take_steer steers (st, w\<lparr>w_handle := h\<rparr>)
     in if rs_wrap_up st = None \<and> cx_tools_enabled cx
        then (case spent cx now st of
                Some reason \<Rightarrow> ((push (system_message WRAP_UP_PROMPT) st)\<lparr>rs_wrap_up := Some reason\<rparr>, w)
              | None \<Rightarrow> (st, w))
        else (st, w))"

definition made_room_trace :: "cleared \<Rightarrow> command_trace" where
  "made_room_trace c =
     \<lparr>ct_name = ''compact'',
      ct_args = show_nat (cl_count c) @ '' results, about '' @ show_nat ((cl_tokens c + 999) div 1000) @ ''k tokens'',
      ct_by = ''agent'', ct_outcome = ''done'', ct_note = Some (made_room_note c), ct_message_id = None\<rparr>"

definition make_room :: "turn_ctx \<Rightarrow> db \<Rightarrow> agent_run \<Rightarrow> agent_run" where
  "make_room cx h = (\<lambda>(st, w).
     (case clearing_plan h (cx_window cx) (transcript_tokens (cx_print cx) (rs_messages st)) (w_compact_asked w) of
        None \<Rightarrow> (st, w\<lparr>w_compact_asked := False\<rparr>)
      | Some (keep_recent, limit) \<Rightarrow>
          (let (ms, store, dsk, c) = clear_old_results (cx_print cx) (rs_messages st) (w_store w) (w_disk w) keep_recent limit
           in (st\<lparr>rs_messages := ms\<rparr>,
               w\<lparr>w_compact_asked := False, w_store := store, w_disk := dsk,
                 w_obs := w_obs w @ (if cl_count c = 0 then [] else [LogCommand (made_room_trace c)])\<rparr>))))"

definition prepare_turn :: "turn_ctx \<Rightarrow> turn_input \<Rightarrow> agent_run \<Rightarrow> agent_run \<times> stop_reason option" where
  "prepare_turn cx inp r =
     (let (st, w) = flush_log r in
      if in_cancelled inp then ((st, w), Some StopAborted)
      else
        (let (st, w) = flush_log (open_turn cx (in_now inp) (st, w\<lparr>w_handle := (w_handle w)\<lparr>h_inbox := h_inbox (w_handle w) @ in_steers inp\<rparr>\<rparr>));
             (st, w) = make_room cx (in_db inp) (st, w)
         in ((st\<lparr>rs_iteration := rs_iteration st + 1\<rparr>, w\<lparr>w_handle := fst (bump_steps (w_handle w))\<rparr>), None)))"

section \<open>Asking the model\<close>

definition drive_turn_adapting ::
  "(nat \<Rightarrow> json list \<Rightarrow> delta list \<times> (string + turn_outcome)) \<Rightarrow> json list \<Rightarrow> bool \<Rightarrow> (delta list \<times> (string + turn_outcome)) \<times> bool" where
  "drive_turn_adapting reply messages strict =
     (if strict then (reply 0 (flatten_to_alternating messages), True)
      else (case reply 0 messages of
              (ds, Inl e) \<Rightarrow>
                if is_template_error e
                then (let (ds', res) = reply 1 (flatten_to_alternating messages) in ((ds @ ds', res), True))
                else ((ds, Inl e), False)
            | other \<Rightarrow> (other, False)))"

definition answers_of :: "delta list \<Rightarrow> string list" where
  "answers_of ds = List.map_filter (\<lambda>d. case d of DeltaAnswer t \<Rightarrow> Some t | DeltaThinking _ \<Rightarrow> None) ds"

definition outcome_usage :: "string + turn_outcome \<Rightarrow> usage option" where
  "outcome_usage res = (case res of Inr (TurnFinal _ _ u) \<Rightarrow> u | Inr (TurnCalls _ u) \<Rightarrow> u | _ \<Rightarrow> None)"

definition charge_usage :: "string + turn_outcome \<Rightarrow> run_world \<Rightarrow> run_world" where
  "charge_usage res w = (case outcome_usage res of None \<Rightarrow> w | Some u \<Rightarrow> w\<lparr>w_handle := add_usage (w_handle w) u\<rparr>)"

definition show_plan :: "json list \<Rightarrow> plan \<Rightarrow> json list \<times> bool" where
  "show_plan ms p = (case plan_message p of Some line \<Rightarrow> (ms @ [line], True) | None \<Rightarrow> (ms, False))"

definition hide_plan :: "json list \<Rightarrow> bool \<Rightarrow> json list" where
  "hide_plan ms pushed = (if pushed then butlast ms else ms)"

definition request :: "turn_ctx \<Rightarrow> turn_input \<Rightarrow> agent_run \<Rightarrow> agent_run \<times> (string + turn_outcome) \<times> stream_state" where
  "request cx inp = (\<lambda>(st, w).
     let (shown, pushed) = show_plan (rs_messages st) (w_plan w);
         ((ds, res), strict) = drive_turn_adapting (in_reply inp) shown (rs_strict_template st);
         held = fold (on_token (cx_unicode cx) (cx_alpha cx) (cx_tools_enabled cx) (cx_tool_names cx) (cx_invocable cx))
                  (answers_of ds) (stream_start (rs_final_text st))
     in ((st\<lparr>rs_messages := hide_plan shown pushed, rs_final_text := ss_final held, rs_strict_template := strict\<rparr>,
          charge_usage res w), res, held))"

section \<open>What a turn amounts to\<close>

datatype next_step = NextStop stop_reason | NextCalls "tool_call_req list" | NextAgain

definition apply_judged :: "plan \<Rightarrow> judged list \<Rightarrow> plan" where
  "apply_judged p js =
     fold (\<lambda>j p. case jd_finish j of FinishDone c \<Rightarrow> fst (mark_judged p (jd_index j) c (jd_decision j)) | _ \<Rightarrow> p) js p"

definition probably_done :: "judged list \<Rightarrow> nat list" where
  "probably_done js = map jd_index (filter (\<lambda>j. case jd_finish j of FinishProbably _ \<Rightarrow> True | _ \<Rightarrow> False) js)"

definition judge_plan :: "turn_input \<Rightarrow> string \<Rightarrow> run_world \<Rightarrow> run_world \<times> nat list" where
  "judge_plan inp answer w =
     (if trim answer = [] \<or> open_items (w_plan w) = [] then (w, [])
      else (w\<lparr>w_plan := apply_judged (w_plan w) (in_judged inp)\<rparr>, probably_done (in_judged inp)))"

definition unverified_note :: "turn_input \<Rightarrow> run_world \<Rightarrow> run_world \<times> string option" where
  "unverified_note inp w =
     (if edited_count (w_ledger w) = 0 then (w, None)
      else (case in_check_task inp of
              None \<Rightarrow> (w, None)
            | Some check \<Rightarrow>
                if \<not> has_unverified (w_ledger w) \<or> in_claims_nothing inp then (w, None)
                else (case take_unverified (w_ledger w) of
                        (l, None) \<Rightarrow> (w\<lparr>w_ledger := l\<rparr>, None)
                      | (l, Some files) \<Rightarrow> (w\<lparr>w_ledger := l\<rparr>, Some (unverified_message files check (in_can_run inp))))))"

definition classify_final :: "turn_ctx \<Rightarrow> turn_input \<Rightarrow> agent_run \<Rightarrow> string \<Rightarrow> string \<Rightarrow> stream_state \<Rightarrow> agent_run \<times> next_step" where
  "classify_final cx inp = (\<lambda>(st, w) content reasoning held.
     let text = (if content = [] then ss_buf held else content) in
     if \<not> cx_tools_enabled cx
     then ((if rs_final_text st = [] then st\<lparr>rs_final_text := text\<rparr> else st, w), NextStop StopCompleted)
     else
       (let rest = unshown held text in
        case parse_text_tool_calls (in_fresh inp) (cx_parse cx) (cx_first_json cx) (cx_print cx) rest (cx_registry cx) of
          Some calls \<Rightarrow> ((st, w), NextCalls calls)
        | None \<Rightarrow>
            if rs_narration_nudges st < MAX_NARRATION_NUDGES \<and> narrates_a_tool_call (cx_unicode cx) rest (cx_invocable cx)
            then ((push_nudge text NARRATION_PROMPT (st\<lparr>rs_narration_nudges := rs_narration_nudges st + 1\<rparr>), w), NextAgain)
            else
              (let (st, rescued) = rescue_empty_answer (st\<lparr>rs_final_text := rs_final_text st @ rest\<rparr>) (trim reasoning \<noteq> []) in
               if rescued then ((st, w), NextAgain)
               else
                 (let (w, probably) = judge_plan inp text w;
                      (st, nudged) = nudge_unfinished_plan st (w_plan w) text probably in
                  if nudged then ((st, w), NextAgain)
                  else (case unverified_note inp w of
                          (w, Some note) \<Rightarrow> ((push_nudge text note st, w), NextAgain)
                        | (w, None) \<Rightarrow> ((st, w), NextStop StopCompleted))))))"

definition classify_turn :: "turn_ctx \<Rightarrow> turn_input \<Rightarrow> agent_run \<Rightarrow> string + turn_outcome \<Rightarrow> stream_state \<Rightarrow> agent_run \<times> next_step" where
  "classify_turn cx inp r res held =
     (case res of
        Inr (TurnFinal content reasoning _) \<Rightarrow> classify_final cx inp r content reasoning held
      | Inr TurnCancelled \<Rightarrow> (r, NextStop StopAborted)
      | Inr (TurnCalls calls _) \<Rightarrow> (r, NextCalls calls)
      | Inl _ \<Rightarrow> (r, NextStop StopError))"

text \<open>The last turn of a run whose budget is spent.\<close>

definition wrap_up_turn :: "turn_input \<Rightarrow> agent_run \<Rightarrow> stop_reason \<Rightarrow> agent_run \<times> stop_reason" where
  "wrap_up_turn inp = (\<lambda>(st, w) reason.
     let st = (case wrap_up_message (w_plan w) of Some line \<Rightarrow> push line st | None \<Rightarrow> st);
         ((ds, res), strict) = drive_turn_adapting (in_reply inp) (rs_messages st) (rs_strict_template st);
         streamed = concat (answers_of ds);
         st = st\<lparr>rs_strict_template := strict\<rparr>;
         w = charge_usage res w
     in case res of
          Inl _ \<Rightarrow> ((st, w), StopError)
        | Inr TurnCancelled \<Rightarrow> ((st, w), StopAborted)
        | Inr out \<Rightarrow>
            (let answer = (case out of TurnFinal content _ _ \<Rightarrow> content | _ \<Rightarrow> []);
                 answer = (if answer = [] then streamed else answer)
             in ((st\<lparr>rs_final_text := rs_final_text st @ answer\<rparr>, w), reason)))"

section \<open>Tool calls\<close>

definition partition_calls :: "tool_registry \<Rightarrow> tool_call_req list \<Rightarrow> nat list \<times> nat list" where
  "partition_calls r calls =
     (let side_by_side = (\<lambda>i. case builtin_for r (tc_name (calls ! i)) of Some ts \<Rightarrow> \<not> is_serial ts (tc_name (calls ! i)) | None \<Rightarrow> False);
          concurrent = filter side_by_side [0..<length calls];
          ordered = filter (\<lambda>i. \<not> side_by_side i) [0..<length calls]
      in if length concurrent < 2 then ([], sort (ordered @ concurrent)) else (concurrent, ordered))"

definition NEED_TOOLS :: string where "NEED_TOOLS = ''need_tools''"

definition is_bookkeeping :: "tool_call_req list \<Rightarrow> bool" where
  "is_bookkeeping calls \<longleftrightarrow> calls \<noteq> []
     \<and> list_all (\<lambda>c. tc_name c \<in> {''plan'', ''harness'', ''ask_user'', NEED_TOOLS}) calls"

definition plan_note :: "plan \<Rightarrow> string" where
  "plan_note p = em_dash @ (case plan_current p of Some i \<Rightarrow> '' '' @ ellipsize (item_text i) 48 | None \<Rightarrow> '' every step done'')"

definition dispatch_plan :: "turn_ctx \<Rightarrow> json \<Rightarrow> run_world \<Rightarrow> run_world \<times> call_result" where
  "dispatch_plan cx args w =
     (case plan_execute (w_plan w) args of
        (p, Inl e) \<Rightarrow> (w\<lparr>w_plan := p\<rparr>, Inl e)
      | (p, Inr output) \<Rightarrow>
          (let p = (if cx_plan_first cx then p\<lparr>awaiting_approval := True\<rparr> else p)
           in (w\<lparr>w_plan := p, w_obs := w_obs w @ [LogPlan p]\<rparr>, Inr (output, Some (plan_note p)))))"

definition dispatch :: "turn_ctx \<Rightarrow> turn_input \<Rightarrow> call_result \<Rightarrow> string \<Rightarrow> json \<Rightarrow> run_world \<Rightarrow> run_world \<times> call_result" where
  "dispatch cx inp answer name args w =
     (if result_handles name then
        (case result_execute (cx_unicode cx) (cx_why cx) (w_store w) (w_disk w) name args of
           None \<Rightarrow> (w\<lparr>w_panicked := True\<rparr>, Inl [])
         | Some (Inl e) \<Rightarrow> (w, Inl e)
         | Some (Inr out) \<Rightarrow> (w, Inr (out, None)))
      else if name = ''plan'' \<and> offers_tool (cx_plan_mode cx) then dispatch_plan cx args w
      else if name = ''harness'' \<and> cx_harness cx then (w\<lparr>w_compact_asked := w_compact_asked w \<or> in_compact inp\<rparr>, answer)
      else if name = ''ask_user'' \<and> cx_ask_offered cx \<or> name = NEED_TOOLS \<and> in_held inp then (w, answer)
      else if cx_read_only cx \<and> refuses_in_plan_first (cx_registry cx) name then (w, Inl PLAN_FIRST_REFUSAL)
      else if known_tool (cx_registry cx) name then (w\<lparr>w_ledger := in_ledger inp (w_ledger w)\<rparr>, answer)
      else (w, Inl (''No toolset or connector provides the tool '' @ [CHR 39] @ name @ [CHR 39] @ ''.'')))"

text \<open>A script that runs code may call tools from inside its sandbox; what it calls, and what the tools answer,
  is an input.  Each such call goes the way of the calls of the model and is counted, but has no message.\<close>

definition TOOL_RPC_KEY :: string where "TOOL_RPC_KEY = ''tools.script_rpc''"

definition rpc_enabled :: "db \<Rightarrow> bool" where
  "rpc_enabled d \<longleftrightarrow> get_setting d TOOL_RPC_KEY \<in> {Some ''true'', Some ''1''}"

definition script_call :: "turn_ctx \<Rightarrow> turn_input \<Rightarrow> string \<times> json \<times> call_result \<Rightarrow> run_world \<Rightarrow> run_world" where
  "script_call cx inp = (\<lambda>(name, args, answer) w.
     (case script_refusal (cx_registry cx) name of
        Some _ \<Rightarrow> w
      | None \<Rightarrow> (let (w, res) = dispatch cx inp answer name args w in w\<lparr>w_stats := w_stats w @ [(name, \<not> isl res)]\<rparr>)))"

type_synonym outcomes = "nat \<rightharpoonup> call_result"

definition dispatch_at ::
  "turn_ctx \<Rightarrow> turn_input \<Rightarrow> tool_call_req list \<Rightarrow> nat \<Rightarrow> run_world \<times> outcomes \<Rightarrow> run_world \<times> outcomes" where
  "dispatch_at cx inp calls i = (\<lambda>(w, outs).
     let args = (case cx_parse cx (tc_arguments (calls ! i)) of Some v \<Rightarrow> v | None \<Rightarrow> JObject []);
         w = (if codeexec_handles (tc_name (calls ! i)) \<and> rpc_enabled (in_db inp) then fold (script_call cx inp) (in_script inp i) w else w);
         (w, res) = dispatch cx inp (in_tool inp i) (tc_name (calls ! i)) args w
     in (w, outs(i \<mapsto> res)))"

text \<open>Stop is looked at before the reads and before each of the others.\<close>

fun run_ordered ::
  "turn_ctx \<Rightarrow> turn_input \<Rightarrow> tool_call_req list \<Rightarrow> nat \<Rightarrow> nat list \<Rightarrow> run_world \<times> outcomes \<Rightarrow> run_world \<times> outcomes" where
  "run_ordered cx inp calls k [] s = s"
| "run_ordered cx inp calls k (i # is) s =
     (if in_stop inp k then s else run_ordered cx inp calls (k + 1) is (dispatch_at cx inp calls i s))"

definition run_tools :: "turn_ctx \<Rightarrow> turn_input \<Rightarrow> tool_call_req list \<Rightarrow> run_world \<Rightarrow> run_world \<times> outcomes" where
  "run_tools cx inp calls w =
     (let (concurrent, ordered) = partition_calls (cx_registry cx) calls;
          s = (if concurrent \<noteq> [] \<and> \<not> in_stop inp 0 then fold (dispatch_at cx inp calls) concurrent (w, Map.empty)
               else (w, Map.empty))
      in run_ordered cx inp calls 1 ordered s)"

definition record_ok :: "turn_input \<Rightarrow> nat \<Rightarrow> tool_call_req \<Rightarrow> string \<Rightarrow> agent_run \<Rightarrow> agent_run" where
  "record_ok inp i call output = (\<lambda>(st, w).
     let (tracker, fixed) = fix_succeeded (rs_last_failure st) (tc_name call);
         w = (case fixed of None \<Rightarrow> w
              | Some (bad, err) \<Rightarrow> w\<lparr>w_fixes := w_fixes w
                  @ [\<lparr>tf_tool = tc_name call, tf_failed_args = bad, tf_error = err, tf_fixed_args = tc_arguments call\<rparr>]\<rparr>);
         ((store, dsk), kept) = keep (w_store w) (w_disk w) (tc_id call) output;
         text = (case kept of Some (_, shown) \<Rightarrow> shown | None \<Rightarrow> output)
     in (push (tool_result_message (tc_id call) (text @ in_spoken inp i)) (st\<lparr>rs_last_failure := tracker\<rparr>),
         w\<lparr>w_store := store, w_disk := dsk\<rparr>))"

definition fix_prompt :: "string \<Rightarrow> string" where
  "fix_prompt e = ''Fix the previous tool call: '' @ e @ ''. Reply with ONLY the corrected tool call.''"

definition record_failure :: "turn_ctx \<Rightarrow> turn_input \<Rightarrow> nat \<Rightarrow> tool_call_req \<Rightarrow> string \<Rightarrow> agent_run \<Rightarrow> agent_run" where
  "record_failure cx inp i call e = (\<lambda>(st, w).
     let st = push (tool_result_message (tc_id call) (''Error: '' @ e @ in_spoken inp i))
                (st\<lparr>rs_last_failure := fix_failed (rs_last_failure st) (tc_name call) (tc_arguments call) e\<rparr>)
     in if builtin_for (cx_registry cx) (tc_name call) \<noteq> None \<and> tc_id call \<notin> set (rs_retried st)
        then (push (system_message (fix_prompt e)) (st\<lparr>rs_retried := tc_id call # rs_retried st\<rparr>), w)
        else (st, w))"

definition record_result :: "turn_ctx \<Rightarrow> turn_input \<Rightarrow> outcomes \<Rightarrow> nat \<times> tool_call_req \<Rightarrow> agent_run \<Rightarrow> agent_run" where
  "record_result cx inp outs = (\<lambda>(i, call) (st, w).
     (case outs i of
        None \<Rightarrow> (push (tool_result_message (tc_id call) ''Error: the user stopped this run.'') st, w)
      | Some (Inr (output, _)) \<Rightarrow> record_ok inp i call output (st, w\<lparr>w_stats := w_stats w @ [(tc_name call, True)]\<rparr>)
      | Some (Inl e) \<Rightarrow> record_failure cx inp i call e (st, w\<lparr>w_stats := w_stats w @ [(tc_name call, False)]\<rparr>)))"

definition dispatch_batch :: "turn_ctx \<Rightarrow> turn_input \<Rightarrow> tool_call_req list \<Rightarrow> agent_run \<Rightarrow> agent_run" where
  "dispatch_batch cx inp calls = (\<lambda>(st, w).
     let st = (if is_bookkeeping calls \<and> rs_free_steps st < MAX_FREE_PLAN_STEPS then st\<lparr>rs_free_steps := rs_free_steps st + 1\<rparr> else st);
         st = push (assistant_tool_call_message calls) st;
         (w, outs) = run_tools cx inp calls w
     in fold (record_result cx inp outs) (enumerated calls) (st, w))"

definition skill_preload_call :: "turn_ctx \<Rightarrow> string \<Rightarrow> string \<Rightarrow> string option \<Rightarrow> tool_call_req" where
  "skill_preload_call cx fresh name args =
     \<lparr>tc_id = ''call_skill_'' @ fresh, tc_name = ''skill'',
      tc_arguments = cx_print cx (JObject [(''name'', JString name), (''arguments'', JString (or_str [] args))])\<rparr>"

definition preload_skill :: "turn_ctx \<Rightarrow> turn_input \<Rightarrow> string \<Rightarrow> string option \<Rightarrow> agent_run \<Rightarrow> agent_run" where
  "preload_skill cx inp name args r =
     (if \<not> cx_tools_enabled cx \<or> cx_headless cx \<or> ''skill'' \<notin> set (cx_tool_names cx) then r
      else dispatch_batch cx inp [skill_preload_call cx (in_fresh inp 0) name args] r)"

section \<open>The loop\<close>

datatype turn_end = Goes_On | Run_Ended string stop_reason | Run_Crashed

definition run_turn :: "turn_ctx \<Rightarrow> turn_input \<Rightarrow> agent_run \<Rightarrow> agent_run \<times> turn_end" where
  "run_turn cx inp r =
     (case prepare_turn cx inp r of
        (r, Some reason) \<Rightarrow> (r, Run_Ended (rs_final_text (fst r)) reason)
      | (r, None) \<Rightarrow>
          (case rs_wrap_up (fst r) of
             Some reason \<Rightarrow> (let (r, ended) = wrap_up_turn inp r reason in (r, Run_Ended (rs_final_text (fst r)) ended))
           | None \<Rightarrow>
               (let (r, res, held) = request cx inp r;
                    (r, nxt) = classify_turn cx inp r res held
                in case nxt of
                     NextStop reason \<Rightarrow> (r, Run_Ended (rs_final_text (fst r)) reason)
                   | NextAgain \<Rightarrow> (r, Goes_On)
                   | NextCalls calls \<Rightarrow>
                       (let r = dispatch_batch cx inp calls r in
                        if w_panicked (snd r) then (r, Run_Crashed)
                        else (case in_waiting inp of
                                Some note \<Rightarrow> (r, Run_Ended (if trim (rs_final_text (fst r)) = [] then note else rs_final_text (fst r)) StopCompleted)
                              | None \<Rightarrow> (r, Goes_On))))))"

text \<open>What the log and the plan get when the run is over.\<close>

definition finish_run :: "turn_ctx \<Rightarrow> string \<Rightarrow> stop_reason \<Rightarrow> agent_run \<Rightarrow> agent_run" where
  "finish_run cx text reason = (\<lambda>(st, w).
     (st, w\<lparr>w_obs := w_obs w @ (if text = [] then [] else [ObsAppended (assistant_message text)])
                          @ [ObsStopped (stop_as_str reason) (unat (h_steps (w_handle w)))],
            w_plan := (if cx_plan_first cx \<and> \<not> plan_is_empty (w_plan w) then (w_plan w)\<lparr>awaiting_approval := True\<rparr> else w_plan w)\<rparr>))"

fun run_loop :: "turn_ctx \<Rightarrow> turn_input list \<Rightarrow> agent_run \<Rightarrow> agent_run \<times> turn_end" where
  "run_loop cx [] r = (r, Goes_On)"
| "run_loop cx (inp # inps) r =
     (case run_turn cx inp r of
        (r, Goes_On) \<Rightarrow> run_loop cx inps r
      | (r, Run_Ended text reason) \<Rightarrow> (finish_run cx text reason r, Run_Ended text reason)
      | (r, Run_Crashed) \<Rightarrow> (r, Run_Crashed))"

definition fresh_state :: "json list \<Rightarrow> run_state" where
  "fresh_state messages =
     \<lparr>rs_messages = messages, rs_logged = length messages, rs_final_text = [], rs_retried = [], rs_last_failure = Map.empty,
      rs_narration_nudges = 0, rs_empty_retries = 0, rs_plan_nudges = 0, rs_free_steps = 0, rs_strict_template = False,
      rs_wrap_up = None, rs_iteration = 0\<rparr>"

text \<open>A run from its transcript: the note of planning first, what matching the message against the user's
  rules has to say (\<open>cx_early_notes\<close>), the opening of the log, a skill the user named.\<close>

definition opening_messages :: "turn_ctx \<Rightarrow> json list \<Rightarrow> json list" where
  "opening_messages cx messages =
     messages @ (if cx_plan_first cx then [system_message PLAN_FIRST_NOTE] else []) @ map system_message (cx_early_notes cx)"

definition start_run :: "turn_ctx \<Rightarrow> json list \<Rightarrow> (turn_input \<times> string \<times> string option) option \<Rightarrow> run_world \<Rightarrow> agent_run" where
  "start_run cx messages skill w =
     (let r = (fresh_state (opening_messages cx messages), w\<lparr>w_obs := w_obs w @ [ObsPrompt (opening_messages cx messages)]\<rparr>)
      in case skill of None \<Rightarrow> r | Some (inp, name, args) \<Rightarrow> preload_skill cx inp name args r)"

definition run_agent :: "turn_ctx \<Rightarrow> json list \<Rightarrow> (turn_input \<times> string \<times> string option) option \<Rightarrow> turn_input list \<Rightarrow> run_world \<Rightarrow> agent_run \<times> turn_end" where
  "run_agent cx messages skill inps w =
     (let r = start_run cx messages skill w in
      if w_panicked (snd r) then (r, Run_Crashed) else run_loop cx inps r)"

section \<open>A run ends\<close>

lemma push_fields [simp]:
  "rs_logged (push m st) = rs_logged st" "rs_final_text (push m st) = rs_final_text st" "rs_free_steps (push m st) = rs_free_steps st"
  "rs_wrap_up (push m st) = rs_wrap_up st" "rs_iteration (push m st) = rs_iteration st" "rs_messages (push m st) = rs_messages st @ [m]"
  by (simp_all add: push_def)

text \<open>The counters of the loop: rounds, free rounds, and the mark of the last turn.\<close>

definition counters :: "run_state \<Rightarrow> nat \<times> nat \<times> stop_reason option" where
  "counters st = (rs_iteration st, rs_free_steps st, rs_wrap_up st)"

lemma counters_push [simp]: "counters (push m st) = counters st" by (simp add: counters_def)

lemma counters_updates [simp]:
  "counters (st\<lparr>rs_messages := ms\<rparr>) = counters st" "counters (st\<lparr>rs_logged := n\<rparr>) = counters st"
  "counters (st\<lparr>rs_final_text := t\<rparr>) = counters st" "counters (st\<lparr>rs_retried := l\<rparr>) = counters st"
  "counters (st\<lparr>rs_last_failure := f\<rparr>) = counters st" "counters (st\<lparr>rs_narration_nudges := n\<rparr>) = counters st"
  "counters (st\<lparr>rs_empty_retries := n\<rparr>) = counters st" "counters (st\<lparr>rs_plan_nudges := n\<rparr>) = counters st"
  "counters (st\<lparr>rs_strict_template := b\<rparr>) = counters st"
  by (simp_all add: counters_def)

lemma counters_push_answer [simp]: "counters (push_answer a st) = counters st" by (simp add: push_answer_def)

lemma counters_nudges [simp]:
  "counters (push_nudge a n st) = counters st"
  "counters (fst (rescue_empty_answer st b)) = counters st"
  "counters (fst (nudge_unfinished_plan st p a l)) = counters st"
  by (simp_all add: push_nudge_def rescue_empty_answer_def nudge_unfinished_plan_def)

lemma counters_record: "counters (fst (record_result cx inp outs x r)) = counters (fst r)"
  by (cases x; cases r)
    (simp add: record_result_def record_ok_def record_failure_def Let_def split_beta split: option.split sum.split)

lemma counters_records: "counters (fst (fold (record_result cx inp outs) xs r)) = counters (fst r)"
  by (induction xs arbitrary: r) (simp_all add: counters_record)

lemma counters_batch:
  "\<exists>n. counters (fst (dispatch_batch cx inp calls (st, w))) = (rs_iteration st, rs_free_steps st + n, rs_wrap_up st)
     \<and> n \<le> 1 \<and> (rs_free_steps st \<le> MAX_FREE_PLAN_STEPS \<longrightarrow> rs_free_steps st + n \<le> MAX_FREE_PLAN_STEPS)"
proof (cases "is_bookkeeping calls \<and> rs_free_steps st < MAX_FREE_PLAN_STEPS")
  case True
  then show ?thesis
    by (intro exI[of _ 1]) (simp add: dispatch_batch_def counters_records Let_def split_beta, simp add: counters_def push_def)
next
  case False
  then have "counters (fst (dispatch_batch cx inp calls (st, w))) = counters st"
    unfolding dispatch_batch_def prod.case Let_def if_not_P[OF False] by (simp add: counters_records split_beta)
  then show ?thesis by (intro exI[of _ 0]) (simp add: counters_def)
qed

text \<open>The answer of a turn, taken apart.\<close>

lemma classify_final_cases:
  assumes "classify_final cx inp (st, w) content reasoning held = ((st', w'), nxt)"
  shows "counters st' = counters st"
    "\<exists>extra. rs_messages st' = rs_messages st @ extra \<and> (nxt \<noteq> NextAgain \<longrightarrow> extra = [])"
    "rs_logged st' = rs_logged st \<and> w_obs w' = w_obs w"
proof -
  let ?text = "if content = [] then ss_buf held else content"
  let ?rest = "unshown held ?text"
  let ?st0 = "st\<lparr>rs_final_text := rs_final_text st @ ?rest\<rparr>"
  obtain st1 b1 where r: "rescue_empty_answer ?st0 (trim reasoning \<noteq> []) = (st1, b1)" by fastforce
  obtain w1 pr where j: "judge_plan inp ?text w = (w1, pr)" by fastforce
  obtain st2 b2 where n: "nudge_unfinished_plan st1 (w_plan w1) ?text pr = (st2, b2)" by fastforce
  obtain w2 nt where u: "unverified_note inp w1 = (w2, nt)" by fastforce
  have c1: "counters st1 = counters st" "rs_logged st1 = rs_logged st"
      "\<exists>extra. rs_messages st1 = rs_messages st @ extra \<and> (\<not> b1 \<longrightarrow> extra = [])"
    using counters_nudges(2)[of ?st0 "trim reasoning \<noteq> []"] r
    by (auto simp: rescue_empty_answer_def push_def split: if_splits)
  have c2: "counters st2 = counters st1" "rs_logged st2 = rs_logged st1"
      "\<exists>extra. rs_messages st2 = rs_messages st1 @ extra \<and> (\<not> b2 \<longrightarrow> extra = [])"
    using counters_nudges(3)[of st1 "w_plan w1" ?text pr] n
    by (auto simp: nudge_unfinished_plan_def push_def push_answer_def split: if_splits)
  have o: "w_obs w1 = w_obs w" "w_obs w2 = w_obs w1"
    using j u by (auto simp: judge_plan_def unverified_note_def split: if_splits option.splits prod.splits)
  note d = assms[unfolded classify_final_def prod.case Let_def r j n u]
  have nudge: "counters (push_nudge a m s) = counters s" "rs_logged (push_nudge a m s) = rs_logged s"
      "\<exists>extra. rs_messages (push_nudge a m s) = rs_messages s @ extra" for a m s
    by (simp_all add: push_nudge_def push_answer_def push_def)
  consider "st' = st\<lparr>rs_final_text := ?text\<rparr>" "w' = w" | "st' = st" "w' = w"
    | "nxt = NextAgain" "st' = push_nudge ?text NARRATION_PROMPT (st\<lparr>rs_narration_nudges := rs_narration_nudges st + 1\<rparr>)" "w' = w"
    | "nxt = NextAgain" "st' = st1" "w' = w" | "\<not> b1" "nxt = NextAgain" "st' = st2" "w' = w1"
    | m where "\<not> b1" "\<not> b2" "nxt = NextAgain" "st' = push_nudge ?text m st2" "w' = w2" | "\<not> b1" "\<not> b2" "st' = st2" "w' = w2"
    using d by (auto split: if_splits option.splits)
  note cs = this
  obtain e1 where m1: "rs_messages st1 = rs_messages st @ e1" "\<not> b1 \<Longrightarrow> e1 = []" using c1(3) by blast
  obtain e2 where m2: "rs_messages st2 = rs_messages st1 @ e2" "\<not> b2 \<Longrightarrow> e2 = []" using c2(3) by blast
  show "counters st' = counters st"
    by (rule cs) (use c1 c2 nudge(1) in \<open>simp_all add: counters_def\<close>)
  show "\<exists>extra. rs_messages st' = rs_messages st @ extra \<and> (nxt \<noteq> NextAgain \<longrightarrow> extra = [])"
    by (rule cs) (simp_all add: m1 m2 push_nudge_def push_answer_def push_def)
  show "rs_logged st' = rs_logged st \<and> w_obs w' = w_obs w"
    by (rule cs) (use c1(2) c2(2) o nudge(2) in \<open>simp_all\<close>)
qed

lemma counters_classify_final: "counters (fst (fst (classify_final cx inp (st, w) content reasoning held))) = counters st"
  using classify_final_cases(1) by (metis prod.collapse)

lemma counters_classify: "counters (fst (fst (classify_turn cx inp r res held))) = counters (fst r)"
  by (cases r) (simp add: classify_turn_def counters_classify_final split: sum.split turn_outcome.split)

lemma counters_request: "counters (fst (fst (request cx inp r))) = counters (fst r)"
  by (cases r) (simp add: request_def Let_def split_beta)

lemma counters_flush: "counters (fst (flush_log r)) = counters (fst r)"
  by (cases r) (simp add: flush_log_def)

lemma counters_make_room: "counters (fst (make_room cx h r)) = counters (fst r)"
  by (cases r) (simp add: make_room_def split_beta split: option.split)

lemma counters_steers: "counters (fst (fold take_steer ss r)) = counters (fst r)"
  by (induction ss arbitrary: r) (simp_all add: take_steer_def split_beta)

lemma counters_open:
  assumes "cx_tools_enabled cx"
  shows "counters (fst (open_turn cx now (st, w))) =
    (rs_iteration st, rs_free_steps st, if rs_wrap_up st = None then spent cx now st else rs_wrap_up st)"
proof -
  obtain st' w' where f: "fold take_steer (h_inbox (w_handle w)) (st, w\<lparr>w_handle := (w_handle w)\<lparr>h_inbox := []\<rparr>\<rparr>) = (st', w')"
    by (metis prod.collapse)
  then have c: "counters st' = counters st" using counters_steers by (metis fst_conv)
  then have "spent cx now st' = spent cx now st" by (simp add: spent_def charged_def counters_def)
  then show ?thesis using assms c f
    by (auto simp: open_turn_def drain_steers_def Let_def counters_def push_def split: option.split)
qed

lemma counters_prepare:
  assumes "cx_tools_enabled cx" "prepare_turn cx inp (st, w) = ((st', w'), None)"
  shows "counters st' = (rs_iteration st + 1, rs_free_steps st,
    if rs_wrap_up st = None then spent cx (in_now inp) st else rs_wrap_up st)"
proof -
  obtain st1 w1 where f1: "flush_log (st, w) = (st1, w1)" by (metis prod.collapse)
  obtain st2 w2 where f2: "open_turn cx (in_now inp) (st1, w1\<lparr>w_handle := (w_handle w1)\<lparr>h_inbox := h_inbox (w_handle w1) @ in_steers inp\<rparr>\<rparr>) = (st2, w2)"
    by (metis prod.collapse)
  obtain st3 w3 where f3: "flush_log (st2, w2) = (st3, w3)" by (metis prod.collapse)
  obtain st4 w4 where f4: "make_room cx (in_db inp) (st3, w3) = (st4, w4)" by (metis prod.collapse)
  have st': "st' = st4\<lparr>rs_iteration := rs_iteration st4 + 1\<rparr>"
    using assms(2) by (simp add: prepare_turn_def f1 f2 f3 f4 Let_def split: if_splits)
  have c1: "counters st1 = counters st" using counters_flush[of "(st, w)"] f1 by simp
  have "counters st4 = counters st2"
    using counters_make_room[of cx "in_db inp" "(st3, w3)"] counters_flush[of "(st2, w2)"] f3 f4 by simp
  also have "\<dots> = (rs_iteration st1, rs_free_steps st1, if rs_wrap_up st1 = None then spent cx (in_now inp) st1 else rs_wrap_up st1)"
    using counters_open[OF assms(1), of "in_now inp" st1] f2 by (metis fst_conv)
  also have "\<dots> = (rs_iteration st, rs_free_steps st, if rs_wrap_up st = None then spent cx (in_now inp) st else rs_wrap_up st)"
    using c1 by (simp add: counters_def spent_def charged_def)
  finally show ?thesis by (simp add: st' counters_def)
qed

text \<open>A turn after which the loop goes round again was within the budget, and at most one more round is free.\<close>

lemma going_on:
  assumes "cx_tools_enabled cx" "run_turn cx inp (st, w) = ((st', w'), Goes_On)" "rs_free_steps st \<le> MAX_FREE_PLAN_STEPS"
  shows "rs_iteration st' = rs_iteration st + 1 \<and> rs_free_steps st' \<le> MAX_FREE_PLAN_STEPS \<and> rs_wrap_up st' = None
    \<and> charged st + 1 < max_iterations (cx_limits cx)"
proof -
  obtain st1 w1 where p: "prepare_turn cx inp (st, w) = ((st1, w1), None)"
    using assms(2) by (auto simp: run_turn_def split: prod.splits option.splits)
  note c = counters_prepare[OF assms(1) p]
  have wrap: "rs_wrap_up st1 = None"
    using assms(2) p by (auto simp: run_turn_def Let_def split: prod.splits option.splits)
  then have ok: "rs_wrap_up st = None" "spent cx (in_now inp) st = None" using c by (auto simp: counters_def split: if_splits)
  then have budget: "charged st + 1 < max_iterations (cx_limits cx)" by (auto simp: spent_def split: if_splits)
  obtain r2 res held where rq: "request cx inp (st1, w1) = (r2, res, held)" by (metis prod.collapse)
  obtain st3 w3 nxt where cl: "classify_turn cx inp r2 res held = ((st3, w3), nxt)" by (metis prod.collapse)
  have c3: "counters st3 = (rs_iteration st + 1, rs_free_steps st, None)"
    using counters_classify[of cx inp r2 res held] counters_request[of cx inp "(st1, w1)"] c ok rq cl by simp
  have "(nxt = NextAgain \<and> st' = st3) \<or> (\<exists>calls. nxt = NextCalls calls \<and> st' = fst (dispatch_batch cx inp calls (st3, w3)))"
    using assms(2) p wrap rq cl by (auto simp: run_turn_def Let_def split: next_step.splits option.splits if_splits)
  then show ?thesis
  proof (elim disjE exE conjE)
    assume "st' = st3"
    then show ?thesis using c3 budget assms(3) by (simp add: counters_def)
  next
    fix calls assume "st' = fst (dispatch_batch cx inp calls (st3, w3))"
    then show ?thesis using counters_batch[of cx inp calls st3 w3] c3 budget assms(3) by (auto simp: counters_def)
  qed
qed

lemma loop_bound:
  assumes "cx_tools_enabled cx" "run_loop cx inps (st, w) = (r, Goes_On)" "rs_free_steps st \<le> MAX_FREE_PLAN_STEPS" "inps \<noteq> []"
  shows "rs_iteration st + length inps < max_iterations (cx_limits cx) + MAX_FREE_PLAN_STEPS
     \<or> length inps < MAX_FREE_PLAN_STEPS + max_iterations (cx_limits cx) - rs_iteration st"
  using assms(2,3,4)
proof (induction inps arbitrary: st w)
  case (Cons inp inps)
  obtain st1 w1 where t: "run_turn cx inp (st, w) = ((st1, w1), Goes_On)" "run_loop cx inps (st1, w1) = (r, Goes_On)"
    using Cons.prems(1) by (auto split: prod.splits turn_end.splits)
  note g = going_on[OF assms(1) t(1) Cons.prems(2)]
  show ?case
  proof (cases "inps = []")
    case True
    then show ?thesis using g Cons.prems(2) by (auto simp: charged_def)
  next
    case False
    from Cons.IH[OF t(2) _ False] g show ?thesis by auto
  qed
qed simp

lemma start_run_cases:
  "start_run cx messages skill w = (fresh_state (opening_messages cx messages), w\<lparr>w_obs := w_obs w @ [ObsPrompt (opening_messages cx messages)]\<rparr>)
     \<or> (\<exists>inp calls. start_run cx messages skill w = dispatch_batch cx inp calls
          (fresh_state (opening_messages cx messages), w\<lparr>w_obs := w_obs w @ [ObsPrompt (opening_messages cx messages)]\<rparr>))"
proof (cases skill)
  case None
  then show ?thesis by (simp add: start_run_def)
next
  case (Some s)
  obtain inp name args where "s = (inp, name, args)" by (cases s)
  then show ?thesis using Some by (simp add: start_run_def preload_skill_def Let_def) blast
qed

end
