(* ===== verification/Run_Log.thy ===== *)
theory Run_Log imports Run_Loop "HOL-Library.Multiset" begin

text \<open>
  What a run says and what it writes down: every call of a batch is answered, in order, and the log of the
  session holds the transcript the model has seen, up to results cleared since.
\<close>

section \<open>Every call is answered\<close>

text \<open>The calls that messages answer.\<close>

definition answered_ids :: "json list \<Rightarrow> string list" where
  "answered_ids ms = List.map_filter (\<lambda>m. str_at m ''tool_call_id'') ms"

lemma answered_ids_simps [simp]:
  "answered_ids [] = []" "answered_ids (xs @ ys) = answered_ids xs @ answered_ids ys"
  "answered_ids (tool_result_message c t # ms) = c # answered_ids ms" "answered_ids (system_message t # ms) = answered_ids ms"
  by (simp_all add: answered_ids_def map_filter_def str_at_def json_str_def tool_result_message_def system_message_def)

definition is_reply :: "json \<Rightarrow> bool" where "is_reply m \<longleftrightarrow> role_of m \<in> {''tool'', ''system''}"

lemma is_reply_simps [simp]: "is_reply (tool_result_message c t)" "is_reply (system_message t)"
  by (simp_all add: is_reply_def role_of_def or_str_def str_at_def json_str_def tool_result_message_def system_message_def)

text \<open>One state is another with messages that answer the calls added.\<close>

definition adds_replies :: "string list \<Rightarrow> agent_run \<Rightarrow> agent_run \<Rightarrow> bool" where
  "adds_replies ids r r' \<longleftrightarrow> (\<exists>tail. rs_messages (fst r') = rs_messages (fst r) @ tail \<and> answered_ids tail = ids \<and> list_all is_reply tail)
     \<and> rs_logged (fst r') = rs_logged (fst r) \<and> w_obs (snd r') = w_obs (snd r)"

lemma adds_replies_trans: "adds_replies a r r' \<Longrightarrow> adds_replies b r' r'' \<Longrightarrow> adds_replies (a @ b) r r''"
  unfolding adds_replies_def by force

lemma adds_replies_record: "adds_replies [tc_id call] r (record_result cx inp outs (i, call) r)"
  by (cases r)
    (auto simp: adds_replies_def record_result_def record_ok_def record_failure_def Let_def split_beta split: option.split sum.split)

lemma adds_replies_fold: "adds_replies (map (tc_id \<circ> snd) xs) r (fold (record_result cx inp outs) xs r)"
proof (induction xs arbitrary: r)
  case Nil
  then show ?case by (simp add: adds_replies_def)
next
  case (Cons x xs)
  show ?case using adds_replies_trans[OF adds_replies_record[of "snd x" r cx inp outs "fst x"] Cons.IH] by simp
qed

lemma map_snd_enumerated: "map (f \<circ> snd) (enumerated xs) = map f xs"
  by (simp flip: map_map)

text \<open>C8: The model is given a result for each of its calls, in the order it made them, right after the message
  that makes them, whatever became of the calls.\<close>
theorem every_call_is_answered:
  "\<exists>tail. rs_messages (fst (dispatch_batch cx inp calls (st, w))) = rs_messages st @ assistant_tool_call_message calls # tail
     \<and> answered_ids tail = map tc_id calls \<and> list_all is_reply tail"
proof -
  obtain w' outs where t: "run_tools cx inp calls w = (w', outs)" by fastforce
  let ?st = "if is_bookkeeping calls \<and> rs_free_steps st < MAX_FREE_PLAN_STEPS then st\<lparr>rs_free_steps := rs_free_steps st + 1\<rparr> else st"
  have "dispatch_batch cx inp calls (st, w)
      = fold (record_result cx inp outs) (enumerated calls) (push (assistant_tool_call_message calls) ?st, w')"
    by (simp add: dispatch_batch_def t)
  with adds_replies_fold[of "enumerated calls" "(push (assistant_tool_call_message calls) ?st, w')" cx inp outs]
  show ?thesis by (auto simp: adds_replies_def map_snd_enumerated)
qed

lemma mset_halves: "mset (filter (\<lambda>x. \<not> P x) xs) + mset (filter P xs) = mset xs" "mset (filter P xs) + mset (filter (\<lambda>x. \<not> P x) xs) = mset xs"
  by (induction xs) (simp_all del: mset_filter)

text \<open>No call is lost between the calls that run side by side and the ones in order, and none is in both.\<close>
lemma calls_are_split:
  "mset (fst (partition_calls r calls) @ snd (partition_calls r calls)) = mset [0..<length calls]"
  unfolding partition_calls_def Let_def
  by (simp only: fst_conv snd_conv mset_append mset_sort split: if_split) (simp add: mset_halves del: mset_filter mset_upt)

section \<open>The log\<close>

text \<open>The messages the log holds: the prompt that opened it and what was appended.\<close>

definition written :: "log_call list \<Rightarrow> json list" where
  "written obs = fold (\<lambda>c ms. case c of ObsPrompt ps \<Rightarrow> ps | ObsAppended m \<Rightarrow> ms @ [m] | _ \<Rightarrow> ms) obs []"

lemma written_simps [simp]:
  "written (obs @ [ObsPrompt ms]) = ms" "written (obs @ [ObsAppended m]) = written obs @ [m]"
  "written (obs @ [ObsSteered t]) = written obs" "written (obs @ [ObsStopped t n]) = written obs"
  "written (obs @ [LogPlan p]) = written obs" "written (obs @ [LogCommand tr]) = written obs"
  by (simp_all add: written_def)

lemma written_appended [simp]: "written (obs @ map ObsAppended ms) = written obs @ ms"
proof -
  have "fold (\<lambda>c ms. case c of ObsPrompt ps \<Rightarrow> ps | ObsAppended m \<Rightarrow> ms @ [m] | _ \<Rightarrow> ms) (map ObsAppended ms) acc = acc @ ms" for acc
    by (induction ms arbitrary: acc) simp_all
  then show ?thesis by (simp add: written_def)
qed

text \<open>A message as the log holds it, and what it may have become since: the same, or, where it is a long
  result of a tool, the stub that clearing left in place of its content, with all else as it was.\<close>

definition kept_or_cleared :: "json \<Rightarrow> json \<Rightarrow> bool" where
  "kept_or_cleared w m \<longleftrightarrow> m = w \<or> str_at w ''role'' = Some ''tool'' \<and> to_clear [] w \<noteq> None
     \<and> (\<exists>r. m = json_put w ''content'' (JString (cleared_stub r)))"

lemma kept_refl [simp]: "kept_or_cleared m m" by (simp add: kept_or_cleared_def)

lemma kept_all_refl [simp]: "list_all2 kept_or_cleared ms ms" by (simp add: list_all2_refl)





lemma role_put [simp]: "str_at (json_put m ''content'' (JString t)) ''role'' = str_at m ''role''"
  by (cases m) (simp_all add: str_at_def json_put_def json_get_def)

lemma kept_role: "kept_or_cleared w m \<Longrightarrow> str_at m ''role'' = str_at w ''role''"
  by (auto simp: kept_or_cleared_def)







text \<open>Messages are added and nothing is written.\<close>

definition adds :: "agent_run \<Rightarrow> agent_run \<Rightarrow> bool" where
  "adds r r' \<longleftrightarrow> (\<exists>extra. rs_messages (fst r') = rs_messages (fst r) @ extra) \<and> rs_logged (fst r') = rs_logged (fst r)
     \<and> written (w_obs (snd r')) = written (w_obs (snd r))"

lemma adds_refl [simp]: "adds r r" by (simp add: adds_def)









lemma charge_usage_obs [simp]: "w_obs (charge_usage res w) = w_obs w"
  by (simp add: charge_usage_def split: option.split)





















section \<open>Concrete runs\<close>

definition bare_cx :: "bool \<Rightarrow> nat \<Rightarrow> turn_ctx" where
  "bare_cx tools steps =
     \<lparr>cx_unicode = ascii_only, cx_alpha = (\<lambda>_. False), cx_parse = (\<lambda>_. None), cx_first_json = (\<lambda>_. None),
      cx_print = (\<lambda>_. []), cx_why = (\<lambda>_. []), cx_tools_enabled = tools, cx_headless = False,
      cx_registry = \<lparr>reg_specs = [], reg_toolsets = [], reg_mcp = Map.empty, reg_skills = []\<rparr>,
      cx_limits = \<lparr>max_iterations = steps, deadline = None, max_depth = 0\<rparr>, cx_window = None, cx_tool_names = [],
      cx_invocable = [], cx_plan_mode = ModeNever, cx_plan_first = False, cx_early_notes = [], cx_read_only = False, cx_harness = False,
      cx_ask_offered = False\<rparr>"

definition turn_with :: "turn_outcome \<Rightarrow> string option \<Rightarrow> turn_input" where
  "turn_with out waiting =
     \<lparr>in_cancelled = False, in_now = 0, in_steers = [], in_db = empty_db, in_reply = (\<lambda>_ _. ([], Inr out)), in_fresh = (\<lambda>_. []),
      in_judged = [], in_check_task = None, in_claims_nothing = False, in_can_run = False, in_stop = (\<lambda>_. False),
      in_held = False, in_tool = (\<lambda>_. Inl ''no''), in_script = (\<lambda>_. []), in_spoken = (\<lambda>_. []), in_ledger = (\<lambda>l. l), in_compact = False,
      in_waiting = waiting\<rparr>"

definition a_call :: tool_call_req where "a_call = \<lparr>tc_id = ''call_1'', tc_name = ''mail'', tc_arguments = ''{}''\<rparr>"

definition bare_world :: run_world where
  "bare_world =
     \<lparr>w_handle = new_handle ''r'' ''c'' 0 None 0 0, w_plan = default_plan, w_ledger = new_ledger, w_store = new_result_store [] ''c'' ''r'',
      w_disk = \<lparr>dk_at = Map.empty, dk_denied = (\<lambda>_. False)\<rparr>, w_compact_asked = False, w_obs = [], w_stats = [], w_fixes = [],
      w_panicked = False\<rparr>"

definition go_message :: json where "go_message = JObject [(''role'', JString ''user''), (''content'', JString ''go'')]"

text \<open>A run that answers on its own: the prompt and the answer, and nothing else.\<close>

lemma an_answer_is_logged:
  "let ((st, w), e) = run_agent (bare_cx False 2) [go_message] None [turn_with (TurnFinal ''done'' [] None) None] bare_world
   in e = Run_Ended ''done'' StopCompleted \<and> rs_wrap_up st = None \<and> rs_messages st = [go_message] \<and> rs_logged st = 1
      \<and> written (w_obs w) = [go_message, assistant_message ''done'']"
  by code_simp

text \<open>C7: With tools a run is over after at most as many turns as its limit and the six free ones, whatever the
  model, the tools and the person do: each turn either ends the run or uses the budget up.\<close>
theorem run_ends_within_its_budget:
  assumes "cx_tools_enabled cx" and "max_iterations (cx_limits cx) + MAX_FREE_PLAN_STEPS \<le> length inps"
  shows "snd (run_agent cx messages skill inps w) \<noteq> Goes_On"
proof
  assume going: "snd (run_agent cx messages skill inps w) = Goes_On"
  obtain st w1 where s: "start_run cx messages skill w = (st, w1)" by fastforce
  let ?st = "fresh_state (opening_messages cx messages)" and ?w = "w\<lparr>w_obs := w_obs w @ [ObsPrompt (opening_messages cx messages)]\<rparr>"
  have "(st, w1) = (?st, ?w) \<or> (\<exists>inp calls. (st, w1) = dispatch_batch cx inp calls (?st, ?w))"
    using start_run_cases[of cx messages skill w] s by simp
  moreover have "counters ?st = (0, 0, None)" by (simp add: counters_def fresh_state_def)
  ultimately have "\<exists>n \<le> 1. counters st = (0, n, None)"
    using counters_batch[of cx _ _ ?st ?w] by (auto simp: counters_def) (metis fst_conv)+
  then have c: "rs_iteration st = 0" "rs_free_steps st \<le> MAX_FREE_PLAN_STEPS"
    by (auto simp: counters_def MAX_FREE_PLAN_STEPS_def)
  have ne: "inps \<noteq> []" using assms(2) by (auto simp: MAX_FREE_PLAN_STEPS_def)
  obtain r where "run_loop cx inps (st, w1) = (r, Goes_On)"
    using going s by (auto simp: run_agent_def Let_def split: if_splits) (metis prod.collapse)
  from loop_bound[OF assms(1) this c(2) ne] c(1) assms(2) show False by auto
qed

text \<open>A model that calls a tool on every turn is stopped.\<close>
theorem run_ends_within_its_budget_witness:
  "snd (run_agent (bare_cx True 2) [go_message] None (replicate 8 (turn_with (TurnCalls [a_call] None) None)) bare_world) \<noteq> Goes_On"
  by (rule run_ends_within_its_budget) (simp_all add: bare_cx_def MAX_FREE_PLAN_STEPS_def)

text \<open>With tools off the budget is never looked at: as long as the provider answers with calls the run goes on.\<close>

definition alive :: "agent_run \<Rightarrow> bool" where "alive r \<longleftrightarrow> rs_wrap_up (fst r) = None \<and> \<not> w_panicked (snd r)"

lemma alive_flush: "alive (flush_log r) = alive r" by (cases r) (simp add: flush_log_def alive_def)

lemma alive_steers: "alive (fold take_steer ss r) = alive r"
proof (induction ss arbitrary: r)
  case (Cons s ss)
  have "alive (take_steer s r) = alive r" by (cases r) (simp add: take_steer_def alive_def)
  then show ?case by (simp add: Cons)
qed simp

lemma alive_open:
  assumes "\<not> cx_tools_enabled cx" shows "alive (open_turn cx now r) = alive r"
proof -
  obtain st w where r: "r = (st, w)" by (cases r)
  have "alive (st, w\<lparr>w_handle := h\<rparr>) = alive (st, w)" for h by (simp add: alive_def)
  then show ?thesis
    using assms alive_steers[of "h_inbox (w_handle w)" "(st, w\<lparr>w_handle := (w_handle w)\<lparr>h_inbox := []\<rparr>\<rparr>)"]
    by (simp add: r open_turn_def drain_steers_def split_beta)
qed

lemma alive_make_room: "alive (make_room cx h r) = alive r"
  by (cases r) (simp add: make_room_def alive_def split_beta split: option.split)

lemma alive_record: "alive (fold (record_result cx inp outs) xs r) = alive r"
proof (induction xs arbitrary: r)
  case (Cons x xs)
  have "alive (record_result cx inp outs x r) = alive r"
    by (cases x; cases r)
      (simp add: alive_def record_result_def record_ok_def record_failure_def Let_def split_beta split: option.split sum.split)
  then show ?case by (simp add: Cons)
qed simp

lemma alive_prepare:
  assumes "\<not> cx_tools_enabled cx" "\<not> in_cancelled inp" "alive r"
  obtains r' where "prepare_turn cx inp r = (r', None)" "alive r'"
proof -
  obtain st1 w1 where f1: "flush_log r = (st1, w1)" by (metis prod.collapse)
  let ?w = "w1\<lparr>w_handle := (w_handle w1)\<lparr>h_inbox := h_inbox (w_handle w1) @ in_steers inp\<rparr>\<rparr>"
  obtain st2 w2 where f2: "flush_log (open_turn cx (in_now inp) (st1, ?w)) = (st2, w2)" by (metis prod.collapse)
  obtain st3 w3 where f3: "make_room cx (in_db inp) (st2, w2) = (st3, w3)" by (metis prod.collapse)
  have "alive (st1, w1)" using alive_flush[of r] assms(3) f1 by simp
  then have "alive (st1, ?w)" by (simp add: alive_def)
  then have "alive (st2, w2)" using alive_flush alive_open[OF assms(1)] f2 by metis
  then have "alive (st3, w3)" using alive_make_room f3 by metis
  then have "alive (st3\<lparr>rs_iteration := rs_iteration st3 + 1\<rparr>, w3\<lparr>w_handle := fst (bump_steps (w_handle w3))\<rparr>)"
    by (simp add: alive_def)
  then show thesis using that assms(2) by (simp add: prepare_turn_def f1 f2 f3)
qed

lemma calls_go_on:
  assumes "alive r"
  shows "\<exists>r'. run_turn (bare_cx False n) (turn_with (TurnCalls [a_call] None) None) r = (r', Goes_On) \<and> alive r'"
proof -
  let ?cx = "bare_cx False n" and ?inp = "turn_with (TurnCalls [a_call] None) None"
  obtain r1 where p: "prepare_turn ?cx ?inp r = (r1, None)" "alive r1"
    by (rule alive_prepare[of ?cx ?inp r]) (use assms in \<open>simp_all add: bare_cx_def turn_with_def\<close>)
  obtain st1 w1 where r1: "r1 = (st1, w1)" by (cases r1)
  have reply: "in_reply ?inp i ms = ([], Inr (TurnCalls [a_call] None))" for i ms by (simp add: turn_with_def)
  have drive: "\<exists>strict. drive_turn_adapting (in_reply ?inp) ms b = (([], Inr (TurnCalls [a_call] None)), strict)" for ms b
    by (rule exI[of _ b]) (simp add: drive_turn_adapting_def reply)
  obtain r2 held where q: "request ?cx ?inp r1 = (r2, Inr (TurnCalls [a_call] None), held)" "alive r2"
  proof -
    obtain shown pushed where s: "show_plan (rs_messages st1) (w_plan w1) = (shown, pushed)" by (metis prod.collapse)
    obtain strict where d: "drive_turn_adapting (in_reply ?inp) shown (rs_strict_template st1)
        = (([], Inr (TurnCalls [a_call] None)), strict)" using drive by blast
    have "alive (fst (request ?cx ?inp r1))" "fst (snd (request ?cx ?inp r1)) = Inr (TurnCalls [a_call] None)"
      using p(2) by (simp_all add: request_def r1 s d alive_def charge_usage_def outcome_usage_def Let_def)
    then show thesis using that by (metis prod.collapse)
  qed
  have c: "classify_turn ?cx ?inp r2 (Inr (TurnCalls [a_call] None)) held = (r2, NextCalls [a_call])"
    by (simp add: classify_turn_def)
  have "\<exists>outs. run_tools ?cx ?inp [a_call] w = (w, outs)" for w
  proof -
    have "partition_calls (cx_registry ?cx) [a_call] = ([], [0])"
      by (simp add: partition_calls_def bare_cx_def a_call_def builtin_for_def builtin_in_def)
    moreover have "fst (dispatch ?cx ?inp a ''mail'' v w) = w" for a v w
      by (simp add: dispatch_def bare_cx_def turn_with_def result_handles_def known_tool_def builtin_for_def builtin_in_def)
    ultimately show ?thesis
      by (simp add: run_tools_def turn_with_def dispatch_at_def a_call_def split_beta)
  qed
  note tools = this
  have "alive (dispatch_batch ?cx ?inp [a_call] r2)"
  proof -
    obtain st w where r2: "r2 = (st, w)" by (cases r2)
    obtain outs where t: "run_tools ?cx ?inp [a_call] w = (w, outs)" using tools by blast
    show ?thesis using q(2)
      unfolding r2 dispatch_batch_def prod.case Let_def t alive_record by (simp add: alive_def)
  qed
  moreover from this have "run_turn ?cx ?inp r = (dispatch_batch ?cx ?inp [a_call] r2, Goes_On)"
  proof -
    have "rs_wrap_up (fst r1) = None" "in_waiting ?inp = None" using p(2) by (simp_all add: alive_def turn_with_def)
    moreover assume "alive (dispatch_batch ?cx ?inp [a_call] r2)"
    ultimately show ?thesis by (simp add: run_turn_def p(1) q(1) c alive_def)
  qed
  ultimately show ?thesis by blast
qed

lemma no_budget_without_tools:
  "snd (run_agent (bare_cx False n) [go_message] None (replicate k (turn_with (TurnCalls [a_call] None) None)) bare_world) = Goes_On"
proof -
  have loop: "alive r \<Longrightarrow> snd (run_loop (bare_cx False n) (replicate k (turn_with (TurnCalls [a_call] None) None)) r) = Goes_On" for r k
  proof (induction k arbitrary: r)
    case (Suc k)
    then show ?case using calls_go_on[OF Suc.prems, of n] by auto
  qed simp
  show ?thesis
    by (simp add: run_agent_def start_run_def fresh_state_def bare_world_def) (rule loop, simp add: alive_def)
qed

text \<open>A batch that leaves a sign-in waiting ends the run before the log hears of it: neither the call nor
  its result is ever written down.\<close>
lemma waiting_batch_is_not_logged:
  "let ((st, w), e) = run_agent (bare_cx True 5) [go_message] None [turn_with (TurnCalls [a_call] None) (Some ''Sign in'')] bare_world
   in e = Run_Ended ''Sign in'' StopCompleted \<and> answered_ids (rs_messages st) = [''call_1'']
     \<and> written (w_obs w) = [go_message, assistant_message ''Sign in'']"
  by code_simp

end
