(* ===== verification/Spec2Isabelle.thy ===== *)
theory Spec2Isabelle
  imports Rust_Prelude Disk Db_Store Autonomy Paths Reply_Box Permissions File_Access Connector_Gate Plan Fleet
    Voice_Floor Decide_Policy Decide_Control Diff Sliding_Window Engine_Rules Engine_Approve Runtime_Heal
    Trash Changes Undo_Limits Rewind Utf8 Gguf Gguf_Format Gguf_Safety Window
    Background Ledger Serde Session_Log Resume Context_Prompt Context_Budget Results Transcript Toolsets Run_Text Run_Loop Run_Log
begin

text \<open>
  A verification library for the Rust core of Poiesis (\<open>src/src-tauri/src\<close>), a desktop agent that
  runs language models on the machine of its user.  The agent reads and changes files, calls
  connected apps and hands tasks to other agent programs.  Modelled here are the loop of a run, the
  deciding parts around it that keep it safe, and what it keeps: the log, results, changes and their undo.

  \<^bold>\<open>The parts and how they meet.\<close>  A run of the agent is a handle in the fleet (\<open>agent/fleet.rs\<close>) and
  works along a plan (\<open>agent/plan.rs\<close>).  Its loop (\<open>agent/run.rs\<close>) opens a turn, asks the model, reads the
  answer as words or tool calls, runs the calls and goes round until an answer, a Stop or the end of its
  budget.  The menu of tools comes from the registry (\<open>agent/run.rs\<close>, \<open>agent/toolsets.rs\<close>), the prompt from
  \<open>agent/context.rs\<close>; long results are kept on disk (\<open>agent/results.rs\<close>), edits are checked against the
  ledger of reads (\<open>agent/ledger.rs\<close>), and everything said goes to the session log (\<open>agent/log.rs\<close>), from
  which a run that was cut off is resumed.  Changes to files go to a trash that undoes them
  (\<open>agent/trash.rs\<close>), and a conversation can be rewound into a branch.  Children of a run work in a pool
  (\<open>agent/background.rs\<close>).  A tool call on a file is cleared by \<open>authorize\<close>
  (\<open>agent/filesystem.rs\<close>), which reads the trust of the attached folder, the grants of the
  permission manager and the saved grants of the database (\<open>permissions/mod.rs\<close>, \<open>db/mod.rs\<close>), on
  paths resolved by \<open>canonicalize_lenient\<close>.  A call of a connected app passes \<open>admit\<close>
  (\<open>agent/connector_gate.rs\<close>), which reads the policy table, the daily counters and the autonomy
  ladder (\<open>autonomy.rs\<close>).  A question to the person goes through the permission manager, whose
  answers travel over one-shot channels.  A task handed to an outside agent program is routed by the
  rules of \<open>engines/rules.rs\<close>, and the requests that program makes are answered by
  \<open>engines/approve.rs\<close>, again through the permission manager.  Quick decisions of small models are
  bounded by \<open>agent/decide/control.rs\<close> under the table of \<open>agent/decide/policy.rs\<close>.  The local
  engine is loaded, stopped and repaired by \<open>runtime/manager.rs\<close> and \<open>runtime/watchdog.rs\<close>, with a window
  chosen from the header of the model file (\<open>runtime/gguf.rs\<close>, \<open>runtime/window.rs\<close>).

  \<^bold>\<open>Theories.\<close>
  \<^item> \<open>Rust_Prelude\<close>: strings as UTF-8 byte lists, the standard library's string operations, decimal
    numerals, JSON values, saturating words, and the collections of facts the others use.
  \<^item> \<open>Sliding_Window\<close>: the locale of a rolling limit, interpreted for the hourly budgets of
    background decisions and for the repairs of the engine.
  \<^item> \<open>Reply_Box\<close>: the locale of pending questions answered once, interpreted for the permission
    manager and for the questions of a run.
  \<^item> \<open>Db_Store\<close>: the rows of the tables the components read and write; a database that fails is a
    flag of the state, so every query has its error branch.
  \<^item> \<open>Paths\<close>, \<open>Permissions\<close>, \<open>File_Access\<close>: resolution of paths, grants and questions, and the clearance
    of file tools.
  \<^item> \<open>Autonomy\<close>, \<open>Connector_Gate\<close>: the ladder and the gate of connected apps, parked proposals
    included.
  \<^item> \<open>Plan\<close>, \<open>Fleet\<close>: the plan of a run with its archive, and the registry of runs.
  \<^item> \<open>Voice_Floor\<close>: turn-taking of the voice mode, with a clockless table it refines.
  \<^item> \<open>Decide_Policy\<close>, \<open>Decide_Control\<close>: the table of purposes and the budgets.
  \<^item> \<open>Diff\<close>: line diffs shown to the person and to the model.
  \<^item> \<open>Engine_Rules\<close>, \<open>Engine_Approve\<close>: outside agents, their rules and their requests.
  \<^item> \<open>Runtime_Heal\<close>: the local engine, its watchdog and the user as interleaved threads.
  \<^item> \<open>Disk\<close>, \<open>Trash\<close>, \<open>Changes\<close>, \<open>Undo_Limits\<close>: a file system as a map of paths, the trash of file changes,
    the changes of a conversation and their undoing, and where undoing does not bring everything back.
  \<^item> \<open>Rewind\<close>: branches of a conversation and rewinding it.
  \<^item> \<open>Utf8\<close>, \<open>Gguf\<close>, \<open>Gguf_Format\<close>, \<open>Gguf_Safety\<close>, \<open>Window\<close>: the reader of model headers over bytes, the
    format it reads as a writer of its own, what an answer guarantees, and the window of a model.
  \<^item> \<open>Background\<close>: the pool of children as interleaved tasks.
  \<^item> \<open>Ledger\<close>, \<open>Serde\<close>, \<open>Session_Log\<close>, \<open>Resume\<close>: reads before edits, records to and from JSON, the session
    log and its replay, and resuming a run without repeating what it sent.
  \<^item> \<open>Context_Prompt\<close>, \<open>Context_Budget\<close>: the system prompt and what of a conversation fits a request.
  \<^item> \<open>Results\<close>, \<open>Transcript\<close>: results kept on disk and paged through, and the reshaping of the transcript:
    normalizing, flattening for strict templates, clearing old results.
  \<^item> \<open>Toolsets\<close>, \<open>Run_Text\<close>: the registry of tools with tiers and modes, and the text of a turn: what may be
    shown while it arrives and which calls are written in it.
  \<^item> \<open>Run_Loop\<close>, \<open>Run_Log\<close>: the state of a run, its turns phase by phase, batches of calls and the loop; its
    budget, the answering of calls, and what its log holds.

  \<^bold>\<open>Conventions.\<close>  Each record has the fields of the struct it models, each datatype the variants of
  the enum (prefixed where names would clash).  A \<open>Result\<close> is a sum with the error on the left, an
  \<open>Option\<close> an \<open>option\<close>; counters whose wrap or saturation matters are words.  What comes from outside
  (the answer of the person, the clock, the file system, a random id, the text of a JSON value) is an
  argument.  A lock held over a stretch of code makes that stretch one step.

  \<^bold>\<open>Loops.\<close>  No model runs on fuel: every loop is a total function, those that are not structural
  with a measure (\<open>Fleet.cancel_loop\<close> visits each run once even in a circle of parents,
  \<open>Paths.canon_up\<close> shortens the path, \<open>Run_Text.fence_cut\<close> the text), so that a model returns on every
  input.  The loop of a run consumes a list of turns from outside, which may be shorter than the run; that it
  ends is \<open>run_ends_within_its_budget\<close>: with tools, as many turns as its limit and six are always enough.

  \<^bold>\<open>Not modelled.\<close>  HTTP clients and the answers of models and tools, which are inputs of a turn; the
  screens and the events sent to them, billing, media and voice backends, child processes themselves, the
  tools that only call outside services, memory, and the SQL of tables no modelled component reads.
  Floats occur as the bits of constants only.
\<close>

end
